(* ===== verification/Prelude.thy ===== *)
theory Prelude
  imports Main
begin

text \<open>
  What every component shares: the exceptions the program throws as values, results as sums,
  the collections of rewrite rules the component proofs draw on, and a few lemmas on lists of
  rows (a database table is a list of rows in this development).
\<close>

section \<open>Rule collections\<close>

named_theorems table_simps \<open>effect of an SQL statement on each table\<close>
named_theorems keeps \<open>an operation keeps the invariant of its component\<close>

section \<open>Exceptions\<close>

text \<open>
  A JavaScript exception is a value of \<open>exn\<close>. \<open>HttpException\<close> carries the status and the message
  of a Nest exception. \<open>DriverError\<close> is an error object of a driver: its own \<open>code\<close>, the \<open>code\<close> of
  its \<open>driverError\<close> member, and its message. \<open>S3ServiceException\<close> carries the HTTP status of the
  response, when there is one, and the error's name. \<open>JsError\<close> is any other \<open>Error\<close>.
\<close>

datatype exn =
    HttpException nat string
  | DriverError "string option" "string option" string
  | JsError string
  | CheckoutFailure string string
  | IdempotentReplay
  | AfterEffectError string
  | UnrecoverableError string
  | S3ServiceException "nat option" string

type_synonym 'a result = "exn + 'a"

abbreviation BadRequestException :: "string \<Rightarrow> exn" where
  "BadRequestException m \<equiv> HttpException 400 m"
abbreviation UnauthorizedException :: "string \<Rightarrow> exn" where
  "UnauthorizedException m \<equiv> HttpException 401 m"
abbreviation ForbiddenException :: "string \<Rightarrow> exn" where
  "ForbiddenException m \<equiv> HttpException 403 m"
abbreviation NotFoundException :: "string \<Rightarrow> exn" where
  "NotFoundException m \<equiv> HttpException 404 m"
abbreviation ConflictException :: "string \<Rightarrow> exn" where
  "ConflictException m \<equiv> HttpException 409 m"
abbreviation GoneException :: "string \<Rightarrow> exn" where
  "GoneException m \<equiv> HttpException 410 m"
abbreviation PayloadTooLargeException :: "string \<Rightarrow> exn" where
  "PayloadTooLargeException m \<equiv> HttpException 413 m"
abbreviation UnsupportedMediaTypeException :: "string \<Rightarrow> exn" where
  "UnsupportedMediaTypeException m \<equiv> HttpException 415 m"
abbreviation UnprocessableEntityException :: "string \<Rightarrow> exn" where
  "UnprocessableEntityException m \<equiv> HttpException 422 m"

text \<open>An error PostgreSQL reports through the driver, by its SQLSTATE.\<close>

definition pg_error :: "string \<Rightarrow> exn" where
  "pg_error code = DriverError (Some code) (Some code) []"

abbreviation invalid_text_representation :: exn where
  "invalid_text_representation \<equiv> pg_error ''22P02''"
abbreviation numeric_out_of_range :: exn where
  "numeric_out_of_range \<equiv> pg_error ''22003''"
abbreviation string_data_right_truncation :: exn where
  "string_data_right_truncation \<equiv> pg_error ''22001''"
abbreviation foreign_key_violation :: exn where
  "foreign_key_violation \<equiv> pg_error ''23503''"
abbreviation unique_violation :: exn where
  "unique_violation \<equiv> pg_error ''23505''"
abbreviation check_violation :: exn where
  "check_violation \<equiv> pg_error ''23514''"

lemma pg_error_inject [simp]: "pg_error a = pg_error b \<longleftrightarrow> a = b"
  by (simp add: pg_error_def)

lemma pg_error_not_http [simp]: "pg_error c \<noteq> HttpException n m" "HttpException n m \<noteq> pg_error c"
  by (simp_all add: pg_error_def)

lemma pg_error_not_replay [simp]: "pg_error c \<noteq> IdempotentReplay" "IdempotentReplay \<noteq> pg_error c"
  by (simp_all add: pg_error_def)

section \<open>Results\<close>

fun res_bind :: "'e + 'a \<Rightarrow> ('a \<Rightarrow> 'e + 'b) \<Rightarrow> 'e + 'b" where
  "res_bind (Inl e) f = Inl e"
| "res_bind (Inr x) f = f x"

lemma res_bind_Inr_iff: "res_bind m f = Inr y \<longleftrightarrow> (\<exists>x. m = Inr x \<and> f x = Inr y)"
  by (cases m) auto

lemma res_bind_Inl_iff: "res_bind m f = Inl e \<longleftrightarrow> m = Inl e \<or> (\<exists>x. m = Inr x \<and> f x = Inl e)"
  by (cases m) auto

definition is_ok :: "'e + 'a \<Rightarrow> bool" where
  "is_ok r = (case r of Inl _ \<Rightarrow> False | Inr _ \<Rightarrow> True)"

lemma is_ok_simps [simp]: "is_ok (Inr x)" "\<not> is_ok (Inl e)"
  by (simp_all add: is_ok_def)

section \<open>Lists of rows\<close>

lemma filter_map_keep:
  assumes "\<And>r. P (f r) = P r" and "\<And>r. P r \<Longrightarrow> f r = r"
  shows "filter P (map f xs) = filter P xs"
  using assms by (induction xs) auto

lemma map_map_keep:
  assumes "\<And>r. g (f r) = g r"
  shows "map g (map f xs) = map g xs"
  using assms by simp

lemma distinct_map_unique:
  assumes "distinct (map k xs)" and "x \<in> set xs" and "y \<in> set xs" and "k x = k y"
  shows "x = y"
  using assms by (auto simp: distinct_map dest: inj_onD)

lemma filter_key_unique:
  assumes "distinct (map k xs)"
  shows "length (filter (\<lambda>r. k r = v) xs) \<le> 1"
  using assms
proof (induction xs)
  case Nil
  then show ?case by simp
next
  case (Cons x xs)
  then show ?case
    by (cases "k x = v") (auto simp: filter_empty_conv image_iff)
qed

lemma filter_key_single:
  assumes "distinct (map k xs)" and "x \<in> set xs"
  shows "filter (\<lambda>r. k r = k x) xs = [x]"
  using assms
proof (induction xs)
  case Nil
  then show ?case by simp
next
  case (Cons y ys)
  then show ?case
    by (cases "x = y") (auto simp: filter_empty_conv image_iff)
qed

lemma sum_list_map_update:
  fixes f :: "'r \<Rightarrow> int"
  assumes "distinct (map k xs)" and "x \<in> set xs" and "k x = v"
    and "f (u x) = f x + d"
  shows "sum_list (map f (map (\<lambda>r. if k r = v then u r else r) xs)) = sum_list (map f xs) + d"
  using assms
proof (induction xs)
  case Nil
  then show ?case by simp
next
  case (Cons y ys)
  show ?case
  proof (cases "k y = v")
    case True
    with Cons.prems have xy: "x = y" by (auto simp: image_iff)
    have "map (\<lambda>r. if k r = v then u r else r) ys = ys"
      by (rule map_idI) (use Cons.prems(1) True in \<open>auto simp: image_iff\<close>)
    with True xy Cons.prems show ?thesis by simp
  next
    case False
    with Cons.prems have "x \<in> set ys" by auto
    with Cons False show ?thesis by simp
  qed
qed

lemma foldl_total: "foldl (\<lambda>t x. t + f x) n xs = n + sum_list (map f xs)"
  for n :: "'a::monoid_add"
  by (induction xs arbitrary: n) (simp_all add: add.assoc)

lemma sum_list_nonneg_map:
  fixes f :: "'r \<Rightarrow> int"
  shows "(\<And>x. x \<in> set xs \<Longrightarrow> 0 \<le> f x) \<Longrightarrow> 0 \<le> sum_list (map f xs)"
  by (induction xs) auto

lemma sum_list_filter_append:
  fixes f :: "'r \<Rightarrow> int"
  shows "sum_list (map f (filter P (xs @ ys))) =
    sum_list (map f (filter P xs)) + sum_list (map f (filter P ys))"
  by simp

lemma option_map_update_other:
  "k \<noteq> k' \<Longrightarrow> (m(k \<mapsto> v)) k' = m k'"
  by simp

text \<open>
  \<open>INSERT ... ON CONFLICT (k) DO UPDATE\<close>, and \<open>Map.set\<close> on an association list: the row of the
  key is replaced where it stands, or the new one goes to the end.
\<close>

definition upsert :: "('r \<Rightarrow> 'k) \<Rightarrow> 'r \<Rightarrow> 'r list \<Rightarrow> 'r list" where
  "upsert k new xs =
     (if k new \<in> k ` set xs then map (\<lambda>r. if k r = k new then new else r) xs else xs @ [new])"

lemma upsert_in [simp]: "new \<in> set (upsert k new xs)"
  by (auto simp: upsert_def image_iff)

lemma upsert_keeps_other:
  "r \<in> set xs \<Longrightarrow> k r \<noteq> k new \<Longrightarrow> r \<in> set (upsert k new xs)"
  by (auto simp: upsert_def image_iff)

lemma upsert_origin:
  "r \<in> set (upsert k new xs) \<Longrightarrow> r = new \<or> r \<in> set xs \<and> k r \<noteq> k new"
  by (auto simp: upsert_def image_iff split: if_splits)

lemma upsert_keys: "k ` set (upsert k new xs) = insert (k new) (k ` set xs)"
  by (auto simp: upsert_def image_iff split: if_splits)

lemma upsert_distinct: "distinct (map k xs) \<Longrightarrow> distinct (map k (upsert k new xs))"
proof -
  assume d: "distinct (map k xs)"
  have "map k (map (\<lambda>r. if k r = k new then new else r) xs) = map k xs" by simp
  then have "distinct (map k (map (\<lambda>r. if k r = k new then new else r) xs))"
    using d by (simp only:)
  then show ?thesis using d by (simp only: upsert_def) (simp split: if_splits)
qed

lemma fold_upsert_distinct: "distinct (map k (acc @ xs)) \<Longrightarrow> fold (upsert k) xs acc = acc @ xs"
proof (induction xs arbitrary: acc)
  case (Cons x xs)
  then have "upsert k x acc = acc @ [x]" by (auto simp: upsert_def)
  with Cons show ?case by simp
qed simp

section \<open>Runs of a step function\<close>

text \<open>
  Many components are a step function over events; an invariant of one step is an invariant of
  every run. The contract is stated once, as a locale, and each component interprets it on its
  own step function.
\<close>

locale step_machine =
  fixes step :: "'e \<Rightarrow> 's \<Rightarrow> 's"
    and invar :: "'s \<Rightarrow> bool"
  assumes step_keeps: "invar s \<Longrightarrow> invar (step e s)"
begin

lemma run_keeps: "invar s \<Longrightarrow> invar (fold step es s)"
  by (induction es arbitrary: s) (auto intro: step_keeps)

lemma run_prefix_keeps: "invar s \<Longrightarrow> invar (fold step (take n es) s)"
  by (rule run_keeps)

end

end
