(* ===== verification/JsValues.thy ===== *)
theory JsValues
  imports Prelude Complex_Main
begin

text \<open>
  The part of the JavaScript language and its standard library the program uses: numbers with
  NaN and the infinities, JSON values, \<open>Number(string)\<close>, \<open>String(integer)\<close>, and the string
  methods \<open>trim\<close>, \<open>split\<close>, \<open>startsWith\<close>, \<open>includes\<close>, \<open>slice\<close>, \<open>toLowerCase\<close>.
  A string is a list of characters with codes below 256; a finite number is a rational, so the
  rounding of a double's mantissa is not modelled (its overflow to infinity is).
\<close>

section \<open>Numbers\<close>

datatype jsnum = NaN | PInf | NInf | Fin rat

definition double_of_rat :: "rat \<Rightarrow> jsnum" where
  "double_of_rat q =
     (if 2 ^ 1024 - 2 ^ 970 \<le> q then PInf
      else if q \<le> - (2 ^ 1024 - 2 ^ 970) then NInf
      else Fin q)"

fun js_isFinite :: "jsnum \<Rightarrow> bool" where
  "js_isFinite (Fin _) = True"
| "js_isFinite _ = False"

fun js_isInteger :: "jsnum \<Rightarrow> bool" where
  "js_isInteger (Fin q) = (of_int \<lfloor>q\<rfloor> = q)"
| "js_isInteger _ = False"

fun js_lt :: "jsnum \<Rightarrow> jsnum \<Rightarrow> bool" where
  "js_lt NaN _ = False"
| "js_lt _ NaN = False"
| "js_lt PInf _ = False"
| "js_lt _ NInf = False"
| "js_lt NInf _ = True"
| "js_lt _ PInf = True"
| "js_lt (Fin a) (Fin b) = (a < b)"

text \<open>The integer an integral number stands for; 0 elsewhere (callers test \<open>js_isInteger\<close> first).\<close>

fun js_int :: "jsnum \<Rightarrow> int" where
  "js_int (Fin q) = \<lfloor>q\<rfloor>"
| "js_int _ = 0"

lemma js_isInteger_of_int [simp]: "js_isInteger (Fin (of_int n))"
  by simp

lemma js_int_of_int [simp]: "js_int (Fin (of_int n)) = n"
  by simp

section \<open>Values\<close>

datatype jsval =
    JUndefined
  | JNull
  | JBool bool
  | JNum jsnum
  | JStr string
  | JArr "jsval list"
  | JObj "(string \<times> jsval) list"

text \<open>Property access on an object literal or a parsed JSON object; \<open>undefined\<close> when absent.\<close>

definition js_get :: "string \<Rightarrow> jsval \<Rightarrow> jsval" where
  "js_get k v = (case v of
       JObj kvs \<Rightarrow> (case map_of (rev kvs) k of Some x \<Rightarrow> x | None \<Rightarrow> JUndefined)
     | _ \<Rightarrow> JUndefined)"

definition js_is_string :: "jsval \<Rightarrow> bool" where
  "js_is_string v = (case v of JStr _ \<Rightarrow> True | _ \<Rightarrow> False)"

definition js_is_number :: "jsval \<Rightarrow> bool" where
  "js_is_number v = (case v of JNum _ \<Rightarrow> True | _ \<Rightarrow> False)"

fun js_truthy :: "jsval \<Rightarrow> bool" where
  "js_truthy JUndefined = False"
| "js_truthy JNull = False"
| "js_truthy (JBool b) = b"
| "js_truthy (JNum n) = (n \<noteq> NaN \<and> n \<noteq> Fin 0)"
| "js_truthy (JStr s) = (s \<noteq> [])"
| "js_truthy (JArr _) = True"
| "js_truthy (JObj _) = True"

section \<open>String methods\<close>

definition is_ws :: "char \<Rightarrow> bool" where
  "is_ws c = (of_char c \<in> {9, 10, 11, 12, 13, 32, 160 :: nat})"

definition js_trim :: "string \<Rightarrow> string" where
  "js_trim s = rev (dropWhile is_ws (rev (dropWhile is_ws s)))"

fun js_split :: "char \<Rightarrow> string \<Rightarrow> string list" where
  "js_split c [] = [[]]"
| "js_split c (x # xs) =
     (if x = c then [] # js_split c xs
      else (case js_split c xs of [] \<Rightarrow> [[x]] | p # ps \<Rightarrow> (x # p) # ps))"

definition js_startsWith :: "string \<Rightarrow> string \<Rightarrow> bool" where
  "js_startsWith p s = (take (length p) s = p)"

fun js_includes :: "string \<Rightarrow> string \<Rightarrow> bool" where
  "js_includes p [] = (p = [])"
| "js_includes p (x # xs) = (js_startsWith p (x # xs) \<or> js_includes p xs)"

definition js_lower_char :: "char \<Rightarrow> char" where
  "js_lower_char c =
     (let n = of_char c :: nat in if 65 \<le> n \<and> n \<le> 90 then char_of (n + 32) else c)"

definition js_toLowerCase :: "string \<Rightarrow> string" where
  "js_toLowerCase = map js_lower_char"

fun js_join :: "string \<Rightarrow> string list \<Rightarrow> string" where
  "js_join sep [] = []"
| "js_join sep [x] = x"
| "js_join sep (x # y # ys) = x @ sep @ js_join sep (y # ys)"

lemma js_split_nonempty [simp]: "js_split c s \<noteq> []"
  by (induction s) (auto split: list.splits)

lemma js_split_no_sep: "c \<notin> set s \<Longrightarrow> js_split c s = [s]"
  by (induction s) auto

lemma js_split_append:
  "c \<notin> set p \<Longrightarrow> js_split c (p @ c # s) = p # js_split c s"
  by (induction p) auto

lemma js_split_parts_no_sep: "p \<in> set (js_split c s) \<Longrightarrow> c \<notin> set p"
  by (induction s arbitrary: p) (force split: if_splits list.splits)+

section \<open>Decimal numerals\<close>

definition is_digit :: "char \<Rightarrow> bool" where
  "is_digit c = (48 \<le> (of_char c :: nat) \<and> (of_char c :: nat) \<le> 57)"

definition digit_val :: "char \<Rightarrow> nat" where
  "digit_val c = of_char c - 48"

definition digit_char :: "nat \<Rightarrow> char" where
  "digit_char d = char_of (48 + d)"

fun show_nat :: "nat \<Rightarrow> string" where
  "show_nat n = (if n < 10 then [digit_char n] else show_nat (n div 10) @ [digit_char (n mod 10)])"

declare show_nat.simps [simp del]

definition show_int :: "int \<Rightarrow> string" where
  "show_int i = (if i < 0 then CHR ''-'' # show_nat (nat (- i)) else show_nat (nat i))"

definition digits_val :: "string \<Rightarrow> nat" where
  "digits_val s = foldl (\<lambda>a c. 10 * a + digit_val c) 0 s"

lemma digit_val_digit_char [simp]: "d < 10 \<Longrightarrow> digit_val (digit_char d) = d"
  by (simp add: digit_val_def digit_char_def)

lemma is_digit_digit_char [simp]: "d < 10 \<Longrightarrow> is_digit (digit_char d)"
  by (simp add: is_digit_def digit_char_def)

lemma digits_val_snoc: "digits_val (s @ [c]) = 10 * digits_val s + digit_val c"
  by (simp add: digits_val_def)

lemma digits_val_show_nat [simp]: "digits_val (show_nat n) = n"
proof (induction n rule: show_nat.induct)
  case (1 n)
  show ?case
  proof (cases "n < 10")
    case True
    then show ?thesis by (simp add: show_nat.simps [of n] digits_val_def)
  next
    case False
    with 1 show ?thesis by (simp add: show_nat.simps [of n] digits_val_snoc)
  qed
qed

lemma show_nat_nonempty [simp]: "show_nat n \<noteq> []"
  by (subst show_nat.simps) simp

lemma show_nat_digits: "list_all is_digit (show_nat n)"
proof (induction n rule: show_nat.induct)
  case (1 n)
  then show ?case by (subst show_nat.simps) simp
qed

lemma show_nat_inject [simp]: "show_nat a = show_nat b \<longleftrightarrow> a = b"
  by (metis digits_val_show_nat)

lemma minus_not_digit [simp]: "\<not> is_digit (CHR ''-'')"
  by (simp add: is_digit_def)

lemma show_nat_no_minus [simp]: "show_nat n \<noteq> CHR ''-'' # s"
  using show_nat_digits [of n] by auto

lemma show_int_inject [simp]: "show_int a = show_int b \<longleftrightarrow> a = b"
  by (auto simp: show_int_def dest: sym)

section \<open>\<open>Number(string)\<close>\<close>

definition hex_val :: "char \<Rightarrow> nat option" where
  "hex_val c =
     (let n = of_char c :: nat in
      if 48 \<le> n \<and> n \<le> 57 then Some (n - 48)
      else if 97 \<le> n \<and> n \<le> 102 then Some (n - 87)
      else if 65 \<le> n \<and> n \<le> 70 then Some (n - 55)
      else None)"

text \<open>Digits in a radix up to 16; \<open>None\<close> when a character is no digit of it or none is there.\<close>

fun radix_digits :: "nat \<Rightarrow> nat \<Rightarrow> string \<Rightarrow> nat option" where
  "radix_digits b acc [] = Some acc"
| "radix_digits b acc (c # cs) =
     (case hex_val c of
        Some d \<Rightarrow> if d < b then radix_digits b (b * acc + d) cs else None
      | None \<Rightarrow> None)"

definition radix_literal :: "nat \<Rightarrow> string \<Rightarrow> jsnum" where
  "radix_literal b s =
     (if s = [] then NaN
      else case radix_digits b 0 s of Some n \<Rightarrow> double_of_rat (of_nat n) | None \<Rightarrow> NaN)"

definition exponent_part :: "string \<Rightarrow> int option" where
  "exponent_part s = (case s of
       [] \<Rightarrow> Some 0
     | c # r \<Rightarrow>
         if c \<noteq> CHR ''e'' \<and> c \<noteq> CHR ''E'' then None
         else
           (let neg = (r \<noteq> [] \<and> hd r = CHR ''-'');
                ds = (if r \<noteq> [] \<and> (hd r = CHR ''-'' \<or> hd r = CHR ''+'') then tl r else r)
            in if ds = [] \<or> \<not> list_all is_digit ds then None
               else Some (if neg then - int (digits_val ds) else int (digits_val ds))))"

definition unsigned_decimal :: "string \<Rightarrow> rat option" where
  "unsigned_decimal s =
     (let ip = takeWhile is_digit s;
          r1 = dropWhile is_digit s;
          dotted = (r1 \<noteq> [] \<and> hd r1 = CHR ''.'');
          fp = (if dotted then takeWhile is_digit (tl r1) else []);
          r2 = (if dotted then dropWhile is_digit (tl r1) else r1)
      in if ip = [] \<and> fp = [] then None
         else case exponent_part r2 of
           None \<Rightarrow> None
         | Some e \<Rightarrow>
             (let m = of_nat (digits_val (ip @ fp)); k = e - int (length fp)
              in Some (if 0 \<le> k then m * 10 ^ nat k else m / 10 ^ nat (- k))))"

definition decimal_literal :: "string \<Rightarrow> jsnum" where
  "decimal_literal s =
     (let neg = (s \<noteq> [] \<and> hd s = CHR ''-'');
          b = (if s \<noteq> [] \<and> (hd s = CHR ''-'' \<or> hd s = CHR ''+'') then tl s else s)
      in if b = ''Infinity'' then (if neg then NInf else PInf)
         else case unsigned_decimal b of
           None \<Rightarrow> NaN
         | Some q \<Rightarrow> double_of_rat (if neg then - q else q))"

definition js_Number :: "string \<Rightarrow> jsnum" where
  "js_Number raw =
     (let s = js_trim raw in
      if s = [] then Fin 0
      else if js_startsWith ''0x'' s \<or> js_startsWith ''0X'' s then radix_literal 16 (drop 2 s)
      else if js_startsWith ''0o'' s \<or> js_startsWith ''0O'' s then radix_literal 8 (drop 2 s)
      else if js_startsWith ''0b'' s \<or> js_startsWith ''0B'' s then radix_literal 2 (drop 2 s)
      else decimal_literal s)"

text \<open>\<open>Number(undefined)\<close> is NaN, so an absent value is passed as \<open>None\<close>.\<close>

definition js_Number_opt :: "string option \<Rightarrow> jsnum" where
  "js_Number_opt raw = (case raw of None \<Rightarrow> NaN | Some s \<Rightarrow> js_Number s)"

fun js_toNumber :: "jsval \<Rightarrow> jsnum" where
  "js_toNumber JUndefined = NaN"
| "js_toNumber JNull = Fin 0"
| "js_toNumber (JBool b) = Fin (if b then 1 else 0)"
| "js_toNumber (JNum n) = n"
| "js_toNumber (JStr s) = js_Number s"
| "js_toNumber (JArr _) = NaN"
| "js_toNumber (JObj _) = NaN"

lemma digit_not_ws: "is_digit c \<Longrightarrow> \<not> is_ws c"
  by (auto simp: is_digit_def is_ws_def)

lemma js_trim_id:
  assumes "\<forall>c\<in>set s. \<not> is_ws c"
  shows "js_trim s = s"
proof -
  have "dropWhile is_ws s = s" "dropWhile is_ws (rev s) = rev s"
    using assms by (cases "s = []"; simp add: dropWhile_eq_self_iff hd_rev)+
  then show ?thesis by (simp add: js_trim_def)
qed

lemma js_trim_digits: "list_all is_digit s \<Longrightarrow> js_trim s = s"
  by (rule js_trim_id) (auto simp: list_all_iff digit_not_ws)

lemma takeWhile_digits: "list_all is_digit s \<Longrightarrow> takeWhile is_digit s = s"
  by (simp add: list_all_iff)

lemma dropWhile_digits: "list_all is_digit s \<Longrightarrow> dropWhile is_digit s = []"
  by (simp add: list_all_iff)

lemma unsigned_decimal_digits:
  "list_all is_digit s \<Longrightarrow> s \<noteq> [] \<Longrightarrow> unsigned_decimal s = Some (of_nat (digits_val s))"
  by (simp add: unsigned_decimal_def takeWhile_digits dropWhile_digits exponent_part_def)

lemma digit_second_not_radix:
  assumes "list_all is_digit s"
  shows "\<not> js_startsWith ''0x'' s" "\<not> js_startsWith ''0X'' s" "\<not> js_startsWith ''0o'' s"
    "\<not> js_startsWith ''0O'' s" "\<not> js_startsWith ''0b'' s" "\<not> js_startsWith ''0B'' s"
  using assms by (cases s; cases "tl s"; auto simp: js_startsWith_def is_digit_def)+

lemma js_Number_digits:
  assumes "list_all is_digit s" and "s \<noteq> []"
  shows "js_Number s = double_of_rat (of_nat (digits_val s))"
proof -
  have h: "hd s \<noteq> CHR ''-''" "hd s \<noteq> CHR ''+''" "s \<noteq> ''Infinity''"
    using assms by (cases s; auto simp: is_digit_def)+
  show ?thesis
    using assms h
    by (simp add: js_Number_def js_trim_digits digit_second_not_radix decimal_literal_def
        unsigned_decimal_digits)
qed

text \<open>\<open>Number(String(n)) = n\<close> for the identifiers of the program, which are far below the limit.\<close>

lemma js_Number_show_nat:
  assumes "n < 2 ^ 64"
  shows "js_Number (show_nat n) = Fin (of_nat n)"
proof -
  have "(of_nat n :: rat) < of_nat (2 ^ 64)" using assms by (simp only: of_nat_less_iff)
  also have "\<dots> \<le> 2 ^ 1024 - 2 ^ 970" by simp
  finally have "\<not> 2 ^ 1024 - 2 ^ 970 \<le> (of_nat n :: rat)" by simp
  moreover have "\<not> (of_nat n :: rat) \<le> - (2 ^ 1024 - 2 ^ 970)"
  proof -
    have "- (2 ^ 1024 - 2 ^ 970) < (0 :: rat)" by simp
    also have "0 \<le> (of_nat n :: rat)" by simp
    finally show ?thesis by simp
  qed
  ultimately show ?thesis
    by (simp add: js_Number_digits show_nat_digits double_of_rat_def)
qed

section \<open>\<open>Date.prototype.toISOString\<close>\<close>

text \<open>The proleptic Gregorian date of a day number counted from 1970-01-01.\<close>

definition civil_of_days :: "int \<Rightarrow> int \<times> int \<times> int" where
  "civil_of_days days =
     (let z = days + 719468;
          era = z div 146097;
          doe = z mod 146097;
          yoe = (doe - doe div 1460 + doe div 36524 - doe div 146096) div 365;
          doy = doe - (365 * yoe + yoe div 4 - yoe div 100);
          mp = (5 * doy + 2) div 153;
          d = doy - (153 * mp + 2) div 5 + 1;
          m = (if mp < 10 then mp + 3 else mp - 9);
          y = yoe + era * 400
      in (if m \<le> 2 then y + 1 else y, m, d))"

definition pad_left :: "nat \<Rightarrow> string \<Rightarrow> string" where
  "pad_left n s = replicate (n - length s) (CHR ''0'') @ s"

definition pad_int :: "nat \<Rightarrow> int \<Rightarrow> string" where
  "pad_int n i = pad_left n (show_nat (nat i))"

definition js_toISOString :: "int \<Rightarrow> string" where
  "js_toISOString ms =
     (let (y, m, d) = civil_of_days (ms div 86400000);
          t = ms mod 86400000;
          year = (if 0 \<le> y \<and> y \<le> 9999 then pad_int 4 y
                  else if y < 0 then CHR ''-'' # pad_int 6 (- y)
                  else CHR ''+'' # pad_int 6 y)
      in year @ ''-'' @ pad_int 2 m @ ''-'' @ pad_int 2 d @ ''T'' @ pad_int 2 (t div 3600000)
         @ '':'' @ pad_int 2 (t div 60000 mod 60) @ '':'' @ pad_int 2 (t div 1000 mod 60)
         @ ''.'' @ pad_int 3 (t mod 1000) @ ''Z'')"

section \<open>PostgreSQL integers\<close>

definition int4_ok :: "int \<Rightarrow> bool" where
  "int4_ok i = (- (2 ^ 31) \<le> i \<and> i < 2 ^ 31)"

definition int8_ok :: "int \<Rightarrow> bool" where
  "int8_ok i = (- (2 ^ 63) \<le> i \<and> i < 2 ^ 63)"

text \<open>A text parameter read as \<open>bigint\<close>: optional blanks and sign, then digits.\<close>

definition bigint_in :: "string \<Rightarrow> exn + int" where
  "bigint_in raw =
     (let s = js_trim raw;
          neg = (s \<noteq> [] \<and> hd s = CHR ''-'');
          ds = (if s \<noteq> [] \<and> (hd s = CHR ''-'' \<or> hd s = CHR ''+'') then tl s else s);
          v = (if neg then - int (digits_val ds) else int (digits_val ds))
      in if ds = [] \<or> \<not> list_all is_digit ds then Inl invalid_text_representation
         else if int8_ok v then Inr v else Inl numeric_out_of_range)"

lemma bigint_in_range: "bigint_in raw = Inr i \<Longrightarrow> int8_ok i"
  by (auto simp: bigint_in_def Let_def split: if_splits)

lemma bigint_in_show_nat:
  assumes "int n < 2 ^ 63"
  shows "bigint_in (show_nat n) = Inr (int n)"
proof -
  have "hd (show_nat n) \<noteq> CHR ''-''" "hd (show_nat n) \<noteq> CHR ''+''"
    using show_nat_digits [of n] by (cases "show_nat n"; auto simp: is_digit_def)+
  then show ?thesis
    using assms show_nat_digits [of n]
    by (simp add: bigint_in_def js_trim_digits int8_ok_def)
qed

text \<open>A number parameter written to an \<open>integer\<close> column: its text must be an integer in range.\<close>

definition int4_in :: "jsnum \<Rightarrow> exn + int" where
  "int4_in n =
     (if \<not> js_isInteger n then Inl invalid_text_representation
      else if int4_ok (js_int n) then Inr (js_int n)
      else Inl numeric_out_of_range)"

end
