(* ===== verification/Schema.thy ===== *)
theory Schema
  imports JsValues
begin

text \<open>
  The database: one record per entity of \<open>src/entities\<close>, with the row constraints the entities
  and the migrations declare, the tables as lists of rows, SQL statements as state transformers
  that may fail with an SQLSTATE, and transactions. A timestamp is a number of milliseconds. A
  \<open>bigint\<close> identifier, which the driver hands over as its decimal text, is kept as the integer.
  Identity columns draw from a sequence that a rollback does not give back.
\<close>

section \<open>Rows\<close>

datatype order_status = Pending | Completed | Cancelled | Refunded

fun order_status_text :: "order_status \<Rightarrow> string" where
  "order_status_text Pending = ''pending''"
| "order_status_text Completed = ''completed''"
| "order_status_text Cancelled = ''cancelled''"
| "order_status_text Refunded = ''refunded''"

definition ORDER_STATUSES :: "string list" where
  "ORDER_STATUSES = [''pending'', ''completed'', ''cancelled'', ''refunded'']"

fun order_status_of :: "string \<Rightarrow> order_status option" where
  "order_status_of s =
     (if s = ''pending'' then Some Pending
      else if s = ''completed'' then Some Completed
      else if s = ''cancelled'' then Some Cancelled
      else if s = ''refunded'' then Some Refunded
      else None)"

lemma order_status_of_text [simp]: "order_status_of (order_status_text st) = Some st"
  by (cases st) simp_all

lemma order_status_of_iff: "(\<exists>st. order_status_of s = Some st) \<longleftrightarrow> s \<in> set ORDER_STATUSES"
  by (auto simp: ORDER_STATUSES_def)

record user_row =
  us_id :: int
  us_email :: string
  us_full_name :: string
  us_balance_cents :: int
  us_password_hash :: "string option"
  us_role :: string
  us_created_at :: int

record product_row =
  pr_id :: int
  pr_name :: string
  pr_price_cents :: int
  pr_stock :: int
  pr_is_active :: bool
  pr_created_at :: int

record order_row =
  or_id :: int
  or_user_id :: int
  or_status :: order_status
  or_total_cents :: int
  or_shipping_country :: string
  or_created_at :: int

record order_item_row =
  oi_id :: int
  oi_order_id :: int
  oi_product_id :: int
  oi_quantity :: int
  oi_unit_price_cents :: int
  oi_line_total_cents :: int

text \<open>The body of the order endpoints, also stored by the idempotency table.\<close>

record response_item =
  ri_product_id :: int
  ri_quantity :: int
  ri_unit_price_cents :: int
  ri_line_total_cents :: int

record order_response =
  rs_id :: int
  rs_items :: "response_item list"
  rs_total_cents :: int
  rs_created_at :: string

record idempotency_row =
  ik_key :: string
  ik_order_id :: int
  ik_request_hash :: string
  ik_response_status :: nat
  ik_response_body :: order_response
  ik_created_at :: int

datatype job_status = JobPending | JobDone

record job_row =
  jb_id :: int
  jb_type :: string
  jb_payload :: jsval
  jb_status :: job_status
  jb_processed :: nat
  jb_worker_id :: "string option"
  jb_order_id :: "int option"
  jb_created_at :: int
  jb_processed_at :: "int option"

record outbox_row =
  ob_id :: string
  ob_aggregate_type :: string
  ob_aggregate_id :: string
  ob_type :: string
  ob_payload :: jsval
  ob_created_at :: int
  ob_published_at :: "int option"
  ob_attempts :: nat
  ob_last_error :: "string option"

record processed_message_row =
  pm_message_id :: string
  pm_consumer :: string
  pm_processed_at :: int

record confirmation_row =
  cf_order_id :: int
  cf_event_id :: string
  cf_user_id :: int
  cf_total_cents :: int
  cf_confirmed_at :: int

record processed_event_row =
  pe_event_id :: string
  pe_applied_at :: int

record refresh_token_row =
  rt_token_hash :: string
  rt_family_id :: string
  rt_user_id :: int
  rt_expires_at :: int
  rt_used_at :: "int option"
  rt_revoked_at :: "int option"

record denylist_row =
  dn_jti :: string
  dn_expires_at :: int

record revoked_family_row =
  rf_family_id :: string
  rf_expires_at :: int

datatype file_status = FilePending | FileCompleted

record file_row =
  fl_id :: string
  fl_owner_id :: int
  fl_key :: string
  fl_content_type :: string
  fl_size :: int
  fl_status :: file_status
  fl_upload_id :: "string option"
  fl_part_size :: "int option"
  fl_part_count :: "int option"
  fl_etag :: "string option"
  fl_idempotency_key :: "string option"
  fl_created_at :: int
  fl_completed_at :: "int option"

section \<open>Row constraints\<close>

text \<open>SQL's \<open>trim\<close> strips blanks only.\<close>

definition sql_trim :: "string \<Rightarrow> string" where
  "sql_trim s = rev (dropWhile (\<lambda>c. c = CHR '' '') (rev (dropWhile (\<lambda>c. c = CHR '' '') s)))"

definition user_check :: "user_row \<Rightarrow> bool" where
  "user_check r \<longleftrightarrow> 2 \<le> length (sql_trim (us_full_name r)) \<and> 0 \<le> us_balance_cents r
     \<and> int4_ok (us_balance_cents r) \<and> us_role r \<in> {''buyer'', ''seller'', ''admin''}"

definition product_check :: "product_row \<Rightarrow> bool" where
  "product_check r \<longleftrightarrow> 2 \<le> length (sql_trim (pr_name r)) \<and> 0 \<le> pr_price_cents r
     \<and> int4_ok (pr_price_cents r) \<and> 0 \<le> pr_stock r \<and> int4_ok (pr_stock r)"

definition is_upper :: "char \<Rightarrow> bool" where
  "is_upper c = (65 \<le> (of_char c :: nat) \<and> (of_char c :: nat) \<le> 90)"

definition country_ok :: "string \<Rightarrow> bool" where
  "country_ok s \<longleftrightarrow> length s = 2 \<and> list_all is_upper s"

definition order_check :: "order_row \<Rightarrow> bool" where
  "order_check r \<longleftrightarrow> 0 \<le> or_total_cents r \<and> int4_ok (or_total_cents r)
     \<and> country_ok (or_shipping_country r)"

definition order_item_check :: "order_item_row \<Rightarrow> bool" where
  "order_item_check r \<longleftrightarrow> 1 \<le> oi_quantity r \<and> oi_quantity r \<le> 100 \<and> 0 \<le> oi_unit_price_cents r
     \<and> oi_line_total_cents r = oi_unit_price_cents r * oi_quantity r
     \<and> int4_ok (oi_line_total_cents r)"

definition idempotency_check :: "idempotency_row \<Rightarrow> bool" where
  "idempotency_check r \<longleftrightarrow> length (ik_request_hash r) = 64
     \<and> 100 \<le> ik_response_status r \<and> ik_response_status r \<le> 599"

definition job_check :: "job_row \<Rightarrow> bool" where
  "job_check r \<longleftrightarrow> jb_type r = ''send_receipt''"

definition file_check :: "file_row \<Rightarrow> bool" where
  "file_check r \<longleftrightarrow> 0 < fl_size r
     \<and> (fl_upload_id r = None \<and> fl_part_size r = None \<and> fl_part_count r = None
        \<or> fl_part_size r \<noteq> None \<and> fl_part_count r \<noteq> None)"

text \<open>A text value assigned to a \<open>char(n)\<close> column: excess blanks are dropped, the rest is padded.\<close>

definition char_in :: "nat \<Rightarrow> string \<Rightarrow> exn + string" where
  "char_in n s =
     (if list_all (\<lambda>c. c = CHR '' '') (drop n s)
      then Inr (take n s @ replicate (n - length s) (CHR '' ''))
      else Inl string_data_right_truncation)"

section \<open>The database\<close>

record seqs =
  sq_products :: int
  sq_orders :: int
  sq_order_items :: int
  sq_jobs :: int

record db =
  t_users :: "user_row list"
  t_products :: "product_row list"
  t_orders :: "order_row list"
  t_order_items :: "order_item_row list"
  t_idempotency :: "idempotency_row list"
  t_jobs :: "job_row list"
  t_outbox :: "outbox_row list"
  t_processed_messages :: "processed_message_row list"
  t_confirmations :: "confirmation_row list"
  t_refresh_tokens :: "refresh_token_row list"
  t_access_denylist :: "denylist_row list"
  t_revoked_families :: "revoked_family_row list"
  t_files :: "file_row list"
  sequences :: seqs

definition empty_db :: db where
  "empty_db = \<lparr>t_users = [], t_products = [], t_orders = [], t_order_items = [],
     t_idempotency = [], t_jobs = [], t_outbox = [], t_processed_messages = [],
     t_confirmations = [], t_refresh_tokens = [], t_access_denylist = [],
     t_revoked_families = [], t_files = [],
     sequences = \<lparr>sq_products = 1, sq_orders = 1, sq_order_items = 1, sq_jobs = 1\<rparr>\<rparr>"

section \<open>Statements and transactions\<close>

type_synonym 'a stmt = "db \<Rightarrow> (exn + 'a) \<times> db"

definition db_return :: "'a \<Rightarrow> 'a stmt" where
  "db_return x s = (Inr x, s)"

definition db_throw :: "exn \<Rightarrow> 'a stmt" where
  "db_throw e s = (Inl e, s)"

definition db_bind :: "'a stmt \<Rightarrow> ('a \<Rightarrow> 'b stmt) \<Rightarrow> 'b stmt" where
  "db_bind m f s = (case m s of (Inl e, s') \<Rightarrow> (Inl e, s') | (Inr x, s') \<Rightarrow> f x s')"

text \<open>A rollback restores every table; the sequences keep the values drawn.\<close>

definition rollback :: "db \<Rightarrow> db \<Rightarrow> db" where
  "rollback s s' = s\<lparr>sequences := sequences s'\<rparr>"

definition transaction :: "'a stmt \<Rightarrow> 'a stmt" where
  "transaction body s = (case body s of
       (Inl e, s') \<Rightarrow> (Inl e, rollback s s')
     | (Inr x, s') \<Rightarrow> (Inr x, s'))"

text \<open>Equal tables: what a client that does not read the sequences can tell apart.\<close>

definition same_tables :: "db \<Rightarrow> db \<Rightarrow> bool" where
  "same_tables s s' \<longleftrightarrow> s\<lparr>sequences := sequences s'\<rparr> = s'"

lemma same_tables_refl [simp]: "same_tables s s"
  by (simp add: same_tables_def)

lemma same_tables_rollback [simp]: "same_tables s (rollback s s')"
  by (simp add: same_tables_def rollback_def)

lemma same_tablesE:
  assumes "same_tables s s'"
  obtains q where "s' = s\<lparr>sequences := q\<rparr>"
  using assms by (auto simp: same_tables_def dest: sym)

lemma same_tablesD [dest]:
  assumes "same_tables s s'"
  shows "t_users s' = t_users s" "t_products s' = t_products s" "t_orders s' = t_orders s"
    "t_order_items s' = t_order_items s" "t_idempotency s' = t_idempotency s"
    "t_jobs s' = t_jobs s" "t_outbox s' = t_outbox s"
    "t_processed_messages s' = t_processed_messages s"
    "t_confirmations s' = t_confirmations s" "t_refresh_tokens s' = t_refresh_tokens s"
    "t_access_denylist s' = t_access_denylist s"
    "t_revoked_families s' = t_revoked_families s" "t_files s' = t_files s"
  using assms by (auto elim: same_tablesE)

lemma db_bind_InrE:
  assumes "db_bind m f s = (Inr y, s'')"
  obtains x s' where "m s = (Inr x, s')" and "f x s' = (Inr y, s'')"
  using assms by (auto simp: db_bind_def split: prod.splits sum.splits)

lemma db_bind_simps [simp]:
  "m s = (Inl e, s') \<Longrightarrow> db_bind m f s = (Inl e, s')"
  "m s = (Inr x, s') \<Longrightarrow> db_bind m f s = f x s'"
  by (simp_all add: db_bind_def)

lemma transaction_Inl: "transaction body s = (Inl e, s') \<Longrightarrow> same_tables s s'"
  by (auto simp: transaction_def split: prod.splits sum.splits)

lemma transaction_InrD: "transaction body s = (Inr x, s') \<Longrightarrow> body s = (Inr x, s')"
  by (auto simp: transaction_def split: prod.splits sum.splits)

lemma transaction_InlD:
  assumes "transaction body s = (Inl e, s')"
  shows "\<exists>t. body s = (Inl e, t) \<and> s' = rollback s t"
  using assms by (auto simp: transaction_def split: prod.splits sum.splits)

lemma transaction_simps [simp]:
  "body s = (Inl e, t) \<Longrightarrow> transaction body s = (Inl e, rollback s t)"
  "body s = (Inr x, t) \<Longrightarrow> transaction body s = (Inr x, t)"
  by (simp_all add: transaction_def)

section \<open>\<open>returningRows\<close>\<close>

text \<open>
  What the driver hands back: the rows of a SELECT as they are, the rows of UPDATE or INSERT
  \<open>... RETURNING\<close> in a pair with the row count. A value that is not of the second shape is
  returned as it is.
\<close>

fun returningRows :: "jsval \<Rightarrow> jsval" where
  "returningRows (JArr [JArr rows, JNum n]) = JArr rows"
| "returningRows v = v"

definition driver_select :: "jsval list \<Rightarrow> jsval" where
  "driver_select rows = JArr rows"

definition driver_returning :: "jsval list \<Rightarrow> jsval" where
  "driver_returning rows = JArr [JArr rows, JNum (Fin (of_nat (length rows)))]"

definition is_row :: "jsval \<Rightarrow> bool" where
  "is_row v = (case v of JObj _ \<Rightarrow> True | _ \<Rightarrow> False)"

lemma returningRows_returning: "returningRows (driver_returning rows) = JArr rows"
  by (simp add: driver_returning_def)

lemma returningRows_select:
  assumes "list_all is_row rows"
  shows "returningRows (driver_select rows) = JArr rows"
proof (cases "driver_select rows" rule: returningRows.cases)
  case (1 rs n)
  then have "rows = [JArr rs, JNum n]" by (simp add: driver_select_def)
  with assms show ?thesis by (simp add: is_row_def)
qed (auto simp: driver_select_def)

section \<open>Integrity of the shop tables\<close>

definition products_ok :: "db \<Rightarrow> bool" where
  "products_ok s \<longleftrightarrow> distinct (map pr_id (t_products s)) \<and> list_all product_check (t_products s)
     \<and> (\<forall>r\<in>set (t_products s). pr_id r < sq_products (sequences s))"

definition users_ok :: "db \<Rightarrow> bool" where
  "users_ok s \<longleftrightarrow> distinct (map us_id (t_users s)) \<and> list_all user_check (t_users s)"

definition orders_ok :: "db \<Rightarrow> bool" where
  "orders_ok s \<longleftrightarrow> distinct (map or_id (t_orders s)) \<and> list_all order_check (t_orders s)
     \<and> (\<forall>r\<in>set (t_orders s). or_id r < sq_orders (sequences s))
     \<and> (\<forall>r\<in>set (t_orders s). or_user_id r \<in> us_id ` set (t_users s))"

definition order_items_ok :: "db \<Rightarrow> bool" where
  "order_items_ok s \<longleftrightarrow> distinct (map oi_id (t_order_items s))
     \<and> distinct (map (\<lambda>r. (oi_order_id r, oi_product_id r)) (t_order_items s))
     \<and> list_all order_item_check (t_order_items s)
     \<and> (\<forall>r\<in>set (t_order_items s). oi_id r < sq_order_items (sequences s))
     \<and> (\<forall>r\<in>set (t_order_items s). oi_order_id r \<in> or_id ` set (t_orders s))
     \<and> (\<forall>r\<in>set (t_order_items s). oi_product_id r \<in> pr_id ` set (t_products s))"

definition idempotency_ok :: "db \<Rightarrow> bool" where
  "idempotency_ok s \<longleftrightarrow> distinct (map ik_key (t_idempotency s))
     \<and> distinct (map ik_order_id (t_idempotency s))
     \<and> list_all idempotency_check (t_idempotency s)
     \<and> (\<forall>r\<in>set (t_idempotency s). ik_order_id r \<in> or_id ` set (t_orders s))"

definition jobs_ok :: "db \<Rightarrow> bool" where
  "jobs_ok s \<longleftrightarrow> distinct (map jb_id (t_jobs s)) \<and> list_all job_check (t_jobs s)
     \<and> (\<forall>r\<in>set (t_jobs s). jb_id r < sq_jobs (sequences s))
     \<and> (\<forall>r\<in>set (t_jobs s). \<forall>x. jb_order_id r = Some x \<longrightarrow> x \<in> or_id ` set (t_orders s))"

definition outbox_ok :: "db \<Rightarrow> bool" where
  "outbox_ok s \<longleftrightarrow> distinct (map ob_id (t_outbox s))"

definition shop_ok :: "db \<Rightarrow> bool" where
  "shop_ok s \<longleftrightarrow> users_ok s \<and> products_ok s \<and> orders_ok s \<and> order_items_ok s
     \<and> idempotency_ok s \<and> jobs_ok s \<and> outbox_ok s"

lemmas shop_ok_defs = shop_ok_def users_ok_def products_ok_def orders_ok_def order_items_ok_def
  idempotency_ok_def jobs_ok_def outbox_ok_def

lemma shop_ok_empty: "shop_ok empty_db"
  by (simp add: shop_ok_defs empty_db_def)

text \<open>Sequences only grow; drawing from them keeps the integrity of the tables.\<close>

definition seqs_le :: "seqs \<Rightarrow> seqs \<Rightarrow> bool" where
  "seqs_le a b \<longleftrightarrow> sq_products a \<le> sq_products b \<and> sq_orders a \<le> sq_orders b
     \<and> sq_order_items a \<le> sq_order_items b \<and> sq_jobs a \<le> sq_jobs b"

lemma seqs_le_refl [simp]: "seqs_le a a"
  by (simp add: seqs_le_def)

lemma seqs_le_trans: "seqs_le a b \<Longrightarrow> seqs_le b c \<Longrightarrow> seqs_le a c"
  by (auto simp: seqs_le_def)

lemma shop_ok_seqs:
  "shop_ok s \<Longrightarrow> seqs_le (sequences s) q \<Longrightarrow> shop_ok (s\<lparr>sequences := q\<rparr>)"
  by (fastforce simp: shop_ok_defs seqs_le_def)

lemma shop_ok_rollback:
  "shop_ok s \<Longrightarrow> seqs_le (sequences s) (sequences s') \<Longrightarrow> shop_ok (rollback s s')"
  by (simp add: rollback_def shop_ok_seqs)

text \<open>
  An UPDATE maps a function over the rows of one table. It keeps the integrity of the shop when
  it leaves the keys alone and the rows it writes satisfy their checks.
\<close>

lemma image_map_key:
  assumes "\<And>r. k (f r) = k r"
  shows "k ` f ` A = k ` A"
  using assms by (auto simp: image_image)

lemma shop_ok_map_products:
  assumes "shop_ok s" and "\<And>r. pr_id (f r) = pr_id r"
    and "\<And>r. r \<in> set (t_products s) \<Longrightarrow> product_check r \<Longrightarrow> product_check (f r)"
  shows "shop_ok (s\<lparr>t_products := map f (t_products s)\<rparr>)"
proof -
  have m: "map (pr_id \<circ> f) (t_products s) = map pr_id (t_products s)" using assms(2) by simp
  show ?thesis
    using assms by (simp add: shop_ok_defs list_all_iff image_map_key m)
qed

lemma shop_ok_map_users:
  assumes "shop_ok s" and "\<And>r. us_id (f r) = us_id r"
    and "\<And>r. r \<in> set (t_users s) \<Longrightarrow> user_check r \<Longrightarrow> user_check (f r)"
  shows "shop_ok (s\<lparr>t_users := map f (t_users s)\<rparr>)"
proof -
  have m: "map (us_id \<circ> f) (t_users s) = map us_id (t_users s)" using assms(2) by simp
  show ?thesis
    using assms by (simp add: shop_ok_defs list_all_iff image_map_key m)
qed

lemma shop_ok_map_orders:
  assumes "shop_ok s" and "\<And>r. or_id (f r) = or_id r" and "\<And>r. or_user_id (f r) = or_user_id r"
    and "\<And>r. r \<in> set (t_orders s) \<Longrightarrow> order_check r \<Longrightarrow> order_check (f r)"
  shows "shop_ok (s\<lparr>t_orders := map f (t_orders s)\<rparr>)"
proof -
  have m: "map (or_id \<circ> f) (t_orders s) = map or_id (t_orders s)" using assms(2) by simp
  show ?thesis
    using assms by (simp add: shop_ok_defs list_all_iff image_map_key m)
qed

lemma shop_ok_map_jobs:
  assumes "shop_ok s" and "\<And>r. jb_id (f r) = jb_id r" and "\<And>r. jb_order_id (f r) = jb_order_id r"
    and "\<And>r. jb_type (f r) = jb_type r"
  shows "shop_ok (s\<lparr>t_jobs := map f (t_jobs s)\<rparr>)"
proof -
  have m: "map (jb_id \<circ> f) (t_jobs s) = map jb_id (t_jobs s)" using assms(2) by simp
  show ?thesis
    using assms by (simp add: shop_ok_defs list_all_iff image_map_key m job_check_def)
qed

lemma shop_ok_outbox:
  "shop_ok s \<Longrightarrow> distinct (map ob_id rows) \<Longrightarrow> shop_ok (s\<lparr>t_outbox := rows\<rparr>)"
  by (simp add: shop_ok_defs)

section \<open>Contracts of statements\<close>

text \<open>A statement keeps a property when it succeeds; a statement draws from the sequences only.\<close>

definition stmt_keeps :: "(db \<Rightarrow> bool) \<Rightarrow> 'a stmt \<Rightarrow> bool" where
  "stmt_keeps P m \<longleftrightarrow> (\<forall>s r s'. P s \<longrightarrow> m s = (Inr r, s') \<longrightarrow> P s')"

definition seqs_grow :: "'a stmt \<Rightarrow> bool" where
  "seqs_grow m \<longleftrightarrow> (\<forall>s r s'. m s = (r, s') \<longrightarrow> seqs_le (sequences s) (sequences s'))"

lemma stmt_keepsD: "stmt_keeps P m \<Longrightarrow> P s \<Longrightarrow> m s = (Inr r, s') \<Longrightarrow> P s'"
  by (auto simp: stmt_keeps_def)

lemma stmt_keepsI: "(\<And>s r s'. P s \<Longrightarrow> m s = (Inr r, s') \<Longrightarrow> P s') \<Longrightarrow> stmt_keeps P m"
  by (auto simp: stmt_keeps_def)

lemma seqs_growI:
  "(\<And>s r s'. m s = (r, s') \<Longrightarrow> seqs_le (sequences s) (sequences s')) \<Longrightarrow> seqs_grow m"
  by (auto simp: seqs_grow_def)

lemma seqs_growD: "seqs_grow m \<Longrightarrow> m s = (r, s') \<Longrightarrow> seqs_le (sequences s) (sequences s')"
  by (auto simp: seqs_grow_def)

lemma stmt_keeps_return [keeps]: "stmt_keeps P (db_return x)"
  by (auto simp: stmt_keeps_def db_return_def)

lemma stmt_keeps_throw [keeps]: "stmt_keeps P (db_throw e)"
  by (auto simp: stmt_keeps_def db_throw_def)

lemma stmt_keeps_bind [keeps]:
  assumes "stmt_keeps P m" and "\<And>x. stmt_keeps P (f x)"
  shows "stmt_keeps P (db_bind m f)"
  using assms unfolding stmt_keeps_def by (blast elim: db_bind_InrE)

lemma seqs_grow_return [keeps]: "seqs_grow (db_return x)"
  by (auto simp: seqs_grow_def db_return_def)

lemma seqs_grow_throw [keeps]: "seqs_grow (db_throw e)"
  by (auto simp: seqs_grow_def db_throw_def)

lemma seqs_grow_bind [keeps]:
  assumes "seqs_grow m" and "\<And>x. seqs_grow (f x)"
  shows "seqs_grow (db_bind m f)"
proof (rule seqs_growI)
  fix s r s'
  assume *: "db_bind m f s = (r, s')"
  obtain q t where m: "m s = (q, t)" by (cases "m s")
  show "seqs_le (sequences s) (sequences s')"
  proof (cases q)
    case (Inl e)
    with m * assms(1) show ?thesis by (auto dest: seqs_growD)
  next
    case (Inr x)
    with m * have "f x t = (r, s')" by simp
    with m assms show ?thesis by (blast dest: seqs_growD intro: seqs_le_trans)
  qed
qed

text \<open>
  The contract of an integrity property of the tables: drawing from a sequence does not touch it.
  Under it a transaction keeps the property whether it commits or rolls back.
\<close>

locale db_invariant =
  fixes P :: "db \<Rightarrow> bool"
  assumes P_seqs: "P s \<Longrightarrow> seqs_le (sequences s) q \<Longrightarrow> P (s\<lparr>sequences := q\<rparr>)"
begin

lemma P_rollback: "P s \<Longrightarrow> seqs_le (sequences s) (sequences s') \<Longrightarrow> P (rollback s s')"
  by (simp add: rollback_def P_seqs)

lemma transaction_keeps:
  assumes "stmt_keeps P m" and "seqs_grow m" and "P s" and "transaction m s = (r, s')"
  shows "P s'"
proof -
  obtain q t where m: "m s = (q, t)" by (cases "m s")
  show ?thesis
  proof (cases q)
    case (Inl e)
    with m assms(4) have "s' = rollback s t" by simp
    with m assms(2,3) show ?thesis by (auto dest: seqs_growD intro: P_rollback)
  next
    case (Inr x)
    with m assms(4) have "m s = (Inr x, s')" by simp
    with assms(1,3) show ?thesis by (blast dest: stmt_keepsD)
  qed
qed

lemma same_tables_keeps:
  "P s \<Longrightarrow> same_tables s s' \<Longrightarrow> seqs_le (sequences s) (sequences s') \<Longrightarrow> P s'"
  by (auto elim!: same_tablesE intro: P_seqs)

end

interpretation shop: db_invariant shop_ok
  by unfold_locales (rule shop_ok_seqs)

end
