(* ===== verification/OutboxEvent.thy ===== *)
theory OutboxEvent
  imports Schema
begin

text \<open>
  The event the order transaction stores in the outbox and the consumer reads back
  (\<open>src/outbox/order-placed.event.ts\<close>), and the classification of database errors
  (\<open>src/outbox/errors.ts\<close>, \<open>src/retry.ts\<close>).
\<close>

section \<open>The placed order and its event\<close>

definition ORDER_AGGREGATE :: string where
  "ORDER_AGGREGATE = ''order''"

definition ORDER_PLACED :: string where
  "ORDER_PLACED = ''order.placed''"

record placed_line =
  pl_product_id :: int
  pl_quantity :: int
  pl_unit_price_cents :: int
  pl_line_total_cents :: int

record placed_order =
  po_order_id :: int
  po_user_id :: string
  po_total_cents :: int
  po_shipping_country :: string
  po_created_at :: int
  po_items :: "placed_line list"

definition js_of_int :: "int \<Rightarrow> jsval" where
  "js_of_int i = JNum (Fin (of_int i))"

definition event_item :: "placed_line \<Rightarrow> jsval" where
  "event_item i = JObj [
     (''productId'', JStr (show_int (pl_product_id i))),
     (''quantity'', js_of_int (pl_quantity i)),
     (''unitPriceCents'', js_of_int (pl_unit_price_cents i))]"

definition toOrderPlacedEvent :: "string \<Rightarrow> placed_order \<Rightarrow> jsval" where
  "toOrderPlacedEvent eventId order = JObj [
     (''eventId'', JStr eventId),
     (''type'', JStr ORDER_PLACED),
     (''version'', js_of_int 1),
     (''occurredAt'', JStr (js_toISOString (po_created_at order))),
     (''data'', JObj [
        (''orderId'', JStr (show_int (po_order_id order))),
        (''userId'', JStr (po_user_id order)),
        (''totalCents'', js_of_int (po_total_cents order)),
        (''shippingCountry'', JStr (po_shipping_country order)),
        (''items'', JArr (map event_item (po_items order)))])]"

text \<open>
  What the consumer relies on in a parsed event: the four checked fields. The rest of the body
  is carried along unchecked.
\<close>

record order_placed_event =
  ev_event_id :: string
  ev_order_id :: string
  ev_user_id :: string
  ev_total_cents :: jsnum
  ev_body :: jsval

text \<open>The argument is what \<open>JSON.parse\<close> made of the message: \<open>None\<close> when it threw.\<close>

definition parseOrderPlacedEvent :: "jsval option \<Rightarrow> order_placed_event option" where
  "parseOrderPlacedEvent raw = (case raw of
       None \<Rightarrow> None
     | Some body \<Rightarrow>
         if js_get ''type'' body \<noteq> JStr ORDER_PLACED then None
         else (case js_get ''eventId'' body of
             JStr eid \<Rightarrow>
               if eid = [] then None
               else if \<not> js_truthy (js_get ''data'' body) then None
               else (case (js_get ''orderId'' (js_get ''data'' body),
                           js_get ''userId'' (js_get ''data'' body),
                           js_get ''totalCents'' (js_get ''data'' body)) of
                   (JStr oid, JStr uid, JNum cents) \<Rightarrow>
                     Some \<lparr>ev_event_id = eid, ev_order_id = oid, ev_user_id = uid,
                           ev_total_cents = cents, ev_body = body\<rparr>
                 | _ \<Rightarrow> None)
           | _ \<Rightarrow> None))"

lemma js_get_JObj:
  "js_get k (JObj kvs) = (case map_of (rev kvs) k of Some x \<Rightarrow> x | None \<Rightarrow> JUndefined)"
  by (simp add: js_get_def)

lemma parse_toOrderPlacedEvent:
  assumes "eventId \<noteq> []"
  shows "parseOrderPlacedEvent (Some (toOrderPlacedEvent eventId order)) =
    Some \<lparr>ev_event_id = eventId, ev_order_id = show_int (po_order_id order),
      ev_user_id = po_user_id order, ev_total_cents = Fin (of_int (po_total_cents order)),
      ev_body = toOrderPlacedEvent eventId order\<rparr>"
  using assms
  by (simp add: parseOrderPlacedEvent_def toOrderPlacedEvent_def js_get_JObj js_of_int_def)

lemma parse_event_id_nonempty:
  "parseOrderPlacedEvent raw = Some ev \<Longrightarrow> ev_event_id ev \<noteq> []"
  by (auto simp: parseOrderPlacedEvent_def split: option.splits jsval.splits if_splits)

lemma parse_event_type:
  "parseOrderPlacedEvent (Some body) = Some ev \<Longrightarrow>
     ev_body ev = body \<and> js_get ''type'' body = JStr ORDER_PLACED"
  by (auto simp: parseOrderPlacedEvent_def split: jsval.splits if_splits)

section \<open>Error classification\<close>

fun exn_code :: "exn \<Rightarrow> string option" where
  "exn_code (DriverError c _ _) = c"
| "exn_code _ = None"

fun exn_driver_code :: "exn \<Rightarrow> string option" where
  "exn_driver_code (DriverError _ d _) = d"
| "exn_driver_code _ = None"

fun exn_message :: "exn \<Rightarrow> string" where
  "exn_message (HttpException _ m) = m"
| "exn_message (DriverError _ _ m) = m"
| "exn_message (JsError m) = m"
| "exn_message (CheckoutFailure _ m) = m"
| "exn_message IdempotentReplay = []"
| "exn_message (AfterEffectError m) = m"
| "exn_message (UnrecoverableError m) = m"
| "exn_message (S3ServiceException st n) = n"

definition errorMessage :: "exn \<Rightarrow> string" where
  "errorMessage err = exn_message err"

definition TRANSIENT_PG_CODES :: "string list" where
  "TRANSIENT_PG_CODES =
     [''40001'', ''40P01'', ''53300'', ''55P03'', ''57P01'', ''57P02'', ''57P03'']"

definition TRANSIENT_NODE_CODES :: "string list" where
  "TRANSIENT_NODE_CODES =
     [''ECONNREFUSED'', ''ECONNRESET'', ''EPIPE'', ''ETIMEDOUT'', ''EAI_AGAIN'']"

definition transient_message :: "string \<Rightarrow> bool" where
  "transient_message m =
     (let l = js_toLowerCase m in
      js_includes ''connection terminated'' l \<or> js_includes ''connection timeout'' l
      \<or> js_includes ''timeout exceeded when trying to connect'' l)"

definition isTransientDbError :: "exn \<Rightarrow> bool" where
  "isTransientDbError err \<longleftrightarrow>
     (case exn_code err of
        Some code \<Rightarrow> js_startsWith ''08'' code
          \<or> code \<in> set TRANSIENT_PG_CODES \<or> code \<in> set TRANSIENT_NODE_CODES
      | None \<Rightarrow> False)
     \<or> transient_message (exn_message err)"

text \<open>Constraint and data errors are permanent: retrying them is pointless.\<close>

lemma constraint_errors_permanent:
  assumes "code \<in> {''22P02'', ''22003'', ''22001'', ''23503'', ''23505'', ''23514''}"
  shows "\<not> isTransientDbError (pg_error code)"
  using assms
  by (auto simp: isTransientDbError_def pg_error_def TRANSIENT_PG_CODES_def
      TRANSIENT_NODE_CODES_def js_startsWith_def transient_message_def js_toLowerCase_def)

end
