(* ===== verification/PlaceOrder.thy ===== *)
theory PlaceOrder
  imports OutboxEvent
begin

text \<open>
  The order transaction (\<open>src/orders/place-order.ts\<close>): the order rows, the claim of the
  Idempotency-Key and the outbox row commit together. Every SQL statement of the file is one
  definition here. The digest of a request (\<open>sha256\<close> over \<open>JSON.stringify\<close>) and the random
  event id are parameters.
\<close>

section \<open>Input and result\<close>

record order_item_input =
  it_product_id :: int
  it_quantity :: int

record place_order_input =
  pi_user_id :: string
  pi_items :: "order_item_input list"
  pi_shipping_country :: "string option"
  pi_idempotency_key :: "string option"

record place_order_result =
  pos_status :: nat
  pos_body :: order_response
  pos_replayed :: bool

text \<open>A key that is present and not the empty string (\<open>if (key)\<close>).\<close>

definition given_key :: "place_order_input \<Rightarrow> string option" where
  "given_key input = (case pi_idempotency_key input of
       Some k \<Rightarrow> if k = [] then None else Some k
     | None \<Rightarrow> None)"

definition country_of :: "place_order_input \<Rightarrow> string" where
  "country_of input = (case pi_shipping_country input of Some c \<Rightarrow> c | None \<Rightarrow> ''US'')"

definition hashRequest :: "(jsval \<Rightarrow> string) \<Rightarrow> place_order_input \<Rightarrow> string" where
  "hashRequest digest input = digest (JObj [
     (''userId'', JStr (pi_user_id input)),
     (''shippingCountry'', JStr (country_of input)),
     (''items'', JArr (map (\<lambda>i. JArr [JStr (show_int (it_product_id i)),
                                       js_of_int (it_quantity i)]) (pi_items input)))])"

section \<open>The idempotency lookup\<close>

definition findReplay :: "string \<Rightarrow> string \<Rightarrow> db \<Rightarrow> exn + place_order_result option" where
  "findReplay key requestHash s =
     (case filter (\<lambda>r. ik_key r = key) (t_idempotency s) of
        [] \<Rightarrow> Inr None
      | r # _ \<Rightarrow>
          if ik_request_hash r \<noteq> requestHash
          then Inl (UnprocessableEntityException
                 ''Idempotency-Key was already used with a different request'')
          else Inr (Some \<lparr>pos_status = ik_response_status r, pos_body = ik_response_body r,
                          pos_replayed = True\<rparr>))"

section \<open>SQL statements\<close>

text \<open>
  \<open>UPDATE products SET stock = stock - q WHERE id = p AND is_active AND stock >= q
  RETURNING price_cents\<close>, refused by PostgreSQL when a parameter or the new stock does not fit its
  type.
\<close>

definition stock_match :: "int \<Rightarrow> int \<Rightarrow> product_row \<Rightarrow> bool" where
  "stock_match q p r \<longleftrightarrow> pr_id r = p \<and> pr_is_active r \<and> q \<le> pr_stock r"

definition take_stock :: "int \<Rightarrow> product_row \<Rightarrow> product_row" where
  "take_stock q r = r\<lparr>pr_stock := pr_stock r - q\<rparr>"

definition update_stock :: "int \<Rightarrow> int \<Rightarrow> product_row list stmt" where
  "update_stock q p s =
     (let new = map (take_stock q) (filter (stock_match q p) (t_products s)) in
      if \<not> int4_ok q \<or> \<not> int8_ok p \<or> (\<exists>r\<in>set new. \<not> int4_ok (pr_stock r)) then (Inl numeric_out_of_range, s)
      else (Inr new,
            s\<lparr>t_products := map (\<lambda>r. if stock_match q p r then take_stock q r else r)
                               (t_products s)\<rparr>))"

definition active_product_exists :: "int \<Rightarrow> db \<Rightarrow> bool" where
  "active_product_exists p s \<longleftrightarrow> (\<exists>r\<in>set (t_products s). pr_id r = p \<and> pr_is_active r)"

text \<open>\<open>INSERT INTO orders ... RETURNING id, created_at\<close>\<close>

definition insert_order_row :: "int \<Rightarrow> string \<Rightarrow> int \<Rightarrow> string \<Rightarrow> order_row stmt" where
  "insert_order_row now userId total_cents country s =
     (case bigint_in userId of
        Inl e \<Rightarrow> (Inl e, s)
      | Inr uid \<Rightarrow>
          if \<not> int4_ok total_cents then (Inl numeric_out_of_range, s)
          else
            (let oid = sq_orders (sequences s);
                 s1 = s\<lparr>sequences := (sequences s)\<lparr>sq_orders := oid + 1\<rparr>\<rparr>
             in case char_in 2 country of
                  Inl e \<Rightarrow> (Inl e, s1)
                | Inr cc \<Rightarrow>
                    (let row = \<lparr>or_id = oid, or_user_id = uid, or_status = Completed,
                                or_total_cents = total_cents, or_shipping_country = cc,
                                or_created_at = now\<rparr>
                     in if \<not> order_check row then (Inl check_violation, s1)
                        else if uid \<notin> us_id ` set (t_users s) then (Inl foreign_key_violation, s1)
                        else (Inr row, s1\<lparr>t_orders := t_orders s @ [row]\<rparr>))))"

text \<open>\<open>INSERT INTO order_items ...\<close>\<close>

definition insert_item_row :: "int \<Rightarrow> placed_line \<Rightarrow> unit stmt" where
  "insert_item_row oid l s =
     (if \<not> int4_ok (pl_quantity l) \<or> \<not> int4_ok (pl_unit_price_cents l)
         \<or> \<not> int4_ok (pl_line_total_cents l) then (Inl numeric_out_of_range, s)
      else
        (let iid = sq_order_items (sequences s);
             row = \<lparr>oi_id = iid, oi_order_id = oid, oi_product_id = pl_product_id l,
                    oi_quantity = pl_quantity l, oi_unit_price_cents = pl_unit_price_cents l,
                    oi_line_total_cents = pl_line_total_cents l\<rparr>;
             s1 = s\<lparr>sequences := (sequences s)\<lparr>sq_order_items := iid + 1\<rparr>\<rparr>
         in if \<not> order_item_check row then (Inl check_violation, s1)
            else if (oid, pl_product_id l)
                    \<in> (\<lambda>r. (oi_order_id r, oi_product_id r)) ` set (t_order_items s)
                 then (Inl unique_violation, s1)
            else if oid \<notin> or_id ` set (t_orders s) \<or> pl_product_id l \<notin> pr_id ` set (t_products s)
                 then (Inl foreign_key_violation, s1)
            else (Inr (), s1\<lparr>t_order_items := t_order_items s @ [row]\<rparr>)))"

text \<open>\<open>INSERT INTO idempotency_records ... ON CONFLICT DO NOTHING RETURNING idempotency_key\<close>\<close>

definition insert_idempotency ::
  "int \<Rightarrow> string \<Rightarrow> int \<Rightarrow> string \<Rightarrow> order_response \<Rightarrow> string list stmt" where
  "insert_idempotency now key oid hash body s =
     (let row = \<lparr>ik_key = key, ik_order_id = oid, ik_request_hash = hash,
                 ik_response_status = 201, ik_response_body = body, ik_created_at = now\<rparr>
      in if 64 < length hash then (Inl string_data_right_truncation, s)
         else if \<not> idempotency_check row then (Inl check_violation, s)
         else if key \<in> ik_key ` set (t_idempotency s) then (Inr [], s)
         else if oid \<in> ik_order_id ` set (t_idempotency s) then (Inl unique_violation, s)
         else if oid \<notin> or_id ` set (t_orders s) then (Inl foreign_key_violation, s)
         else (Inr [key], s\<lparr>t_idempotency := t_idempotency s @ [row]\<rparr>))"

text \<open>\<open>INSERT INTO outbox ...\<close>\<close>

definition insert_outbox :: "int \<Rightarrow> string \<Rightarrow> string \<Rightarrow> string \<Rightarrow> string \<Rightarrow> jsval \<Rightarrow> unit stmt" where
  "insert_outbox now eventId aggregateType aggregateId type payload s =
     (if eventId \<in> ob_id ` set (t_outbox s) then (Inl unique_violation, s)
      else (Inr (), s\<lparr>t_outbox := t_outbox s @
        [\<lparr>ob_id = eventId, ob_aggregate_type = aggregateType, ob_aggregate_id = aggregateId,
          ob_type = type, ob_payload = payload, ob_created_at = now, ob_published_at = None,
          ob_attempts = 0, ob_last_error = None\<rparr>]\<rparr>))"

section \<open>\<open>insertOrder\<close>\<close>

text \<open>
  One iteration of the loop over the items: take the stock, or tell a missing product (404) from
  a short one (400).
\<close>

definition claim_item :: "order_item_input \<Rightarrow> placed_line stmt" where
  "claim_item item =
     db_bind (update_stock (it_quantity item) (it_product_id item)) (\<lambda>rows s.
       case rows of
         [] \<Rightarrow>
           if \<not> active_product_exists (it_product_id item) s
           then (Inl (NotFoundException
                   (''Product '' @ show_int (it_product_id item) @ '' not found'')), s)
           else (Inl (BadRequestException
                   (''Insufficient stock for product '' @ show_int (it_product_id item))), s)
       | r # _ \<Rightarrow>
           (Inr \<lparr>pl_product_id = it_product_id item, pl_quantity = it_quantity item,
                 pl_unit_price_cents = pr_price_cents r,
                 pl_line_total_cents = pr_price_cents r * it_quantity item\<rparr>, s))"

fun claim_items :: "order_item_input list \<Rightarrow> placed_line list stmt" where
  "claim_items [] = db_return []"
| "claim_items (i # is) =
     db_bind (claim_item i) (\<lambda>l. db_bind (claim_items is) (\<lambda>ls. db_return (l # ls)))"

fun insert_items :: "int \<Rightarrow> placed_line list \<Rightarrow> unit stmt" where
  "insert_items oid [] = db_return ()"
| "insert_items oid (l # ls) = db_bind (insert_item_row oid l) (\<lambda>_. insert_items oid ls)"

text \<open>A stable order by product id, so that concurrent orders lock the rows in one order.\<close>

definition sort_items :: "order_item_input list \<Rightarrow> order_item_input list" where
  "sort_items items = sort_key it_product_id items"

definition insertOrder :: "int \<Rightarrow> place_order_input \<Rightarrow> placed_order stmt" where
  "insertOrder now input =
     db_bind (claim_items (sort_items (pi_items input))) (\<lambda>lines.
     db_bind (insert_order_row now (pi_user_id input)
               (foldl (\<lambda>sum l. sum + pl_line_total_cents l) 0 lines) (country_of input)) (\<lambda>row.
     db_bind (insert_items (or_id row) lines) (\<lambda>_.
     db_return \<lparr>po_order_id = or_id row, po_user_id = pi_user_id input,
       po_total_cents = foldl (\<lambda>sum l. sum + pl_line_total_cents l) 0 lines,
       po_shipping_country = country_of input, po_created_at = or_created_at row,
       po_items = lines\<rparr>)))"

definition toResponseBody :: "placed_order \<Rightarrow> order_response" where
  "toResponseBody order = \<lparr>rs_id = po_order_id order,
     rs_items = map (\<lambda>i. \<lparr>ri_product_id = pl_product_id i, ri_quantity = pl_quantity i,
                          ri_unit_price_cents = pl_unit_price_cents i,
                          ri_line_total_cents = pl_line_total_cents i\<rparr>) (po_items order),
     rs_total_cents = po_total_cents order,
     rs_created_at = js_toISOString (po_created_at order)\<rparr>"

section \<open>\<open>placeOrder\<close>\<close>

definition claim_key ::
  "int \<Rightarrow> string option \<Rightarrow> int \<Rightarrow> string \<Rightarrow> order_response \<Rightarrow> unit stmt" where
  "claim_key now key oid hash body = (case key of
       None \<Rightarrow> db_return ()
     | Some k \<Rightarrow> db_bind (insert_idempotency now k oid hash body) (\<lambda>claimed.
         if claimed = [] then db_throw IdempotentReplay else db_return ()))"

text \<open>The body of the transaction. \<open>hook\<close> is \<open>hooks.afterOutboxInsert\<close>.\<close>

definition placeOrder_tx ::
  "int \<Rightarrow> string \<Rightarrow> unit stmt \<Rightarrow> string \<Rightarrow> place_order_input \<Rightarrow> place_order_result stmt" where
  "placeOrder_tx now eventId hook requestHash input =
     db_bind (insertOrder now input) (\<lambda>order.
     db_bind (claim_key now (given_key input) (po_order_id order) requestHash
               (toResponseBody order)) (\<lambda>_.
     db_bind (insert_outbox now eventId ORDER_AGGREGATE (show_int (po_order_id order))
               ORDER_PLACED (toOrderPlacedEvent eventId order)) (\<lambda>_.
     db_bind hook (\<lambda>_.
     db_return \<lparr>pos_status = 201, pos_body = toResponseBody order, pos_replayed = False\<rparr>))))"

text \<open>
  The two places where the function awaits outside the transaction let other requests commit:
  \<open>before_tx\<close> and \<open>before_replay\<close> are what they do to the database meanwhile.
\<close>

definition lookup_replay ::
  "string option \<Rightarrow> string \<Rightarrow> db \<Rightarrow> exn + place_order_result option" where
  "lookup_replay key hash s = (case key of None \<Rightarrow> Inr None | Some k \<Rightarrow> findReplay k hash s)"

definition placeOrder ::
  "(jsval \<Rightarrow> string) \<Rightarrow> (db \<Rightarrow> db) \<Rightarrow> (db \<Rightarrow> db) \<Rightarrow> int \<Rightarrow> string \<Rightarrow> unit stmt
     \<Rightarrow> place_order_input \<Rightarrow> place_order_result stmt" where
  "placeOrder digest before_tx before_replay now eventId hook input s =
     (let key = given_key input; hash = hashRequest digest input in
      case lookup_replay key hash s of
        Inl e \<Rightarrow> (Inl e, s)
      | Inr (Some prior) \<Rightarrow> (Inr prior, s)
      | Inr None \<Rightarrow>
          (case transaction (placeOrder_tx now eventId hook hash input) (before_tx s) of
             (Inr r, s') \<Rightarrow> (Inr r, s')
           | (Inl err, s') \<Rightarrow>
               if err = IdempotentReplay \<and> key \<noteq> None then
                 (let s'' = before_replay s' in
                  case lookup_replay key hash s'' of
                    Inl e \<Rightarrow> (Inl e, s'')
                  | Inr (Some prior) \<Rightarrow> (Inr prior, s'')
                  | Inr None \<Rightarrow> (Inl err, s''))
               else (Inl err, s')))"

abbreviation no_hook :: "unit stmt" where
  "no_hook \<equiv> db_return ()"

text \<open>The request of one client with nothing else going on.\<close>

definition placeOrder_alone ::
  "(jsval \<Rightarrow> string) \<Rightarrow> int \<Rightarrow> string \<Rightarrow> place_order_input \<Rightarrow> place_order_result stmt" where
  "placeOrder_alone digest now eventId input =
     placeOrder digest (\<lambda>s. s) (\<lambda>s. s) now eventId no_hook input"

section \<open>Every statement keeps the integrity of the tables\<close>

lemma update_stock_keeps [keeps]: "stmt_keeps shop_ok (update_stock q p)"
proof (rule stmt_keepsI)
  fix s r s'
  assume ok: "shop_ok s" and up: "update_stock q p s = (Inr r, s')"
  let ?f = "\<lambda>r. if stock_match q p r then take_stock q r else r"
  have s': "s' = s\<lparr>t_products := map ?f (t_products s)\<rparr>"
    and range: "\<forall>r\<in>set (t_products s). stock_match q p r \<longrightarrow> int4_ok (pr_stock r - q)"
    using up by (auto simp: update_stock_def Let_def take_stock_def split: if_splits)
  show "shop_ok s'"
    unfolding s'
    by (rule shop_ok_map_products [OF ok])
      (use range in \<open>auto simp: take_stock_def product_check_def stock_match_def\<close>)
qed

lemma update_stock_seqs [keeps]: "seqs_grow (update_stock q p)"
  by (rule seqs_growI) (auto simp: update_stock_def Let_def split: if_splits)

lemma claim_item_keeps [keeps]: "stmt_keeps shop_ok (claim_item i)"
  unfolding claim_item_def
  by (rule stmt_keeps_bind [OF update_stock_keeps])
    (auto intro!: stmt_keepsI split: list.splits if_splits)

lemma claim_item_seqs [keeps]: "seqs_grow (claim_item i)"
  unfolding claim_item_def
  by (rule seqs_grow_bind [OF update_stock_seqs])
    (auto intro!: seqs_growI split: list.splits if_splits)

lemma claim_items_keeps [keeps]: "stmt_keeps shop_ok (claim_items is)"
  by (induction "is") (auto intro!: keeps)

lemma claim_items_seqs [keeps]: "seqs_grow (claim_items is)"
  by (induction "is") (auto intro!: keeps)

lemma insert_order_row_seqs [keeps]: "seqs_grow (insert_order_row now u c cc)"
  by (rule seqs_growI)
    (auto simp: insert_order_row_def Let_def seqs_le_def split: sum.splits if_splits)

lemma insert_order_row_Inr:
  assumes "insert_order_row now u c cc s = (Inr row, s')"
  shows "row = \<lparr>or_id = sq_orders (sequences s), or_user_id = or_user_id row,
      or_status = Completed, or_total_cents = c,
      or_shipping_country = or_shipping_country row, or_created_at = now\<rparr>"
    and "bigint_in u = Inr (or_user_id row)" and "char_in 2 cc = Inr (or_shipping_country row)"
    and "order_check row" and "or_user_id row \<in> us_id ` set (t_users s)"
    and "s' = s\<lparr>t_orders := t_orders s @ [row],
      sequences := (sequences s)\<lparr>sq_orders := sq_orders (sequences s) + 1\<rparr>\<rparr>"
  using assms by (auto simp: insert_order_row_def Let_def split: sum.splits if_splits)

lemma insert_order_row_keeps [keeps]: "stmt_keeps shop_ok (insert_order_row now u c cc)"
proof (rule stmt_keepsI)
  fix s row s'
  assume ok: "shop_ok s" and ins: "insert_order_row now u c cc s = (Inr row, s')"
  note I = insert_order_row_Inr [OF ins]
  have new: "or_id row = sq_orders (sequences s)" by (subst I(1)) simp
  have fresh: "sq_orders (sequences s) \<notin> or_id ` set (t_orders s)"
    using ok by (auto simp: shop_ok_defs)
  have "order_items_ok s' \<and> idempotency_ok s' \<and> jobs_ok s' \<and> users_ok s' \<and> products_ok s'
      \<and> outbox_ok s'"
    using ok by (auto simp: shop_ok_defs I(6))
  moreover have "orders_ok s'"
    using ok fresh new I(4,5) by (fastforce simp: shop_ok_defs I(6))
  ultimately show "shop_ok s'" by (simp add: shop_ok_def)
qed

lemma insert_item_row_Inr:
  assumes "insert_item_row oid l s = (Inr r, s')"
  defines "row \<equiv> \<lparr>oi_id = sq_order_items (sequences s), oi_order_id = oid,
      oi_product_id = pl_product_id l, oi_quantity = pl_quantity l,
      oi_unit_price_cents = pl_unit_price_cents l,
      oi_line_total_cents = pl_line_total_cents l\<rparr>"
  shows "order_item_check row"
    and "(oid, pl_product_id l) \<notin> (\<lambda>r. (oi_order_id r, oi_product_id r)) ` set (t_order_items s)"
    and "oid \<in> or_id ` set (t_orders s)" and "pl_product_id l \<in> pr_id ` set (t_products s)"
    and "s' = s\<lparr>t_order_items := t_order_items s @ [row], sequences :=
      (sequences s)\<lparr>sq_order_items := sq_order_items (sequences s) + 1\<rparr>\<rparr>"
  using assms by (auto simp: insert_item_row_def Let_def split: if_splits)

lemma insert_item_row_keeps [keeps]: "stmt_keeps shop_ok (insert_item_row oid l)"
proof (rule stmt_keepsI)
  fix s r s'
  assume ok: "shop_ok s" and ins: "insert_item_row oid l s = (Inr r, s')"
  note I = insert_item_row_Inr [OF ins]
  have "sq_order_items (sequences s) \<notin> oi_id ` set (t_order_items s)"
    using ok by (auto simp: shop_ok_defs)
  then have "order_items_ok s'"
    using ok I(1-4) by (fastforce simp: shop_ok_defs I(5))
  moreover have "orders_ok s' \<and> idempotency_ok s' \<and> jobs_ok s' \<and> users_ok s' \<and> products_ok s'
      \<and> outbox_ok s'"
    using ok by (auto simp: shop_ok_defs I(5))
  ultimately show "shop_ok s'" by (simp add: shop_ok_def)
qed

lemma insert_item_row_seqs [keeps]: "seqs_grow (insert_item_row oid l)"
  by (rule seqs_growI)
    (auto simp: insert_item_row_def Let_def seqs_le_def split: if_splits)

lemma insert_items_keeps [keeps]: "stmt_keeps shop_ok (insert_items oid ls)"
  by (induction ls) (auto intro!: keeps)

lemma insert_items_seqs [keeps]: "seqs_grow (insert_items oid ls)"
  by (induction ls) (auto intro!: keeps)

lemma insertOrder_keeps [keeps]: "stmt_keeps shop_ok (insertOrder now input)"
  unfolding insertOrder_def by (intro keeps)

lemma insertOrder_seqs [keeps]: "seqs_grow (insertOrder now input)"
  unfolding insertOrder_def by (intro keeps)

lemma insert_idempotency_keeps [keeps]:
  "stmt_keeps shop_ok (insert_idempotency now k oid h body)"
  by (rule stmt_keepsI)
    (auto simp: insert_idempotency_def Let_def shop_ok_defs split: if_splits)

lemma insert_idempotency_seqs [keeps]: "seqs_grow (insert_idempotency now k oid h body)"
  by (rule seqs_growI) (auto simp: insert_idempotency_def Let_def split: if_splits)

lemma claim_key_keeps [keeps]: "stmt_keeps shop_ok (claim_key now key oid h body)"
  unfolding claim_key_def by (cases key) (auto intro!: keeps)

lemma claim_key_seqs [keeps]: "seqs_grow (claim_key now key oid h body)"
  unfolding claim_key_def by (cases key) (auto intro!: keeps)

lemma insert_outbox_keeps [keeps]: "stmt_keeps shop_ok (insert_outbox now e a i ty p)"
  by (rule stmt_keepsI) (auto simp: insert_outbox_def shop_ok_defs split: if_splits)

lemma insert_outbox_seqs [keeps]: "seqs_grow (insert_outbox now e a i ty p)"
  by (rule seqs_growI) (auto simp: insert_outbox_def split: if_splits)

lemma placeOrder_tx_keeps:
  "stmt_keeps shop_ok hook \<Longrightarrow> stmt_keeps shop_ok (placeOrder_tx now eid hook h input)"
  unfolding placeOrder_tx_def by (intro keeps)

lemma placeOrder_tx_seqs: "seqs_grow hook \<Longrightarrow> seqs_grow (placeOrder_tx now eid hook h input)"
  unfolding placeOrder_tx_def by (intro keeps)

end
