(* ===== verification/PlaceOrderFacts.thy ===== *)
theory PlaceOrderFacts
  imports PlaceOrder "HOL-Library.Multiset"
begin

text \<open>
  What one order does to the database, in closed form: \<open>placed_db\<close> is the state a successful
  transaction leaves, \<open>orderable\<close> the inputs on which it succeeds. The lemmas relate the
  statements of \<open>PlaceOrder\<close> to the two, and the properties follow from the closed form.
\<close>

section \<open>The abstract effect\<close>

definition price_of :: "product_row list \<Rightarrow> int \<Rightarrow> int" where
  "price_of ps p = (case filter (\<lambda>r. pr_id r = p) ps of [] \<Rightarrow> 0 | r # _ \<Rightarrow> pr_price_cents r)"

definition ordered_qty :: "order_item_input list \<Rightarrow> int \<Rightarrow> int" where
  "ordered_qty items p =
     sum_list (map it_quantity (filter (\<lambda>i. it_product_id i = p) items))"

definition debit :: "order_item_input list \<Rightarrow> product_row \<Rightarrow> product_row" where
  "debit items r = r\<lparr>pr_stock := pr_stock r - ordered_qty items (pr_id r)\<rparr>"

definition line_of :: "product_row list \<Rightarrow> order_item_input \<Rightarrow> placed_line" where
  "line_of ps i = \<lparr>pl_product_id = it_product_id i, pl_quantity = it_quantity i,
     pl_unit_price_cents = price_of ps (it_product_id i),
     pl_line_total_cents = price_of ps (it_product_id i) * it_quantity i\<rparr>"

fun item_rows :: "int \<Rightarrow> int \<Rightarrow> placed_line list \<Rightarrow> order_item_row list" where
  "item_rows iid oid [] = []"
| "item_rows iid oid (l # ls) =
     \<lparr>oi_id = iid, oi_order_id = oid, oi_product_id = pl_product_id l,
      oi_quantity = pl_quantity l, oi_unit_price_cents = pl_unit_price_cents l,
      oi_line_total_cents = pl_line_total_cents l\<rparr> # item_rows (iid + 1) oid ls"

section \<open>Taking the stock\<close>

lemma debit_keys [simp]:
  "pr_id (debit is r) = pr_id r" "pr_price_cents (debit is r) = pr_price_cents r"
  "pr_is_active (debit is r) = pr_is_active r" "pr_name (debit is r) = pr_name r"
  "pr_stock (debit is r) = pr_stock r - ordered_qty is (pr_id r)"
  by (simp_all add: debit_def)

lemma pr_id_debit [simp]: "pr_id \<circ> debit is = pr_id"
  by (simp add: fun_eq_iff)

lemma price_of_debit [simp]: "price_of (map (debit is) ps) p = price_of ps p"
proof -
  have "filter (\<lambda>r. pr_id r = p) (map (debit is) ps) =
    map (debit is) (filter (\<lambda>r. pr_id r = p) ps)"
    by (simp add: filter_map comp_def)
  then show ?thesis by (cases "filter (\<lambda>r. pr_id r = p) ps") (simp_all add: price_of_def)
qed

lemma price_of_row:
  assumes "distinct (map pr_id ps)" and "r \<in> set ps"
  shows "price_of ps (pr_id r) = pr_price_cents r"
  using filter_key_single [OF assms] by (simp add: price_of_def)

lemma debit_Nil [simp]: "debit [] r = r"
  by (simp add: debit_def ordered_qty_def)

lemma debit_Cons: "debit is (debit [i] r) = debit (i # is) r"
  by (simp add: debit_def ordered_qty_def)

lemma line_of_debit [simp]: "line_of (map (debit is) ps) = line_of ps"
  by (simp add: line_of_def fun_eq_iff)

lemma update_stock_debit:
  assumes "distinct (map pr_id (t_products s))" and "r0 \<in> set (t_products s)"
    and "stock_match (it_quantity i) (it_product_id i) r0"
  shows "map (\<lambda>r. if stock_match (it_quantity i) (it_product_id i) r
                   then take_stock (it_quantity i) r else r) (t_products s)
    = map (debit [i]) (t_products s)"
proof (rule map_cong [OF refl])
  fix r assume r: "r \<in> set (t_products s)"
  have "stock_match (it_quantity i) (it_product_id i) r \<longleftrightarrow> pr_id r = it_product_id i"
    using assms r by (auto simp: stock_match_def dest: distinct_map_unique)
  then show "(if stock_match (it_quantity i) (it_product_id i) r
      then take_stock (it_quantity i) r else r) = debit [i] r"
    by (auto simp: debit_def take_stock_def ordered_qty_def)
qed

definition available :: "product_row list \<Rightarrow> order_item_input \<Rightarrow> bool" where
  "available ps i \<longleftrightarrow> int8_ok (it_product_id i)
     \<and> (\<exists>r\<in>set ps. stock_match (it_quantity i) (it_product_id i) r)"

lemma claim_item_Inr:
  assumes "distinct (map pr_id (t_products s))" and "claim_item i s = (Inr l, s')"
  shows "available (t_products s) i" and "l = line_of (t_products s) i"
    and "s' = s\<lparr>t_products := map (debit [i]) (t_products s)\<rparr>"
proof -
  let ?m = "stock_match (it_quantity i) (it_product_id i)"
  from assms(2) obtain rows t where up: "update_stock (it_quantity i) (it_product_id i) s
      = (Inr rows, t)" and ne: "rows \<noteq> []"
      and l: "l = \<lparr>pl_product_id = it_product_id i, pl_quantity = it_quantity i,
        pl_unit_price_cents = pr_price_cents (hd rows),
        pl_line_total_cents = pr_price_cents (hd rows) * it_quantity i\<rparr>" and s': "s' = t"
    unfolding claim_item_def by (auto elim!: db_bind_InrE split: list.splits if_splits)
  then obtain r0 where r0: "r0 \<in> set (t_products s)" "?m r0"
    by (auto simp: update_stock_def Let_def filter_empty_conv split: if_splits)
  moreover have "int8_ok (it_product_id i)"
    using up by (auto simp: update_stock_def Let_def split: if_splits)
  ultimately show av: "available (t_products s) i" by (auto simp: available_def)
  have fl: "filter ?m (t_products s) = [r0]"
  proof -
    have "filter ?m (t_products s) = filter (\<lambda>r. pr_id r = pr_id r0) (t_products s)"
      using r0 assms(1) by (intro filter_cong) (auto simp: stock_match_def dest: distinct_map_unique)
    then show ?thesis using filter_key_single [OF assms(1) r0(1)] by simp
  qed
  have id: "pr_id r0 = it_product_id i" using r0(2) by (simp add: stock_match_def)
  have "pr_price_cents (hd rows) = pr_price_cents r0"
    using up fl by (auto simp: update_stock_def Let_def take_stock_def split: if_splits)
  then show "l = line_of (t_products s) i"
    using l price_of_row [OF assms(1) r0(1)] id by (simp add: line_of_def)
  show "s' = s\<lparr>t_products := map (debit [i]) (t_products s)\<rparr>"
    using s' up unfolding update_stock_debit [OF assms(1) r0, symmetric]
    by (auto simp: update_stock_def Let_def split: if_splits)
qed

lemma claim_items_Inr:
  assumes "distinct (map pr_id (t_products s))" and "claim_items is s = (Inr ls, s')"
  shows "ls = map (line_of (t_products s)) is
    \<and> s' = s\<lparr>t_products := map (debit is) (t_products s)\<rparr>"
  using assms
proof (induction "is" arbitrary: s ls)
  case Nil
  then show ?case by (simp add: db_return_def)
next
  case (Cons i "is")
  from Cons.prems(2) obtain l t ls' where
      l: "claim_item i s = (Inr l, t)" and ls': "claim_items is t = (Inr ls', s')"
      and ls: "ls = l # ls'"
    by (auto elim!: db_bind_InrE simp: db_return_def)
  note I = claim_item_Inr [OF Cons.prems(1) l]
  have "distinct (map pr_id (t_products t))" using Cons.prems(1) I(3) by simp
  from Cons.IH [OF this ls'] show ?case
    using ls I(2,3) by (simp add: debit_Cons)
qed

text \<open>Conversely, taking the stock succeeds when each product is there with enough of it.\<close>

lemma claim_item_succeeds:
  assumes "distinct (map pr_id (t_products s))" and "list_all product_check (t_products s)"
    and "available (t_products s) i" and "0 \<le> it_quantity i" and "int4_ok (it_quantity i)"
  shows "\<exists>l. claim_item i s = (Inr l, s\<lparr>t_products := map (debit [i]) (t_products s)\<rparr>)"
proof -
  let ?m = "stock_match (it_quantity i) (it_product_id i)"
  obtain r0 where r0: "r0 \<in> set (t_products s)" "?m r0"
    using assms(3) by (auto simp: available_def)
  have small: "\<forall>r\<in>set (map (take_stock (it_quantity i)) (filter ?m (t_products s))).
      int4_ok (pr_stock r)"
    using assms(2,4) by (auto simp: list_all_iff product_check_def take_stock_def
        stock_match_def int4_ok_def)
  let ?new = "map (take_stock (it_quantity i)) (filter ?m (t_products s))"
  have up: "update_stock (it_quantity i) (it_product_id i) s =
      (Inr ?new, s\<lparr>t_products := map (debit [i]) (t_products s)\<rparr>)"
    using small assms(3,5) update_stock_debit [OF assms(1) r0]
    by (simp add: update_stock_def Let_def available_def)
  moreover have "?new \<noteq> []" using r0 by (auto simp: filter_empty_conv)
  ultimately show ?thesis by (auto simp: claim_item_def split: list.splits)
qed

lemma available_debit_other:
  assumes "it_product_id j \<noteq> it_product_id i"
  shows "available (map (debit [i]) ps) j \<longleftrightarrow> available ps j"
  using assms by (force simp: available_def stock_match_def ordered_qty_def)

lemma product_check_debit:
  assumes "distinct (map pr_id ps)" and "list_all product_check ps" and "available ps i"
    and "0 \<le> it_quantity i"
  shows "list_all product_check (map (debit [i]) ps)"
  using assms
  by (force simp: list_all_iff product_check_def available_def stock_match_def ordered_qty_def
      int4_ok_def dest: distinct_map_unique)

lemma claim_items_succeeds:
  assumes "distinct (map pr_id (t_products s))" and "list_all product_check (t_products s)"
    and "distinct (map it_product_id is)"
    and "\<forall>i\<in>set is. available (t_products s) i \<and> 0 \<le> it_quantity i \<and> int4_ok (it_quantity i)"
  shows "claim_items is s = (Inr (map (line_of (t_products s)) is),
    s\<lparr>t_products := map (debit is) (t_products s)\<rparr>)"
proof -
  have "\<exists>ls s'. claim_items is s = (Inr ls, s')"
    using assms
  proof (induction "is" arbitrary: s)
    case Nil
    then show ?case by (simp add: db_return_def)
  next
    case (Cons i "is")
    let ?t = "s\<lparr>t_products := map (debit [i]) (t_products s)\<rparr>"
    have "available (t_products s) i" "0 \<le> it_quantity i" "int4_ok (it_quantity i)"
      using Cons.prems(4) by auto
    then obtain l where l: "claim_item i s = (Inr l, ?t)"
      using claim_item_succeeds [OF Cons.prems(1,2)] by blast
    have "\<exists>ls s'. claim_items is ?t = (Inr ls, s')"
    proof (rule Cons.IH)
      show "distinct (map pr_id (t_products ?t))" using Cons.prems(1) by simp
      show "list_all product_check (t_products ?t)"
        using product_check_debit [OF Cons.prems(1,2)] Cons.prems(4) by simp
      show "distinct (map it_product_id is)" using Cons.prems(3) by simp
      show "\<forall>j\<in>set is. available (t_products ?t) j \<and> 0 \<le> it_quantity j \<and> int4_ok (it_quantity j)"
        using Cons.prems(3,4) by (auto simp: image_iff available_debit_other)
    qed
    with l show ?case by (auto simp: db_return_def)
  qed
  with claim_items_Inr [OF assms(1)] show ?thesis by fastforce
qed

lemma claim_items_available:
  assumes "distinct (map pr_id (t_products s))" and "claim_items is s = (Inr ls, s')"
    and "distinct (map it_product_id is)" and "i \<in> set is"
  shows "available (t_products s) i"
  using assms
proof (induction "is" arbitrary: s ls)
  case Nil
  then show ?case by simp
next
  case (Cons j js)
  from Cons.prems(2) obtain l t ls' where
      l: "claim_item j s = (Inr l, t)" and ls': "claim_items js t = (Inr ls', s')"
    by (auto elim!: db_bind_InrE simp: db_return_def)
  note I = claim_item_Inr [OF Cons.prems(1) l]
  show ?case
  proof (cases "i = j")
    case True
    with I(1) show ?thesis by simp
  next
    case False
    with Cons.prems(3,4) have i: "i \<in> set js" "it_product_id i \<noteq> it_product_id j"
      by (auto simp: image_iff)
    have "available (t_products t) i"
      by (rule Cons.IH [OF _ ls']) (use Cons.prems(1,3) i I(3) in simp_all)
    with i(2) I(3) show ?thesis by (simp add: available_debit_other)
  qed
qed

text \<open>
  When some product is missing or short, the first of them in the order of the loop is the one
  the request is refused for: 404 when no active product has the id, 400 when its stock is short.
\<close>

definition refusal :: "product_row list \<Rightarrow> order_item_input \<Rightarrow> exn" where
  "refusal ps i =
     (if \<exists>r\<in>set ps. pr_id r = it_product_id i \<and> pr_is_active r
      then HttpException 400 (''Insufficient stock for product '' @ show_int (it_product_id i))
      else HttpException 404 (''Product '' @ show_int (it_product_id i) @ '' not found''))"

lemma claim_item_refused:
  assumes "\<not> available (t_products s) i" and "int4_ok (it_quantity i)" and "int8_ok (it_product_id i)"
  shows "claim_item i s = (Inl (refusal (t_products s) i), s)"
proof -
  have "filter (stock_match (it_quantity i) (it_product_id i)) (t_products s) = []"
    using assms(1,3) by (auto simp: available_def filter_empty_conv)
  then have "update_stock (it_quantity i) (it_product_id i) s = (Inr [], s)"
    using assms(2,3) by (auto simp: update_stock_def Let_def filter_empty_conv map_idI)
  then show ?thesis
    by (simp add: claim_item_def refusal_def active_product_exists_def)
qed

lemma refusal_debit [simp]: "refusal (map (debit is) ps) = refusal ps"
  by (auto simp: refusal_def fun_eq_iff)

lemma claim_items_refused:
  assumes "distinct (map pr_id (t_products s))" and "list_all product_check (t_products s)"
    and "distinct (map it_product_id is)"
    and "\<forall>i\<in>set is. 0 \<le> it_quantity i \<and> int4_ok (it_quantity i) \<and> int8_ok (it_product_id i)"
    and "List.find (\<lambda>i. \<not> available (t_products s) i) is = Some i"
  shows "fst (claim_items is s) = Inl (refusal (t_products s) i)"
  using assms
proof (induction "is" arbitrary: s)
  case Nil
  then show ?case by simp
next
  case (Cons j js)
  show ?case
  proof (cases "available (t_products s) j")
    case False
    with Cons.prems(4,5) show ?thesis by (simp add: claim_item_refused)
  next
    case True
    let ?t = "s\<lparr>t_products := map (debit [j]) (t_products s)\<rparr>"
    have j: "0 \<le> it_quantity j" "int4_ok (it_quantity j)" using Cons.prems(4) by auto
    obtain l where l: "claim_item j s = (Inr l, ?t)"
      using claim_item_succeeds [OF Cons.prems(1,2) True j] by blast
    have "List.find (\<lambda>i. \<not> available (t_products ?t) i) js =
        List.find (\<lambda>i. \<not> available (t_products s) i) js"
      using Cons.prems(3) by (intro find_cong) (auto simp: image_iff available_debit_other)
    then have f: "List.find (\<lambda>i. \<not> available (t_products ?t) i) js = Some i"
      using Cons.prems(5) True by simp
    have "fst (claim_items js ?t) = Inl (refusal (t_products ?t) i)"
      using Cons.prems(1,3,4) product_check_debit [OF Cons.prems(1,2) True j(1)] f
      by (intro Cons.IH) auto
    then show ?thesis using l by (cases "claim_items js ?t") simp
  qed
qed

section \<open>The order lines\<close>

definition with_items :: "db \<Rightarrow> int \<Rightarrow> placed_line list \<Rightarrow> db" where
  "with_items s oid ls = s\<lparr>t_order_items := t_order_items s
       @ item_rows (sq_order_items (sequences s)) oid ls,
     sequences := (sequences s)\<lparr>sq_order_items := sq_order_items (sequences s) + int (length ls)\<rparr>\<rparr>"

definition line_ok :: "placed_line \<Rightarrow> bool" where
  "line_ok l \<longleftrightarrow> 1 \<le> pl_quantity l \<and> pl_quantity l \<le> 100 \<and> 0 \<le> pl_unit_price_cents l
     \<and> int4_ok (pl_unit_price_cents l)
     \<and> pl_line_total_cents l = pl_unit_price_cents l * pl_quantity l
     \<and> int4_ok (pl_line_total_cents l)"

lemma insert_items_Inr:
  assumes "insert_items oid ls s = (Inr u, s')"
  shows "s' = with_items s oid ls \<and> list_all line_ok ls \<and> distinct (map pl_product_id ls)
    \<and> (\<forall>l\<in>set ls. (oid, pl_product_id l)
          \<notin> (\<lambda>r. (oi_order_id r, oi_product_id r)) ` set (t_order_items s))
    \<and> (\<forall>l\<in>set ls. pl_product_id l \<in> pr_id ` set (t_products s))"
  using assms
proof (induction ls arbitrary: s)
  case Nil
  then show ?case by (simp add: db_return_def with_items_def)
next
  case (Cons l ls)
  from Cons.prems obtain t where
      l: "insert_item_row oid l s = (Inr (), t)" and ls: "insert_items oid ls t = (Inr u, s')"
    by (auto elim!: db_bind_InrE)
  note I = insert_item_row_Inr [OF l]
  have "line_ok l"
    using l I(1) by (auto simp: line_ok_def order_item_check_def insert_item_row_def
        split: if_splits)
  then show ?case
    using Cons.IH [OF ls] I(2,4) by (auto simp: I(5) with_items_def)
qed

lemma insert_items_succeeds:
  assumes "list_all line_ok ls" and "distinct (map pl_product_id ls)"
    and "\<forall>l\<in>set ls. (oid, pl_product_id l)
          \<notin> (\<lambda>r. (oi_order_id r, oi_product_id r)) ` set (t_order_items s)"
    and "\<forall>l\<in>set ls. pl_product_id l \<in> pr_id ` set (t_products s)"
    and "oid \<in> or_id ` set (t_orders s)"
  shows "insert_items oid ls s = (Inr (), with_items s oid ls)"
proof -
  have "\<exists>s'. insert_items oid ls s = (Inr (), s')"
    using assms
  proof (induction ls arbitrary: s)
    case Nil
    then show ?case by (simp add: db_return_def)
  next
    case (Cons l ls)
    have "insert_item_row oid l s = (Inr (), with_items s oid [l])"
      using Cons.prems
      by (auto simp: insert_item_row_def Let_def line_ok_def order_item_check_def
          with_items_def int4_ok_def)
    moreover have "\<exists>s'. insert_items oid ls (with_items s oid [l]) = (Inr (), s')"
      by (rule Cons.IH) (use Cons.prems in \<open>auto simp: with_items_def image_iff\<close>)
    ultimately show ?case by auto
  qed
  with insert_items_Inr show ?thesis by blast
qed

section \<open>The whole transaction\<close>

definition placed_order_of :: "int \<Rightarrow> place_order_input \<Rightarrow> db \<Rightarrow> placed_order" where
  "placed_order_of now input s =
     (let lines = map (line_of (t_products s)) (sort_items (pi_items input))
      in \<lparr>po_order_id = sq_orders (sequences s), po_user_id = pi_user_id input,
          po_total_cents = sum_list (map pl_line_total_cents lines),
          po_shipping_country = country_of input, po_created_at = now, po_items = lines\<rparr>)"

definition order_row_of :: "int \<Rightarrow> place_order_input \<Rightarrow> db \<Rightarrow> order_row" where
  "order_row_of now input s =
     \<lparr>or_id = sq_orders (sequences s),
      or_user_id = (case bigint_in (pi_user_id input) of Inr u \<Rightarrow> u | Inl _ \<Rightarrow> 0),
      or_status = Completed, or_total_cents = po_total_cents (placed_order_of now input s),
      or_shipping_country = (case char_in 2 (country_of input) of Inr c \<Rightarrow> c | Inl _ \<Rightarrow> []),
      or_created_at = now\<rparr>"

definition idempotency_row_of ::
  "int \<Rightarrow> string \<Rightarrow> string \<Rightarrow> placed_order \<Rightarrow> idempotency_row" where
  "idempotency_row_of now key hash order =
     \<lparr>ik_key = key, ik_order_id = po_order_id order, ik_request_hash = hash,
      ik_response_status = 201, ik_response_body = toResponseBody order, ik_created_at = now\<rparr>"

definition outbox_row_of :: "int \<Rightarrow> string \<Rightarrow> placed_order \<Rightarrow> outbox_row" where
  "outbox_row_of now eventId order =
     \<lparr>ob_id = eventId, ob_aggregate_type = ORDER_AGGREGATE,
      ob_aggregate_id = show_int (po_order_id order), ob_type = ORDER_PLACED,
      ob_payload = toOrderPlacedEvent eventId order, ob_created_at = now,
      ob_published_at = None, ob_attempts = 0, ob_last_error = None\<rparr>"

definition placed_db :: "int \<Rightarrow> string \<Rightarrow> string \<Rightarrow> place_order_input \<Rightarrow> db \<Rightarrow> db" where
  "placed_db now eventId hash input s =
     (let order = placed_order_of now input s; q = sequences s in
      s\<lparr>t_products := map (debit (pi_items input)) (t_products s),
        t_orders := t_orders s @ [order_row_of now input s],
        t_order_items := t_order_items s
          @ item_rows (sq_order_items q) (sq_orders q) (po_items order),
        t_idempotency := t_idempotency s @ (case given_key input of
            None \<Rightarrow> [] | Some k \<Rightarrow> [idempotency_row_of now k hash order]),
        t_outbox := t_outbox s @ [outbox_row_of now eventId order],
        sequences := q\<lparr>sq_orders := sq_orders q + 1,
          sq_order_items := sq_order_items q + int (length (pi_items input))\<rparr>\<rparr>)"

definition orderable :: "string \<Rightarrow> string \<Rightarrow> place_order_input \<Rightarrow> db \<Rightarrow> bool" where
  "orderable eventId hash input s \<longleftrightarrow>
     distinct (map it_product_id (pi_items input))
     \<and> (\<forall>i\<in>set (pi_items input). available (t_products s) i
          \<and> 1 \<le> it_quantity i \<and> it_quantity i \<le> 100
          \<and> int4_ok (price_of (t_products s) (it_product_id i) * it_quantity i))
     \<and> int4_ok (sum_list (map pl_line_total_cents
          (map (line_of (t_products s)) (sort_items (pi_items input)))))
     \<and> (case bigint_in (pi_user_id input) of
          Inr uid \<Rightarrow> uid \<in> us_id ` set (t_users s) | Inl _ \<Rightarrow> False)
     \<and> (case char_in 2 (country_of input) of Inr c \<Rightarrow> country_ok c | Inl _ \<Rightarrow> False)
     \<and> (case given_key input of
          Some k \<Rightarrow> k \<notin> ik_key ` set (t_idempotency s) \<and> length hash = 64 | None \<Rightarrow> True)
     \<and> eventId \<notin> ob_id ` set (t_outbox s)"

lemma orderable_iff:
  "orderable eventId hash input s \<longleftrightarrow>
     distinct (map it_product_id (pi_items input))
     \<and> (\<forall>i\<in>set (pi_items input). available (t_products s) i
          \<and> 1 \<le> it_quantity i \<and> it_quantity i \<le> 100
          \<and> int4_ok (price_of (t_products s) (it_product_id i) * it_quantity i))
     \<and> int4_ok (sum_list (map pl_line_total_cents
          (map (line_of (t_products s)) (sort_items (pi_items input)))))
     \<and> (\<exists>uid. bigint_in (pi_user_id input) = Inr uid \<and> uid \<in> us_id ` set (t_users s))
     \<and> (\<exists>c. char_in 2 (country_of input) = Inr c \<and> country_ok c)
     \<and> (\<forall>k. given_key input = Some k \<longrightarrow>
          k \<notin> ik_key ` set (t_idempotency s) \<and> length hash = 64)
     \<and> eventId \<notin> ob_id ` set (t_outbox s)"
  by (auto simp: orderable_def split: sum.splits option.splits)

lemma set_sort_items [simp]: "set (sort_items items) = set items"
  by (simp add: sort_items_def)

lemma ordered_qty_sort [simp]: "ordered_qty (sort_items items) = ordered_qty items"
proof
  fix p
  have "mset (filter (\<lambda>i. it_product_id i = p) (sort_items items)) =
      mset (filter (\<lambda>i. it_product_id i = p) items)"
    by (simp add: sort_items_def)
  then have "mset (map it_quantity (filter (\<lambda>i. it_product_id i = p) (sort_items items))) =
      mset (map it_quantity (filter (\<lambda>i. it_product_id i = p) items))"
    by (simp only: mset_map)
  then have "sum_mset (mset (map it_quantity
        (filter (\<lambda>i. it_product_id i = p) (sort_items items)))) =
      sum_mset (mset (map it_quantity (filter (\<lambda>i. it_product_id i = p) items)))"
    by (rule arg_cong)
  then show "ordered_qty (sort_items items) p = ordered_qty items p"
    unfolding ordered_qty_def by (simp only: sum_mset_sum_list)
qed

lemma debit_sort [simp]: "debit (sort_items items) = debit items"
  by (simp add: debit_def fun_eq_iff)

lemma distinct_sort_items [simp]:
  "distinct (map it_product_id (sort_items items)) \<longleftrightarrow> distinct (map it_product_id items)"
proof -
  have "mset (map it_product_id (sort_items items)) = mset (map it_product_id items)"
    by (simp add: sort_items_def)
  then show ?thesis by (rule mset_eq_imp_distinct_iff)
qed

lemma length_sort_items [simp]: "length (sort_items items) = length items"
  by (simp add: sort_items_def)

lemma sorted_sort_items: "sorted (map it_product_id (sort_items items))"
  by (simp add: sort_items_def)

lemma line_ok_line_of:
  assumes "shop_ok s" and "available (t_products s) i"
    and "1 \<le> it_quantity i" and "it_quantity i \<le> 100"
    and "int4_ok (price_of (t_products s) (it_product_id i) * it_quantity i)"
  shows "line_ok (line_of (t_products s) i)"
proof -
  obtain r where r: "r \<in> set (t_products s)" "pr_id r = it_product_id i"
    using assms(2) by (auto simp: available_def stock_match_def)
  have "price_of (t_products s) (it_product_id i) = pr_price_cents r"
    using price_of_row [of "t_products s" r] assms(1) r by (simp add: shop_ok_defs)
  moreover have "product_check r"
    using assms(1) r by (auto simp: shop_ok_defs list_all_iff)
  ultimately show ?thesis
    using assms(3-5) by (simp add: line_ok_def line_of_def product_check_def)
qed

lemma total_nonneg: "list_all line_ok ls \<Longrightarrow> 0 \<le> sum_list (map pl_line_total_cents ls)"
  by (rule sum_list_nonneg_map) (auto simp: list_all_iff line_ok_def)

lemma map_product_id_line_of [simp]: "pl_product_id \<circ> line_of ps = it_product_id"
  by (simp add: fun_eq_iff line_of_def)

lemma insertOrder_succeeds:
  assumes ok: "shop_ok s" and o: "orderable eventId hash input s"
  shows "insertOrder now input s = (Inr (placed_order_of now input s),
    with_items (s\<lparr>t_products := map (debit (pi_items input)) (t_products s),
        sequences := (sequences s)\<lparr>sq_orders := sq_orders (sequences s) + 1\<rparr>,
        t_orders := t_orders s @ [order_row_of now input s]\<rparr>)
      (sq_orders (sequences s)) (po_items (placed_order_of now input s)))"
proof -
  let ?items = "sort_items (pi_items input)"
  let ?ls = "map (line_of (t_products s)) ?items"
  let ?s1 = "s\<lparr>t_products := map (debit (pi_items input)) (t_products s)\<rparr>"
  let ?row = "order_row_of now input s"
  let ?s2 = "?s1\<lparr>sequences := (sequences s)\<lparr>sq_orders := sq_orders (sequences s) + 1\<rparr>,
      t_orders := t_orders s @ [?row]\<rparr>"
  have dp: "distinct (map pr_id (t_products s))" "list_all product_check (t_products s)"
    using ok by (auto simp: shop_ok_defs)
  have q: "\<forall>i\<in>set ?items. available (t_products s) i \<and> 0 \<le> it_quantity i \<and> int4_ok (it_quantity i)"
    using o by (force simp: orderable_iff int4_ok_def)
  have av: "\<forall>i\<in>set (pi_items input). available (t_products s) i"
    using o by (simp add: orderable_iff)
  have c1: "claim_items ?items s = (Inr ?ls, ?s1)"
    using claim_items_succeeds [OF dp _ q] o by (simp add: orderable_iff)
  have lok: "list_all line_ok ?ls"
    using o by (auto simp: list_all_iff orderable_iff intro!: line_ok_line_of [OF ok])
  obtain uid where uid: "bigint_in (pi_user_id input) = Inr uid" "uid \<in> us_id ` set (t_users s)"
    using o by (auto simp: orderable_iff)
  obtain c where c: "char_in 2 (country_of input) = Inr c" "country_ok c"
    using o by (auto simp: orderable_iff)
  have tot: "int4_ok (sum_list (map pl_line_total_cents ?ls))"
    using o by (simp add: orderable_iff)
  have row: "insert_order_row now (pi_user_id input) (sum_list (map pl_line_total_cents ?ls))
      (country_of input) ?s1 = (Inr ?row, ?s2)"
    using uid c tot total_nonneg [OF lok]
    by (simp add: insert_order_row_def order_row_of_def placed_order_of_def order_check_def Let_def)
  have fresh: "\<forall>r\<in>set (t_order_items s). oi_order_id r \<noteq> sq_orders (sequences s)"
    using ok by (fastforce simp: shop_ok_defs)
  have "insert_items (sq_orders (sequences s)) ?ls ?s2 =
      (Inr (), with_items ?s2 (sq_orders (sequences s)) ?ls)"
  proof (rule insert_items_succeeds [OF lok])
    show "distinct (map pl_product_id ?ls)"
      using o by (simp add: orderable_iff)
    show "\<forall>l\<in>set ?ls. (sq_orders (sequences s), pl_product_id l)
        \<notin> (\<lambda>r. (oi_order_id r, oi_product_id r)) ` set (t_order_items ?s2)"
      using fresh by auto
    show "\<forall>l\<in>set ?ls. pl_product_id l \<in> pr_id ` set (t_products ?s2)"
    proof
      fix l assume "l \<in> set ?ls"
      then obtain i where i: "i \<in> set (pi_items input)" "l = line_of (t_products s) i" by auto
      with av obtain r where "r \<in> set (t_products s)" "pr_id r = pl_product_id l"
        by (auto simp: available_def stock_match_def line_of_def)
      then have "pl_product_id l \<in> pr_id ` set (t_products s)" by force
      then show "pl_product_id l \<in> pr_id ` set (t_products ?s2)" by (simp add: image_map_key)
    qed
    show "sq_orders (sequences s) \<in> or_id ` set (t_orders ?s2)"
      by (simp add: order_row_of_def)
  qed
  then show ?thesis
    using c1 row
    by (simp add: insertOrder_def foldl_total db_return_def placed_order_of_def Let_def
        order_row_of_def)
qed

lemma placeOrder_tx_succeeds:
  assumes ok: "shop_ok s" and o: "orderable eventId hash input s"
  shows "placeOrder_tx now eventId no_hook hash input s =
    (Inr \<lparr>pos_status = 201, pos_body = toResponseBody (placed_order_of now input s),
          pos_replayed = False\<rparr>,
     placed_db now eventId hash input s)"
proof -
  let ?order = "placed_order_of now input s"
  let ?t = "with_items (s\<lparr>t_products := map (debit (pi_items input)) (t_products s),
        sequences := (sequences s)\<lparr>sq_orders := sq_orders (sequences s) + 1\<rparr>,
        t_orders := t_orders s @ [order_row_of now input s]\<rparr>)
      (sq_orders (sequences s)) (po_items ?order)"
  let ?u = "?t\<lparr>t_idempotency := t_idempotency s @ (case given_key input of
            None \<Rightarrow> [] | Some k \<Rightarrow> [idempotency_row_of now k hash ?order])\<rparr>"
  have fresh: "sq_orders (sequences s) \<notin> ik_order_id ` set (t_idempotency s)"
    using ok by (fastforce simp: shop_ok_defs)
  have key: "claim_key now (given_key input) (po_order_id ?order) hash (toResponseBody ?order) ?t
      = (Inr (), ?u)"
  proof (cases "given_key input")
    case None
    then show ?thesis by (simp add: claim_key_def db_return_def with_items_def)
  next
    case (Some k)
    with o have "k \<notin> ik_key ` set (t_idempotency s)" "length hash = 64"
      by (auto simp: orderable_iff)
    with Some fresh show ?thesis
      by (simp add: claim_key_def db_return_def insert_idempotency_def with_items_def
          idempotency_check_def idempotency_row_of_def placed_order_of_def order_row_of_def
          Let_def db_bind_def)
  qed
  have ob: "insert_outbox now eventId ORDER_AGGREGATE (show_int (po_order_id ?order))
      ORDER_PLACED (toOrderPlacedEvent eventId ?order) ?u
    = (Inr (), ?u\<lparr>t_outbox := t_outbox s @ [outbox_row_of now eventId ?order]\<rparr>)"
    using o by (simp add: insert_outbox_def with_items_def outbox_row_of_def orderable_iff)
  have state: "?u\<lparr>t_outbox := t_outbox s @ [outbox_row_of now eventId ?order]\<rparr> =
      placed_db now eventId hash input s"
    by (cases "given_key input"; rule db.equality)
      (simp_all add: placed_db_def with_items_def Let_def placed_order_of_def)
  have "insertOrder now input s = (Inr ?order, ?t)"
    by (rule insertOrder_succeeds [OF ok o])
  then show ?thesis
    using key ob by (simp add: placeOrder_tx_def db_return_def state)
qed

lemma insertOrder_Inr:
  assumes ok: "shop_ok s" and ins: "insertOrder now input s = (Inr order, t)"
  shows "distinct (map it_product_id (pi_items input))"
    and "\<forall>i\<in>set (pi_items input). available (t_products s) i \<and> line_ok (line_of (t_products s) i)"
    and "int4_ok (sum_list (map pl_line_total_cents
          (map (line_of (t_products s)) (sort_items (pi_items input)))))"
    and "\<exists>uid. bigint_in (pi_user_id input) = Inr uid \<and> uid \<in> us_id ` set (t_users s)"
    and "\<exists>c. char_in 2 (country_of input) = Inr c \<and> country_ok c"
    and "t_idempotency t = t_idempotency s" and "t_outbox t = t_outbox s"
proof -
  have dp: "distinct (map pr_id (t_products s))"
    using ok by (auto simp: shop_ok_defs)
  from ins obtain ls s1 row s2 where
      ls: "claim_items (sort_items (pi_items input)) s = (Inr ls, s1)"
      and row: "insert_order_row now (pi_user_id input)
          (sum_list (map pl_line_total_cents ls)) (country_of input) s1 = (Inr row, s2)"
      and it: "insert_items (or_id row) ls s2 = (Inr (), t)"
    unfolding insertOrder_def by (auto elim!: db_bind_InrE simp: db_return_def foldl_total)
  note C = claim_items_Inr [OF dp ls]
  note R = insert_order_row_Inr [OF row]
  note I = insert_items_Inr [OF it]
  show d: "distinct (map it_product_id (pi_items input))"
    using I C by simp
  have tot: "or_total_cents row = sum_list (map pl_line_total_cents ls)"
    by (subst R(1)) simp
  show "\<forall>i\<in>set (pi_items input). available (t_products s) i \<and> line_ok (line_of (t_products s) i)"
    using I C d by (auto simp: list_all_iff intro!: claim_items_available [OF dp ls])
  show "int4_ok (sum_list (map pl_line_total_cents
          (map (line_of (t_products s)) (sort_items (pi_items input)))))"
    using R(4) C tot by (simp add: order_check_def)
  show "\<exists>uid. bigint_in (pi_user_id input) = Inr uid \<and> uid \<in> us_id ` set (t_users s)"
    using R(2,5) C by auto
  show "\<exists>c. char_in 2 (country_of input) = Inr c \<and> country_ok c"
    using R(3,4) by (auto simp: order_check_def)
  show "t_idempotency t = t_idempotency s" "t_outbox t = t_outbox s"
    using C R(6) I by (auto simp: with_items_def)
qed

lemma placeOrder_tx_Inr:
  assumes ok: "shop_ok s" and tx: "placeOrder_tx now eventId no_hook hash input s = (Inr r, s')"
  shows "orderable eventId hash input s"
proof -
  from tx obtain order t u where
      ins: "insertOrder now input s = (Inr order, t)"
      and key: "claim_key now (given_key input) (po_order_id order) hash (toResponseBody order) t
        = (Inr (), u)"
      and ob: "insert_outbox now eventId ORDER_AGGREGATE (show_int (po_order_id order))
        ORDER_PLACED (toOrderPlacedEvent eventId order) u = (Inr (), s')"
    unfolding placeOrder_tx_def by (auto elim!: db_bind_InrE simp: db_return_def)
  note I = insertOrder_Inr [OF ok ins]
  have k: "\<forall>k. given_key input = Some k \<longrightarrow>
      k \<notin> ik_key ` set (t_idempotency s) \<and> length hash = 64"
    using key I(6)
    by (auto simp: claim_key_def insert_idempotency_def idempotency_check_def Let_def
        db_throw_def elim!: db_bind_InrE split: if_splits)
  have "t_outbox u = t_outbox t"
    using key by (auto simp: claim_key_def insert_idempotency_def Let_def db_return_def
        db_throw_def elim!: db_bind_InrE split: if_splits option.splits)
  with ob I(7) have e: "eventId \<notin> ob_id ` set (t_outbox s)"
    by (auto simp: insert_outbox_def split: if_splits)
  show ?thesis
    using I k e by (auto simp: orderable_iff line_ok_def line_of_def)
qed

text \<open>The transaction commits exactly on the orderable inputs, and then with the closed form.\<close>

lemma placeOrder_tx_iff:
  assumes "shop_ok s"
  shows "placeOrder_tx now eventId no_hook hash input s = (Inr r, s') \<longleftrightarrow>
    orderable eventId hash input s
    \<and> r = \<lparr>pos_status = 201, pos_body = toResponseBody (placed_order_of now input s),
           pos_replayed = False\<rparr>
    \<and> s' = placed_db now eventId hash input s"
  using placeOrder_tx_succeeds [OF assms] placeOrder_tx_Inr [OF assms] by fastforce

end
