(* ===== verification/PlaceOrderProps.thy ===== *)
theory PlaceOrderProps
  imports PlaceOrderFacts
begin

text \<open>
  The properties of \<open>placeOrder\<close>: when it commits and with which state, what it
  answers when a product is missing, that an Idempotency-Key is honoured, and that no sequence of orders oversells.
\<close>

section \<open>One request\<close>

lemma orderable_no_record:
  "orderable eventId hash input s \<Longrightarrow> lookup_replay (given_key input) hash s = Inr None"
proof (cases "given_key input")
  case None
  then show ?thesis by (simp add: lookup_replay_def)
next
  case (Some k)
  assume "orderable eventId hash input s"
  with Some have "filter (\<lambda>r. ik_key r = k) (t_idempotency s) = []"
    by (auto simp: orderable_iff filter_empty_conv)
  with Some show ?thesis by (simp add: lookup_replay_def findReplay_def)
qed

lemma lookup_replay_replayed:
  "lookup_replay key hash s = Inr (Some r) \<Longrightarrow> pos_replayed r"
  by (auto simp: lookup_replay_def findReplay_def split: option.splits list.splits if_splits)

lemma placeOrder_commits:
  assumes "shop_ok s" and "orderable eventId (hashRequest digest input) input (f s)"
    and "lookup_replay (given_key input) (hashRequest digest input) s = Inr None"
    and "shop_ok (f s)"
  shows "placeOrder digest f g now eventId no_hook input s =
    (Inr \<lparr>pos_status = 201, pos_body = toResponseBody (placed_order_of now input (f s)),
          pos_replayed = False\<rparr>,
     placed_db now eventId (hashRequest digest input) input (f s))"
  using assms by (simp add: placeOrder_def Let_def placeOrder_tx_succeeds)

lemma placeOrder_fresh:
  assumes "placeOrder digest f g now eventId hook input s = (Inr r, s')" and "\<not> pos_replayed r"
  shows "transaction (placeOrder_tx now eventId hook (hashRequest digest input) input) (f s)
    = (Inr r, s')"
  using assms
  by (auto simp: placeOrder_def Let_def lookup_replay_replayed
      split: sum.splits option.splits prod.splits if_splits dest: lookup_replay_replayed)

text \<open>The three ways a request ends, by the state it leaves.\<close>

lemma placeOrder_cases:
  assumes "placeOrder digest f g now eventId hook input s = (r, s')"
  obtains (before) "s' = s" and "lookup_replay (given_key input) (hashRequest digest input) s
        = map_sum id Some r"
    | (committed) "transaction (placeOrder_tx now eventId hook (hashRequest digest input) input)
        (f s) = (r, s')" and "is_ok r"
    | (rolled_back) e where "transaction (placeOrder_tx now eventId hook
        (hashRequest digest input) input) (f s) = (Inl e, s')" and "r = Inl e"
    | (replayed) t where "transaction (placeOrder_tx now eventId hook
        (hashRequest digest input) input) (f s) = (Inl IdempotentReplay, t)" and "s' = g t"
        and "lookup_replay (given_key input) (hashRequest digest input) s' = map_sum id Some r
          \<or> r = Inl IdempotentReplay"
  using assms
  by (auto simp: placeOrder_def Let_def split: sum.splits option.splits prod.splits if_splits)

lemma placeOrder_alone_keeps:
  assumes ok: "shop_ok s" and p: "placeOrder_alone digest now eventId input s = (r, s')"
  shows "shop_ok s'"
proof -
  have tx: "shop_ok t" if "transaction (placeOrder_tx now eventId no_hook h input) s = (q, t)" for q h t
    using that ok
    by (blast intro: shop.transaction_keeps placeOrder_tx_keeps placeOrder_tx_seqs keeps)
  from p [unfolded placeOrder_alone_def] show ?thesis
    by (cases rule: placeOrder_cases) (use ok tx in auto)
qed

section \<open>Committing\<close>

text \<open>
  C1. A request alone is accepted as a new order exactly when it is \<open>orderable\<close>: distinct active
  products with enough stock, ids, quantities and totals in range, a known user, a country code, an
  unused key. It then answers 201 with the priced lines and leaves exactly the state
  \<open>placed_db\<close>: stock taken, one order, its items, the idempotency record and one outbox row.
\<close>

theorem placeOrder_commits_iff:
  assumes "shop_ok s"
  shows "(placeOrder_alone digest now eventId input s = (Inr r, s') \<and> \<not> pos_replayed r) \<longleftrightarrow>
    orderable eventId (hashRequest digest input) input s
    \<and> r = \<lparr>pos_status = 201, pos_body = toResponseBody (placed_order_of now input s),
           pos_replayed = False\<rparr>
    \<and> s' = placed_db now eventId (hashRequest digest input) input s"
  (is "?l \<longleftrightarrow> ?o \<and> ?r")
proof
  assume ?l
  then have "transaction (placeOrder_tx now eventId no_hook (hashRequest digest input) input) s
      = (Inr r, s')"
    unfolding placeOrder_alone_def by (auto dest: placeOrder_fresh)
  then show "?o \<and> ?r"
    using placeOrder_tx_iff [OF assms] by (blast dest: transaction_InrD)
next
  assume "?o \<and> ?r"
  then show ?l
    using placeOrder_commits [of s _ digest input "\<lambda>s. s"] orderable_no_record assms
    by (simp add: placeOrder_alone_def)
qed

section \<open>Failing\<close>

lemma insertOrder_refused:
  assumes ok: "shop_ok s" and d: "distinct (map it_product_id (pi_items input))"
    and q: "\<forall>i\<in>set (pi_items input). 0 \<le> it_quantity i \<and> int4_ok (it_quantity i) \<and> int8_ok (it_product_id i)"
    and f: "List.find (\<lambda>i. \<not> available (t_products s) i) (sort_items (pi_items input)) = Some i"
  shows "fst (insertOrder now input s) = Inl (refusal (t_products s) i)"
proof -
  have "fst (claim_items (sort_items (pi_items input)) s) = Inl (refusal (t_products s) i)"
    by (rule claim_items_refused [OF _ _ _ _ f]) (use ok d q in \<open>auto simp: shop_ok_defs\<close>)
  then show ?thesis
    by (cases "claim_items (sort_items (pi_items input)) s") (simp add: insertOrder_def)
qed

lemma placeOrder_insert_fails:
  assumes "fst (insertOrder now input (f s)) = Inl e" and "e \<noteq> IdempotentReplay"
    and "lookup_replay (given_key input) (hashRequest digest input) s = Inr None"
  shows "\<exists>s'. placeOrder digest f g now eventId hook input s = (Inl e, s') \<and> same_tables (f s) s'"
proof -
  obtain v where "placeOrder_tx now eventId hook (hashRequest digest input) input (f s) = (Inl e, v)"
    using assms(1) by (cases "insertOrder now input (f s)") (simp add: placeOrder_tx_def)
  with assms(2,3) have "placeOrder digest f g now eventId hook input s = (Inl e, rollback (f s) v)"
    by (simp add: placeOrder_def Let_def)
  then show ?thesis by (auto intro: same_tables_rollback)
qed

lemma find_available:
  assumes "\<forall>i\<in>set is. int8_ok (it_product_id i)"
  shows "List.find (\<lambda>i. \<not> available ps i) is = List.find (\<lambda>i. \<not> (\<exists>r\<in>set ps. pr_id r = it_product_id i
      \<and> pr_is_active r \<and> it_quantity i \<le> pr_stock r)) is"
  by (rule find_cong) (use assms in \<open>auto simp: available_def stock_match_def\<close>)

text \<open>
  C3. A request that cannot be served says why: when a product of it has no active row with stock
  enough, the first such product in the order of the ids is named, with 404 when there is no
  active product of that id and with 400 when its stock is short. The products claimed before it
  are given back: every table is as the other requests (\<open>f\<close>) left it when the transaction began.
\<close>

theorem placeOrder_names_the_obstacle:
  assumes "shop_ok (f s)" and "distinct (map it_product_id (pi_items input))"
    and "\<forall>i\<in>set (pi_items input). 1 \<le> it_quantity i \<and> it_quantity i \<le> 2147483647
      \<and> \<bar>it_product_id i\<bar> < 2 ^ 63"
    and "\<forall>k. given_key input = Some k \<longrightarrow> k \<notin> ik_key ` set (t_idempotency s)"
    and "List.find (\<lambda>i. \<not> (\<exists>r\<in>set (t_products (f s)). pr_id r = it_product_id i
        \<and> pr_is_active r \<and> it_quantity i \<le> pr_stock r)) (sort_key it_product_id (pi_items input))
      = Some i"
  shows "\<exists>s'. placeOrder digest f g now eventId hook input s =
      (Inl (if \<exists>r\<in>set (t_products (f s)). pr_id r = it_product_id i \<and> pr_is_active r
            then HttpException 400 (''Insufficient stock for product '' @ show_int (it_product_id i))
            else HttpException 404 (''Product '' @ show_int (it_product_id i) @ '' not found'')), s')
    \<and> same_tables (f s) s'"
proof -
  have q: "\<forall>i\<in>set (pi_items input). 0 \<le> it_quantity i \<and> int4_ok (it_quantity i) \<and> int8_ok (it_product_id i)"
    using assms(3) by (fastforce simp: int4_ok_def int8_ok_def)
  have "List.find (\<lambda>i. \<not> available (t_products (f s)) i) (sort_items (pi_items input)) = Some i"
    using q assms(5) find_available [of "sort_items (pi_items input)" "t_products (f s)"]
    by (simp add: sort_items_def)
  from insertOrder_refused [OF assms(1,2) q this, of now]
  have "fst (insertOrder now input (f s)) = Inl (refusal (t_products (f s)) i)"
    .
  moreover have "lookup_replay (given_key input) (hashRequest digest input) s = Inr None"
  proof (cases "given_key input")
    case None
    then show ?thesis by (simp add: lookup_replay_def)
  next
    case (Some k)
    with assms(4) have "filter (\<lambda>r. ik_key r = k) (t_idempotency s) = []"
      by (auto simp: filter_empty_conv)
    with Some show ?thesis by (simp add: lookup_replay_def findReplay_def)
  qed
  ultimately show ?thesis
    using placeOrder_insert_fails [of now input f s "refusal (t_products (f s)) i"]
    by (simp add: refusal_def)
qed

section \<open>The Idempotency-Key\<close>

lemma placed_db_record:
  assumes "orderable eventId hash input s" and "given_key input = Some k"
  shows "filter (\<lambda>r. ik_key r = k) (t_idempotency (placed_db now eventId hash input s)) =
    [idempotency_row_of now k hash (placed_order_of now input s)]"
  using assms
  by (auto simp: placed_db_def Let_def orderable_iff idempotency_row_of_def filter_empty_conv
      image_iff)

lemma findReplay_record:
  "filter (\<lambda>r. ik_key r = k) (t_idempotency s) = [idempotency_row_of now k hash order] \<Longrightarrow>
    findReplay k h s = (if hash \<noteq> h
      then Inl (UnprocessableEntityException
        ''Idempotency-Key was already used with a different request'')
      else Inr (Some \<lparr>pos_status = 201, pos_body = toResponseBody order, pos_replayed = True\<rparr>))"
  by (simp add: findReplay_def idempotency_row_of_def)

lemma fresh_success_record:
  assumes "shop_ok s" and "placeOrder_alone digest now eventId input s = (Inr r, s1)"
    and "\<not> pos_replayed r" and "given_key input = Some k"
  shows "filter (\<lambda>r. ik_key r = k) (t_idempotency s1) =
      [idempotency_row_of now k (hashRequest digest input) (placed_order_of now input s)]
    \<and> r = \<lparr>pos_status = 201, pos_body = toResponseBody (placed_order_of now input s),
           pos_replayed = False\<rparr>"
proof -
  from assms(2,3) have "transaction (placeOrder_tx now eventId no_hook
      (hashRequest digest input) input) s = (Inr r, s1)"
    unfolding placeOrder_alone_def by (auto dest: placeOrder_fresh)
  with placeOrder_tx_iff [OF assms(1)] have
    "orderable eventId (hashRequest digest input) input s"
    "r = \<lparr>pos_status = 201, pos_body = toResponseBody (placed_order_of now input s),
           pos_replayed = False\<rparr>"
    "s1 = placed_db now eventId (hashRequest digest input) input s"
    by (blast dest: transaction_InrD)+
  with assms(4) show ?thesis by (simp add: placed_db_record)
qed

text \<open>
  C5. A retry of an accepted request under its Idempotency-Key, at any later time at which the
  key's record is still there, answers with the first answer, marked as replayed, and changes
  nothing: neither stock nor orders nor outbox, whatever other requests do meanwhile.
\<close>

theorem placeOrder_retry_replays:
  assumes "shop_ok s" and "placeOrder_alone digest now eventId input s = (Inr r, s1)"
    and "\<not> pos_replayed r" and "given_key input = Some k"
    and "filter (\<lambda>r. ik_key r = k) (t_idempotency t) = filter (\<lambda>r. ik_key r = k) (t_idempotency s1)"
  shows "placeOrder digest f g now' eventId' hook input t = (Inr (r\<lparr>pos_replayed := True\<rparr>), t)"
proof -
  note F = fresh_success_record [OF assms(1-4)]
  then have "findReplay k (hashRequest digest input) t = Inr (Some (r\<lparr>pos_replayed := True\<rparr>))"
    using assms(5) by (simp add: findReplay_record)
  with assms(4) show ?thesis by (simp add: placeOrder_def Let_def lookup_replay_def)
qed

text \<open>
  The same key with a different request (another user, country, or list of items, hence
  another hash) is refused with 422 and changes nothing.
\<close>

theorem placeOrder_key_reuse_refused:
  assumes "shop_ok s" and "placeOrder_alone digest now eventId input s = (Inr r, s1)"
    and "\<not> pos_replayed r" and "given_key input = Some k"
    and "filter (\<lambda>r. ik_key r = k) (t_idempotency t) = filter (\<lambda>r. ik_key r = k) (t_idempotency s1)"
    and "given_key other = Some k" and "hashRequest digest other \<noteq> hashRequest digest input"
  shows "placeOrder digest f g now' eventId' hook other t =
    (Inl (HttpException 422 ''Idempotency-Key was already used with a different request''), t)"
proof -
  note F = fresh_success_record [OF assms(1-4)]
  then have "findReplay k (hashRequest digest other) t = Inl (UnprocessableEntityException
        ''Idempotency-Key was already used with a different request'')"
    using assms(5,7) by (simp add: findReplay_record)
  with assms(6) show ?thesis by (simp add: placeOrder_def Let_def lookup_replay_def)
qed
section \<open>Stock\<close>

text \<open>What is on the shelf of a product, and what the orders hold of it.\<close>

definition stock_of :: "int \<Rightarrow> db \<Rightarrow> int" where
  "stock_of p s = sum_list (map pr_stock (filter (\<lambda>r. pr_id r = p) (t_products s)))"

definition sold :: "int \<Rightarrow> db \<Rightarrow> int" where
  "sold p s = sum_list (map oi_quantity (filter (\<lambda>r. oi_product_id r = p) (t_order_items s)))"

lemma stock_same_tables [simp]:
  "stock_of p (s\<lparr>sequences := q\<rparr>) = stock_of p s" "sold p (s\<lparr>sequences := q\<rparr>) = sold p s"
  by (simp_all add: stock_of_def sold_def)

lemma sold_item_rows:
  "sum_list (map oi_quantity (filter (\<lambda>r. oi_product_id r = p) (item_rows i o' ls))) =
   sum_list (map pl_quantity (filter (\<lambda>l. pl_product_id l = p) ls))"
  by (induction ls arbitrary: i) auto

lemma sold_lines:
  "sum_list (map pl_quantity (filter (\<lambda>l. pl_product_id l = p) (map (line_of ps) items))) =
   ordered_qty items p"
  by (induction items) (auto simp: ordered_qty_def line_of_def)

lemma sold_placed_db: "sold p (placed_db now eid hash input s) = sold p s + ordered_qty (pi_items input) p"
proof -
  have "sum_list (map pl_quantity (filter (\<lambda>l. pl_product_id l = p)
      (po_items (placed_order_of now input s)))) = ordered_qty (pi_items input) p"
    using sold_lines [of p "t_products s" "sort_items (pi_items input)"]
    by (simp add: placed_order_of_def Let_def)
  then show ?thesis by (simp add: sold_def placed_db_def Let_def sold_item_rows)
qed

lemma stock_debit_rows:
  assumes "distinct (map pr_id ps)" and "q p \<noteq> 0 \<Longrightarrow> p \<in> pr_id ` set ps"
  shows "sum_list (map pr_stock (filter (\<lambda>r. pr_id r = p)
      (map (\<lambda>r. r\<lparr>pr_stock := pr_stock r - q (pr_id r)\<rparr>) ps))) =
    sum_list (map pr_stock (filter (\<lambda>r. pr_id r = p) ps)) - q p"
proof (cases "p \<in> pr_id ` set ps")
  case True
  then obtain r where r: "r \<in> set ps" "p = pr_id r" by auto
  have "filter (\<lambda>r. pr_id r = p) (map (\<lambda>r. r\<lparr>pr_stock := pr_stock r - q (pr_id r)\<rparr>) ps) =
      map (\<lambda>r. r\<lparr>pr_stock := pr_stock r - q (pr_id r)\<rparr>) (filter (\<lambda>r. pr_id r = p) ps)"
    by (simp add: filter_map comp_def)
  with filter_key_single [OF assms(1) r(1)] show ?thesis by (simp add: r(2))
next
  case False
  then have "filter (\<lambda>r. pr_id r = p) ps = []" by (auto simp: filter_empty_conv)
  moreover have "filter (\<lambda>r. pr_id r = p) (map (\<lambda>r. r\<lparr>pr_stock := pr_stock r - q (pr_id r)\<rparr>) ps) = []"
    using False by (auto simp: filter_empty_conv)
  ultimately show ?thesis using False assms(2) by auto
qed

lemma stock_placed_db:
  assumes "shop_ok s" and "orderable eid hash input s"
  shows "stock_of p (placed_db now eid hash input s) = stock_of p s - ordered_qty (pi_items input) p"
proof -
  have "p \<in> pr_id ` set (t_products s)" if "ordered_qty (pi_items input) p \<noteq> 0"
  proof -
    from that have "filter (\<lambda>i. it_product_id i = p) (pi_items input) \<noteq> []"
      by (auto simp: ordered_qty_def)
    then obtain i where i: "i \<in> set (pi_items input)" "it_product_id i = p"
      by (auto simp: filter_empty_conv)
    with assms(2) have "available (t_products s) i" by (auto simp: orderable_iff)
    then obtain r where "r \<in> set (t_products s)" "pr_id r = p"
      using i(2) by (auto simp: available_def stock_match_def)
    then show ?thesis by force
  qed
  with stock_debit_rows [of "t_products s" "ordered_qty (pi_items input)" p] assms(1)
  show ?thesis
    by (simp add: stock_of_def placed_db_def Let_def debit_def [abs_def] shop_ok_defs)
qed

lemma stock_nonneg: "shop_ok s \<Longrightarrow> 0 \<le> stock_of p s"
  unfolding stock_of_def
  by (rule sum_list_nonneg_map) (auto simp: shop_ok_defs list_all_iff product_check_def)

lemma tx_stock:
  assumes ok: "shop_ok s" and p: "transaction (placeOrder_tx now eid no_hook h input) s = (r, s')"
  shows "stock_of p s' + sold p s' = stock_of p s + sold p s"
proof (cases r)
  case (Inl e)
  with p have "same_tables s s'" by (auto dest: transaction_Inl)
  then show ?thesis by (auto elim: same_tablesE)
next
  case (Inr x)
  from p [unfolded Inr] have "placeOrder_tx now eid no_hook h input s = (Inr x, s')"
    by (rule transaction_InrD)
  with placeOrder_tx_iff [OF ok] have "orderable eid h input s" "s' = placed_db now eid h input s"
    by blast+
  with ok show ?thesis by (simp add: stock_placed_db sold_placed_db)
qed

lemma placeOrder_alone_stock:
  assumes ok: "shop_ok s" and p: "placeOrder_alone digest now eid input s = (r, s')"
  shows "stock_of p s' + sold p s' = stock_of p s + sold p s"
  using p [unfolded placeOrder_alone_def]
  by (cases rule: placeOrder_cases) (use tx_stock [OF ok] in auto)

text \<open>Any sequence of orders, each served at its time with its fresh event id.\<close>

record order_request =
  rq_now :: int
  rq_event_id :: string
  rq_input :: place_order_input

definition serve_order :: "(jsval \<Rightarrow> string) \<Rightarrow> order_request \<Rightarrow> db \<Rightarrow> db" where
  "serve_order digest rq s =
     snd (placeOrder_alone digest (rq_now rq) (rq_event_id rq) (rq_input rq) s)"

definition stock_invariant :: "(int \<Rightarrow> int) \<Rightarrow> db \<Rightarrow> bool" where
  "stock_invariant tot s \<longleftrightarrow> shop_ok s \<and> (\<forall>p. stock_of p s + sold p s = tot p)"

lemma serve_order_keeps: "stock_invariant tot s \<Longrightarrow> stock_invariant tot (serve_order digest rq s)"
proof -
  assume I: "stock_invariant tot s"
  obtain r s' where p: "placeOrder_alone digest (rq_now rq) (rq_event_id rq) (rq_input rq) s = (r, s')"
    by (cases "placeOrder_alone digest (rq_now rq) (rq_event_id rq) (rq_input rq) s")
  with I placeOrder_alone_keeps placeOrder_alone_stock show ?thesis
    by (auto simp: stock_invariant_def serve_order_def)
qed

interpretation orders: step_machine "serve_order digest" "stock_invariant tot"
  by unfold_locales (rule serve_order_keeps)

text \<open>
  C4. No sequence of orders oversells: for each product, what is on the shelf plus what the
  orders hold stays what it was, the shelf is never negative, and the integrity of all tables
  (keys, foreign keys, row checks) is kept.
\<close>

theorem no_overselling:
  assumes "shop_ok s"
  shows "shop_ok (fold (serve_order digest) rqs s)
    \<and> stock_of p (fold (serve_order digest) rqs s) + sold p (fold (serve_order digest) rqs s)
        = stock_of p s + sold p s
    \<and> 0 \<le> stock_of p (fold (serve_order digest) rqs s)"
proof -
  have "stock_invariant (\<lambda>p. stock_of p s + sold p s) (fold (serve_order digest) rqs s)"
    by (rule orders.run_keeps) (use assms in \<open>simp add: stock_invariant_def\<close>)
  then show ?thesis by (simp add: stock_invariant_def stock_nonneg)
qed

section \<open>Two requests with one key\<close>

lemma race_claim:
  assumes ok: "shop_ok s" and o1: "orderable eid1 hash input s"
    and k: "given_key input = Some k"
    and t: "t = placed_db now1 eid1 hash input s"
    and ins: "insertOrder now2 input t = (Inr order, u)"
    and h: "length hash = 64"
  shows "fst (placeOrder_tx now2 eid2 no_hook hash input t) = Inl IdempotentReplay"
proof -
  have "t_idempotency u = t_idempotency t"
    using insertOrder_Inr(6) [OF _ ins] placeOrder_tx_succeeds [OF ok o1]
      stmt_keepsD [OF placeOrder_tx_keeps [OF stmt_keeps_return] ok] t by blast
  then have "k \<in> ik_key ` set (t_idempotency u)"
    by (simp add: t placed_db_def Let_def k idempotency_row_of_def)
  then have "insert_idempotency now2 k (po_order_id order) hash (toResponseBody order) u = (Inr [], u)"
    using h by (simp add: insert_idempotency_def idempotency_check_def Let_def)
  then show ?thesis
    using ins by (simp add: placeOrder_tx_def claim_key_def k db_throw_def)
qed

lemma insertOrder_any_key:
  "insertOrder now (input\<lparr>pi_idempotency_key := k\<rparr>) s = insertOrder now input s"
  by (simp add: insertOrder_def country_of_def)

text \<open>The second of two equal orders can be inserted unless the first left too little of a product.\<close>

lemma insertOrder_twice:
  assumes ok: "shop_ok s" and o: "orderable eid hash input s"
    and t: "t = placed_db now1 eid hash input s"
  shows "fst (insertOrder now2 input t) =
    (case List.find (\<lambda>i. \<not> available (t_products t) i) (sort_items (pi_items input)) of
       Some i \<Rightarrow> Inl (HttpException 400 (''Insufficient stock for product '' @ show_int (it_product_id i)))
     | None \<Rightarrow> Inr (placed_order_of now2 input t))"
proof -
  have okt: "shop_ok t"
    unfolding t
    by (rule stmt_keepsD [OF placeOrder_tx_keeps [OF stmt_keeps_return] ok placeOrder_tx_succeeds [OF ok o]])
  have pt: "t_products t = map (debit (pi_items input)) (t_products s)"
    by (simp add: t placed_db_def Let_def)
  show ?thesis
  proof (cases "List.find (\<lambda>i. \<not> available (t_products t) i) (sort_items (pi_items input))")
    case None
    let ?in = "input\<lparr>pi_idempotency_key := None\<rparr>"
    obtain e :: string where e: "e \<notin> ob_id ` set (t_outbox t)"
      using ex_new_if_finite [OF infinite_UNIV_listI, of "ob_id ` set (t_outbox t)"] by auto
    have "orderable e hash ?in t"
      unfolding orderable_iff
    proof (intro conjI)
      show "\<forall>i\<in>set (pi_items ?in). available (t_products t) i \<and> 1 \<le> it_quantity i \<and> it_quantity i \<le> 100
          \<and> int4_ok (price_of (t_products t) (it_product_id i) * it_quantity i)"
        using o None by (simp add: orderable_iff find_None_iff pt)
      show "int4_ok (sum_list (map pl_line_total_cents
          (map (line_of (t_products t)) (sort_items (pi_items ?in)))))"
        using o unfolding pt line_of_debit by (simp add: orderable_iff)
      show "\<exists>uid. bigint_in (pi_user_id ?in) = Inr uid \<and> uid \<in> us_id ` set (t_users t)"
        using o by (auto simp: orderable_iff t placed_db_def Let_def)
      show "\<exists>c. char_in 2 (country_of ?in) = Inr c \<and> country_ok c"
        using o by (simp add: orderable_iff country_of_def)
    qed (use o e in \<open>simp_all add: orderable_iff given_key_def\<close>)
    from insertOrder_succeeds [OF okt this, of now2]
    have "fst (insertOrder now2 input t) = Inr (placed_order_of now2 ?in t)"
      by (simp only: insertOrder_any_key fst_conv)
    moreover have "placed_order_of now2 ?in t = placed_order_of now2 input t"
      by (simp add: placed_order_of_def country_of_def)
    ultimately show ?thesis using None by simp
  next
    case (Some i)
    then have i: "i \<in> set (pi_items input)" by (metis find_Some_iff nth_mem set_sort_items)
    then obtain r where r: "r \<in> set (t_products s)" "pr_id r = it_product_id i" "pr_is_active r"
      using o by (auto simp: orderable_iff available_def stock_match_def)
    then have "\<exists>r\<in>set (t_products t). pr_id r = it_product_id i \<and> pr_is_active r"
      unfolding pt by force
    then have "refusal (t_products t) i =
        HttpException 400 (''Insufficient stock for product '' @ show_int (it_product_id i))"
      by (simp add: refusal_def)
    moreover have "fst (insertOrder now2 input t) = Inl (refusal (t_products t) i)"
      by (rule insertOrder_refused [OF okt _ _ Some]) (use o in \<open>auto simp: orderable_iff int4_ok_def available_def\<close>)
    ultimately show ?thesis using Some by simp
  qed
qed

text \<open>
  C6. Of two concurrent requests with one Idempotency-Key and one body only the first makes an
  order. Let it commit between the other's lookup and the other's transaction: the other leaves
  every table as the first left it, and answers with the first's response when enough stock is
  left for both, but with \<open>400 Insufficient stock\<close> for the first product the first order left too
  little of (a later retry gets the replay). \<open>g\<close> is what further requests commit before the replay
  is read, and keeps the record of the key.
\<close>

theorem concurrent_same_key_one_order:
  assumes "shop_ok s"
    and "placeOrder_alone digest now1 eid1 input s = (Inr r, t)" and "\<not> pos_replayed r"
    and "given_key input = Some k"
    and "\<And>u. filter (\<lambda>r. ik_key r = k) (t_idempotency (g u)) = filter (\<lambda>r. ik_key r = k) (t_idempotency u)"
  shows "\<exists>t'. placeOrder digest (\<lambda>s. snd (placeOrder_alone digest now1 eid1 input s)) g
      now2 eid2 no_hook input s =
     (case List.find (\<lambda>i. \<not> (\<exists>p\<in>set (t_products t). pr_id p = it_product_id i
         \<and> pr_is_active p \<and> it_quantity i \<le> pr_stock p)) (sort_key it_product_id (pi_items input)) of
        None \<Rightarrow> (Inr (r\<lparr>pos_replayed := True\<rparr>), g t')
      | Some i \<Rightarrow> (Inl (HttpException 400
          (''Insufficient stock for product '' @ show_int (it_product_id i))), t'))
    \<and> same_tables t t'"
proof -
  let ?h = "hashRequest digest input"
  let ?f = "\<lambda>s. snd (placeOrder_alone digest now1 eid1 input s)"
  have "transaction (placeOrder_tx now1 eid1 no_hook ?h input) s = (Inr r, t)"
    using assms(2,3) unfolding placeOrder_alone_def by (auto dest: placeOrder_fresh)
  with placeOrder_tx_iff [OF assms(1)] have o1: "orderable eid1 ?h input s"
    and t: "t = placed_db now1 eid1 ?h input s"
    by (blast dest: transaction_InrD)+
  have ft: "?f s = t" using assms(2) by simp
  note ins = insertOrder_twice [OF assms(1) o1 t, of now2]
  have "\<forall>i\<in>set (sort_items (pi_items input)). int8_ok (it_product_id i)"
    using o1 by (auto simp: orderable_iff available_def)
  note find = find_available [OF this, of "t_products t"]
  show ?thesis
  proof (cases "List.find (\<lambda>i. \<not> available (t_products t) i) (sort_items (pi_items input))")
    case None
    obtain order u where ins2: "insertOrder now2 input t = (Inr order, u)"
      using ins None by (cases "insertOrder now2 input t") simp
    have h: "length ?h = 64" using o1 assms(4) by (simp add: orderable_iff)
    obtain v where tx: "placeOrder_tx now2 eid2 no_hook ?h input t = (Inl IdempotentReplay, v)"
      using race_claim [OF assms(1) o1 assms(4) t ins2 h] by (metis prod.collapse)
    have rec: "filter (\<lambda>r. ik_key r = k) (t_idempotency (g (rollback t v))) =
        [idempotency_row_of now1 k ?h (placed_order_of now1 input s)]"
      using placed_db_record [OF o1 assms(4)] t by (simp add: rollback_def assms(5))
    have r: "r = \<lparr>pos_status = 201, pos_body = toResponseBody (placed_order_of now1 input s),
             pos_replayed = False\<rparr>"
      using fresh_success_record [OF assms(1-4)] by simp
    have "placeOrder digest ?f g now2 eid2 no_hook input s =
        (Inr (r\<lparr>pos_replayed := True\<rparr>), g (rollback t v)) \<and> same_tables t (rollback t v)"
      using orderable_no_record [OF o1] tx assms(4) findReplay_record [OF rec, of ?h] r
      by (simp add: placeOrder_def Let_def lookup_replay_def ft)
    then show ?thesis
      using None unfolding find by (auto simp: sort_items_def)
  next
    case (Some i)
    with ins have "fst (insertOrder now2 input (?f s)) = Inl (HttpException 400
        (''Insufficient stock for product '' @ show_int (it_product_id i)))"
      by (simp add: ft)
    then have "\<exists>s'. placeOrder digest ?f g now2 eid2 no_hook input s = (Inl (HttpException 400
        (''Insufficient stock for product '' @ show_int (it_product_id i))), s') \<and> same_tables (?f s) s'"
      by (rule placeOrder_insert_fails) (use orderable_no_record [OF o1] in simp_all)
    with Some show ?thesis unfolding find by (auto simp: sort_items_def ft)
  qed
qed

section \<open>The event of an order\<close>

lemma total_of_lines:
  "sum_list (map pl_line_total_cents (map (line_of ps) (sort_items items))) =
   (\<Sum>i\<leftarrow>items. price_of ps (it_product_id i) * it_quantity i)"
proof -
  let ?f = "\<lambda>i. price_of ps (it_product_id i) * it_quantity i"
  have "mset (map ?f (sort_items items)) = mset (map ?f items)"
    by (simp add: sort_items_def)
  then have "sum_mset (mset (map ?f (sort_items items))) = sum_mset (mset (map ?f items))"
    by (rule arg_cong)
  then have "sum_list (map ?f (sort_items items)) = sum_list (map ?f items)"
    by (simp only: sum_mset_sum_list)
  then show ?thesis by (simp add: line_of_def comp_def)
qed

text \<open>
  C8. The outbox tells every order exactly once, and the consumer reads back what was stored: an
  accepted request adds one row to \<open>orders\<close> and one to the outbox, whose payload parses to an
  event with the row's identifier, the order's user and its total, and the total is the sum of
  price times quantity over the ordered items.
\<close>

theorem accepted_order_and_event:
  assumes "shop_ok s" and "placeOrder_alone digest now eid input s = (Inr r, s')"
    and "\<not> pos_replayed r" and "eid \<noteq> []"
  shows "\<exists>o' ob. t_orders s' = t_orders s @ [o'] \<and> t_outbox s' = t_outbox s @ [ob]
    \<and> ob_id ob = eid \<and> ob_published_at ob = None \<and> ob_attempts ob = 0
    \<and> ob_aggregate_id ob = show_int (or_id o')
    \<and> or_total_cents o' = (\<Sum>i\<leftarrow>pi_items input.
          price_of (t_products s) (it_product_id i) * it_quantity i)
    \<and> parseOrderPlacedEvent (Some (ob_payload ob)) =
        Some \<lparr>ev_event_id = eid, ev_order_id = show_int (or_id o'), ev_user_id = pi_user_id input,
          ev_total_cents = Fin (of_int (or_total_cents o')), ev_body = ob_payload ob\<rparr>"
proof -
  have "transaction (placeOrder_tx now eid no_hook (hashRequest digest input) input) s = (Inr r, s')"
    using assms(2,3) unfolding placeOrder_alone_def by (auto dest: placeOrder_fresh)
  with placeOrder_tx_iff [OF assms(1)] have
    s': "s' = placed_db now eid (hashRequest digest input) input s"
    by (blast dest: transaction_InrD)
  have tot: "or_total_cents (order_row_of now input s) = (\<Sum>i\<leftarrow>pi_items input.
          price_of (t_products s) (it_product_id i) * it_quantity i)"
    by (simp add: order_row_of_def placed_order_of_def Let_def total_of_lines [simplified])
  have "ob_payload (outbox_row_of now eid (placed_order_of now input s)) =
      toOrderPlacedEvent eid (placed_order_of now input s)"
    by (simp add: outbox_row_of_def)
  with parse_toOrderPlacedEvent [OF assms(4), of "placed_order_of now input s"] tot show ?thesis
    by (intro exI [of _ "order_row_of now input s"]
        exI [of _ "outbox_row_of now eid (placed_order_of now input s)"])
      (simp add: s' placed_db_def Let_def outbox_row_of_def order_row_of_def placed_order_of_def)
qed

section \<open>A concrete shop\<close>

text \<open>One buyer, two products; the digest tells the first user's requests from the others'.\<close>

definition demo_db :: db where
  "demo_db = empty_db\<lparr>
     t_users := [\<lparr>us_id = 1, us_email = ''ada@shop.test'', us_full_name = ''Ada'',
       us_balance_cents = 0, us_password_hash = None, us_role = ''buyer'', us_created_at = 0\<rparr>],
     t_products := [
       \<lparr>pr_id = 1, pr_name = ''Lamp'', pr_price_cents = 2500, pr_stock = 3, pr_is_active = True,
        pr_created_at = 0\<rparr>,
       \<lparr>pr_id = 2, pr_name = ''Desk'', pr_price_cents = 9900, pr_stock = 1, pr_is_active = True,
        pr_created_at = 0\<rparr>],
     sequences := \<lparr>sq_products = 3, sq_orders = 1, sq_order_items = 1, sq_jobs = 1\<rparr>\<rparr>"

definition demo_digest :: "jsval \<Rightarrow> string" where
  "demo_digest v =
     replicate 63 (CHR ''a'') @ (if js_get ''userId'' v = JStr ''1'' then ''1'' else ''2'')"

definition demo_order :: "string \<Rightarrow> int \<Rightarrow> int \<Rightarrow> place_order_input" where
  "demo_order user p q = \<lparr>pi_user_id = user, pi_items = [\<lparr>it_product_id = p, it_quantity = q\<rparr>],
     pi_shipping_country = Some ''UA'', pi_idempotency_key = Some ''k1''\<rparr>"

abbreviation lamp :: place_order_input where
  "lamp \<equiv> demo_order ''1'' 1 1"

abbreviation desk :: place_order_input where
  "desk \<equiv> demo_order ''1'' 2 1"

lemma demo_ok: "shop_ok demo_db"
  by (simp add: shop_ok_defs demo_db_def empty_db_def user_check_def product_check_def
      sql_trim_def int4_ok_def)

lemma demo_orderable:
  "orderable ''e1'' (hashRequest demo_digest lamp) lamp demo_db"
  "orderable ''e1'' (hashRequest demo_digest desk) desk demo_db"
  by code_simp+

abbreviation demo_answer :: "place_order_input \<Rightarrow> place_order_result" where
  "demo_answer input \<equiv> \<lparr>pos_status = 201, pos_body = toResponseBody (placed_order_of 0 input demo_db),
     pos_replayed = False\<rparr>"

abbreviation demo_after :: "place_order_input \<Rightarrow> db" where
  "demo_after input \<equiv> placed_db 0 ''e1'' (hashRequest demo_digest input) input demo_db"

lemma demo_placed:
  "placeOrder_alone demo_digest 0 ''e1'' lamp demo_db = (Inr (demo_answer lamp), demo_after lamp)"
  "placeOrder_alone demo_digest 0 ''e1'' desk demo_db = (Inr (demo_answer desk), demo_after desk)"
  unfolding placeOrder_alone_def
  by (simp_all add: placeOrder_commits demo_orderable demo_ok orderable_no_record [OF demo_orderable(1)] orderable_no_record [OF demo_orderable(2)])

lemma demo_key [simp]: "given_key (demo_order u p q) = Some ''k1''"
  by (simp add: demo_order_def given_key_def)

lemma placeOrder_commits_iff_witness:
  "placeOrder_alone demo_digest 0 ''e1'' lamp demo_db = (Inr (demo_answer lamp), demo_after lamp)"
  using placeOrder_commits_iff [OF demo_ok, of demo_digest 0 "''e1''" lamp] demo_orderable(1) by blast

text \<open>Nine lamps are too many, and the order of the shop's two products does not matter.\<close>

definition nine_lamps :: place_order_input where
  "nine_lamps = \<lparr>pi_user_id = ''1'', pi_items = [\<lparr>it_product_id = 2, it_quantity = 1\<rparr>,
     \<lparr>it_product_id = 1, it_quantity = 9\<rparr>], pi_shipping_country = Some ''UA'', pi_idempotency_key = None\<rparr>"

lemma placeOrder_names_the_obstacle_witness:
  "\<exists>s'. placeOrder demo_digest id id 0 ''e1'' no_hook nine_lamps demo_db =
     (Inl (HttpException 400 (''Insufficient stock for product '' @ show_int 1)), s')
   \<and> same_tables demo_db s'"
proof -
  have f: "List.find (\<lambda>i. \<not> (\<exists>r\<in>set (t_products (id demo_db)). pr_id r = it_product_id i
      \<and> pr_is_active r \<and> it_quantity i \<le> pr_stock r)) (sort_key it_product_id (pi_items nine_lamps))
    = Some \<lparr>it_product_id = 1, it_quantity = 9\<rparr>"
    by code_simp
  show ?thesis
    using placeOrder_names_the_obstacle [of id demo_db nine_lamps _ demo_digest id 0 "''e1''" no_hook]
      f demo_ok by (simp add: nine_lamps_def given_key_def demo_db_def)
qed

lemma placeOrder_retry_replays_witness:
  "placeOrder demo_digest id id 7 ''e2'' no_hook lamp (demo_after lamp) =
   (Inr ((demo_answer lamp)\<lparr>pos_replayed := True\<rparr>), demo_after lamp)"
  by (rule placeOrder_retry_replays [OF demo_ok demo_placed(1) _ demo_key]) simp_all

lemma placeOrder_key_reuse_refused_witness:
  "fst (placeOrder demo_digest id id 7 ''e2'' no_hook (demo_order ''2'' 1 2) (demo_after lamp)) =
   Inl (HttpException 422 ''Idempotency-Key was already used with a different request'')"
proof -
  have "hashRequest demo_digest (demo_order ''2'' 1 2) \<noteq> hashRequest demo_digest lamp"
    by code_simp
  then show ?thesis
    using placeOrder_key_reuse_refused [OF demo_ok demo_placed(1) _ demo_key refl demo_key]
    by simp
qed

lemma no_overselling_witness:
  "0 \<le> stock_of 1 (fold (serve_order demo_digest)
     [\<lparr>rq_now = 0, rq_event_id = ''e1'', rq_input = lamp\<rparr>,
      \<lparr>rq_now = 1, rq_event_id = ''e2'', rq_input = desk\<rparr>] demo_db)"
  using no_overselling [OF demo_ok] by blast

lemma concurrent_same_key_one_order_witness:
  "\<exists>t'. placeOrder demo_digest (\<lambda>s. snd (placeOrder_alone demo_digest 0 ''e1'' lamp s))
      (\<lambda>s. s) 1 ''e2'' no_hook lamp demo_db = (Inr ((demo_answer lamp)\<lparr>pos_replayed := True\<rparr>), t')"
proof -
  have f: "List.find (\<lambda>i. \<not> (\<exists>p\<in>set (t_products (demo_after lamp)). pr_id p = it_product_id i
      \<and> pr_is_active p \<and> it_quantity i \<le> pr_stock p)) (sort_key it_product_id (pi_items lamp)) = None"
    by code_simp
  show ?thesis
    using concurrent_same_key_one_order [OF demo_ok demo_placed(1) _ demo_key, of "\<lambda>s. s" 1 "''e2''"]
    unfolding f by auto
qed

lemma accepted_order_and_event_witness:
  "\<exists>o'. t_orders (demo_after lamp) = t_orders demo_db @ [o'] \<and> or_total_cents o' = 2500"
proof -
  have "(\<Sum>i\<leftarrow>pi_items lamp. price_of (t_products demo_db) (it_product_id i) * it_quantity i) = 2500"
    by code_simp
  with accepted_order_and_event [OF demo_ok demo_placed(1)] show ?thesis by fastforce
qed

text \<open>
  A race the replay does not cover: when the other request took the last unit, the second one
  under the same key is told the stock is insufficient, where a later retry would get the replay.
\<close>

lemma race_for_last_unit:
  "fst (placeOrder demo_digest (\<lambda>s. snd (placeOrder_alone demo_digest 0 ''e1'' desk s)) (\<lambda>s. s)
      1 ''e2'' no_hook desk demo_db) = Inl (HttpException 400 ''Insufficient stock for product 2'')"
proof -
  have "fst (claim_items (sort_items (pi_items desk)) (demo_after desk)) =
      Inl (HttpException 400 ''Insufficient stock for product 2'')"
    by code_simp
  then obtain u where "placeOrder_tx 1 ''e2'' no_hook (hashRequest demo_digest desk) desk
      (demo_after desk) = (Inl (HttpException 400 ''Insufficient stock for product 2''), u)"
    by (cases "claim_items (sort_items (pi_items desk)) (demo_after desk)")
      (auto simp: placeOrder_tx_def insertOrder_def db_bind_def)
  then show ?thesis
    using orderable_no_record [OF demo_orderable(2)] demo_placed(2)
    by (simp add: placeOrder_def Let_def)
qed
end
