(* ===== verification/AuthTokens.thy ===== *)
theory AuthTokens
  imports JsValues
begin

text \<open>
  Keys, passwords and access tokens (\<open>src/auth/config.ts\<close>, \<open>password.ts\<close>, \<open>tokens.ts\<close>). The
  primitives of \<open>node:crypto\<close>, \<open>JSON.parse\<close> and the \<open>jsonwebtoken\<close> package are parameters; bytes
  are strings.
\<close>

section \<open>Configuration\<close>

definition JWT_ALG :: string where "JWT_ALG = ''ES256''"
definition JWT_ISSUER :: string where "JWT_ISSUER = ''marketplace''"
definition JWT_AUDIENCE :: string where "JWT_AUDIENCE = ''marketplace-api''"
definition ACCESS_TTL_SEC :: int where "ACCESS_TTL_SEC = 10 * 60"
definition REFRESH_TTL_SEC :: int where "REFRESH_TTL_SEC = 30 * 24 * 60 * 60"

definition AUTH_SECRET_VARS :: "string list" where
  "AUTH_SECRET_VARS =
     [''JWT_PRIVATE_KEY'', ''JWT_PUBLIC_KEY'', ''JWT_KID'', ''REFRESH_TOKEN_PEPPER'']"

type_synonym env = "string \<Rightarrow> string option"

text \<open>\<open>process.env[name]?.trim()\<close>, with \<open>undefined\<close> and the empty string both falsy.\<close>

definition env_trimmed :: "env \<Rightarrow> string \<Rightarrow> string option" where
  "env_trimmed env name = (case env name of
       Some v \<Rightarrow> if js_trim v = [] then None else Some (js_trim v)
     | None \<Rightarrow> None)"

datatype key_kind = PrivateKey | PublicKey

fun kind_text :: "key_kind \<Rightarrow> string" where
  "kind_text PrivateKey = ''private''"
| "kind_text PublicKey = ''public''"

record 'key crypto =
  cr_decode64 :: "string \<Rightarrow> string"
  cr_create :: "key_kind \<Rightarrow> string \<Rightarrow> 'key option"
  cr_type :: "'key \<Rightarrow> string"
  cr_curve :: "'key \<Rightarrow> string option"
  cr_sign :: "'key \<Rightarrow> string \<Rightarrow> string"
  cr_verify :: "'key \<Rightarrow> string \<Rightarrow> string \<Rightarrow> bool"
  cr_json :: "string \<Rightarrow> jsval option"
  cr_spki_sha256 :: "'key \<Rightarrow> string"

record 'key auth_config =
  cfg_kid :: string
  cfg_private_key :: 'key
  cfg_public_keys :: "(string \<times> 'key) list"
  cfg_pepper :: string
  cfg_fingerprint :: string

definition fingerprintOf :: "'key crypto \<Rightarrow> 'key \<Rightarrow> string" where
  "fingerprintOf cr publicKey = take 16 (cr_spki_sha256 cr publicKey)"

fun overlap_entries :: "(string \<times> jsval) list \<Rightarrow> exn + (string \<times> string) list" where
  "overlap_entries [] = Inr []"
| "overlap_entries ((kid, v) # rest) = (case v of
       JStr s \<Rightarrow>
         if js_trim s = [] then Inl (JsError (''JWT_PUBLIC_KEYS entry '' @ kid @ '' is empty''))
         else res_bind (overlap_entries rest) (\<lambda>out. Inr ((kid, s) # out))
     | _ \<Rightarrow> Inl (JsError (''JWT_PUBLIC_KEYS entry '' @ kid @ '' is empty'')))"

definition parseOverlap :: "'key crypto \<Rightarrow> string option \<Rightarrow> exn + (string \<times> string) list" where
  "parseOverlap cr raw =
     (let txt = (case raw of Some r \<Rightarrow> js_trim r | None \<Rightarrow> []) in
      if txt = [] then Inr []
      else case cr_json cr txt of
          None \<Rightarrow> Inl (JsError
            ''JWT_PUBLIC_KEYS is not JSON (expected {\"<kid>\":\"<base64 PEM>\"})'')
        | Some (JObj kvs) \<Rightarrow> overlap_entries kvs
        | Some _ \<Rightarrow> Inl (JsError ''JWT_PUBLIC_KEYS must be a JSON object of kid to base64 PEM''))"

definition parseKey :: "'key crypto \<Rightarrow> string \<Rightarrow> string \<Rightarrow> key_kind \<Rightarrow> exn + 'key" where
  "parseKey cr name b64 kind =
     (let pem = cr_decode64 cr (js_trim b64) in
      if \<not> js_includes ''-----BEGIN '' pem
      then Inl (JsError (name @ '' is not a base64-encoded PEM''))
      else case cr_create cr kind pem of
          None \<Rightarrow> Inl (JsError (name @ '' could not be parsed as a '' @ kind_text kind @ '' key''))
        | Some key \<Rightarrow>
            if cr_type cr key \<noteq> ''ec'' \<or> cr_curve cr key \<noteq> Some ''prime256v1''
            then Inl (JsError (name @ '' must be an EC P-256 key for ES256''))
            else Inr key)"

definition assertSamePair :: "'key crypto \<Rightarrow> 'key \<Rightarrow> 'key \<Rightarrow> exn + unit" where
  "assertSamePair cr privateKey publicKey =
     (let probe = ''marketplace-key-pair-check'';
          signature = cr_sign cr privateKey probe
      in if \<not> cr_verify cr publicKey probe signature
         then Inl (JsError ''JWT_PRIVATE_KEY and JWT_PUBLIC_KEY are not one key pair'')
         else Inr ())"

fun overlap_keys :: "'key crypto \<Rightarrow> (string \<times> string) list \<Rightarrow> exn + (string \<times> 'key) list" where
  "overlap_keys cr [] = Inr []"
| "overlap_keys cr ((kid, v) # rest) =
     res_bind (parseKey cr (''JWT_PUBLIC_KEYS.'' @ kid) v PublicKey) (\<lambda>key.
     res_bind (overlap_keys cr rest) (\<lambda>ks. Inr ((kid, key) # ks)))"

definition missing_secrets :: "env \<Rightarrow> string list" where
  "missing_secrets env = filter (\<lambda>name. env_trimmed env name = None) AUTH_SECRET_VARS"

definition env_value :: "env \<Rightarrow> string \<Rightarrow> string" where
  "env_value env name = (case env name of Some v \<Rightarrow> v | None \<Rightarrow> [])"

text \<open>The first argument is \<open>cached\<close>; the second component of the result its new value.\<close>

definition loadAuthConfig ::
  "'key crypto \<Rightarrow> env \<Rightarrow> 'key auth_config option
     \<Rightarrow> (exn + 'key auth_config) \<times> 'key auth_config option" where
  "loadAuthConfig cr env cached = (case cached of
       Some c \<Rightarrow> (Inr c, cached)
     | None \<Rightarrow>
         let r =
           (if missing_secrets env \<noteq> []
            then Inl (JsError (''missing required secret: '' @ js_join '', '' (missing_secrets env)))
            else
              let kid = js_trim (env_value env ''JWT_KID'') in
              res_bind (parseKey cr ''JWT_PRIVATE_KEY'' (env_value env ''JWT_PRIVATE_KEY'') PrivateKey)
                (\<lambda>privateKey.
              res_bind (parseKey cr ''JWT_PUBLIC_KEY'' (env_value env ''JWT_PUBLIC_KEY'') PublicKey)
                (\<lambda>publicKey.
              res_bind (assertSamePair cr privateKey publicKey) (\<lambda>_.
              res_bind (parseOverlap cr (env ''JWT_PUBLIC_KEYS'')) (\<lambda>overlap.
              res_bind (overlap_keys cr overlap) (\<lambda>old.
              Inr \<lparr>cfg_kid = kid, cfg_private_key = privateKey,
                   cfg_public_keys = upsert fst (kid, publicKey) old,
                   cfg_pepper = js_trim (env_value env ''REFRESH_TOKEN_PEPPER''),
                   cfg_fingerprint = fingerprintOf cr publicKey\<rparr>))))))
         in (r, case r of Inr c \<Rightarrow> Some c | Inl _ \<Rightarrow> None))"

section \<open>Passwords\<close>

definition SCRYPT_N :: nat where "SCRYPT_N = 16384"
definition SCRYPT_R :: nat where "SCRYPT_R = 8"
definition SCRYPT_P :: nat where "SCRYPT_P = 1"
definition KEY_LEN :: nat where "KEY_LEN = 32"

text \<open>
  \<open>scrypt password salt keylen (N, r, p)\<close> may throw (out of range parameters). \<open>enc\<close> and \<open>dec\<close>
  are the \<open>base64url\<close> codec of \<open>Buffer\<close>.
\<close>

type_synonym scrypt_fn =
  "string \<Rightarrow> string \<Rightarrow> nat \<Rightarrow> jsnum \<times> jsnum \<times> jsnum \<Rightarrow> exn + string"

definition encode_hash :: "(string \<Rightarrow> string) \<Rightarrow> nat \<Rightarrow> nat \<Rightarrow> nat \<Rightarrow> string \<Rightarrow> string \<Rightarrow> string" where
  "encode_hash enc n r p salt hash =
     ''scrypt$'' @ show_nat n @ ''$'' @ show_nat r @ ''$'' @ show_nat p @ ''$'' @ enc salt @ ''$''
       @ enc hash"

definition hashPassword ::
  "scrypt_fn \<Rightarrow> (string \<Rightarrow> string) \<Rightarrow> string \<Rightarrow> string \<Rightarrow> exn + string" where
  "hashPassword scrypt enc salt password =
     res_bind (scrypt password salt KEY_LEN
                (Fin (of_nat SCRYPT_N), Fin (of_nat SCRYPT_R), Fin (of_nat SCRYPT_P)))
       (\<lambda>hash. Inr (encode_hash enc SCRYPT_N SCRYPT_R SCRYPT_P salt hash))"

definition verifyPassword ::
  "scrypt_fn \<Rightarrow> (string \<Rightarrow> string) \<Rightarrow> string \<Rightarrow> string \<Rightarrow> string option \<Rightarrow> exn + bool" where
  "verifyPassword scrypt dec dummyHash password stored =
     (let against = (case stored of Some h \<Rightarrow> h | None \<Rightarrow> dummyHash);
          parts = js_split (CHR ''$'') against
      in if length parts \<noteq> 6 \<or> parts ! 0 \<noteq> ''scrypt'' then Inr False
         else
           (let n = js_Number (parts ! 1); r = js_Number (parts ! 2); p = js_Number (parts ! 3);
                salt = dec (parts ! 4); expected = dec (parts ! 5)
            in res_bind (scrypt password salt (length expected) (n, r, p)) (\<lambda>actual.
                 let same = (length actual = length expected \<and> actual = expected)
                 in Inr (stored \<noteq> None \<and> same))))"

lemma dollar_not_digit: "list_all is_digit s \<Longrightarrow> CHR ''$'' \<notin> set s"
  by (auto simp: list_all_iff is_digit_def)

lemma split_encode_hash:
  assumes "CHR ''$'' \<notin> set (enc salt)" and "CHR ''$'' \<notin> set (enc hash)"
  shows "js_split (CHR ''$'') (encode_hash enc n r p salt hash) =
    [''scrypt'', show_nat n, show_nat r, show_nat p, enc salt, enc hash]"
proof -
  have d: "CHR ''$'' \<notin> set (show_nat k)" for k
    by (rule dollar_not_digit [OF show_nat_digits])
  have "encode_hash enc n r p salt hash = ''scrypt'' @ CHR ''$'' # show_nat n @ CHR ''$'' #
      show_nat r @ CHR ''$'' # show_nat p @ CHR ''$'' # enc salt @ CHR ''$'' # enc hash"
    by (simp add: encode_hash_def)
  moreover have "CHR ''$'' \<notin> set ''scrypt''" by simp
  ultimately show ?thesis
    using d assms by (simp only: js_split_append js_split_no_sep not_False_eq_True)
qed

lemma verify_hashed:
  assumes "\<And>b. dec (enc b) = b" and "\<And>b. CHR ''$'' \<notin> set (enc b)"
    and "scrypt password salt KEY_LEN
      (Fin (of_nat SCRYPT_N), Fin (of_nat SCRYPT_R), Fin (of_nat SCRYPT_P)) = Inr hash"
  shows "hashPassword scrypt enc salt password = Inr (encode_hash enc SCRYPT_N SCRYPT_R SCRYPT_P salt hash)"
    and "verifyPassword scrypt dec dummy guess
        (Some (encode_hash enc SCRYPT_N SCRYPT_R SCRYPT_P salt hash)) =
      res_bind (scrypt guess salt (length hash)
          (Fin (of_nat SCRYPT_N), Fin (of_nat SCRYPT_R), Fin (of_nat SCRYPT_P)))
        (\<lambda>actual. Inr (actual = hash))"
proof -
  have num: "js_Number (show_nat SCRYPT_N) = Fin (of_nat SCRYPT_N)"
    "js_Number (show_nat SCRYPT_R) = Fin (of_nat SCRYPT_R)"
    "js_Number (show_nat SCRYPT_P) = Fin (of_nat SCRYPT_P)"
    by (rule js_Number_show_nat, simp add: SCRYPT_N_def SCRYPT_R_def SCRYPT_P_def)+
  show "hashPassword scrypt enc salt password = Inr (encode_hash enc SCRYPT_N SCRYPT_R SCRYPT_P salt hash)"
    using assms(3) by (simp add: hashPassword_def)
  have same: "length a = length hash \<and> a = hash \<longleftrightarrow> a = hash" for a
    by auto
  then show "verifyPassword scrypt dec dummy guess
        (Some (encode_hash enc SCRYPT_N SCRYPT_R SCRYPT_P salt hash)) =
      res_bind (scrypt guess salt (length hash)
          (Fin (of_nat SCRYPT_N), Fin (of_nat SCRYPT_R), Fin (of_nat SCRYPT_P)))
        (\<lambda>actual. Inr (actual = hash))"
    using num by (simp add: verifyPassword_def split_encode_hash assms(1,2) same)
qed

section \<open>Access tokens\<close>

definition ROLES :: "string list" where
  "ROLES = [''buyer'', ''seller'', ''admin'']"

record access_claims =
  ac_sub :: string
  ac_role :: string
  ac_jti :: string
  ac_fid :: string
  ac_exp :: jsnum

definition isRole :: "jsval \<Rightarrow> bool" where
  "isRole v = (case v of JStr s \<Rightarrow> s \<in> set ROLES | _ \<Rightarrow> False)"

definition refreshTokenHash :: "(string \<Rightarrow> string \<Rightarrow> string) \<Rightarrow> string \<Rightarrow> string \<Rightarrow> string" where
  "refreshTokenHash hmac pepper token = hmac pepper token"

text \<open>What the package decodes: the registered claims it types, the others as they are.\<close>

record jwt_payload =
  jp_sub :: "string option"
  jp_jti :: "string option"
  jp_exp :: jsval
  jp_role :: jsval
  jp_fid :: jsval

datatype jwt_decoded = DecodedString string | DecodedPayload jwt_payload

text \<open>
  The package: \<open>verify\<close> is given the key callback, the allowed algorithms, issuer, audience and the
  current time in seconds; \<open>None\<close> is any of its errors. \<open>sign\<close> is given the key, the algorithm,
  the lifetime, issuer, audience, subject, token id, key id, role, family and the current time.
\<close>

type_synonym 'key jwt_verify =
  "(string option \<Rightarrow> 'key option) \<Rightarrow> string list \<Rightarrow> string \<Rightarrow> string \<Rightarrow> int \<Rightarrow> string
     \<Rightarrow> jwt_decoded option"

type_synonym 'key jwt_sign =
  "'key \<Rightarrow> string \<Rightarrow> int \<Rightarrow> string \<Rightarrow> string \<Rightarrow> string \<Rightarrow> string \<Rightarrow> string \<Rightarrow> string \<Rightarrow> string
     \<Rightarrow> int \<Rightarrow> string"

definition keyFor :: "(string \<times> 'key) list \<Rightarrow> string option \<Rightarrow> 'key option" where
  "keyFor publicKeys kid = (case kid of
       Some k \<Rightarrow> if k = [] then None else map_of publicKeys k
     | None \<Rightarrow> None)"

definition readClaims :: "jwt_payload \<Rightarrow> access_claims option" where
  "readClaims p = (case (jp_sub p, jp_jti p, jp_exp p, jp_role p, jp_fid p) of
       (Some sub, Some jti, JNum e, JStr role, JStr fid) \<Rightarrow>
         if sub = [] \<or> jti = [] \<or> \<not> isRole (JStr role) then None
         else Some \<lparr>ac_sub = sub, ac_role = role, ac_jti = jti, ac_fid = fid, ac_exp = e\<rparr>
     | _ \<Rightarrow> None)"

definition tokens_sign ::
  "'key jwt_sign \<Rightarrow> 'key auth_config \<Rightarrow> string \<Rightarrow> string \<Rightarrow> string \<Rightarrow> string \<Rightarrow> int \<Rightarrow> string" where
  "tokens_sign jwt cfg userId role familyId jti now =
     jwt (cfg_private_key cfg) JWT_ALG ACCESS_TTL_SEC JWT_ISSUER JWT_AUDIENCE userId jti
       (cfg_kid cfg) role familyId now"

definition tokens_verify ::
  "'key jwt_verify \<Rightarrow> 'key auth_config \<Rightarrow> int \<Rightarrow> string \<Rightarrow> exn + access_claims" where
  "tokens_verify jwt cfg now token =
     (case jwt (keyFor (cfg_public_keys cfg)) [JWT_ALG] JWT_ISSUER JWT_AUDIENCE now token of
        None \<Rightarrow> Inl (JsError ''invalid access token'')
      | Some (DecodedString _) \<Rightarrow> Inl (JsError ''invalid access token'')
      | Some (DecodedPayload p) \<Rightarrow>
          (case readClaims p of
             None \<Rightarrow> Inl (JsError ''incomplete access token'')
           | Some claims \<Rightarrow> Inr claims))"

lemma readClaims_role: "readClaims p = Some c \<Longrightarrow> ac_role c \<in> set ROLES"
  by (auto simp: readClaims_def isRole_def split: option.splits jsval.splits if_splits)

end
