(* ===== verification/AuthService.thy ===== *)
theory AuthService
  imports AuthTokens Schema
begin

text \<open>
  Login, refresh rotation, logout and authentication (\<open>src/auth/auth.service.ts\<close>), the guards
  (\<open>auth.guard.ts\<close>) and the controller. Each SQL statement is a definition; \<open>now\<close> is the time of
  the transaction in milliseconds, the random values of one call are arguments.
\<close>

section \<open>Statements\<close>

definition SWEEP_BATCH :: nat where "SWEEP_BATCH = 500"

definition user_by_email :: "string \<Rightarrow> db \<Rightarrow> user_row list" where
  "user_by_email email s =
     filter (\<lambda>r. js_toLowerCase (us_email r) = js_toLowerCase email) (t_users s)"

definition refresh_rows :: "string \<Rightarrow> db \<Rightarrow> refresh_token_row list" where
  "refresh_rows hash s = filter (\<lambda>r. rt_token_hash r = hash) (t_refresh_tokens s)"

definition mark_used :: "int \<Rightarrow> string \<Rightarrow> db \<Rightarrow> db" where
  "mark_used now hash s = s\<lparr>t_refresh_tokens := map (\<lambda>r. if rt_token_hash r = hash
       then r\<lparr>rt_used_at := Some now\<rparr> else r) (t_refresh_tokens s)\<rparr>"

definition revokeFamily :: "int \<Rightarrow> string \<Rightarrow> db \<Rightarrow> db" where
  "revokeFamily now fid s = s\<lparr>
     t_refresh_tokens := map (\<lambda>r. if rt_family_id r = fid \<and> rt_revoked_at r = None
       then r\<lparr>rt_revoked_at := Some now\<rparr> else r) (t_refresh_tokens s),
     t_revoked_families := upsert rf_family_id
       \<lparr>rf_family_id = fid, rf_expires_at = now + ACCESS_TTL_SEC * 1000\<rparr> (t_revoked_families s)\<rparr>"

text \<open>\<open>to_timestamp($2)\<close> of the claim, which counts seconds.\<close>

definition to_timestamp :: "jsnum \<Rightarrow> exn + int" where
  "to_timestamp e = (case e of
       Fin q \<Rightarrow> Inr \<lceil>1000 * q\<rceil>
     | _ \<Rightarrow> Inl (pg_error ''22008''))"

definition deny_jti :: "access_claims \<Rightarrow> unit stmt" where
  "deny_jti claims s = (case to_timestamp (ac_exp claims) of
       Inl e \<Rightarrow> (Inl e, s)
     | Inr t \<Rightarrow> (Inr (), s\<lparr>t_access_denylist :=
         upsert dn_jti \<lparr>dn_jti = ac_jti claims, dn_expires_at = t\<rparr> (t_access_denylist s)\<rparr>))"

text \<open>
  One DELETE of the sweep: the oldest expired rows, at most a batch, those that another
  transaction holds locked skipped.
\<close>

definition sweep_rows :: "('r \<Rightarrow> int) \<Rightarrow> ('r \<Rightarrow> bool) \<Rightarrow> int \<Rightarrow> 'r list \<Rightarrow> 'r list" where
  "sweep_rows expires locked now rows =
     (let victims = take SWEEP_BATCH
            (sort_key expires (filter (\<lambda>r. expires r \<le> now \<and> \<not> locked r) rows))
      in filter (\<lambda>r. r \<notin> set victims) rows)"

text \<open>\<open>locked\<close> tells the keys of the rows other transactions hold.\<close>

definition sweepExpired :: "(string \<Rightarrow> bool) \<Rightarrow> int \<Rightarrow> db \<Rightarrow> db" where
  "sweepExpired locked now s = s\<lparr>
     t_refresh_tokens := sweep_rows rt_expires_at (\<lambda>r. locked (rt_token_hash r)) now
       (t_refresh_tokens s),
     t_access_denylist := sweep_rows dn_expires_at (\<lambda>r. locked (dn_jti r)) now
       (t_access_denylist s),
     t_revoked_families := sweep_rows rf_expires_at (\<lambda>r. locked (rf_family_id r)) now
       (t_revoked_families s)\<rparr>"

definition insert_refresh :: "int \<Rightarrow> string \<Rightarrow> string \<Rightarrow> int \<Rightarrow> unit stmt" where
  "insert_refresh now hash fid uid s =
     (if length hash \<noteq> 64 then (Inl check_violation, s)
      else if hash \<in> rt_token_hash ` set (t_refresh_tokens s) then (Inl unique_violation, s)
      else if uid \<notin> us_id ` set (t_users s) then (Inl foreign_key_violation, s)
      else (Inr (), s\<lparr>t_refresh_tokens := t_refresh_tokens s @
        [\<lparr>rt_token_hash = hash, rt_family_id = fid, rt_user_id = uid,
          rt_expires_at = now + REFRESH_TTL_SEC * 1000, rt_used_at = None,
          rt_revoked_at = None\<rparr>]\<rparr>))"

section \<open>Issuing\<close>

record token_pair =
  tp_access_token :: string
  tp_refresh_token :: string
  tp_token_type :: string
  tp_expires_in :: int

text \<open>
  What one deployment fixes: the HMAC, the loaded configuration, \<open>jwt.sign\<close> and \<open>jwt.verify\<close>, and
  the check of a password against a stored hash.
\<close>

record 'key auth_deps =
  ad_hmac :: "string \<Rightarrow> string \<Rightarrow> string"
  ad_config :: "'key auth_config"
  ad_sign :: "'key jwt_sign"
  ad_verify :: "'key jwt_verify"
  ad_password :: "string \<Rightarrow> string option \<Rightarrow> exn + bool"

text \<open>The time of a call and the random values it draws.\<close>

record auth_call =
  cl_now :: int
  cl_refresh_token :: string
  cl_jti :: string
  cl_family :: string
  cl_locked :: "string \<Rightarrow> bool"

definition token_hash :: "'key auth_deps \<Rightarrow> string \<Rightarrow> string" where
  "token_hash d token = refreshTokenHash (ad_hmac d) (cfg_pepper (ad_config d)) token"

definition now_sec :: "int \<Rightarrow> int" where
  "now_sec now = now div 1000"

definition insertPair :: "'key auth_deps \<Rightarrow> auth_call \<Rightarrow> int \<Rightarrow> string \<Rightarrow> string \<Rightarrow> token_pair stmt"
where
  "insertPair d c uid role fid =
     db_bind (insert_refresh (cl_now c) (token_hash d (cl_refresh_token c)) fid uid) (\<lambda>_.
     db_return \<lparr>tp_access_token = tokens_sign (ad_sign d) (ad_config d) (show_int uid) role fid
                    (cl_jti c) (now_sec (cl_now c)),
                tp_refresh_token = cl_refresh_token c, tp_token_type = ''Bearer'',
                tp_expires_in = ACCESS_TTL_SEC\<rparr>)"

definition issuePair :: "'key auth_deps \<Rightarrow> auth_call \<Rightarrow> int \<Rightarrow> string \<Rightarrow> string \<Rightarrow> token_pair stmt"
where
  "issuePair d c uid role fid =
     transaction (\<lambda>s. insertPair d c uid role fid (sweepExpired (cl_locked c) (cl_now c) s))"

definition login :: "'key auth_deps \<Rightarrow> auth_call \<Rightarrow> string \<Rightarrow> string \<Rightarrow> token_pair stmt" where
  "login d c email password s =
     (let rows = user_by_email (js_trim email) s;
          user = (case rows of [] \<Rightarrow> None | u # _ \<Rightarrow> Some u);
          stored = (case user of None \<Rightarrow> None | Some u \<Rightarrow> us_password_hash u)
      in case ad_password d password stored of
           Inl e \<Rightarrow> (Inl e, s)
         | Inr ok \<Rightarrow>
             (case user of
                None \<Rightarrow> (Inl (UnauthorizedException ''invalid credentials''), s)
              | Some u \<Rightarrow>
                  if \<not> ok \<or> \<not> isRole (JStr (us_role u))
                  then (Inl (UnauthorizedException ''invalid credentials''), s)
                  else issuePair d c (us_id u) (us_role u) (cl_family c) s))"

section \<open>Refresh\<close>

datatype refresh_outcome = Reject | Reuse string | RefreshOk token_pair

definition refresh_tx :: "'key auth_deps \<Rightarrow> auth_call \<Rightarrow> string \<Rightarrow> refresh_outcome stmt" where
  "refresh_tx d c hash s =
     (case refresh_rows hash s of
        [] \<Rightarrow> (Inr Reject, s)
      | row # _ \<Rightarrow>
          if rt_revoked_at row \<noteq> None then (Inr Reject, s)
          else if rt_used_at row \<noteq> None
          then (Inr (Reuse (rt_family_id row)), revokeFamily (cl_now c) (rt_family_id row) s)
          else if rt_expires_at row \<le> cl_now c then (Inr Reject, s)
          else (case filter (\<lambda>u. us_id u = rt_user_id row) (t_users s) of
              [] \<Rightarrow> (Inr Reject, s)
            | u # _ \<Rightarrow>
                if \<not> isRole (JStr (us_role u)) then (Inr Reject, s)
                else db_bind
                  (insertPair d c (rt_user_id row) (us_role u) (rt_family_id row))
                  (\<lambda>pair. db_return (RefreshOk pair)) (mark_used (cl_now c) hash s)))"

definition refresh :: "'key auth_deps \<Rightarrow> auth_call \<Rightarrow> string \<Rightarrow> token_pair stmt" where
  "refresh d c refreshToken s =
     (case transaction (refresh_tx d c (token_hash d refreshToken)) s of
        (Inl e, s') \<Rightarrow> (Inl e, s')
      | (Inr (Reuse _), s') \<Rightarrow> (Inl (UnauthorizedException ''unauthorized''), s')
      | (Inr Reject, s') \<Rightarrow> (Inl (UnauthorizedException ''unauthorized''), s')
      | (Inr (RefreshOk pair), s') \<Rightarrow> (Inr pair, s'))"

section \<open>Logout and authentication\<close>

definition logout :: "auth_call \<Rightarrow> access_claims \<Rightarrow> unit stmt" where
  "logout c claims =
     transaction (\<lambda>s. db_bind (deny_jti claims)
       (\<lambda>_ s. (Inr (), sweepExpired (cl_locked c) (cl_now c) s))
       (revokeFamily (cl_now c) (ac_fid claims) s))"

definition isAccessRevoked :: "int \<Rightarrow> string \<Rightarrow> string \<Rightarrow> db \<Rightarrow> bool" where
  "isAccessRevoked now jti fid s \<longleftrightarrow>
     (\<exists>r\<in>set (t_revoked_families s). rf_family_id r = fid \<and> now < rf_expires_at r)
     \<or> (\<exists>r\<in>set (t_access_denylist s). dn_jti r = jti \<and> now < dn_expires_at r)"

definition authenticate ::
  "'key auth_deps \<Rightarrow> int \<Rightarrow> string option \<Rightarrow> db \<Rightarrow> exn + access_claims" where
  "authenticate d now token s = (case token of
       None \<Rightarrow> Inl (UnauthorizedException ''unauthorized'')
     | Some t \<Rightarrow>
         if t = [] then Inl (UnauthorizedException ''unauthorized'')
         else (case tokens_verify (ad_verify d) (ad_config d) (now_sec now) t of
             Inl _ \<Rightarrow> Inl (UnauthorizedException ''unauthorized'')
           | Inr claims \<Rightarrow>
               if isAccessRevoked now (ac_jti claims) (ac_fid claims) s
               then Inl (UnauthorizedException ''unauthorized'')
               else Inr claims))"

section \<open>Guards\<close>

definition bearerToken :: "string option \<Rightarrow> string option" where
  "bearerToken header = (case header of
       None \<Rightarrow> None
     | Some h \<Rightarrow>
         if \<not> js_startsWith ''Bearer '' h then None
         else (let t = js_trim (drop (length ''Bearer '') h) in if t = [] then None else Some t))"

definition AuthGuard ::
  "'key auth_deps \<Rightarrow> int \<Rightarrow> string option \<Rightarrow> db \<Rightarrow> exn + access_claims" where
  "AuthGuard d now authorization s = authenticate d now (bearerToken authorization) s"

text \<open>\<open>roles\<close> is the metadata of the handler, else of its class.\<close>

definition RolesGuard :: "string list option \<Rightarrow> access_claims option \<Rightarrow> exn + bool" where
  "RolesGuard roles user = (case roles of
       None \<Rightarrow> Inr True
     | Some rs \<Rightarrow>
         if rs = [] then Inr True
         else (case user of
             None \<Rightarrow> Inl (UnauthorizedException ''unauthorized'')
           | Some u \<Rightarrow> if ac_role u \<notin> set rs then Inl (ForbiddenException ''forbidden'')
                       else Inr True))"

end
