(* ===== verification/AuthProps.thy ===== *)
theory AuthProps
  imports AuthService
begin

text \<open>
  What rotation, reuse detection and logout guarantee, first for one call and then along every
  sequence of calls at non-decreasing times in which a login draws a family id not used before.
\<close>

section \<open>The effect of each call on the tables\<close>

definition live :: "refresh_token_row \<Rightarrow> bool" where
  "live r \<longleftrightarrow> rt_used_at r = None \<and> rt_revoked_at r = None"

lemma sweep_rows_set: "set (sweep_rows e l now rows) \<subseteq> set rows"
  by (auto simp: sweep_rows_def Let_def)

lemma sweep_rows_keeps: "r \<in> set rows \<Longrightarrow> now < e r \<Longrightarrow> r \<in> set (sweep_rows e l now rows)"
  by (auto simp: sweep_rows_def Let_def dest: in_set_takeD)

lemma sweep_rows_filter: "\<exists>P. sweep_rows e l now rows = filter P rows"
  by (auto simp: sweep_rows_def Let_def)

lemma sweep_simps [simp]:
  "t_refresh_tokens (sweepExpired l now s) =
     sweep_rows rt_expires_at (\<lambda>r. l (rt_token_hash r)) now (t_refresh_tokens s)"
  "t_access_denylist (sweepExpired l now s) =
     sweep_rows dn_expires_at (\<lambda>r. l (dn_jti r)) now (t_access_denylist s)"
  "t_revoked_families (sweepExpired l now s) =
     sweep_rows rf_expires_at (\<lambda>r. l (rf_family_id r)) now (t_revoked_families s)"
  "t_users (sweepExpired l now s) = t_users s"
  by (simp_all add: sweepExpired_def)

definition new_refresh_row :: "'key auth_deps \<Rightarrow> auth_call \<Rightarrow> int \<Rightarrow> string \<Rightarrow> refresh_token_row"
where
  "new_refresh_row d c uid fid = \<lparr>rt_token_hash = token_hash d (cl_refresh_token c),
     rt_family_id = fid, rt_user_id = uid, rt_expires_at = cl_now c + REFRESH_TTL_SEC * 1000,
     rt_used_at = None, rt_revoked_at = None\<rparr>"

lemma new_refresh_row_simps [simp]:
  "rt_family_id (new_refresh_row d c u f) = f" "rt_used_at (new_refresh_row d c u f) = None"
  "rt_revoked_at (new_refresh_row d c u f) = None"
  "rt_token_hash (new_refresh_row d c u f) = token_hash d (cl_refresh_token c)"
  "live (new_refresh_row d c u f)"
  by (simp_all add: new_refresh_row_def live_def)

lemma insertPair_Inr:
  assumes "insertPair d c uid role fid s = (Inr pair, s')"
  shows "token_hash d (cl_refresh_token c) \<notin> rt_token_hash ` set (t_refresh_tokens s)"
    and "uid \<in> us_id ` set (t_users s)"
    and "s' = s\<lparr>t_refresh_tokens := t_refresh_tokens s @ [new_refresh_row d c uid fid]\<rparr>"
    and "tp_refresh_token pair = cl_refresh_token c"
    and "tp_access_token pair = tokens_sign (ad_sign d) (ad_config d) (show_int uid) role fid
        (cl_jti c) (now_sec (cl_now c))"
  using assms
  by (auto simp: insertPair_def insert_refresh_def new_refresh_row_def db_return_def
      elim!: db_bind_InrE split: if_splits)

lemma insertPair_Inl: "insertPair d c uid role fid s = (Inl e, s') \<Longrightarrow> s' = s"
  by (auto simp: insertPair_def insert_refresh_def db_bind_def db_return_def
      split: if_splits prod.splits sum.splits)

lemma rollback_self: "sequences t = sequences s \<Longrightarrow> rollback s t = s"
  by (simp add: rollback_def)

lemma login_cases:
  assumes "login d c email password s = (r, s')"
  obtains (refused) e where "s' = s" and "r = Inl e"
    | (issued) uid pair where "r = Inr pair"
        and "token_hash d (cl_refresh_token c) \<notin> rt_token_hash `
          set (t_refresh_tokens (sweepExpired (cl_locked c) (cl_now c) s))"
        and "s' = (sweepExpired (cl_locked c) (cl_now c) s)\<lparr>t_refresh_tokens :=
          t_refresh_tokens (sweepExpired (cl_locked c) (cl_now c) s)
            @ [new_refresh_row d c uid (cl_family c)]\<rparr>"
proof -
  have "(s' = s \<and> (\<exists>e. r = Inl e)) \<or> (\<exists>u :: user_row. issuePair d c (us_id u) (us_role u) (cl_family c) s = (r, s'))"
  proof (cases "user_by_email (js_trim email) s")
    case Nil
    with assms show ?thesis by (auto simp: login_def split: sum.splits)
  next
    case (Cons u us)
    with assms have "s' = s \<and> (\<exists>e. r = Inl e)
        \<or> issuePair d c (us_id u) (us_role u) (cl_family c) s = (r, s')"
      by (auto simp: login_def split: sum.splits if_splits)
    then show ?thesis by blast
  qed
  then show thesis
  proof
    assume "s' = s \<and> (\<exists>e. r = Inl e)"
    then show thesis using refused by blast
  next
    let ?t = "sweepExpired (cl_locked c) (cl_now c) s"
    assume "\<exists>u :: user_row. issuePair d c (us_id u) (us_role u) (cl_family c) s = (r, s')"
    then obtain u :: user_row where i: "issuePair d c (us_id u) (us_role u) (cl_family c) s = (r, s')" ..
    obtain q v where p: "insertPair d c (us_id u) (us_role u) (cl_family c) ?t = (q, v)"
      by (cases "insertPair d c (us_id u) (us_role u) (cl_family c) ?t")
    show thesis
    proof (cases q)
      case (Inl e)
      with p insertPair_Inl have "v = ?t" by blast
      with Inl p i have "s' = rollback s ?t" "r = Inl e" by (simp_all add: issuePair_def)
      then show thesis using refused rollback_self [of ?t s] by (simp add: sweepExpired_def)
    next
      case (Inr pair)
      with p i have "r = Inr pair" "s' = v" by (simp_all add: issuePair_def)
      with issued insertPair_Inr [OF p [unfolded Inr]] show thesis by blast
    qed
  qed
qed

lemma refresh_rows_Cons:
  assumes "refresh_rows hash s = row # rest"
  shows "row \<in> set (t_refresh_tokens s)" and "rt_token_hash row = hash"
proof -
  have "row \<in> set (refresh_rows hash s)" by (simp add: assms)
  then show "row \<in> set (t_refresh_tokens s)" and "rt_token_hash row = hash"
    by (simp_all add: refresh_rows_def)
qed

lemma refresh_cases:
  assumes "refresh d c token s = (r, s')"
  obtains (refused) e where "s' = s" and "r = Inl e"
    | (reuse) row rest where "refresh_rows (token_hash d token) s = row # rest"
        and "rt_revoked_at row = None" and "rt_used_at row \<noteq> None"
        and "s' = revokeFamily (cl_now c) (rt_family_id row) s"
        and "r = Inl (UnauthorizedException ''unauthorized'')"
    | (rotated) row rest u us pair where "refresh_rows (token_hash d token) s = row # rest"
        and "live row" and "cl_now c < rt_expires_at row"
        and "filter (\<lambda>u. us_id u = rt_user_id row) (t_users s) = u # us"
        and "isRole (JStr (us_role u))" and "r = Inr pair"
        and "insertPair d c (rt_user_id row) (us_role u) (rt_family_id row)
          (mark_used (cl_now c) (token_hash d token) s) = (Inr pair, s')"
proof (cases "refresh_rows (token_hash d token) s")
  case Nil
  with assms show ?thesis by (intro refused) (auto simp: refresh_def refresh_tx_def)
next
  case (Cons row rest)
  let ?h = "token_hash d token"
  consider "rt_revoked_at row \<noteq> None" | "rt_revoked_at row = None" "rt_used_at row \<noteq> None"
    | "live row" "rt_expires_at row \<le> cl_now c" | "live row" "cl_now c < rt_expires_at row"
    by (force simp: live_def)
  then show ?thesis
  proof cases
    case 1
    with assms Cons show ?thesis by (intro refused) (auto simp: refresh_def refresh_tx_def)
  next
    case 2
    with assms Cons show ?thesis by (intro reuse [OF Cons]) (auto simp: refresh_def refresh_tx_def)
  next
    case 3
    with assms Cons show ?thesis
      by (intro refused) (auto simp: refresh_def refresh_tx_def live_def)
  next
    case 4
    show ?thesis
    proof (cases "filter (\<lambda>u. us_id u = rt_user_id row) (t_users s)")
      case Nil
      with 4 assms Cons show ?thesis
        by (intro refused) (auto simp: refresh_def refresh_tx_def live_def)
    next
      case (Cons u us)
      note us = Cons
      let ?m = "mark_used (cl_now c) ?h s"
      obtain q v where p: "insertPair d c (rt_user_id row) (us_role u) (rt_family_id row) ?m = (q, v)"
        by (cases "insertPair d c (rt_user_id row) (us_role u) (rt_family_id row) ?m")
      show ?thesis
      proof (cases "isRole (JStr (us_role u))")
        case False
        with 4 assms us \<open>refresh_rows ?h s = row # rest\<close> show ?thesis
          by (intro refused) (auto simp: refresh_def refresh_tx_def live_def)
      next
        case True
        show ?thesis
        proof (cases q)
          case (Inl e)
          with p insertPair_Inl have "v = ?m" by blast
          with Inl p True 4 assms us \<open>refresh_rows ?h s = row # rest\<close> show ?thesis
            by (intro refused)
              (auto simp: refresh_def refresh_tx_def live_def rollback_def mark_used_def)
        next
          case (Inr pair)
          with p True 4 assms us \<open>refresh_rows ?h s = row # rest\<close> show ?thesis
            by (intro rotated) (auto simp: refresh_def refresh_tx_def live_def db_return_def)
        qed
      qed
    qed
  qed
qed

lemma logout_cases:
  assumes "logout c claims s = (r, s')"
  obtains (failed) e where "s' = s" and "r = Inl e"
    | (logged_out) t where "r = Inr ()" and "to_timestamp (ac_exp claims) = Inr t"
        and "s' = sweepExpired (cl_locked c) (cl_now c)
          ((revokeFamily (cl_now c) (ac_fid claims) s)\<lparr>t_access_denylist :=
            upsert dn_jti \<lparr>dn_jti = ac_jti claims, dn_expires_at = t\<rparr> (t_access_denylist s)\<rparr>)"
  using assms
  by (auto simp: logout_def deny_jti_def db_bind_def transaction_def rollback_def revokeFamily_def
      split: sum.splits)

section \<open>One live token per family\<close>

definition auth_inv :: "string set \<Rightarrow> db \<Rightarrow> bool" where
  "auth_inv U s \<longleftrightarrow> distinct (map rt_token_hash (t_refresh_tokens s))
     \<and> distinct (map rt_family_id (filter live (t_refresh_tokens s)))
     \<and> rt_family_id ` set (t_refresh_tokens s) \<subseteq> U"

definition family_dead :: "string \<Rightarrow> db \<Rightarrow> bool" where
  "family_dead fid s \<longleftrightarrow> (\<forall>r\<in>set (t_refresh_tokens s). rt_family_id r = fid \<longrightarrow> rt_revoked_at r \<noteq> None)"

definition denied_until :: "string \<Rightarrow> int \<Rightarrow> int \<Rightarrow> db \<Rightarrow> bool" where
  "denied_until fid deadline now s \<longleftrightarrow>
     (now < deadline \<longrightarrow> (\<exists>r\<in>set (t_revoked_families s). rf_family_id r = fid \<and> deadline \<le> rf_expires_at r))"

lemma filter_live_map:
  assumes "\<And>r. \<not> P r \<Longrightarrow> f r = r" and "\<And>r. P r \<Longrightarrow> \<not> live (f r)"
  shows "filter live (map f rows) = filter (\<lambda>r. live r \<and> \<not> P r) rows"
proof (induction rows)
  case (Cons r rows)
  with assms show ?case by (cases "P r") auto
qed simp

lemma distinct_map_filter_mono:
  "distinct (map k (filter P xs)) \<Longrightarrow> distinct (map k (filter (\<lambda>x. P x \<and> Q x) xs))"
proof -
  assume "distinct (map k (filter P xs))"
  then have "distinct (map k (filter Q (filter P xs)))" by (rule distinct_map_filter)
  then show ?thesis by (simp add: conj_commute)
qed

lemma auth_inv_filter:
  assumes "auth_inv U s" and "t_refresh_tokens s' = filter P (t_refresh_tokens s)"
  shows "auth_inv U s'"
proof -
  have "distinct (map rt_family_id (filter (\<lambda>r. live r \<and> P r) (t_refresh_tokens s)))"
    using assms(1) by (intro distinct_map_filter_mono) (simp add: auth_inv_def)
  with assms show ?thesis
    by (auto simp: auth_inv_def distinct_map_filter conj_commute)
qed

lemma auth_inv_append:
  assumes "auth_inv U s" and "t_refresh_tokens s' = t_refresh_tokens s @ [row]" and "live row"
    and "rt_token_hash row \<notin> rt_token_hash ` set (t_refresh_tokens s)"
    and "rt_family_id row \<notin> rt_family_id ` set (filter live (t_refresh_tokens s))"
    and "U' = insert (rt_family_id row) U"
  shows "auth_inv U' s'"
  using assms by (auto simp: auth_inv_def)

lemma auth_inv_map:
  assumes "auth_inv U s" and "t_refresh_tokens s' = map f (t_refresh_tokens s)"
    and "\<And>r. rt_token_hash (f r) = rt_token_hash r" and "\<And>r. rt_family_id (f r) = rt_family_id r"
    and "\<And>r. \<not> P r \<Longrightarrow> f r = r" and "\<And>r. P r \<Longrightarrow> \<not> live (f r)"
  shows "auth_inv U s'"
proof -
  have h: "map rt_token_hash (map f (t_refresh_tokens s)) = map rt_token_hash (t_refresh_tokens s)"
    using assms(3) by simp
  have hd: "distinct (map rt_token_hash (t_refresh_tokens s'))"
    unfolding assms(2) h using assms(1) by (simp add: auth_inv_def)
  have "distinct (map rt_family_id (filter (\<lambda>r. live r \<and> \<not> P r) (t_refresh_tokens s)))"
    using assms(1) by (intro distinct_map_filter_mono) (simp add: auth_inv_def)
  moreover have "filter live (map f (t_refresh_tokens s)) =
      filter (\<lambda>r. live r \<and> \<not> P r) (t_refresh_tokens s)"
    by (rule filter_live_map) (use assms(5,6) in auto)
  ultimately have "distinct (map rt_family_id (filter live (map f (t_refresh_tokens s))))"
    by simp
  with assms(1,2,4) hd show ?thesis by (auto simp: auth_inv_def)
qed

lemma auth_inv_revoke: "auth_inv U s \<Longrightarrow> auth_inv U (revokeFamily now fid s)"
  by (rule auth_inv_map [where P = "\<lambda>r. rt_family_id r = fid \<and> rt_revoked_at r = None"
        and f = "\<lambda>r. if rt_family_id r = fid \<and> rt_revoked_at r = None
          then r\<lparr>rt_revoked_at := Some now\<rparr> else r"])
    (auto simp: revokeFamily_def live_def)

lemma auth_inv_mark: "auth_inv U s \<Longrightarrow> auth_inv U (mark_used now h s)"
  by (rule auth_inv_map [where P = "\<lambda>r. rt_token_hash r = h"
        and f = "\<lambda>r. if rt_token_hash r = h then r\<lparr>rt_used_at := Some now\<rparr> else r"])
    (auto simp: mark_used_def live_def)

lemma auth_inv_sweep: "auth_inv U s \<Longrightarrow> auth_inv U (sweepExpired l now s)"
proof -
  assume inv: "auth_inv U s"
  obtain P where P: "sweep_rows rt_expires_at (\<lambda>r. l (rt_token_hash r)) now (t_refresh_tokens s) =
      filter P (t_refresh_tokens s)"
    using sweep_rows_filter by blast
  show ?thesis by (rule auth_inv_filter [OF inv, where P = P]) (simp only: sweep_simps P)
qed

lemma auth_inv_tables:
  "auth_inv U s \<Longrightarrow> t_refresh_tokens s' = t_refresh_tokens s \<Longrightarrow> auth_inv U s'"
  by (simp add: auth_inv_def)

lemma auth_inv_login:
  assumes inv: "auth_inv U s" and l: "login d c email password s = (r, s')" and f: "cl_family c \<notin> U"
  shows "auth_inv (insert (cl_family c) U) s'"
  using l
proof (cases rule: login_cases)
  case refused
  with inv show ?thesis by (auto simp: auth_inv_def)
next
  case (issued uid pair)
  let ?t = "sweepExpired (cl_locked c) (cl_now c) s"
  have inv': "auth_inv U ?t" using inv by (rule auth_inv_sweep)
  then have "cl_family c \<notin> rt_family_id ` set (filter live (t_refresh_tokens ?t))"
    using f unfolding auth_inv_def by fastforce
  then show ?thesis
    using inv' issued(2,3)
    by (intro auth_inv_append [of U ?t s' "new_refresh_row d c uid (cl_family c)"])
      (simp_all del: sweep_simps)
qed

lemma auth_inv_refresh:
  assumes inv: "auth_inv U s" and r: "refresh d c token s = (r, s')"
  shows "auth_inv U s'"
  using r
proof (cases rule: refresh_cases)
  case refused
  with inv show ?thesis by simp
next
  case reuse
  with inv show ?thesis by (simp add: auth_inv_revoke)
next
  case (rotated row rest u us pair)
  let ?h = "token_hash d token"
  let ?t = "mark_used (cl_now c) ?h s"
  note row = refresh_rows_Cons [OF rotated(1)]
  note I = insertPair_Inr [OF rotated(7)]
  have inv': "auth_inv U ?t" using inv by (rule auth_inv_mark)
  have "rt_family_id row \<notin> rt_family_id ` set (filter live (t_refresh_tokens ?t))"
  proof
    assume "rt_family_id row \<in> rt_family_id ` set (filter live (t_refresh_tokens ?t))"
    then obtain x where x: "x \<in> set (t_refresh_tokens s)" "live x" "rt_token_hash x \<noteq> ?h"
        "rt_family_id x = rt_family_id row"
      by (auto simp: mark_used_def live_def split: if_splits)
    with row rotated(2) have "x \<in> set (filter live (t_refresh_tokens s))"
      "row \<in> set (filter live (t_refresh_tokens s))" by auto
    with inv x(4) have "x = row" by (auto simp: auth_inv_def intro: distinct_map_unique)
    with x(3) row(2) show False by simp
  qed
  then have "auth_inv (insert (rt_family_id row) U) s'"
    using inv' I(1,3)
    by (intro auth_inv_append [of U ?t s' "new_refresh_row d c (rt_user_id row) (rt_family_id row)"])
      simp_all
  moreover have "rt_family_id row \<in> U" using inv row by (auto simp: auth_inv_def)
  ultimately show ?thesis by (simp add: insert_absorb)
qed

lemma auth_inv_logout:
  assumes "auth_inv U s" and "logout c claims s = (r, s')"
  shows "auth_inv U s'"
  using assms(2)
proof (cases rule: logout_cases)
  case failed
  with assms(1) show ?thesis by simp
next
  case (logged_out t)
  let ?u = "(revokeFamily (cl_now c) (ac_fid claims) s)\<lparr>t_access_denylist :=
            upsert dn_jti \<lparr>dn_jti = ac_jti claims, dn_expires_at = t\<rparr> (t_access_denylist s)\<rparr>"
  have "auth_inv U ?u"
    by (rule auth_inv_tables [OF auth_inv_revoke [OF assms(1)]]) simp
  with logged_out show ?thesis by (simp add: auth_inv_sweep)
qed

end
