(* ===== verification/AuthRuns.thy ===== *)
theory AuthRuns
  imports AuthProps
begin

text \<open>
  Sequences of logins, refreshes and logouts, and the properties of sessions: rotation, theft
  detection, at most one live token per family, and that signing out is final.
\<close>

section \<open>Runs\<close>

text \<open>
  \<open>auth_run d s t U s' t' U'\<close>: from the tables \<open>s\<close> at time \<open>t\<close>, with the family ids \<open>U\<close> drawn so
  far, calls at non-decreasing times lead to \<open>s'\<close> at \<open>t'\<close>; a login draws an id outside \<open>U\<close>.
\<close>

inductive auth_run ::
  "'key auth_deps \<Rightarrow> db \<Rightarrow> int \<Rightarrow> string set \<Rightarrow> db \<Rightarrow> int \<Rightarrow> string set \<Rightarrow> bool"
  for d s0 t0 U0 where
  run_start: "auth_run d s0 t0 U0 s0 t0 U0"
| run_login: "auth_run d s0 t0 U0 s t U \<Longrightarrow> t \<le> cl_now c \<Longrightarrow> cl_family c \<notin> U \<Longrightarrow>
    login d c email password s = (r, s') \<Longrightarrow>
    auth_run d s0 t0 U0 s' (cl_now c) (insert (cl_family c) U)"
| run_refresh: "auth_run d s0 t0 U0 s t U \<Longrightarrow> t \<le> cl_now c \<Longrightarrow>
    refresh d c token s = (r, s') \<Longrightarrow> auth_run d s0 t0 U0 s' (cl_now c) U"
| run_logout: "auth_run d s0 t0 U0 s t U \<Longrightarrow> t \<le> cl_now c \<Longrightarrow>
    logout c claims s = (r', s') \<Longrightarrow> auth_run d s0 t0 U0 s' (cl_now c) U"
| run_wait: "auth_run d s0 t0 U0 s t U \<Longrightarrow> t \<le> t' \<Longrightarrow> auth_run d s0 t0 U0 s t' U"

lemma auth_run_inv: "auth_run d s0 t0 U0 s t U \<Longrightarrow> auth_inv U0 s0 \<Longrightarrow> auth_inv U s"
  by (induction rule: auth_run.induct)
    (auto intro: auth_inv_login auth_inv_refresh auth_inv_logout)

lemma auth_run_families: "auth_run d s0 t0 U0 s t U \<Longrightarrow> U0 \<subseteq> U"
  by (induction rule: auth_run.induct) auto

lemma auth_run_time: "auth_run d s0 t0 U0 s t U \<Longrightarrow> t0 \<le> t"
  by (induction rule: auth_run.induct) auto

text \<open>
  C10. From a database without tokens, however logins, refreshes and logouts are interleaved, a family of refresh tokens has at
  most one token that is neither used nor revoked, and no two tokens share a hash.
\<close>

theorem one_live_token_per_family:
  assumes "auth_run d s0 t0 U0 s t U" and "t_refresh_tokens s0 = []"
    and "r1 \<in> set (t_refresh_tokens s)" and "r2 \<in> set (t_refresh_tokens s)"
    and "rt_family_id r1 = rt_family_id r2"
    and "rt_used_at r1 = None \<and> rt_revoked_at r1 = None"
    and "rt_used_at r2 = None \<and> rt_revoked_at r2 = None"
  shows "r1 = r2"
proof -
  have "auth_inv U0 s0" using assms(2) by (simp add: auth_inv_def)
  with assms(1) have "auth_inv U s" by (rule auth_run_inv)
  then show ?thesis
    using assms(3-7)
    by (intro distinct_map_unique [of rt_family_id "filter live (t_refresh_tokens s)"])
      (auto simp: auth_inv_def live_def)
qed

section \<open>Signing out\<close>

text \<open>What revoking a family leaves, and that every later call keeps it.\<close>

definition signed_out :: "string \<Rightarrow> int \<Rightarrow> int \<Rightarrow> db \<Rightarrow> bool" where
  "signed_out fid since now s \<longleftrightarrow>
     family_dead fid s \<and> denied_until fid (since + ACCESS_TTL_SEC * 1000) now s"

lemma revokeFamily_simps [simp]:
  "t_refresh_tokens (revokeFamily now fid s) = map (\<lambda>r. if rt_family_id r = fid
     \<and> rt_revoked_at r = None then r\<lparr>rt_revoked_at := Some now\<rparr> else r) (t_refresh_tokens s)"
  "t_revoked_families (revokeFamily now fid s) = upsert rf_family_id
     \<lparr>rf_family_id = fid, rf_expires_at = now + ACCESS_TTL_SEC * 1000\<rparr> (t_revoked_families s)"
  "t_access_denylist (revokeFamily now fid s) = t_access_denylist s"
  by (simp_all add: revokeFamily_def)

lemma family_dead_revoke: "family_dead fid (revokeFamily now fid s)"
  unfolding family_dead_def revokeFamily_simps set_map ball_simps(9) by simp

lemma denied_untilI:
  "r \<in> set (t_revoked_families s) \<Longrightarrow> rf_family_id r = fid \<Longrightarrow> e \<le> rf_expires_at r \<Longrightarrow>
    denied_until fid e now s"
  by (auto simp: denied_until_def)

lemma denied_revoke:
  "e \<le> now + ACCESS_TTL_SEC * 1000 \<Longrightarrow> denied_until fid e now (revokeFamily now fid s)"
  by (rule denied_untilI [OF _ _ _]) (simp_all only: revokeFamily_simps, rule upsert_in, simp_all)

lemma family_dead_tables:
  "family_dead fid s \<Longrightarrow> t_refresh_tokens s' = t_refresh_tokens s \<Longrightarrow> family_dead fid s'"
  by (simp add: family_dead_def)

lemma family_dead_more_revoked: "family_dead fid s \<Longrightarrow> family_dead fid (revokeFamily now fid' s)"
  unfolding family_dead_def revokeFamily_simps set_map ball_simps(9) by simp

lemma family_dead_sweep: "family_dead fid s \<Longrightarrow> family_dead fid (sweepExpired l now s)"
  using sweep_rows_set by (fastforce simp: family_dead_def)

lemma denied_later: "denied_until fid e t s \<Longrightarrow> t \<le> t' \<Longrightarrow> denied_until fid e t' s"
  by (auto simp: denied_until_def)

lemma denied_tables:
  "denied_until fid e t s \<Longrightarrow> t_revoked_families s' = t_revoked_families s \<Longrightarrow>
    denied_until fid e t s'"
  by (simp add: denied_until_def)

lemma denied_more_revoked:
  assumes "denied_until fid e t s" and "t \<le> now" and "e \<le> now + ACCESS_TTL_SEC * 1000"
  shows "denied_until fid e now (revokeFamily now fid' s)"
proof (cases "fid = fid' \<or> e \<le> now")
  case True
  then show ?thesis
    using denied_revoke [OF assms(3), of fid s] by (auto simp: denied_until_def)
next
  case False
  with assms(1,2) obtain r where "r \<in> set (t_revoked_families s)" "rf_family_id r = fid"
      "e \<le> rf_expires_at r"
    by (auto simp: denied_until_def)
  with False show ?thesis
    by (intro denied_untilI [of r]) (auto intro!: upsert_keeps_other)
qed

lemma denied_sweep:
  assumes "denied_until fid e now s"
  shows "denied_until fid e now (sweepExpired l now s)"
  using assms sweep_rows_keeps [of _ "t_revoked_families s" now rf_expires_at]
  by (fastforce simp: denied_until_def)

lemma signed_out_login:
  assumes "signed_out fid since t s" and "t \<le> cl_now c" and "cl_family c \<noteq> fid"
    and "login d c email password s = (r, s')"
  shows "signed_out fid since (cl_now c) s'"
  using assms(4)
proof (cases rule: login_cases)
  case refused
  with assms(1,2) show ?thesis by (auto simp: signed_out_def intro: denied_later)
next
  case (issued uid pair)
  let ?t = "sweepExpired (cl_locked c) (cl_now c) s"
  have "family_dead fid ?t" "denied_until fid (since + ACCESS_TTL_SEC * 1000) (cl_now c) ?t"
    using assms(1,2) unfolding signed_out_def
    by (auto intro!: family_dead_sweep denied_sweep intro: denied_later)
  then show ?thesis
    using issued(3) assms(3) by (auto simp: signed_out_def family_dead_def denied_until_def)
qed

lemma signed_out_refresh:
  assumes "signed_out fid since t s" and "t \<le> cl_now c" and "since \<le> t"
    and "refresh d c token s = (r, s')"
  shows "signed_out fid since (cl_now c) s'"
  using assms(4)
proof (cases rule: refresh_cases)
  case refused
  with assms(1,2) show ?thesis by (auto simp: signed_out_def intro: denied_later)
next
  case reuse
  with assms(1-3) show ?thesis
    by (auto simp: signed_out_def intro!: family_dead_more_revoked denied_more_revoked)
next
  case (rotated row rest u us pair)
  note I = insertPair_Inr [OF rotated(7)]
  have "rt_family_id row \<noteq> fid"
    using assms(1) rotated(2) refresh_rows_Cons(1) [OF rotated(1)]
    by (auto simp: signed_out_def family_dead_def live_def)
  then have "family_dead fid s'"
    using assms(1) I(3) by (auto simp: signed_out_def family_dead_def mark_used_def)
  moreover have "t_revoked_families s' = t_revoked_families s"
    using I(3) by (simp add: mark_used_def)
  ultimately show ?thesis
    using assms(1,2) unfolding signed_out_def by (blast intro: denied_tables denied_later)
qed

lemma signed_out_after_logout:
  assumes "logout c claims s = (r, s')" and "r = Inr ()"
  shows "signed_out (ac_fid claims) (cl_now c) (cl_now c) s'"
  using assms(1)
proof (cases rule: logout_cases)
  case failed
  with assms(2) show ?thesis by simp
next
  case (logged_out t)
  let ?v = "revokeFamily (cl_now c) (ac_fid claims) s"
  let ?u = "?v\<lparr>t_access_denylist :=
            upsert dn_jti \<lparr>dn_jti = ac_jti claims, dn_expires_at = t\<rparr> (t_access_denylist s)\<rparr>"
  have "family_dead (ac_fid claims) ?u"
    by (rule family_dead_tables [OF family_dead_revoke]) simp
  moreover have "denied_until (ac_fid claims) (cl_now c + ACCESS_TTL_SEC * 1000) (cl_now c) ?u"
    by (rule denied_tables [OF denied_revoke [OF order_refl]]) simp
  ultimately show ?thesis
    using logged_out(3) by (simp add: signed_out_def family_dead_sweep denied_sweep)
qed

lemma signed_out_logout:
  assumes "signed_out fid since t s" and "t \<le> cl_now c" and "since \<le> t"
    and "logout c claims s = (r, s')"
  shows "signed_out fid since (cl_now c) s'"
  using assms(4)
proof (cases rule: logout_cases)
  case failed
  with assms(1,2) show ?thesis by (auto simp: signed_out_def intro: denied_later)
next
  case (logged_out t')
  let ?v = "revokeFamily (cl_now c) (ac_fid claims) s"
  let ?u = "?v\<lparr>t_access_denylist :=
            upsert dn_jti \<lparr>dn_jti = ac_jti claims, dn_expires_at = t'\<rparr> (t_access_denylist s)\<rparr>"
  have "family_dead fid ?u"
    by (rule family_dead_tables [OF family_dead_more_revoked]) (use assms(1) in \<open>simp_all add: signed_out_def\<close>)
  moreover have "denied_until fid (since + ACCESS_TTL_SEC * 1000) (cl_now c) ?u"
    by (rule denied_tables [OF denied_more_revoked])
      (use assms(1-3) in \<open>auto simp: signed_out_def\<close>)
  ultimately show ?thesis
    using logged_out(3) by (simp add: signed_out_def family_dead_sweep denied_sweep)
qed

lemma signed_out_run:
  assumes "auth_run d s0 t0 U0 s t U" and "signed_out fid t0 t0 s0" and "fid \<in> U0"
  shows "signed_out fid t0 t s"
  using assms
proof (induction rule: auth_run.induct)
  case (run_login s t U c email password r s')
  then have "cl_family c \<noteq> fid" using auth_run_families by blast
  with run_login show ?case by (blast intro: signed_out_login)
next
  case (run_refresh s t U c token r s')
  then show ?case using auth_run_time by (blast intro: signed_out_refresh)
next
  case (run_logout s t U c claims r' s')
  then show ?case using auth_run_time by (blast intro: signed_out_logout)
next
  case (run_wait s t U t')
  then show ?case by (auto simp: signed_out_def intro: denied_later)
qed simp

text \<open>
  The documented behaviour of \<open>jwt.verify\<close> the service relies on: it never accepts a token at or
  after its \<open>exp\<close>.
\<close>

definition rejects_expired :: "'key jwt_verify \<Rightarrow> bool" where
  "rejects_expired jwt \<longleftrightarrow> (\<forall>keys algs iss aud now token p n.
     jwt keys algs iss aud now token = Some (DecodedPayload p) \<longrightarrow> jp_exp p = JNum n \<longrightarrow>
     (\<exists>q. n = Fin q \<and> of_int now < q))"

lemma authenticate_Inr:
  assumes "authenticate d now token s = Inr claims"
  shows "\<not> isAccessRevoked now (ac_jti claims) (ac_fid claims) s"
    and "\<exists>tok. token = Some tok \<and> tok \<noteq> [] \<and>
      tokens_verify (ad_verify d) (ad_config d) (now_sec now) tok = Inr claims"
  using assms by (auto simp: authenticate_def split: option.splits sum.splits if_splits)

lemma authenticate_unexpired:
  assumes "rejects_expired (ad_verify d)" and "authenticate d now token s = Inr claims"
  shows "\<exists>q. ac_exp claims = Fin q \<and> of_int (now_sec now) < q"
proof -
  obtain tok where "tokens_verify (ad_verify d) (ad_config d) (now_sec now) tok = Inr claims"
    using authenticate_Inr(2) [OF assms(2)] by blast
  then obtain p where p: "ad_verify d (keyFor (cfg_public_keys (ad_config d))) [JWT_ALG] JWT_ISSUER
      JWT_AUDIENCE (now_sec now) tok = Some (DecodedPayload p)" and r: "readClaims p = Some claims"
    by (auto simp: tokens_verify_def split: option.splits jwt_decoded.splits)
  from r have "jp_exp p = JNum (ac_exp claims)"
    by (auto simp: readClaims_def split: option.splits jsval.splits if_splits)
  with p assms(1) show ?thesis unfolding rejects_expired_def by blast
qed

lemma signed_out_denied:
  assumes so: "signed_out fid since now s" and "since \<le> now" and v: "rejects_expired (ad_verify d)"
    and a: "authenticate d now token s = Inr claims" and fid: "ac_fid claims = fid"
    and e: "ac_exp claims = Fin q" "q \<le> of_int (now_sec since + ACCESS_TTL_SEC)"
  shows False
proof (cases "now < since + ACCESS_TTL_SEC * 1000")
  case True
  with so have "isAccessRevoked now (ac_jti claims) fid s"
    by (force simp: signed_out_def denied_until_def isAccessRevoked_def)
  with authenticate_Inr(1) [OF a] fid show False by simp
next
  case False
  have "now_sec since + ACCESS_TTL_SEC = (since + ACCESS_TTL_SEC * 1000) div 1000"
    by (simp add: now_sec_def)
  also have "\<dots> \<le> now_sec now"
    unfolding now_sec_def using False by (intro zdiv_mono1) simp_all
  finally have "(of_int (now_sec since + ACCESS_TTL_SEC) :: rat) \<le> of_int (now_sec now)"
    by (simp only: of_int_le_iff)
  moreover have "of_int (now_sec now) < q"
    using authenticate_unexpired [OF v a] e(1) by simp
  ultimately show False using e(2) by simp
qed

lemma refresh_rows_single:
  assumes "auth_inv U s" and "row \<in> set (t_refresh_tokens s)" and "rt_token_hash row = h"
  shows "refresh_rows h s = [row]"
  using filter_key_single [of rt_token_hash "t_refresh_tokens s" row] assms
  by (simp add: auth_inv_def refresh_rows_def)

lemma refresh_not_live:
  assumes "auth_inv U s" and "row \<in> set (t_refresh_tokens s)"
    and "rt_token_hash row = token_hash d token" and "\<not> live row"
  shows "fst (refresh d c token s) = Inl (UnauthorizedException ''unauthorized'')"
  using refresh_rows_single [OF assms(1-3)] assms(4)
  by (cases "rt_revoked_at row"; cases "rt_used_at row")
    (simp_all add: refresh_def refresh_tx_def live_def)

text \<open>
  C11. A logout is final: whatever logins, refreshes and logouts follow, at every later time no
  access token of that login issued until the logout is accepted, not even after the denylist
  entries were swept, and no refresh token of it is exchanged.
\<close>

theorem logout_is_final:
  assumes "rejects_expired (ad_verify d)" and "auth_inv U s0"
    and "logout c claims s0 = (Inr (), s1)" and "ac_fid claims \<in> U"
    and "auth_run d s1 (cl_now c) U s t U'"
    and "ac_fid other = ac_fid claims" and "ac_exp other = Fin q"
    and "q \<le> of_int (now_sec (cl_now c) + ACCESS_TTL_SEC)"
  shows "authenticate d t token s \<noteq> Inr other
    \<and> (\<forall>row\<in>set (t_refresh_tokens s). rt_family_id row = ac_fid claims \<longrightarrow>
         rt_token_hash row = token_hash d rt \<longrightarrow>
         fst (refresh d c' rt s) = Inl (UnauthorizedException ''unauthorized''))"
proof -
  have "signed_out (ac_fid claims) (cl_now c) (cl_now c) s1"
    using assms(3) by (rule signed_out_after_logout) simp
  then have so: "signed_out (ac_fid claims) (cl_now c) t s"
    by (rule signed_out_run [OF assms(5) _ assms(4)])
  have "auth_inv U' s"
    using assms(5) auth_inv_logout [OF assms(2,3)] by (rule auth_run_inv)
  then have "fst (refresh d c' rt s) = Inl (UnauthorizedException ''unauthorized'')"
    if "row \<in> set (t_refresh_tokens s)" "rt_family_id row = ac_fid claims"
      "rt_token_hash row = token_hash d rt" for row
    by (rule refresh_not_live) (use that so in \<open>auto simp: signed_out_def family_dead_def live_def\<close>)
  moreover have "authenticate d t token s \<noteq> Inr other"
    using signed_out_denied [OF so auth_run_time [OF assms(5)] assms(1) _ assms(6-8)] by blast
  ultimately show ?thesis by blast
qed

section \<open>Rotation and theft\<close>

text \<open>
  C9. A refresh rotates: it is granted only for a stored token that is unused, unrevoked and
  unexpired, marks exactly that token used, stores one new token for the same user in the same
  family, and the old token is refused from then on.
\<close>

theorem refresh_rotates:
  assumes "auth_inv U s" and "refresh d c token s = (Inr pair, s')"
  shows "\<exists>row. row \<in> set (t_refresh_tokens s) \<and> rt_token_hash row = token_hash d token
    \<and> rt_used_at row = None \<and> rt_revoked_at row = None \<and> cl_now c < rt_expires_at row
    \<and> t_refresh_tokens s' =
        map (\<lambda>r. if r = row then r\<lparr>rt_used_at := Some (cl_now c)\<rparr> else r) (t_refresh_tokens s)
        @ [new_refresh_row d c (rt_user_id row) (rt_family_id row)]
    \<and> tp_refresh_token pair = cl_refresh_token c
    \<and> fst (refresh d c' token s') = Inl (UnauthorizedException ''unauthorized'')"
  using assms(2)
proof (cases rule: refresh_cases)
  case (rotated row rest u us pair')
  let ?h = "token_hash d token"
  note row = refresh_rows_Cons [OF rotated(1)]
  note I = insertPair_Inr [OF rotated(7)]
  have upd: "t_refresh_tokens (mark_used (cl_now c) ?h s) =
      map (\<lambda>r. if r = row then r\<lparr>rt_used_at := Some (cl_now c)\<rparr> else r) (t_refresh_tokens s)"
    using assms(1) row distinct_map_unique [of rt_token_hash "t_refresh_tokens s"]
    by (auto simp: mark_used_def auth_inv_def)
  have inv': "auth_inv U s'" by (rule auth_inv_refresh [OF assms])
  have "row\<lparr>rt_used_at := Some (cl_now c)\<rparr> \<in> set (t_refresh_tokens s')"
    using row by (auto simp: I(3) upd)
  then have "fst (refresh d c' token s') = Inl (UnauthorizedException ''unauthorized'')"
    by (rule refresh_not_live [OF inv']) (simp_all add: row live_def)
  then show ?thesis
    using rotated row I(3,4) upd by (intro exI [of _ row]) (simp add: live_def)
qed simp_all

text \<open>
  C12. Presenting a token that was already exchanged is taken as theft: the call is refused, the
  revocation is committed all the same, and from then on, along every sequence of calls, no
  token of the family is live and no access token issued to it so far is accepted.
\<close>

theorem reuse_signs_the_family_out:
  assumes "rejects_expired (ad_verify d)" and "auth_inv U s0"
    and "row \<in> set (t_refresh_tokens s0)" and "rt_token_hash row = token_hash d token"
    and "rt_used_at row \<noteq> None" and "rt_revoked_at row = None"
    and "refresh d c token s0 = (r, s1)" and "auth_run d s1 (cl_now c) U s t U'"
    and "ac_fid other = rt_family_id row" and "ac_exp other = Fin q"
    and "q \<le> of_int (now_sec (cl_now c) + ACCESS_TTL_SEC)"
  shows "r = Inl (UnauthorizedException ''unauthorized'')
    \<and> (\<forall>x\<in>set (t_refresh_tokens s). rt_family_id x = rt_family_id row \<longrightarrow> rt_revoked_at x \<noteq> None)
    \<and> authenticate d t token' s \<noteq> Inr other"
proof -
  have rs: "refresh_rows (token_hash d token) s0 = [row]"
    by (rule refresh_rows_single [OF assms(2-4)])
  have r: "r = Inl (UnauthorizedException ''unauthorized'')"
    and s1: "s1 = revokeFamily (cl_now c) (rt_family_id row) s0"
    using assms(5-7) rs by (auto simp: refresh_def refresh_tx_def)
  have so1: "signed_out (rt_family_id row) (cl_now c) (cl_now c) s1"
    by (simp add: s1 signed_out_def family_dead_revoke denied_revoke)
  have "rt_family_id row \<in> U" using assms(2,3) by (auto simp: auth_inv_def)
  with so1 have so: "signed_out (rt_family_id row) (cl_now c) t s"
    by (rule signed_out_run [OF assms(8)])
  then have "authenticate d t token' s \<noteq> Inr other"
    using signed_out_denied [OF so auth_run_time [OF assms(8)] assms(1) _ assms(9-11)] by blast
  with r so show ?thesis by (auto simp: signed_out_def family_dead_def)
qed

section \<open>The sweep\<close>

lemma sweep_refresh_rows:
  assumes "auth_inv U s" and "row \<in> set (t_refresh_tokens s)" and "now < rt_expires_at row"
  shows "refresh_rows (rt_token_hash row) (sweepExpired l now s) = [row]"
proof -
  have "auth_inv U (sweepExpired l now s)" by (rule auth_inv_sweep [OF assms(1)])
  moreover have "row \<in> set (t_refresh_tokens (sweepExpired l now s))"
    using assms(2,3) by (simp add: sweep_rows_keeps)
  ultimately show ?thesis by (rule refresh_rows_single) simp
qed

lemma sweep_rows_ex:
  assumes "now \<le> now'"
  shows "(\<exists>r\<in>set (sweep_rows e l now rows). P r \<and> now' < e r) \<longleftrightarrow>
    (\<exists>r\<in>set rows. P r \<and> now' < e r)"
  using assms sweep_rows_set [of e l now rows] sweep_rows_keeps [of _ rows now e l] by fastforce

text \<open>
  The sweep deletes dead rows only: from its time on it changes no verdict on an access
  token, and a stored refresh token that has not expired is still there, with its marks.
\<close>

theorem sweep_is_safe:
  assumes "now \<le> now'"
  shows "isAccessRevoked now' jti fid (sweepExpired l now s) = isAccessRevoked now' jti fid s
    \<and> (\<forall>row. row \<in> set (t_refresh_tokens s) \<and> now < rt_expires_at row \<longrightarrow>
         row \<in> set (t_refresh_tokens (sweepExpired l now s)))
    \<and> set (t_refresh_tokens (sweepExpired l now s)) \<subseteq> set (t_refresh_tokens s)"
proof -
  show ?thesis
    unfolding isAccessRevoked_def sweep_simps sweep_rows_ex [OF assms]
    using sweep_rows_set [of rt_expires_at] sweep_rows_keeps [of _ "t_refresh_tokens s"] by simp
qed

section \<open>Passwords\<close>

text \<open>
  \<open>verifyPassword\<close> accepts, against what \<open>hashPassword\<close> stored, exactly the passwords scrypt
  maps to the stored key, so the hashed one in particular; and it never accepts a user that has
  no stored hash, whatever the dummy hash is.
\<close>

theorem password_roundtrip:
  assumes "\<And>b. dec (enc b) = b" and "\<And>b. CHR ''$'' \<notin> set (enc b)"
    and "\<And>p salt n ps. scrypt p salt n ps = Inr (kdf p salt n)"
    and "\<And>p salt n. length (kdf p salt n) = n"
  shows "\<exists>h. hashPassword scrypt enc salt password = Inr h
    \<and> (\<forall>guess. verifyPassword scrypt dec dummy guess (Some h) =
          Inr (kdf guess salt KEY_LEN = kdf password salt KEY_LEN))
    \<and> verifyPassword scrypt dec dummy password (Some h) = Inr True
    \<and> verifyPassword scrypt dec dummy' guess' None = Inr False"
proof -
  let ?h = "encode_hash enc SCRYPT_N SCRYPT_R SCRYPT_P salt (kdf password salt KEY_LEN)"
  note V = verify_hashed [of dec enc scrypt password salt "kdf password salt KEY_LEN",
      OF assms(1,2) assms(3)]
  have "verifyPassword scrypt dec dummy guess (Some ?h) =
      Inr (kdf guess salt KEY_LEN = kdf password salt KEY_LEN)" for guess
    using V(2) by (simp add: assms(3,4))
  moreover have "verifyPassword scrypt dec dummy' guess' None = Inr False"
    by (simp add: verifyPassword_def Let_def assms(3))
  ultimately show ?thesis
    using V(1) by (intro exI [of _ ?h]) simp
qed

section \<open>A concrete session\<close>

definition demo_hmac :: "string \<Rightarrow> string \<Rightarrow> string" where
  "demo_hmac pepper t = take 64 (t @ pepper @ replicate 64 (CHR ''x''))"

definition demo_deps :: "unit auth_deps" where
  "demo_deps = \<lparr>ad_hmac = demo_hmac,
     ad_config = \<lparr>cfg_kid = ''k'', cfg_private_key = (), cfg_public_keys = [(''k'', ())],
       cfg_pepper = ''-p'', cfg_fingerprint = []\<rparr>,
     ad_sign = \<lambda>_ _ _ _ _ _ _ _ _ _ _. ''a1'',
     ad_verify = \<lambda>_ _ _ _ now tok. if tok = ''a1'' \<and> now < 600
       then Some (DecodedPayload \<lparr>jp_sub = Some ''1'', jp_jti = Some ''j1'', jp_exp = JNum (Fin 600),
         jp_role = JStr ''buyer'', jp_fid = JStr ''f1''\<rparr>) else None,
     ad_password = \<lambda>p st. Inr (st = Some p)\<rparr>"

definition demo_call :: "int \<Rightarrow> string \<Rightarrow> auth_call" where
  "demo_call now rt = \<lparr>cl_now = now, cl_refresh_token = rt, cl_jti = ''j1'', cl_family = ''f1'',
     cl_locked = \<lambda>_. False\<rparr>"

definition demo_claims :: access_claims where
  "demo_claims = \<lparr>ac_sub = ''1'', ac_role = ''buyer'', ac_jti = ''j1'', ac_fid = ''f1'',
     ac_exp = Fin 600\<rparr>"

definition demo_row :: "int option \<Rightarrow> refresh_token_row" where
  "demo_row used = \<lparr>rt_token_hash = demo_hmac ''-p'' ''r1'', rt_family_id = ''f1'', rt_user_id = 1,
     rt_expires_at = 9000, rt_used_at = used, rt_revoked_at = None\<rparr>"

definition demo_session :: "int option \<Rightarrow> db" where
  "demo_session used = empty_db\<lparr>
     t_users := [\<lparr>us_id = 1, us_email = ''ada@shop.test'', us_full_name = ''Ada'',
       us_balance_cents = 0, us_password_hash = Some ''pw'', us_role = ''buyer'', us_created_at = 0\<rparr>],
     t_refresh_tokens := [demo_row used]\<rparr>"

lemmas demo_session_defs = demo_session_def demo_row_def demo_call_def demo_claims_def empty_db_def

lemma demo_password [simp]: "ad_password demo_deps p st = Inr (st = Some p)"
  by (simp add: demo_deps_def)

lemma demo_session_inv: "auth_inv {''f1''} (demo_session used)"
  by (simp add: auth_inv_def demo_session_defs live_def)

lemma demo_rejects: "rejects_expired (ad_verify demo_deps)"
  by (auto simp: rejects_expired_def demo_deps_def split: if_splits)

lemma demo_hmac_facts: "length (demo_hmac pepper t) = 64"
  "demo_hmac ''-p'' ''r1'' \<noteq> demo_hmac ''-p'' ''r2''"
  "demo_hmac ''-p'' ''r2'' \<noteq> demo_hmac ''-p'' ''r1''"
  by (simp_all add: demo_hmac_def)

lemma demo_hash: "token_hash demo_deps t = demo_hmac ''-p'' t"
  by (simp add: token_hash_def refreshTokenHash_def demo_deps_def)

lemma refresh_rotates_witness:
  "\<exists>pair s'. refresh demo_deps (demo_call 5 ''r2'') ''r1'' (demo_session None) = (Inr pair, s')
    \<and> fst (refresh demo_deps (demo_call 6 ''r3'') ''r1'' s') =
        Inl (UnauthorizedException ''unauthorized'')"
proof -
  have "\<exists>pair s'. refresh demo_deps (demo_call 5 ''r2'') ''r1'' (demo_session None) = (Inr pair, s')"
    by (simp add: refresh_def refresh_tx_def transaction_def demo_hash refresh_rows_def insertPair_def
        insert_refresh_def mark_used_def db_bind_def db_return_def isRole_def ROLES_def
        demo_hmac_facts demo_session_defs)
  with refresh_rotates [OF demo_session_inv] show ?thesis by blast
qed

lemma one_live_token_per_family_witness:
  "\<exists>s row. auth_run demo_deps ((demo_session None)\<lparr>t_refresh_tokens := []\<rparr>) 0 {} s 5 {''f1''}
    \<and> t_refresh_tokens s = [row]
    \<and> (\<forall>r\<in>set (t_refresh_tokens s). rt_family_id r = ''f1'' \<and> rt_used_at r = None
        \<and> rt_revoked_at r = None \<longrightarrow> r = row)"
proof -
  let ?s0 = "(demo_session None)\<lparr>t_refresh_tokens := []\<rparr>"
  obtain q s1 where l: "login demo_deps (demo_call 5 ''r1'') ''ADA@shop.test'' ''pw'' ?s0 = (q, s1)"
    by (cases "login demo_deps (demo_call 5 ''r1'') ''ADA@shop.test'' ''pw'' ?s0")
  have lower: "js_toLowerCase (js_trim ''ADA@shop.test'') = ''ada@shop.test''"
    "js_toLowerCase ''ada@shop.test'' = ''ada@shop.test''" by code_simp+
  have rows: "t_refresh_tokens s1 = [new_refresh_row demo_deps (demo_call 5 ''r1'') 1 ''f1'']"
    using l lower
    by (auto simp: login_def user_by_email_def issuePair_def transaction_def insertPair_def
        insert_refresh_def new_refresh_row_def sweep_rows_def SWEEP_BATCH_def isRole_def ROLES_def
        db_bind_def db_return_def demo_session_defs demo_hash demo_hmac_facts Let_def)
  have "auth_run demo_deps ?s0 0 {} s1 (cl_now (demo_call 5 ''r1''))
      (insert (cl_family (demo_call 5 ''r1'')) {})"
    by (rule run_login [OF run_start _ _ l]) (simp_all add: demo_call_def)
  then have run: "auth_run demo_deps ?s0 0 {} s1 5 {''f1''}" by (simp add: demo_call_def)
  with rows one_live_token_per_family [OF run] show ?thesis
    by (intro exI [of _ s1] exI [of _ "new_refresh_row demo_deps (demo_call 5 ''r1'') 1 ''f1''"]) simp
qed

lemma logout_is_final_witness:
  "authenticate demo_deps 700 (Some ''a1'')
     (snd (logout (demo_call 5 []) demo_claims (demo_session None))) \<noteq> Inr demo_claims"
proof -
  obtain s1 where s1: "logout (demo_call 5 []) demo_claims (demo_session None) = (Inr (), s1)"
    by (simp add: logout_def transaction_def db_bind_def deny_jti_def to_timestamp_def demo_claims_def)
  have "auth_run demo_deps s1 (cl_now (demo_call 5 [])) {''f1''} s1 700 {''f1''}"
    by (rule run_wait [OF run_start]) (simp add: demo_call_def)
  from logout_is_final [OF demo_rejects demo_session_inv s1 _ this, of demo_claims 600]
  show ?thesis using s1 by (simp add: demo_claims_def demo_call_def now_sec_def ACCESS_TTL_SEC_def)
qed

lemma reuse_signs_the_family_out_witness:
  "fst (refresh demo_deps (demo_call 5 ''r2'') ''r1'' (demo_session (Some 2))) =
     Inl (UnauthorizedException ''unauthorized'')"
proof -
  obtain r s1 where r: "refresh demo_deps (demo_call 5 ''r2'') ''r1'' (demo_session (Some 2)) = (r, s1)"
    by (cases "refresh demo_deps (demo_call 5 ''r2'') ''r1'' (demo_session (Some 2))")
  from reuse_signs_the_family_out [OF demo_rejects demo_session_inv _ _ _ _ r run_start, of "demo_row (Some 2)" demo_claims 600]
  show ?thesis using r
    by (simp add: demo_hash demo_session_def demo_row_def demo_claims_def demo_call_def now_sec_def
        ACCESS_TTL_SEC_def)
qed

lemma sweep_is_safe_witness:
  "demo_row None \<in> set (t_refresh_tokens (sweepExpired (\<lambda>_. False) 5 (demo_session None)))"
proof -
  have "demo_row None \<in> set (t_refresh_tokens (demo_session None))" "5 < rt_expires_at (demo_row None)"
    by (simp_all add: demo_session_def demo_row_def)
  with sweep_is_safe [of 5 5] show ?thesis by blast
qed

text \<open>A codec that avoids the dollar sign, and a key derivation of the asked length.\<close>

definition demo_enc :: "string \<Rightarrow> string" where
  "demo_enc b = concat (map (\<lambda>c. replicate (of_char c) (CHR ''a'') @ ''b'') b)"

definition demo_dec :: "string \<Rightarrow> string" where
  "demo_dec s = map (\<lambda>p. char_of (length p)) (butlast (js_split (CHR ''b'') s))"

definition demo_kdf :: "string \<Rightarrow> string \<Rightarrow> nat \<Rightarrow> string" where
  "demo_kdf p salt n = take n (p @ salt @ replicate n (CHR ''x''))"

lemma demo_kdf_length: "length (demo_kdf p salt n) = n"
  by (simp add: demo_kdf_def)

lemma demo_codec: "demo_dec (demo_enc b) = b"
proof (induction b)
  case (Cons c b)
  have "js_split (CHR ''b'') (replicate (of_char c) (CHR ''a'') @ CHR ''b'' # demo_enc b) =
      replicate (of_char c) (CHR ''a'') # js_split (CHR ''b'') (demo_enc b)"
    by (rule js_split_append) simp
  with Cons show ?case by (simp add: demo_dec_def demo_enc_def)
qed (simp add: demo_dec_def demo_enc_def)

lemma password_roundtrip_witness:
  "\<exists>h. hashPassword (\<lambda>p salt n _. Inr (demo_kdf p salt n)) demo_enc ''salt'' ''secret'' = Inr h
    \<and> verifyPassword (\<lambda>p salt n _. Inr (demo_kdf p salt n)) demo_dec [] ''secret'' (Some h) = Inr True
    \<and> verifyPassword (\<lambda>p salt n _. Inr (demo_kdf p salt n)) demo_dec [] ''guess'' (Some h) = Inr False"
proof -
  have nodollar: "CHR ''$'' \<notin> set (demo_enc b)" for b by (simp add: demo_enc_def)
  have ne: "demo_kdf ''guess'' ''salt'' KEY_LEN \<noteq> demo_kdf ''secret'' ''salt'' KEY_LEN"
    by (simp add: demo_kdf_def KEY_LEN_def)
  obtain h where
    "hashPassword (\<lambda>p salt n _. Inr (demo_kdf p salt n)) demo_enc ''salt'' ''secret'' = Inr h"
    "\<forall>guess. verifyPassword (\<lambda>p salt n _. Inr (demo_kdf p salt n)) demo_dec [] guess (Some h) =
        Inr (demo_kdf guess ''salt'' KEY_LEN = demo_kdf ''secret'' ''salt'' KEY_LEN)"
    using password_roundtrip [where dec = demo_dec and enc = demo_enc and kdf = demo_kdf
        and scrypt = "\<lambda>p salt n _. Inr (demo_kdf p salt n)" and salt = "''salt''"
        and password = "''secret''" and dummy = "[]", OF demo_codec nodollar refl demo_kdf_length]
    by blast
  with ne show ?thesis by (intro exI [of _ h]) simp
qed

end
