(* ===== verification/OrderEvents.thy ===== *)
theory OrderEvents
  imports JsValues
begin

text \<open>
  The in-memory order status events (\<open>src/orders/order-events.service.ts\<close>) and their delivery
  over server-sent events (\<open>orderEventsStream\<close> and \<open>writeSse\<close> in \<open>orders.controller.ts\<close>). The
  service keeps a counter and a bounded buffer per order; what the subject has passed to its
  subscribers so far is kept as a log, so that a subscription is a position in it.
\<close>

section \<open>The service\<close>

record order_status_event =
  oe_id :: nat
  oe_order_id :: int
  oe_status :: string
  oe_at :: string

definition BUFFER_LIMIT :: nat where "BUFFER_LIMIT = 100"

record order_events =
  es_seq :: nat
  es_buffers :: "int \<Rightarrow> order_status_event list option"
  es_emitted :: "order_status_event list"

definition no_events :: order_events where
  "no_events = \<lparr>es_seq = 0, es_buffers = (\<lambda>_. None), es_emitted = []\<rparr>"

definition buffer_of :: "order_events \<Rightarrow> int \<Rightarrow> order_status_event list" where
  "buffer_of st orderId = (case es_buffers st orderId of Some b \<Rightarrow> b | None \<Rightarrow> [])"

definition publish :: "int \<Rightarrow> int \<Rightarrow> string \<Rightarrow> order_events \<Rightarrow> order_status_event \<times> order_events"
where
  "publish now orderId status st =
     (let event = \<lparr>oe_id = es_seq st + 1, oe_order_id = orderId, oe_status = status,
                   oe_at = js_toISOString now\<rparr>;
          pushed = buffer_of st orderId @ [event];
          buf = (if BUFFER_LIMIT < length pushed then tl pushed else pushed)
      in (event, st\<lparr>es_seq := es_seq st + 1, es_buffers := (es_buffers st)(orderId \<mapsto> buf),
                    es_emitted := es_emitted st @ [event]\<rparr>))"

definition historyAfter :: "order_events \<Rightarrow> int \<Rightarrow> jsnum \<Rightarrow> order_status_event list" where
  "historyAfter st orderId lastEventId =
     filter (\<lambda>e. js_lt lastEventId (Fin (of_nat (oe_id e)))) (buffer_of st orderId)"

text \<open>What a subscriber that joined after \<open>joined\<close> events has received when the state is \<open>st\<close>.\<close>

definition streamAll :: "nat \<Rightarrow> order_events \<Rightarrow> order_status_event list" where
  "streamAll joined st = drop joined (es_emitted st)"

definition stream :: "nat \<Rightarrow> int \<Rightarrow> order_events \<Rightarrow> order_status_event list" where
  "stream joined orderId st = filter (\<lambda>e. oe_order_id e = orderId) (streamAll joined st)"

section \<open>Server-sent events\<close>

text \<open>
  The header is \<open>last-event-id\<close>; \<open>replay_on_open\<close> is what is written before the subscription,
  \<open>sse_received\<close> all events the connection has carried when the service is in state \<open>st\<close>.
\<close>

definition replay_on_open ::
  "string option \<Rightarrow> int \<Rightarrow> order_events \<Rightarrow> order_status_event list" where
  "replay_on_open lastEventHeader orderId st = (case lastEventHeader of
       None \<Rightarrow> []
     | Some h \<Rightarrow>
         if h = [] then []
         else (let lastEventId = js_Number h
               in if js_isFinite lastEventId then historyAfter st orderId lastEventId else []))"

definition sse_received ::
  "string option \<Rightarrow> int \<Rightarrow> order_events \<Rightarrow> order_events \<Rightarrow> order_status_event list" where
  "sse_received lastEventHeader orderId opened st =
     replay_on_open lastEventHeader orderId opened
       @ stream (length (es_emitted opened)) orderId st"

text \<open>The status is one of four plain words, so its JSON text is the word in quotes.\<close>

definition writeSse :: "order_status_event \<Rightarrow> string" where
  "writeSse event =
     ''id: '' @ show_nat (oe_id event) @ [CHR 0x0A]
     @ ''event: order.status'' @ [CHR 0x0A]
     @ ''data: {\"orderId\":'' @ show_int (oe_order_id event) @ '',\"status\":\"''
     @ oe_status event @ ''\"}'' @ [CHR 0x0A, CHR 0x0A]"

section \<open>The buffers hold the last events of each order\<close>

definition last_n :: "nat \<Rightarrow> 'a list \<Rightarrow> 'a list" where
  "last_n n xs = drop (length xs - n) xs"

lemma last_n_snoc:
  "0 < n \<Longrightarrow> last_n n (xs @ [x]) =
    (let p = last_n n xs @ [x] in if n < length p then tl p else p)"
  by (auto simp: last_n_def Let_def drop_Suc [symmetric] tl_drop drop_tl Suc_diff_le not_less)

definition events_inv :: "order_events \<Rightarrow> bool" where
  "events_inv st \<longleftrightarrow> map oe_id (es_emitted st) = [1..<Suc (es_seq st)]
     \<and> (\<forall>x. buffer_of st x
          = last_n BUFFER_LIMIT (filter (\<lambda>e. oe_order_id e = x) (es_emitted st)))"

lemma events_inv_empty: "events_inv no_events"
  by (simp add: events_inv_def no_events_def buffer_of_def last_n_def)

definition publish_step :: "int \<times> int \<times> string \<Rightarrow> order_events \<Rightarrow> order_events" where
  "publish_step p st = (case p of (now, orderId, status) \<Rightarrow> snd (publish now orderId status st))"

lemma events_inv_publish: "events_inv st \<Longrightarrow> events_inv (publish_step p st)"
  by (cases p)
    (auto simp: events_inv_def publish_step_def publish_def Let_def buffer_of_def last_n_snoc
      BUFFER_LIMIT_def)

interpretation order_event_runs: step_machine publish_step events_inv
  by unfold_locales (rule events_inv_publish)

lemma emitted_grows: "\<exists>new. es_emitted (fold publish_step ps st) = es_emitted st @ new"
proof (induction ps arbitrary: st)
  case (Cons p ps)
  obtain n o' s where "p = (n, o', s)" by (cases p)
  then have "\<exists>e. es_emitted (publish_step p st) = es_emitted st @ [e]"
    by (simp add: publish_step_def publish_def Let_def)
  with Cons [of "publish_step p st"] show ?case by auto
qed simp

lemma emitted_ids:
  assumes "events_inv st"
  shows "sorted (map oe_id (es_emitted st))" "distinct (map oe_id (es_emitted st))"
  using assms by (simp_all add: events_inv_def del: upt_Suc)

lemma filter_last_n:
  assumes "length (filter P xs) \<le> n" and "\<And>ys zs. xs = ys @ zs \<Longrightarrow> filter P zs = zs \<or> filter P ys = []"
  shows "filter P (last_n n xs) = filter P xs"
proof -
  let ?k = "length xs - n"
  have split: "xs = take ?k xs @ drop ?k xs" by simp
  from assms(2) [OF split] show ?thesis
  proof
    assume "filter P (take ?k xs) = []"
    then have "filter P (take ?k xs @ drop ?k xs) = filter P (drop ?k xs)" by (simp only: filter_append append_Nil)
    then show ?thesis by (simp add: last_n_def)
  next
    assume full: "filter P (drop ?k xs) = drop ?k xs"
    have "filter P xs = filter P (take ?k xs) @ drop ?k xs"
      by (subst split) (simp only: filter_append full)
    with assms(1) have "length (filter P (take ?k xs)) + (length xs - ?k) \<le> n" by simp
    then have "filter P (take ?k xs) = []" by (cases "n \<le> length xs") auto
    with \<open>filter P xs = filter P (take ?k xs) @ drop ?k xs\<close> full show ?thesis
      by (simp add: last_n_def)
  qed
qed

lemma suffix_of_sorted:
  assumes "sorted (map k xs)" and "xs = ys @ zs"
  shows "filter (\<lambda>x. (L :: nat) < k x) zs = zs \<or> filter (\<lambda>x. L < k x) ys = []"
proof (cases "\<exists>y\<in>set ys. L < k y")
  case True
  then obtain y where y: "y \<in> set ys" "L < k y" by blast
  have "L < k z" if "z \<in> set zs" for z
    using assms y that by (fastforce simp: sorted_append)
  then show ?thesis by (auto simp: filter_id_conv)
next
  case False
  then show ?thesis by (auto simp: filter_empty_conv)
qed

lemma js_lt_nat: "js_lt (Fin (of_nat a)) (Fin (of_nat b)) \<longleftrightarrow> a < b"
  by simp

lemma replay_numeric:
  assumes "lastId < 2 ^ 64"
  shows "replay_on_open (Some (show_nat lastId)) orderId st =
    filter (\<lambda>e. lastId < oe_id e) (buffer_of st orderId)"
  using assms by (simp add: replay_on_open_def js_Number_show_nat historyAfter_def)

lemma replay_complete:
  assumes inv: "events_inv st" and small: "lastId < 2 ^ 64"
    and few: "length (filter (\<lambda>e. oe_order_id e = orderId \<and> lastId < oe_id e) (es_emitted st))
      \<le> BUFFER_LIMIT"
  shows "replay_on_open (Some (show_nat lastId)) orderId st =
    filter (\<lambda>e. oe_order_id e = orderId \<and> lastId < oe_id e) (es_emitted st)"
proof -
  let ?xs = "filter (\<lambda>e. oe_order_id e = orderId) (es_emitted st)"
  have "sorted (map oe_id ?xs)"
    using emitted_ids(1) [OF inv] by (rule sorted_filter)
  then have "filter (\<lambda>e. lastId < oe_id e) (last_n BUFFER_LIMIT ?xs) =
      filter (\<lambda>e. lastId < oe_id e) ?xs"
    using few by (intro filter_last_n suffix_of_sorted) (simp_all add: conj_commute)
  then show ?thesis
    using inv replay_numeric [OF small] by (simp add: events_inv_def conj_commute)
qed

text \<open>
  C13. A client that reconnects with the id of the last event it saw misses nothing and sees
  nothing twice: what the connection carries, the replay followed by the live events, is exactly
  the order's events after that id in order of publication, provided at most 100 of them were
  published while it was away (the bound of the buffer).
\<close>

theorem sse_resume_lossless:
  assumes "opened = fold publish_step before no_events" and "st = fold publish_step later opened"
    and "lastId \<le> es_seq opened" and "lastId < 2 ^ 64"
    and "length (filter (\<lambda>e. oe_order_id e = orderId \<and> lastId < oe_id e) (es_emitted opened))
      \<le> BUFFER_LIMIT"
  shows "sse_received (Some (show_nat lastId)) orderId opened st =
      filter (\<lambda>e. oe_order_id e = orderId \<and> lastId < oe_id e) (es_emitted st)
    \<and> map oe_id (es_emitted st) = [1..<Suc (es_seq st)]"
proof -
  have inv: "events_inv opened" "events_inv st"
    using assms(1,2) by (auto intro!: order_event_runs.run_keeps events_inv_empty)
  obtain new where new: "es_emitted st = es_emitted opened @ new"
    using emitted_grows assms(2) by blast
  have ids: "map oe_id (es_emitted opened) = [1..<Suc (es_seq opened)]"
    "map oe_id (es_emitted st) = [1..<Suc (es_seq st)]"
    using inv by (simp_all add: events_inv_def del: upt_Suc)
  have "lastId < oe_id e" if "e \<in> set new" for e
  proof -
    have "distinct (map oe_id (es_emitted st))" by (rule emitted_ids(2) [OF inv(2)])
    then have "oe_id e \<notin> oe_id ` set (es_emitted opened)" using that new by auto
    then have "oe_id e \<notin> set (map oe_id (es_emitted opened))" by simp
    then have out: "oe_id e \<notin> {1..<Suc (es_seq opened)}"
      unfolding ids(1) by (simp only: set_upt) simp
    have "oe_id e \<in> set (map oe_id (es_emitted st))" using that new by simp
    then have "1 \<le> oe_id e" unfolding ids(2) by (simp only: set_upt) simp
    with out show ?thesis using assms(3) by simp
  qed
  then have "filter (\<lambda>e. oe_order_id e = orderId \<and> lastId < oe_id e) new =
      filter (\<lambda>e. oe_order_id e = orderId) new"
    by (intro filter_cong) auto
  then show ?thesis
    using replay_complete [OF inv(1) assms(4,5)] new ids(2)
    by (simp add: sse_received_def stream_def streamAll_def del: upt_Suc)
qed

lemma sse_resume_lossless_witness:
  "map oe_id (sse_received (Some (show_nat 1)) 7
      (fold publish_step [(0, 7, ''pending''), (1, 8, ''pending''), (2, 7, ''completed'')] no_events)
      (fold publish_step [(3, 7, ''cancelled'')]
        (fold publish_step [(0, 7, ''pending''), (1, 8, ''pending''), (2, 7, ''completed'')] no_events)))
    = [3, 4]"
proof -
  let ?o = "fold publish_step [(0, 7, ''pending''), (1, 8, ''pending''), (2, 7, ''completed'')] no_events"
  have "length (filter (\<lambda>e. oe_order_id e = 7 \<and> 1 < oe_id e) (es_emitted ?o)) \<le> BUFFER_LIMIT"
    "1 \<le> es_seq ?o"
    by (simp_all add: publish_step_def publish_def no_events_def BUFFER_LIMIT_def Let_def)
  from sse_resume_lossless [OF refl refl this(2) _ this(1), of "[(3, 7, ''cancelled'')]"]
  show ?thesis by (simp add: publish_step_def publish_def no_events_def Let_def)
qed

end
