(* ===== verification/OrdersService.thy ===== *)
theory OrdersService
  imports PlaceOrder AuthService OrderEvents
begin

text \<open>
  Listing, reading, updating and creating orders (\<open>src/orders/orders.service.ts\<close>,
  \<open>orders.controller.ts\<close>, the DTOs) and joining the room of an order over the socket
  (\<open>orders.gateway.ts\<close>). A repository call is the SQL it issues on the tables of \<open>Schema\<close>. The
  page limit is a natural number; an update reads and writes its order in one step.
\<close>

section \<open>Bodies\<close>

definition items_of_order :: "db \<Rightarrow> order_row \<Rightarrow> order_item_row list" where
  "items_of_order s ord = filter (\<lambda>i. oi_order_id i = or_id ord) (t_order_items s)"

definition toResponse :: "db \<Rightarrow> order_row \<Rightarrow> order_response" where
  "toResponse s ord = \<lparr>rs_id = or_id ord,
     rs_items = map (\<lambda>i. \<lparr>ri_product_id = oi_product_id i, ri_quantity = oi_quantity i,
                          ri_unit_price_cents = oi_unit_price_cents i,
                          ri_line_total_cents = oi_line_total_cents i\<rparr>) (items_of_order s ord),
     rs_total_cents = or_total_cents ord, rs_created_at = js_toISOString (or_created_at ord)\<rparr>"

text \<open>A number bound to a \<open>bigint\<close> parameter travels as its decimal text.\<close>

definition bigint_of_number :: "jsnum \<Rightarrow> exn + int" where
  "bigint_of_number n =
     (if \<not> js_isInteger n \<or> 10 ^ 21 \<le> \<bar>js_int n\<bar> then Inl invalid_text_representation
      else if int8_ok (js_int n) then Inr (js_int n)
      else Inl numeric_out_of_range)"

record order_page =
  op_items :: "order_response list"
  op_next_cursor :: "string option"

section \<open>Queries\<close>

definition is_admin :: "access_claims \<Rightarrow> bool" where
  "is_admin viewer \<longleftrightarrow> ac_role viewer = ''admin''"

text \<open>The \<open>where\<close> of the list: the owner unless an admin asks, the cursor when one is given.\<close>

definition owner_filter :: "access_claims \<Rightarrow> exn + int option" where
  "owner_filter viewer =
     (if is_admin viewer then Inr None
      else res_bind (bigint_in (ac_sub viewer)) (\<lambda>u. Inr (Some u)))"

definition cursor_filter :: "string option \<Rightarrow> exn + int option" where
  "cursor_filter cursor = (case cursor of
       None \<Rightarrow> Inr None
     | Some c \<Rightarrow> if c = [] then Inr None
                 else res_bind (bigint_of_number (js_Number c)) (\<lambda>i. Inr (Some i)))"

definition select_orders :: "int option \<Rightarrow> int option \<Rightarrow> nat \<Rightarrow> db \<Rightarrow> order_row list" where
  "select_orders owner after n s = take n (sort_key or_id (filter (\<lambda>ord.
       (case owner of None \<Rightarrow> True | Some u \<Rightarrow> or_user_id ord = u)
       \<and> (case after of None \<Rightarrow> True | Some i \<Rightarrow> i < or_id ord)) (t_orders s)))"

definition findAllForViewer ::
  "access_claims \<Rightarrow> nat \<Rightarrow> string option \<Rightarrow> db \<Rightarrow> exn + order_page" where
  "findAllForViewer viewer limit cursor s =
     res_bind (owner_filter viewer) (\<lambda>owner.
     res_bind (cursor_filter cursor) (\<lambda>after.
       let orders = select_orders owner after (limit + 1) s;
           hasMore = limit < length orders;
           items = map (toResponse s) (if hasMore then take limit orders else orders)
       in if \<not> hasMore then Inr \<lparr>op_items = items, op_next_cursor = None\<rparr>
          else if items = [] then Inl (JsError ''Cannot read properties of undefined'')
          else Inr \<lparr>op_items = items, op_next_cursor = Some (show_int (rs_id (last items)))\<rparr>))"

definition find_order :: "int \<Rightarrow> db \<Rightarrow> exn + order_row option" where
  "find_order i s = res_bind (bigint_of_number (Fin (of_int i))) (\<lambda>k.
     Inr (case filter (\<lambda>ord. or_id ord = k) (t_orders s) of [] \<Rightarrow> None | ord # _ \<Rightarrow> Some ord))"

definition order_not_found :: "int \<Rightarrow> exn" where
  "order_not_found i = NotFoundException (''Order '' @ show_int i @ '' not found'')"

definition findEntity :: "int \<Rightarrow> db \<Rightarrow> exn + order_row" where
  "findEntity i s = res_bind (find_order i s) (\<lambda>found.
     case found of None \<Rightarrow> Inl (order_not_found i) | Some ord \<Rightarrow> Inr ord)"

definition requireOwner :: "int \<Rightarrow> string option \<Rightarrow> db \<Rightarrow> exn + order_row" where
  "requireOwner i userId s = (case userId of
       None \<Rightarrow> Inl (UnauthorizedException ''unauthorized'')
     | Some u \<Rightarrow>
         if u = [] then Inl (UnauthorizedException ''unauthorized'')
         else res_bind (findEntity i s) (\<lambda>ord.
           if show_int (or_user_id ord) \<noteq> u then Inl (ForbiddenException ''forbidden'')
           else Inr ord))"

definition findOneForViewer :: "int \<Rightarrow> access_claims \<Rightarrow> db \<Rightarrow> exn + order_response" where
  "findOneForViewer i viewer s = res_bind (find_order i s) (\<lambda>found. case found of
       None \<Rightarrow> Inl (order_not_found i)
     | Some ord \<Rightarrow>
         if \<not> is_admin viewer \<and> show_int (or_user_id ord) \<noteq> ac_sub viewer
         then Inl (ForbiddenException ''forbidden'')
         else Inr (toResponse s ord))"

section \<open>Commands\<close>

definition set_status :: "int \<Rightarrow> order_status \<Rightarrow> db \<Rightarrow> db" where
  "set_status i st s = s\<lparr>t_orders :=
     map (\<lambda>ord. if or_id ord = i then ord\<lparr>or_status := st\<rparr> else ord) (t_orders s)\<rparr>"

text \<open>The state of the process: the database and the events in memory.\<close>

type_synonym shop_state = "db \<times> order_events"

definition updateStatus ::
  "int \<Rightarrow> int \<Rightarrow> order_status \<Rightarrow> access_claims \<Rightarrow> shop_state \<Rightarrow> (exn + order_response) \<times> shop_state"
where
  "updateStatus now i status viewer st =
     (case findEntity i (fst st) of
        Inl e \<Rightarrow> (Inl e, st)
      | Inr ord \<Rightarrow>
          if \<not> is_admin viewer \<and> show_int (or_user_id ord) \<noteq> ac_sub viewer
          then (Inl (ForbiddenException ''forbidden''), st)
          else if \<not> is_admin viewer \<and> status \<noteq> Cancelled
          then (Inl (ForbiddenException ''only cancellation is allowed''), st)
          else
            (let saved = ord\<lparr>or_status := status\<rparr>;
                 s' = set_status (or_id ord) status (fst st);
                 (_, es') = publish now (or_id saved) (order_status_text (or_status saved)) (snd st);
                 withItems = (case filter (\<lambda>x. or_id x = or_id saved) (t_orders s') of
                     [] \<Rightarrow> saved | x # _ \<Rightarrow> x)
             in (Inr (toResponse s' withItems), (s', es'))))"

record order_item_dto =
  dt_product_id :: int
  dt_quantity :: int

definition create_input ::
  "order_item_dto list \<Rightarrow> string \<Rightarrow> string option \<Rightarrow> string \<Rightarrow> place_order_input" where
  "create_input orderItems userId idempotencyKey shippingCountry =
     \<lparr>pi_user_id = userId,
      pi_items = map (\<lambda>i. \<lparr>it_product_id = dt_product_id i, it_quantity = dt_quantity i\<rparr>) orderItems,
      pi_shipping_country = Some shippingCountry, pi_idempotency_key = idempotencyKey\<rparr>"

section \<open>Validation\<close>

text \<open>
  The DTO after the pipe of \<open>configure-app.ts\<close>: numbers are converted, unknown properties are
  refused. An array or an object where a number is expected counts as NaN.
\<close>

definition dto_number :: "jsval \<Rightarrow> jsnum option" where
  "dto_number v = (case v of JUndefined \<Rightarrow> None | JNull \<Rightarrow> None | _ \<Rightarrow> Some (js_toNumber v))"

definition js_keys :: "jsval \<Rightarrow> string list" where
  "js_keys v = (case v of JObj kvs \<Rightarrow> map fst kvs | _ \<Rightarrow> [])"

definition OrderItemDto :: "jsval \<Rightarrow> order_item_dto option" where
  "OrderItemDto v =
     (if \<not> set (js_keys v) \<subseteq> {''product_id'', ''quantity''} then None
      else case (dto_number (js_get ''product_id'' v), dto_number (js_get ''quantity'' v)) of
          (Some p, Some q) \<Rightarrow>
            if js_isInteger p \<and> 1 \<le> js_int p \<and> js_isInteger q \<and> 1 \<le> js_int q \<and> js_int q \<le> 100
            then Some \<lparr>dt_product_id = js_int p, dt_quantity = js_int q\<rparr> else None
        | _ \<Rightarrow> None)"

definition CreateOrderDto :: "jsval \<Rightarrow> order_item_dto list option" where
  "CreateOrderDto body =
     (if \<not> set (js_keys body) \<subseteq> {''items''} then None
      else case js_get ''items'' body of
          JArr xs \<Rightarrow>
            if 1 \<le> length xs \<and> length xs \<le> 100 \<and> list_all (\<lambda>x. OrderItemDto x \<noteq> None) xs
            then Some (map (\<lambda>x. the (OrderItemDto x)) xs) else None
        | _ \<Rightarrow> None)"

definition UpdateOrderStatusDto :: "jsval \<Rightarrow> order_status option" where
  "UpdateOrderStatusDto body =
     (if \<not> set (js_keys body) \<subseteq> {''status''} then None
      else case js_get ''status'' body of JStr st \<Rightarrow> order_status_of st | _ \<Rightarrow> None)"

section \<open>The controller\<close>

record create_response =
  cr_status :: nat
  cr_location :: string
  cr_replayed :: bool
  cr_body :: order_response

definition header_key :: "string option \<Rightarrow> string option" where
  "header_key rawKey = (case rawKey of
       None \<Rightarrow> None
     | Some k \<Rightarrow> if js_trim k = [] then None else Some (js_trim k))"

definition createOrder ::
  "(jsval \<Rightarrow> string) \<Rightarrow> int \<Rightarrow> string \<Rightarrow> order_item_dto list \<Rightarrow> string option \<Rightarrow> access_claims
     \<Rightarrow> create_response stmt" where
  "createOrder digest now eventId dto rawKey user s =
     (let key = header_key rawKey in
      if key \<noteq> None \<and> 255 < length (the key)
      then (Inl (BadRequestException ''Idempotency-Key must be at most 255 characters''), s)
      else (case placeOrder_alone digest now eventId
                   (create_input dto (ac_sub user) key ''US'') s of
          (Inl e, s') \<Rightarrow> (Inl e, s')
        | (Inr r, s') \<Rightarrow> (Inr \<lparr>cr_status = pos_status r,
            cr_location = ''/orders/'' @ show_int (rs_id (pos_body r)),
            cr_replayed = pos_replayed r, cr_body = pos_body r\<rparr>, s')))"

definition listOrders ::
  "access_claims \<Rightarrow> nat option \<Rightarrow> string option \<Rightarrow> db \<Rightarrow> exn + order_page" where
  "listOrders user limit cursor s =
     findAllForViewer user (case limit of Some n \<Rightarrow> n | None \<Rightarrow> 20) cursor s"

text \<open>The token of an event stream: the bearer header, else a non-empty \<open>access_token\<close>.\<close>

definition sseToken :: "string option \<Rightarrow> jsval \<Rightarrow> string option" where
  "sseToken authorization accessToken = (case bearerToken authorization of
       Some t \<Rightarrow> Some t
     | None \<Rightarrow> (case accessToken of JStr q \<Rightarrow> if q \<noteq> [] then Some q else None | _ \<Rightarrow> None))"

datatype sse_answer = SseRefused nat string | SseStream "order_status_event list"

text \<open>An exception that is no HTTP exception propagates.\<close>

definition orderEventsStream ::
  "'key auth_deps \<Rightarrow> int \<Rightarrow> int \<Rightarrow> string option \<Rightarrow> jsval \<Rightarrow> string option \<Rightarrow> shop_state
     \<Rightarrow> exn + sse_answer" where
  "orderEventsStream d now i authorization accessToken lastEventHeader st =
     (case res_bind (authenticate d now (sseToken authorization accessToken) (fst st)) (\<lambda>user.
             requireOwner i (Some (ac_sub user)) (fst st)) of
        Inl (HttpException code msg) \<Rightarrow> Inr (SseRefused code msg)
      | Inl e \<Rightarrow> Inl e
      | Inr _ \<Rightarrow> Inr (SseStream (replay_on_open lastEventHeader i (snd st))))"

section \<open>The gateway\<close>

datatype join_answer = JoinError string | JoinRoom string

definition handleJoin ::
  "'key auth_deps \<Rightarrow> int \<Rightarrow> jsval \<Rightarrow> jsval \<Rightarrow> db \<Rightarrow> exn + join_answer" where
  "handleJoin d now token body s =
     (let orderId = js_toNumber (js_get ''orderId'' body) in
      if \<not> js_isInteger orderId \<or> js_int orderId < 1 then Inr (JoinError ''invalid_order'')
      else (case res_bind (authenticate d now (case token of JStr t \<Rightarrow> Some t | _ \<Rightarrow> None) s)
                   (\<lambda>user. requireOwner (js_int orderId) (Some (ac_sub user)) s) of
          Inl (HttpException code msg) \<Rightarrow>
            if code = 401 then Inr (JoinError ''unauthorized'')
            else if code = 403 then Inr (JoinError ''forbidden'')
            else if code = 404 then Inr (JoinError ''not_found'')
            else Inl (HttpException code msg)
        | Inl e \<Rightarrow> Inl e
        | Inr _ \<Rightarrow> Inr (JoinRoom (''orders:'' @ show_int (js_int orderId)))))"

definition room_of :: "order_status_event \<Rightarrow> string" where
  "room_of event = ''orders:'' @ show_int (oe_order_id event)"

end
