(* ===== verification/Paging.thy ===== *)
theory Paging
  imports JsValues Prelude
begin

text \<open>
  Keyset paging, as the order list and the product list do it: a page is the rows after the cursor
  in ascending key, one more than asked for being read to know whether there is a next page, and
  the cursor of the next page is the key of the last row. The locale states what a list endpoint
  promises about one page; that following the cursors is complete is proved once from it.
\<close>

text \<open>A client that follows the cursors until there is none.\<close>

fun walk_pages :: "nat \<Rightarrow> (string option \<Rightarrow> exn + 'i list \<times> string option) \<Rightarrow> string option \<Rightarrow> exn + 'i list" where
  "walk_pages 0 page cursor = Inl (JsError ''no more fuel'')"
| "walk_pages (Suc n) page cursor = res_bind (page cursor) (\<lambda>(items, next).
     case next of
       None \<Rightarrow> Inr items
     | Some c \<Rightarrow> res_bind (walk_pages n page (Some c)) (\<lambda>rest. Inr (items @ rest)))"

definition keyset_page :: "nat \<Rightarrow> ('r \<Rightarrow> int) \<Rightarrow> ('r \<Rightarrow> 'i) \<Rightarrow> 'r list \<Rightarrow> 'i list \<times> string option" where
  "keyset_page limit key item rest =
     (if limit < length rest
      then (map item (take limit rest), Some (show_int (key (rest ! (limit - 1)))))
      else (map item rest, None))"

lemma strictly_after:
  assumes "sorted (map k xs)" and "distinct (map k xs)" and "n < length xs"
  shows "filter (\<lambda>x. k (xs ! n) < (k x :: int)) xs = drop (Suc n) xs"
proof -
  have "filter (\<lambda>x. k (xs ! n) < k x) (take (Suc n) xs) = []"
  proof -
    have "\<not> k (xs ! n) < k x" if "x \<in> set (take (Suc n) xs)" for x
    proof -
      from that obtain i where "i < Suc n" "x = xs ! i" using assms(3)
        by (auto simp: in_set_conv_nth)
      with assms(1,3) show ?thesis
        using sorted_nth_mono [of "map k xs" i n] by (simp add: not_less)
    qed
    then show ?thesis by (simp add: filter_empty_conv)
  qed
  moreover have "filter (\<lambda>x. k (xs ! n) < k x) (drop (Suc n) xs) = drop (Suc n) xs"
  proof -
    have "k (xs ! n) < k x" if x: "x \<in> set (drop (Suc n) xs)" for x
    proof -
      from x obtain i where i: "i < length xs - Suc n" "x = xs ! (Suc n + i)"
        by (auto simp: in_set_conv_nth)
      then have "k (xs ! n) \<le> k x"
        using assms(1) sorted_nth_mono [of "map k xs" n "Suc n + i"] by simp
      moreover have "k (xs ! n) \<noteq> k x"
        using assms(2,3) i nth_eq_iff_index_eq [of "map k xs" n "Suc n + i"] by simp
      ultimately show ?thesis by simp
    qed
    then show ?thesis by (simp add: filter_id_conv)
  qed
  ultimately show ?thesis
    by (metis append_Nil append_take_drop_id filter_append)
qed

text \<open>The rows read for a page, one more than its size, give the page.\<close>

lemma keyset_page_read:
  assumes "0 < limit" and "got = take (limit + 1) rest"
  shows "(if limit < length got then (map item (take limit got), Some (show_int (key (last (take limit got)))))
      else (map item got, None)) = keyset_page limit key item rest"
proof (cases "limit < length rest")
  case True
  have "take limit rest = take (limit - 1) rest @ [rest ! (limit - 1)]"
    using True assms(1) take_Suc_conv_app_nth [of "limit - 1" rest] by simp
  then have "last (take limit rest) = rest ! (limit - 1)" by simp
  with True assms show ?thesis by (simp add: keyset_page_def min_def)
qed (use assms in \<open>simp add: keyset_page_def\<close>)

locale keyset_paging =
  fixes valid :: "'s \<Rightarrow> bool"
    and rows :: "'s \<Rightarrow> 'r list"
    and key :: "'r \<Rightarrow> int"
    and item :: "'s \<Rightarrow> 'r \<Rightarrow> 'i"
    and page :: "nat \<Rightarrow> 's \<Rightarrow> string option \<Rightarrow> exn + 'i list \<times> string option"
  assumes rows_sorted: "valid s \<Longrightarrow> sorted (map key (rows s))"
    and rows_distinct: "valid s \<Longrightarrow> distinct (map key (rows s))"
    and first_page: "valid s \<Longrightarrow> 0 < limit \<Longrightarrow>
      page limit s None = Inr (keyset_page limit key (item s) (rows s))"
    and next_page: "valid s \<Longrightarrow> 0 < limit \<Longrightarrow> r \<in> set (rows s) \<Longrightarrow>
      page limit s (Some (show_int (key r)))
        = Inr (keyset_page limit key (item s) (filter (\<lambda>x. key r < key x) (rows s)))"
begin

lemma walk_rest:
  assumes s: "valid s" and limit: "0 < limit"
    and "page limit s cursor = Inr (keyset_page limit key (item s) (drop n (rows s)))"
    and "length (rows s) - n < fuel"
  shows "walk_pages fuel (page limit s) cursor = Inr (map (item s) (drop n (rows s)))"
  using assms(3,4)
proof (induction fuel arbitrary: cursor n)
  case 0
  then show ?case by simp
next
  case (Suc fuel)
  show ?case
  proof (cases "limit < length (drop n (rows s))")
    case False
    with Suc.prems show ?thesis by (simp add: keyset_page_def)
  next
    case True
    let ?i = "n + limit - 1"
    have i: "?i < length (rows s)" "Suc ?i = n + limit" "drop n (rows s) ! (limit - 1) = rows s ! ?i"
      using True limit by auto
    have "page limit s (Some (show_int (key (rows s ! ?i)))) = Inr (keyset_page limit key (item s) (drop (n + limit) (rows s)))"
      using next_page [OF s limit nth_mem [OF i(1)]]
        strictly_after [OF rows_sorted [OF s] rows_distinct [OF s] i(1)] i(2) by simp
    from Suc.IH [OF this] Suc.prems(2) limit True
    have rest: "walk_pages fuel (page limit s) (Some (show_int (key (rows s ! ?i))))
        = Inr (map (item s) (drop (n + limit) (rows s)))" by simp
    have "map (item s) (drop n (rows s))
        = map (item s) (take limit (drop n (rows s))) @ map (item s) (drop (n + limit) (rows s))"
      by (metis append_take_drop_id drop_drop map_append add.commute)
    with rest True Suc.prems(1) i(3) show ?thesis by (simp add: keyset_page_def)
  qed
qed

lemma walk_complete:
  assumes "valid s" and "0 < limit"
  shows "walk_pages (Suc (length (rows s))) (page limit s) None = Inr (map (item s) (rows s))"
  using walk_rest [OF assms, of None 0 "Suc (length (rows s))"] first_page [OF assms]
  by (simp del: walk_pages.simps)

end

end
