(* ===== verification/OrdersProps.thy ===== *)
theory OrdersProps
  imports OrdersService AuthRuns Paging
begin

text \<open>
  Paging, ownership and status changes of orders. \<open>walk\<close> is a client that follows
  \<open>next_cursor\<close> until it is absent.
\<close>

section \<open>Paging\<close>

definition visible :: "int option \<Rightarrow> db \<Rightarrow> order_row list" where
  "visible owner s = sort_key or_id (filter (\<lambda>ord.
     case owner of None \<Rightarrow> True | Some u \<Rightarrow> or_user_id ord = u) (t_orders s))"

fun walk :: "nat \<Rightarrow> access_claims \<Rightarrow> nat \<Rightarrow> string option \<Rightarrow> db \<Rightarrow> exn + order_response list" where
  "walk 0 viewer limit cursor s = Inl (JsError ''no more fuel'')"
| "walk (Suc n) viewer limit cursor s = res_bind (findAllForViewer viewer limit cursor s) (\<lambda>page.
     case op_next_cursor page of
       None \<Rightarrow> Inr (op_items page)
     | Some c \<Rightarrow> res_bind (walk n viewer limit (Some c) s) (\<lambda>rest. Inr (op_items page @ rest)))"

lemma select_orders_visible:
  "select_orders owner after n s =
   take n (filter (\<lambda>ord. case after of None \<Rightarrow> True | Some i \<Rightarrow> i < or_id ord) (visible owner s))"
proof -
  have "sort_key or_id (filter (\<lambda>ord. (case owner of None \<Rightarrow> True | Some u \<Rightarrow> or_user_id ord = u)
      \<and> (case after of None \<Rightarrow> True | Some i \<Rightarrow> i < or_id ord)) (t_orders s)) =
    filter (\<lambda>ord. case after of None \<Rightarrow> True | Some i \<Rightarrow> i < or_id ord) (visible owner s)"
    unfolding visible_def filter_sort filter_filter by (simp add: conj_commute)
  then show ?thesis by (simp add: select_orders_def)
qed

lemma visible_sorted:
  assumes "distinct (map or_id (t_orders s))"
  shows "sorted (map or_id (visible owner s))" "distinct (map or_id (visible owner s))"
proof -
  show "sorted (map or_id (visible owner s))" by (simp add: visible_def)
  have "distinct (map or_id (filter P (t_orders s)))" for P
    using assms by (rule distinct_map_filter)
  then show "distinct (map or_id (visible owner s))"
    by (simp add: visible_def distinct_map)
qed

lemma set_visible: "set (visible owner s) =
  {ord \<in> set (t_orders s). case owner of None \<Rightarrow> True | Some u \<Rightarrow> or_user_id ord = u}"
  by (auto simp: visible_def split: option.splits)

definition ids_in_range :: "db \<Rightarrow> bool" where
  "ids_in_range s \<longleftrightarrow> (\<forall>ord\<in>set (t_orders s). 0 \<le> or_id ord \<and> or_id ord < 2 ^ 63)"

lemma cursor_of_id:
  assumes "0 \<le> i" and "i < 2 ^ 63"
  shows "cursor_filter (Some (show_int i)) = Inr (Some i)"
proof -
  have "js_Number (show_int i) = Fin (of_int i)"
    using js_Number_show_nat [of "nat i"] assms by (simp add: show_int_def)
  then show ?thesis
    using assms by (simp add: cursor_filter_def bigint_of_number_def int8_ok_def show_int_def)
qed

text \<open>The order list of a viewer, as a paged list: what the interface of \<open>Paging\<close> asks for.\<close>

type_synonym viewing = "access_claims \<times> db"

definition owner_of :: "access_claims \<Rightarrow> int option" where
  "owner_of viewer = (case owner_filter viewer of Inr owner \<Rightarrow> owner | Inl e \<Rightarrow> None)"

definition viewing_ok :: "viewing \<Rightarrow> bool" where
  "viewing_ok v \<longleftrightarrow> (\<exists>owner. owner_filter (fst v) = Inr owner)
     \<and> distinct (map or_id (t_orders (snd v))) \<and> ids_in_range (snd v)"

definition viewed_orders :: "viewing \<Rightarrow> order_row list" where
  "viewed_orders v = visible (owner_of (fst v)) (snd v)"

definition order_list_page ::
  "nat \<Rightarrow> viewing \<Rightarrow> string option \<Rightarrow> exn + order_response list \<times> string option" where
  "order_list_page limit v cursor = res_bind (findAllForViewer (fst v) limit cursor (snd v))
     (\<lambda>page. Inr (op_items page, op_next_cursor page))"

lemma order_page_read:
  assumes "0 < limit" and "viewing_ok v" and "cursor_filter cursor = Inr after"
    and "rest = filter (\<lambda>x. case after of None \<Rightarrow> True | Some i \<Rightarrow> i < or_id x) (viewed_orders v)"
  shows "order_list_page limit v cursor = Inr (keyset_page limit or_id (toResponse (snd v)) rest)"
proof -
  obtain owner where owner: "owner_filter (fst v) = Inr owner" using assms(2) by (auto simp: viewing_ok_def)
  let ?got = "select_orders owner after (limit + 1) (snd v)"
  have "?got = take (limit + 1) rest"
    unfolding select_orders_visible assms(4) viewed_orders_def owner_of_def by (simp add: owner)
  from keyset_page_read [OF assms(1) this, of "toResponse (snd v)" or_id]
  show ?thesis
    using assms(1) owner assms(3)
    by (auto simp: order_list_page_def findAllForViewer_def Let_def last_map toResponse_def split: if_splits)
qed

interpretation order_list: keyset_paging viewing_ok viewed_orders or_id "\<lambda>v. toResponse (snd v)" order_list_page
proof unfold_locales
  fix v assume v: "viewing_ok v"
  then show "sorted (map or_id (viewed_orders v))" "distinct (map or_id (viewed_orders v))"
    by (simp_all add: viewing_ok_def viewed_orders_def visible_sorted)
  fix limit :: nat assume limit: "0 < limit"
  show "order_list_page limit v None = Inr (keyset_page limit or_id (toResponse (snd v)) (viewed_orders v))"
    using order_page_read [OF limit v, of None None] by (simp add: cursor_filter_def)
  fix r assume "r \<in> set (viewed_orders v)"
  with v have "cursor_filter (Some (show_int (or_id r))) = Inr (Some (or_id r))"
    by (intro cursor_of_id) (auto simp: viewing_ok_def ids_in_range_def viewed_orders_def set_visible)
  then show "order_list_page limit v (Some (show_int (or_id r)))
      = Inr (keyset_page limit or_id (toResponse (snd v)) (filter (\<lambda>x. or_id r < or_id x) (viewed_orders v)))"
    by (rule order_page_read [OF limit v]) simp
qed

lemma walk_is_walk_pages:
  "walk n viewer limit cursor s = walk_pages n (order_list_page limit (viewer, s)) cursor"
proof (induction n arbitrary: cursor)
  case (Suc n)
  then show ?case
    by (cases "findAllForViewer viewer limit cursor s")
      (auto simp: order_list_page_def split: option.splits)
qed simp

text \<open>
  C14. Following the cursors of the order list returns every order the viewer may see exactly
  once, in ascending id: all orders for an admin, their own for anyone else, for every page size
  from 1, and it ends after at most one page more than there are such orders.
\<close>

theorem paging_is_complete:
  assumes "shop_ok s" and "ids_in_range s" and "0 < limit"
    and "owner_filter viewer = Inr owner"
  shows "walk (Suc (length (t_orders s))) viewer limit None s =
      Inr (map (toResponse s) (visible owner s))
    \<and> set (visible owner s) = {ord \<in> set (t_orders s). is_admin viewer
          \<or> bigint_in (ac_sub viewer) = Inr (or_user_id ord)}
    \<and> sorted (map or_id (visible owner s)) \<and> distinct (map or_id (visible owner s))"
proof -
  have d: "distinct (map or_id (t_orders s))" using assms(1) by (simp add: shop_ok_defs)
  have v: "viewing_ok (viewer, s)" "viewed_orders (viewer, s) = visible owner s"
    using assms(2,4) d by (auto simp: viewing_ok_def viewed_orders_def owner_of_def)
  have "length (visible owner s) \<le> length (t_orders s)" by (simp add: visible_def)
  then have "walk (Suc (length (t_orders s))) viewer limit None s =
      Inr (map (toResponse s) (visible owner s))"
    unfolding walk_is_walk_pages
    using order_list.walk_rest [OF v(1) assms(3), of None 0] order_list.first_page [OF v(1) assms(3)] v(2)
    by (simp del: walk_pages.simps)
  moreover have "set (visible owner s) = {ord \<in> set (t_orders s). is_admin viewer
          \<or> bigint_in (ac_sub viewer) = Inr (or_user_id ord)}"
    using assms(4) by (auto simp: set_visible owner_filter_def res_bind_Inr_iff split: if_splits)
  ultimately show ?thesis using visible_sorted [OF d] by blast
qed

section \<open>Status changes\<close>

lemma find_order_Some:
  assumes "find_order i s = Inr (Some ord)"
  shows "ord \<in> set (t_orders s) \<and> or_id ord = i"
proof -
  from assms obtain k where k: "bigint_of_number (Fin (of_int i)) = Inr k"
    and f: "(case filter (\<lambda>ord. or_id ord = k) (t_orders s) of [] \<Rightarrow> None | ord # _ \<Rightarrow> Some ord) = Some ord"
    unfolding find_order_def res_bind_Inr_iff by auto
  from k have "k = i" by (simp add: bigint_of_number_def split: if_splits)
  with f obtain rest where "filter (\<lambda>ord. or_id ord = i) (t_orders s) = ord # rest"
    by (cases "filter (\<lambda>ord. or_id ord = i) (t_orders s)") auto
  then have "ord \<in> set (filter (\<lambda>ord. or_id ord = i) (t_orders s))" by simp
  then show ?thesis by simp
qed

lemma find_order_present:
  assumes "distinct (map or_id (t_orders s))" and "ord \<in> set (t_orders s)" and "or_id ord = i"
    and "int8_ok i"
  shows "find_order i s = Inr (Some ord)"
proof -
  have "\<bar>i\<bar> < 10 ^ 21" using assms(4) by (simp add: int8_ok_def abs_less_iff)
  then show ?thesis
    using filter_key_single [OF assms(1,2)] assms(3,4)
    by (simp add: find_order_def bigint_of_number_def not_le)
qed

definition may_set :: "access_claims \<Rightarrow> order_status \<Rightarrow> order_row \<Rightarrow> bool" where
  "may_set viewer status ord \<longleftrightarrow>
     is_admin viewer \<or> (show_int (or_user_id ord) = ac_sub viewer \<and> status = Cancelled)"

text \<open>
  A status change needs the right: an admin may set any status, the owner may only cancel,
  nobody else anything. When it is allowed, the status of that one order changes, no other row
  of any table, one event with the new status is published, and the integrity of the tables is
  kept; when it is refused, neither the database nor the events change.
\<close>

theorem status_change:
  assumes "shop_ok s" and "ord \<in> set (t_orders s)" and "or_id ord = i" and "int8_ok i"
    and "updateStatus now i status viewer (s, es) = (r, (s', es'))"
  shows "(is_ok r \<longleftrightarrow> may_set viewer status ord)
    \<and> (may_set viewer status ord \<longrightarrow> shop_ok s'
         \<and> s' = s\<lparr>t_orders := map (\<lambda>x. if x = ord then x\<lparr>or_status := status\<rparr> else x) (t_orders s)\<rparr>
         \<and> r = Inr (toResponse s' (ord\<lparr>or_status := status\<rparr>))
         \<and> es' = snd (publish now i (order_status_text status) es))
    \<and> (\<not> may_set viewer status ord \<longrightarrow>
         (\<exists>m. r = Inl (HttpException 403 m)) \<and> s' = s \<and> es' = es)"
proof -
  have d: "distinct (map or_id (t_orders s))" using assms(1) by (simp add: shop_ok_defs)
  have f: "findEntity i s = Inr ord"
    using find_order_present [OF d assms(2-4)] by (simp add: findEntity_def)
  have rows: "map (\<lambda>x. if or_id x = i then x\<lparr>or_status := status\<rparr> else x) (t_orders s) =
      map (\<lambda>x. if x = ord then x\<lparr>or_status := status\<rparr> else x) (t_orders s)"
    using assms(2,3) distinct_map_unique [OF d] by auto
  have new: "filter (\<lambda>x. or_id x = i) (map (\<lambda>x. if x = ord then x\<lparr>or_status := status\<rparr> else x)
      (t_orders s)) = [ord\<lparr>or_status := status\<rparr>]"
  proof -
    have "(\<lambda>x. or_id x = i) \<circ> (\<lambda>x. if x = ord then x\<lparr>or_status := status\<rparr> else x) =
        (\<lambda>x. or_id x = i)"
      by (auto simp: fun_eq_iff)
    then show ?thesis
      using filter_key_single [OF d assms(2)] assms(3) by (simp only: filter_map) simp
  qed
  have "shop_ok (s\<lparr>t_orders := map (\<lambda>x. if x = ord then x\<lparr>or_status := status\<rparr> else x) (t_orders s)\<rparr>)"
    by (rule shop_ok_map_orders [OF assms(1)]) (auto simp: order_check_def)
  let ?s' = "s\<lparr>t_orders := map (\<lambda>x. if x = ord then x\<lparr>or_status := status\<rparr> else x) (t_orders s)\<rparr>"
  have set: "set_status i status s = ?s'" by (simp add: set_status_def rows)
  have upd: "updateStatus now i status viewer (s, es) =
      (if may_set viewer status ord
       then (Inr (toResponse ?s' (ord\<lparr>or_status := status\<rparr>)),
             (?s', snd (publish now i (order_status_text status) es)))
       else (Inl (ForbiddenException (if \<not> is_admin viewer
                \<and> show_int (or_user_id ord) \<noteq> ac_sub viewer then ''forbidden''
              else ''only cancellation is allowed'')), (s, es)))"
  proof (cases "status = Cancelled")
    case True
    show ?thesis
      using f assms(3) new set unfolding True
      by (simp add: updateStatus_def may_set_def Let_def split: prod.splits)
  next
    case False
    with f assms(3) new set show ?thesis
      by (simp add: updateStatus_def may_set_def Let_def split: prod.splits)
  qed
  with assms(5) \<open>shop_ok ?s'\<close> show ?thesis
    by (cases "may_set viewer status ord") auto
qed

section \<open>Rooms\<close>

text \<open>
  A socket joins the room of an order only with a valid access token of that order's owner,
  and the room carries the events of that order and no other.
\<close>

theorem join_needs_owner:
  assumes "handleJoin d now token body s = Inr (JoinRoom room)"
  shows "\<exists>t claims ord. token = JStr t \<and> authenticate d now (Some t) s = Inr claims
    \<and> ord \<in> set (t_orders s) \<and> show_int (or_user_id ord) = ac_sub claims
    \<and> (\<forall>event. room_of event = room \<longleftrightarrow> oe_order_id event = or_id ord)"
proof -
  let ?i = "js_int (js_toNumber (js_get ''orderId'' body))"
  let ?t = "case token of JStr t \<Rightarrow> Some t | _ \<Rightarrow> None"
  from assms obtain claims ord where a: "authenticate d now ?t s = Inr claims"
    and o: "requireOwner ?i (Some (ac_sub claims)) s = Inr ord"
    and room: "room = ''orders:'' @ show_int ?i"
    by (auto simp: handleJoin_def Let_def res_bind_Inr_iff
        split: if_splits sum.splits exn.splits)
  from a obtain t where "token = JStr t" by (cases token) (auto simp: authenticate_def)
  moreover have "ord \<in> set (t_orders s)" "or_id ord = ?i" "show_int (or_user_id ord) = ac_sub claims"
    using o find_order_Some
    by (auto simp: requireOwner_def findEntity_def res_bind_Inr_iff split: if_splits option.splits)
  ultimately show ?thesis using a room by (auto simp: room_of_def)
qed

section \<open>Three orders of two buyers\<close>

definition demo_user :: "int \<Rightarrow> string \<Rightarrow> user_row" where
  "demo_user i email = \<lparr>us_id = i, us_email = email, us_full_name = ''Buyer'',
     us_balance_cents = 0, us_password_hash = None, us_role = ''buyer'', us_created_at = 0\<rparr>"

definition demo_order_row :: "int \<Rightarrow> int \<Rightarrow> order_row" where
  "demo_order_row i u = \<lparr>or_id = i, or_user_id = u, or_status = Completed, or_total_cents = 100,
     or_shipping_country = ''UA'', or_created_at = 0\<rparr>"

definition three_orders :: db where
  "three_orders = empty_db\<lparr>t_users := [demo_user 1 ''a@shop.test'', demo_user 2 ''b@shop.test''],
     t_orders := [demo_order_row 3 1, demo_order_row 2 2, demo_order_row 1 1],
     sequences := \<lparr>sq_products = 1, sq_orders = 4, sq_order_items = 1, sq_jobs = 1\<rparr>\<rparr>"

lemma three_orders_ok: "shop_ok three_orders" "ids_in_range three_orders"
  by (simp_all add: shop_ok_defs three_orders_def demo_order_row_def demo_user_def empty_db_def
      user_check_def order_check_def country_ok_def is_upper_def sql_trim_def int4_ok_def
      ids_in_range_def)

lemma demo_owner: "bigint_in ''1'' = Inr 1"
  by code_simp

lemma paging_is_complete_witness:
  "res_bind (walk 4 demo_claims 1 None three_orders) (\<lambda>rs. Inr (map rs_id rs)) = Inr [1, 3]"
proof -
  have o: "owner_filter demo_claims = Inr (Some 1)"
    by (simp add: owner_filter_def is_admin_def demo_claims_def demo_owner)
  have "walk 4 demo_claims 1 None three_orders =
      Inr (map (toResponse three_orders) (visible (Some 1) three_orders))"
    using paging_is_complete [OF three_orders_ok _ o, of 1]
    by (simp add: three_orders_def numeral_eq_Suc)
  moreover have "map or_id (visible (Some 1) three_orders) = [1, 3]"
    by (simp add: visible_def three_orders_def demo_order_row_def)
  ultimately show ?thesis by (simp add: toResponse_def comp_def)
qed

lemma status_change_witness:
  "\<exists>r s' es'. updateStatus 9 3 Cancelled demo_claims (three_orders, no_events) = (Inr r, (s', es'))
    \<and> shop_ok s' \<and> map or_status (t_orders s') = [Cancelled, Completed, Completed]"
proof -
  obtain r s' es' where u: "updateStatus 9 3 Cancelled demo_claims (three_orders, no_events) = (r, (s', es'))"
    by (cases "updateStatus 9 3 Cancelled demo_claims (three_orders, no_events)") auto
  have "may_set demo_claims Cancelled (demo_order_row 3 1)"
    by (simp add: may_set_def demo_claims_def demo_order_row_def) code_simp
  moreover have "demo_order_row 3 1 \<in> set (t_orders three_orders)" "or_id (demo_order_row 3 1) = 3"
    "int8_ok 3"
    by (simp_all add: three_orders_def demo_order_row_def int8_ok_def)
  ultimately have "is_ok r" "shop_ok s'" and s': "s' = three_orders\<lparr>t_orders := map (\<lambda>x.
      if x = demo_order_row 3 1 then x\<lparr>or_status := Cancelled\<rparr> else x) (t_orders three_orders)\<rparr>"
    using status_change [OF three_orders_ok(1) _ _ _ u, of "demo_order_row 3 1"] by blast+
  moreover have "map or_status (t_orders s') = [Cancelled, Completed, Completed]"
    by (simp add: s' three_orders_def demo_order_row_def)
  ultimately show ?thesis using u by (cases r) auto
qed

lemma demo_join: "handleJoin demo_deps 9 (JStr ''a1'') (JObj [(''orderId'', JNum (Fin 3))]) three_orders =
    Inr (JoinRoom ''orders:3'')"
proof -
  have "show_int 3 = ''3''" "show_int 1 = ''1''" by code_simp+
  then show ?thesis
    by (simp add: handleJoin_def js_get_def authenticate_def tokens_verify_def demo_deps_def
        readClaims_def isRole_def ROLES_def now_sec_def isAccessRevoked_def three_orders_def
        empty_db_def requireOwner_def findEntity_def find_order_def bigint_of_number_def
        int8_ok_def demo_order_row_def Let_def)
qed

lemma join_needs_owner_witness:
  "\<exists>ord\<in>set (t_orders three_orders). or_id ord = 3 \<and> show_int (or_user_id ord) = ''1''"
proof -
  from join_needs_owner [OF demo_join] obtain claims ord where
    c: "authenticate demo_deps 9 (Some ''a1'') three_orders = Inr claims"
    and o: "ord \<in> set (t_orders three_orders)" "show_int (or_user_id ord) = ac_sub claims"
      "\<forall>event. room_of event = ''orders:3'' \<longleftrightarrow> oe_order_id event = or_id ord"
    by auto
  have "claims = demo_claims"
    using c by (auto simp: authenticate_def tokens_verify_def demo_deps_def readClaims_def isRole_def
        ROLES_def demo_claims_def now_sec_def split: if_splits)
  moreover have "room_of \<lparr>oe_id = 1, oe_order_id = 3, oe_status = [], oe_at = []\<rparr> = ''orders:3''"
    by code_simp
  with o(3) have "or_id ord = 3" by fastforce
  ultimately show ?thesis using o by (auto simp: demo_claims_def)
qed

end
