(* ===== verification/Relay.thy ===== *)
theory Relay
  imports OutboxEvent "HOL-Library.Char_ord" "HOL-Library.List_Lexorder"
    "HOL-Library.Product_Lexorder"
begin

text \<open>
  The outbox relay (\<open>src/outbox/relay.ts\<close>): one pass claims pending rows, publishes them with
  confirms and marks them in that order, in one transaction. What the broker answers for a row,
  which rows other relays hold locked, and what the hook does are parameters of a pass; a process
  killed in the hook is a hook that fails, as the server rolls its transaction back.
\<close>

section \<open>One pass\<close>

definition RELAY_BATCH_SIZE :: nat where "RELAY_BATCH_SIZE = 50"
definition RELAY_MAX_ATTEMPTS :: nat where "RELAY_MAX_ATTEMPTS = 5"
definition EXCHANGE_EVENTS :: string where "EXCHANGE_EVENTS = ''shop.events''"

record broker_message =
  bm_exchange :: string
  bm_routing_key :: string
  bm_message_id :: string
  bm_content :: jsval
  bm_aggregate_type :: string
  bm_aggregate_id :: string

text \<open>
  A publish is confirmed, or it is refused with an error; after an error the broker may hold the
  message all the same, which the flag tells.
\<close>

datatype publish_outcome = Confirmed | Refused bool exn

record relay_env =
  re_now :: int
  re_locked :: "string \<Rightarrow> bool"
  re_outcome :: "outbox_row \<Rightarrow> publish_outcome"
  re_after :: "outbox_row list \<Rightarrow> exn option"
  re_batch :: nat

record relay_result =
  rl_published :: nat
  rl_failed :: nat

definition pending :: "outbox_row \<Rightarrow> bool" where
  "pending r \<longleftrightarrow> ob_published_at r = None \<and> ob_attempts r < RELAY_MAX_ATTEMPTS"

definition select_pending :: "relay_env \<Rightarrow> db \<Rightarrow> outbox_row list" where
  "select_pending env s = take (re_batch env)
     (filter (\<lambda>r. \<not> re_locked env (ob_id r))
       (sort_key (\<lambda>r. (ob_created_at r, ob_id r)) (filter pending (t_outbox s))))"

definition publishRow :: "outbox_row \<Rightarrow> broker_message" where
  "publishRow row = \<lparr>bm_exchange = EXCHANGE_EVENTS, bm_routing_key = ob_type row,
     bm_message_id = ob_id row, bm_content = ob_payload row,
     bm_aggregate_type = ob_aggregate_type row, bm_aggregate_id = ob_aggregate_id row\<rparr>"

definition isChannelClosed :: "exn \<Rightarrow> bool" where
  "isChannelClosed err =
     (let m = js_toLowerCase (errorMessage err) in
      js_includes ''channel closed'' m \<or> js_includes ''channel ended'' m
      \<or> js_includes ''connection closed'' m)"

definition accepted_by_broker :: "relay_env \<Rightarrow> outbox_row \<Rightarrow> bool" where
  "accepted_by_broker env r = (case re_outcome env r of Confirmed \<Rightarrow> True | Refused kept _ \<Rightarrow> kept)"

text \<open>The first rejection that says the channel is gone; it is thrown.\<close>

fun closed_error :: "relay_env \<Rightarrow> outbox_row list \<Rightarrow> exn option" where
  "closed_error env [] = None"
| "closed_error env (r # rs) = (case re_outcome env r of
       Confirmed \<Rightarrow> closed_error env rs
     | Refused _ e \<Rightarrow> if isChannelClosed e then Some e else closed_error env rs)"

fun failed_rows :: "relay_env \<Rightarrow> outbox_row list \<Rightarrow> (string \<times> string) list" where
  "failed_rows env [] = []"
| "failed_rows env (r # rs) = (case re_outcome env r of
       Confirmed \<Rightarrow> failed_rows env rs
     | Refused _ e \<Rightarrow> (ob_id r, errorMessage e) # failed_rows env rs)"

definition published_row :: "int \<Rightarrow> outbox_row \<Rightarrow> outbox_row" where
  "published_row now r = r\<lparr>ob_published_at := Some now, ob_attempts := ob_attempts r + 1,
     ob_last_error := None\<rparr>"

definition failed_row :: "string \<Rightarrow> outbox_row \<Rightarrow> outbox_row" where
  "failed_row msg r = r\<lparr>ob_attempts := ob_attempts r + 1, ob_last_error := Some msg\<rparr>"

definition mark_published :: "int \<Rightarrow> string list \<Rightarrow> db \<Rightarrow> db" where
  "mark_published now ids s = s\<lparr>t_outbox :=
     map (\<lambda>r. if ob_id r \<in> set ids then published_row now r else r) (t_outbox s)\<rparr>"

definition mark_failed :: "string \<times> string \<Rightarrow> db \<Rightarrow> db" where
  "mark_failed f s = s\<lparr>t_outbox :=
     map (\<lambda>r. if ob_id r = fst f then failed_row (snd f) r else r) (t_outbox s)\<rparr>"

text \<open>The result, the database, and the messages the broker holds from this pass.\<close>

definition relayBatch ::
  "relay_env \<Rightarrow> db \<Rightarrow> (exn + relay_result) \<times> db \<times> broker_message list" where
  "relayBatch env s =
     (let rows = select_pending env s;
          held = map publishRow (filter (accepted_by_broker env) rows)
      in if rows = [] then (Inr \<lparr>rl_published = 0, rl_failed = 0\<rparr>, s, [])
         else case closed_error env rows of
             Some e \<Rightarrow> (Inl e, s, held)
           | None \<Rightarrow>
               (let confirmedRows = filter (\<lambda>r. re_outcome env r = Confirmed) rows;
                    failed = failed_rows env rows
                in case re_after env confirmedRows of
                     Some e \<Rightarrow> (Inl e, s, held)
                   | None \<Rightarrow>
                       (let s1 = (if confirmedRows \<noteq> []
                                  then mark_published (re_now env) (map ob_id confirmedRows) s
                                  else s);
                            s2 = fold mark_failed failed s1
                        in (Inr \<lparr>rl_published = length confirmedRows, rl_failed = length failed\<rparr>,
                            s2, held))))"

definition countPending :: "db \<Rightarrow> nat" where
  "countPending s = length (filter pending (t_outbox s))"

definition countParked :: "db \<Rightarrow> nat" where
  "countParked s = length (filter (\<lambda>r. ob_published_at r = None
     \<and> RELAY_MAX_ATTEMPTS \<le> ob_attempts r) (t_outbox s))"

text \<open>
  The drain loop over the passes it makes: each comes with its environment, in which
  \<open>re_now\<close> is also the time of the deadline test. \<open>None\<close>: the list of passes ended while the loop
  was still going.
\<close>

fun drainOutbox ::
  "int \<Rightarrow> nat \<Rightarrow> relay_env list \<Rightarrow> db \<Rightarrow> ((exn + nat) \<times> db) option" where
  "drainOutbox deadline published [] s = None"
| "drainOutbox deadline published (env # envs) s =
     (case relayBatch env s of
        (Inl e, s', _) \<Rightarrow> Some (Inl e, s')
      | (Inr r, s', _) \<Rightarrow>
          if countPending s' = 0 then Some (Inr (published + rl_published r), s')
          else if deadline < re_now env
          then Some (Inl (JsError ''relay timeout: outbox still has pending rows''), s')
          else drainOutbox deadline (published + rl_published r) envs s')"

section \<open>The effect of a pass\<close>

definition settle :: "relay_env \<Rightarrow> outbox_row \<Rightarrow> outbox_row" where
  "settle env r = (case re_outcome env r of
       Confirmed \<Rightarrow> published_row (re_now env) r
     | Refused _ e \<Rightarrow> failed_row (errorMessage e) r)"

lemma marked_row_keys [simp]:
  "ob_id (published_row now r) = ob_id r" "ob_id (failed_row m r) = ob_id r"
  "ob_attempts (published_row now r) = ob_attempts r + 1"
  "ob_attempts (failed_row m r) = ob_attempts r + 1"
  "ob_published_at (published_row now r) = Some now"
  "ob_published_at (failed_row m r) = ob_published_at r"
  "publishRow (published_row now r) = publishRow r" "publishRow (failed_row m r) = publishRow r"
  by (simp_all add: published_row_def failed_row_def publishRow_def)

lemma settle_keys [simp]:
  "ob_id (settle env r) = ob_id r" "publishRow (settle env r) = publishRow r"
  "ob_attempts (settle env r) = ob_attempts r + 1"
  by (simp_all add: settle_def split: publish_outcome.split)

lemma settle_published:
  "ob_published_at (settle env r) =
    (if re_outcome env r = Confirmed then Some (re_now env) else ob_published_at r)"
  by (simp add: settle_def split: publish_outcome.split)

lemma select_pending_set:
  "r \<in> set (select_pending env s) \<Longrightarrow> r \<in> set (t_outbox s) \<and> pending r \<and> \<not> re_locked env (ob_id r)"
  by (auto simp: select_pending_def dest: in_set_takeD)

lemma select_pending_distinct:
  assumes "distinct (map ob_id (t_outbox s))"
  shows "distinct (map ob_id (select_pending env s))"
proof -
  have "distinct (map ob_id (sort_key (\<lambda>r. (ob_created_at r, ob_id r)) (filter pending (t_outbox s))))"
    using assms by (auto simp: distinct_map intro: inj_on_subset)
  then show ?thesis
    unfolding select_pending_def take_map [symmetric]
    by (intro distinct_take distinct_map_filter)
qed

lemma fold_mark_failed:
  assumes "distinct (map ob_id rows)"
  shows "t_outbox (fold mark_failed (failed_rows env rows) s) = map (\<lambda>x.
      case filter (\<lambda>r. ob_id r = ob_id x \<and> re_outcome env r \<noteq> Confirmed) rows of
        [] \<Rightarrow> x
      | r # _ \<Rightarrow> (case re_outcome env r of Confirmed \<Rightarrow> x
          | Refused _ e \<Rightarrow> failed_row (errorMessage e) x))
      (t_outbox s)"
  using assms
proof (induction rows arbitrary: s)
  case Nil
  then show ?case by simp
next
  case (Cons r rows)
  have none: "filter (\<lambda>y. ob_id y = ob_id r \<and> re_outcome env y \<noteq> Confirmed) rows = []"
    using Cons.prems by (auto simp: filter_empty_conv image_iff)
  show ?case
  proof (cases "re_outcome env r")
    case Confirmed
    with Cons show ?thesis by simp
  next
    case (Refused b e)
    with Cons none show ?thesis
      by (auto simp: mark_failed_def intro!: map_cong split: list.split)
  qed
qed

lemma mark_published_same [simp]: "mark_published now [] s = s"
  by (simp add: mark_published_def)

lemma fold_mark_failed_frame:
  "fold mark_failed fs s = s\<lparr>t_outbox := t_outbox (fold mark_failed fs s)\<rparr>"
proof (induction fs arbitrary: s)
  case (Cons f fs)
  have "mark_failed f s = s\<lparr>t_outbox := t_outbox (mark_failed f s)\<rparr>"
    by (simp add: mark_failed_def)
  with Cons [of "mark_failed f s"] show ?case
    by (simp add: mark_failed_def)
qed simp

lemma failed_rows_length:
  "length (filter (\<lambda>r. re_outcome env r = Confirmed) rows) + length (failed_rows env rows) = length rows"
  by (induction rows) (auto split: publish_outcome.split)

lemma filter_id_row:
  assumes "distinct (map ob_id xs)" and "set rows \<subseteq> set xs" and "distinct (map ob_id rows)"
    and "x \<in> set xs"
  shows "filter (\<lambda>r. ob_id r = ob_id x \<and> P r) rows = (if x \<in> set rows \<and> P x then [x] else [])"
proof (cases "x \<in> set rows")
  case True
  have "filter (\<lambda>r. ob_id r = ob_id x \<and> P r) rows = filter P (filter (\<lambda>r. ob_id r = ob_id x) rows)"
    by (simp add: conj_commute)
  then show ?thesis using filter_key_single [OF assms(3) True] True by simp
next
  case False
  then have "ob_id r \<noteq> ob_id x" if "r \<in> set rows" for r
    using that assms distinct_map_unique [OF assms(1), of r x] by auto
  then show ?thesis using False by (simp add: filter_empty_conv)
qed

text \<open>A pass that completes settles exactly the rows it selected.\<close>

lemma settle_all:
  assumes d: "distinct (map ob_id (t_outbox s))" and "rows = select_pending env s"
  shows "t_outbox (fold mark_failed (failed_rows env rows) (mark_published (re_now env)
      (map ob_id (filter (\<lambda>r. re_outcome env r = Confirmed) rows)) s)) =
    map (\<lambda>x. if x \<in> set rows then settle env x else x) (t_outbox s)"
proof -
  have sub: "set rows \<subseteq> set (t_outbox s)" and dr: "distinct (map ob_id rows)"
    using assms select_pending_set select_pending_distinct by auto
  note F = filter_id_row [OF d sub dr]
  let ?ids = "map ob_id (filter (\<lambda>r. re_outcome env r = Confirmed) rows)"
  have row: "(case filter (\<lambda>r. ob_id r = ob_id y \<and> re_outcome env r \<noteq> Confirmed) rows of [] \<Rightarrow> y
        | r # _ \<Rightarrow> (case re_outcome env r of Confirmed \<Rightarrow> y
            | Refused _ e \<Rightarrow> failed_row (errorMessage e) y)) =
      (if x \<in> set rows then settle env x else x)"
    if x: "x \<in> set (t_outbox s)"
      and y: "y = (if ob_id x \<in> set ?ids then published_row (re_now env) x else x)" for x y
  proof -
    have ids: "ob_id x \<in> set ?ids \<longleftrightarrow> x \<in> set rows \<and> re_outcome env x = Confirmed"
    proof
      assume "ob_id x \<in> set ?ids"
      then obtain r where "r \<in> set rows" "re_outcome env r = Confirmed" "ob_id r = ob_id x" by auto
      then show "x \<in> set rows \<and> re_outcome env x = Confirmed"
        using distinct_map_unique [OF d, of r x] sub x by blast
    qed auto
    have "ob_id y = ob_id x" using y by simp
    with F [OF x, of "\<lambda>r. re_outcome env r \<noteq> Confirmed"] show ?thesis
      unfolding y ids by (cases "re_outcome env x") (auto simp: settle_def)
  qed
  have pub: "t_outbox (mark_published (re_now env) ?ids s) =
      map (\<lambda>r. if ob_id r \<in> set ?ids then published_row (re_now env) r else r) (t_outbox s)"
    by (simp add: mark_published_def)
  show ?thesis
    unfolding fold_mark_failed [OF dr] pub map_map comp_def
    by (rule map_cong [OF refl], rule row, assumption, rule refl)
qed

lemma relayBatch_Inr:
  assumes d: "distinct (map ob_id (t_outbox s))" and r: "relayBatch env s = (Inr res, s', held)"
  shows "s' = s\<lparr>t_outbox :=
      map (\<lambda>x. if x \<in> set (select_pending env s) then settle env x else x) (t_outbox s)\<rparr>"
    and "rl_published res + rl_failed res = length (select_pending env s)"
    and "held = map publishRow (filter (accepted_by_broker env) (select_pending env s))"
proof -
  let ?rows = "select_pending env s"
  let ?ids = "map ob_id (filter (\<lambda>r. re_outcome env r = Confirmed) ?rows)"
  have "s' = (if ?rows = [] then s
        else fold mark_failed (failed_rows env ?rows) (mark_published (re_now env) ?ids s))"
    using r by (auto simp: relayBatch_def Let_def split: option.splits if_splits)
  moreover have "fold mark_failed (failed_rows env ?rows) (mark_published (re_now env) ?ids s) =
      s\<lparr>t_outbox := map (\<lambda>x. if x \<in> set ?rows then settle env x else x) (t_outbox s)\<rparr>"
    by (subst fold_mark_failed_frame)
      (simp only: settle_all [OF d refl], simp add: mark_published_def)
  ultimately show "s' = s\<lparr>t_outbox :=
      map (\<lambda>x. if x \<in> set ?rows then settle env x else x) (t_outbox s)\<rparr>"
    by simp
  show "rl_published res + rl_failed res = length ?rows"
    using r failed_rows_length [of env ?rows]
    by (auto simp: relayBatch_def Let_def split: option.splits if_splits)
  show "held = map publishRow (filter (accepted_by_broker env) ?rows)"
    using r by (auto simp: relayBatch_def Let_def split: option.splits if_splits)
qed

text \<open>A pass that throws leaves the database as it was.\<close>

lemma relayBatch_Inl:
  "relayBatch env s = (Inl e, s', held) \<Longrightarrow> s' = s"
  by (auto simp: relayBatch_def Let_def split: option.splits if_splits)

end
