(* ===== verification/RelayProps.thy ===== *)
theory RelayProps
  imports Relay PlaceOrder
begin

text \<open>
  What the relay guarantees: a row is marked only after the broker confirmed it, a refused row is
  retried a bounded number of times and then parked, and draining ends.
\<close>

section \<open>Runs of orders and relay passes\<close>

datatype relay_event =
    RelayPass relay_env
  | OutboxInsert int string string string string jsval

fun relay_step :: "relay_event \<Rightarrow> db \<times> broker_message list \<Rightarrow> db \<times> broker_message list" where
  "relay_step (RelayPass env) (s, held) = (case relayBatch env s of (_, s', new) \<Rightarrow> (s', held @ new))"
| "relay_step (OutboxInsert now i atype aid type payload) (s, held) =
     (snd (insert_outbox now i atype aid type payload s), held)"


lemma settled_ids:
  "map ob_id (map (\<lambda>x. if P x then settle env x else x) xs) = map ob_id xs"
  by simp

lemma relayBatch_ids:
  assumes "distinct (map ob_id (t_outbox s))" and "relayBatch env s = (Inr res, s', held)"
  shows "map ob_id (t_outbox s') = map ob_id (t_outbox s)"
proof -
  have "t_outbox s' =
      map (\<lambda>x. if x \<in> set (select_pending env s) then settle env x else x) (t_outbox s)"
    using relayBatch_Inr(1) [OF assms] by simp
  then show ?thesis by (simp only: settled_ids)
qed





section \<open>One pass\<close>

text \<open>
  A pass that completes takes at most a batch of rows that are pending and not locked,
  oldest first; it marks exactly the confirmed ones published, charges exactly the refused ones
  one attempt with the error and leaves them unpublished, and touches no other row and no other
  table. A pass that throws changes nothing, so no attempt is charged for a lost channel.
\<close>

theorem relay_pass_effect:
  assumes "distinct (map ob_id (t_outbox s))" and "relayBatch env s = (res, s', held)"
  shows "case res of
      Inl e \<Rightarrow> s' = s
    | Inr r \<Rightarrow>
        (let rows = select_pending env s in
         length rows \<le> re_batch env
         \<and> sorted (map (\<lambda>r. (ob_created_at r, ob_id r)) rows)
         \<and> (\<forall>x\<in>set rows. x \<in> set (t_outbox s) \<and> ob_published_at x = None \<and> ob_attempts x < 5
              \<and> \<not> re_locked env (ob_id x))
         \<and> s' = s\<lparr>t_outbox := map (\<lambda>x. if x \<in> set rows then settle env x else x) (t_outbox s)\<rparr>
         \<and> rl_published r + rl_failed r = length rows)"
proof (cases res)
  case (Inl e)
  with assms(2) show ?thesis by (auto dest: relayBatch_Inl)
next
  case (Inr r)
  note R = relayBatch_Inr [OF assms(1) assms(2) [unfolded Inr]]
  have "sorted (map (\<lambda>r. (ob_created_at r, ob_id r)) (select_pending env s))"
    unfolding select_pending_def take_map [symmetric]
    by (intro sorted_wrt_take sorted_filter) simp
  moreover have "\<forall>x\<in>set (select_pending env s). x \<in> set (t_outbox s) \<and> ob_published_at x = None
      \<and> ob_attempts x < 5 \<and> \<not> re_locked env (ob_id x)"
    using select_pending_set [of _ env s] by (auto simp: pending_def RELAY_MAX_ATTEMPTS_def)
  moreover have "length (select_pending env s) \<le> re_batch env"
    by (simp add: select_pending_def)
  ultimately show ?thesis
    unfolding Inr Let_def sum.case using R(1,2) by blast
qed

section \<open>Draining\<close>

text \<open>How many more attempts the pending rows can take.\<close>

definition row_work :: "outbox_row \<Rightarrow> nat" where
  "row_work r = (if pending r then RELAY_MAX_ATTEMPTS - ob_attempts r else 0)"

definition work :: "db \<Rightarrow> nat" where
  "work s = sum_list (map row_work (t_outbox s))"

lemma row_work_settle: "row_work (settle env r) \<le> row_work r - 1"
  by (auto simp: row_work_def pending_def settle_published)

lemma sum_list_less:
  fixes f g :: "'a \<Rightarrow> nat"
  assumes "\<And>x. x \<in> set xs \<Longrightarrow> f x \<le> g x" and "y \<in> set xs" and "f y < g y"
  shows "sum_list (map f xs) < sum_list (map g xs)"
  using assms
proof (induction xs)
  case (Cons x xs)
  have le: "sum_list (map f xs) \<le> sum_list (map g xs)"
    by (rule sum_list_mono) (use Cons.prems(1) in auto)
  show ?case
  proof (cases "y = x")
    case True
    with Cons.prems(3) le show ?thesis by simp
  next
    case False
    with Cons have "sum_list (map f xs) < sum_list (map g xs)" by auto
    with Cons.prems(1) [of x] show ?thesis by (simp add: add_le_less_mono)
  qed
qed simp

text \<open>A broker that answers for every row, with the channel up, nothing locked, no hook.\<close>

definition answers :: "relay_env \<Rightarrow> bool" where
  "answers env \<longleftrightarrow> 1 \<le> re_batch env \<and> (\<forall>i. \<not> re_locked env i) \<and> (\<forall>rows. re_after env rows = None)
     \<and> (\<forall>r b e. re_outcome env r = Refused b e \<longrightarrow> \<not> isChannelClosed e)"

lemma closed_error_None: "answers env \<Longrightarrow> closed_error env rows = None"
  by (induction rows) (auto simp: answers_def split: publish_outcome.split)

lemma answering_pass:
  assumes "distinct (map ob_id (t_outbox s))" and "answers env"
  shows "\<exists>r s' held. relayBatch env s = (Inr r, s', held)
    \<and> distinct (map ob_id (t_outbox s')) \<and> map ob_id (t_outbox s') = map ob_id (t_outbox s)
    \<and> (countPending s \<noteq> 0 \<longrightarrow> work s' < work s)"
proof -
  let ?rows = "select_pending env s"
  have "is_ok (fst (relayBatch env s))"
    using assms(2) closed_error_None [OF assms(2), of ?rows]
    by (simp add: relayBatch_def Let_def answers_def)
  then obtain r s' held where r: "relayBatch env s = (Inr r, s', held)"
    by (cases "relayBatch env s"; cases "fst (relayBatch env s)") auto
  have s': "t_outbox s' = map (\<lambda>x. if x \<in> set ?rows then settle env x else x) (t_outbox s)"
    using relayBatch_Inr(1) [OF assms(1) r] by simp
  note ids = relayBatch_ids [OF assms(1) r]
  have "work s' < work s" if "countPending s \<noteq> 0"
  proof -
    have "?rows \<noteq> []"
      using that assms(2)
      by (auto simp: select_pending_def answers_def countPending_def)
        (metis length_0_conv length_sort set_empty set_sort)
    then obtain y where y: "y \<in> set ?rows" by (cases ?rows) auto
    have "row_work (settle env y) < row_work y"
      using row_work_settle [of env y] select_pending_set [OF y]
      by (auto simp: row_work_def pending_def)
    then show ?thesis
      unfolding work_def s' map_map
      using y select_pending_set [OF y] row_work_settle [of env]
      by (intro sum_list_less [where y = y]) (auto intro: order_trans [OF _ diff_le_self])
  qed
  with r ids assms(1) show ?thesis by (intro exI [of _ r] exI [of _ s'] exI [of _ held]) simp
qed

lemma drain_ends:
  assumes "distinct (map ob_id (t_outbox s))" and "list_all answers envs"
    and "list_all (\<lambda>env. re_now env \<le> deadline) envs" and "work s < length envs"
  shows "\<exists>n s'. drainOutbox deadline p envs s = Some (Inr n, s') \<and> countPending s' = 0
    \<and> map ob_id (t_outbox s') = map ob_id (t_outbox s)"
  using assms
proof (induction envs arbitrary: s p)
  case (Cons env envs)
  then obtain r s' held where r: "relayBatch env s = (Inr r, s', held)"
    and d: "distinct (map ob_id (t_outbox s'))"
    and ids: "map ob_id (t_outbox s') = map ob_id (t_outbox s)"
    and less: "countPending s \<noteq> 0 \<longrightarrow> work s' < work s"
    using answering_pass by fastforce
  show ?case
  proof (cases "countPending s' = 0")
    case True
    with r ids show ?thesis by simp
  next
    case False
    have "countPending s \<noteq> 0"
    proof
      assume "countPending s = 0"
      then have "filter pending (t_outbox s) = []" by (simp add: countPending_def)
      then have "select_pending env s = []" by (simp add: select_pending_def)
      with r have "s' = s" by (simp add: relayBatch_def)
      with False \<open>countPending s = 0\<close> show False by simp
    qed
    with less Cons.prems(4) have "work s' < length envs" by simp
    with Cons.IH [OF d] Cons.prems(2,3) ids r False show ?thesis by (auto simp: not_less)
  qed
qed simp

lemma drain_stops_after_deadline:
  "\<exists>env\<in>set envs. deadline < re_now env \<Longrightarrow> drainOutbox deadline n envs s \<noteq> None"
proof (induction envs arbitrary: n s)
  case (Cons env envs)
  show ?case
  proof (cases "deadline < re_now env")
    case True
    then show ?thesis by (auto split: prod.splits sum.splits)
  next
    case False
    with Cons.prems have "drainOutbox deadline m envs t \<noteq> None" for m t
      by (intro Cons.IH) auto
    then show ?thesis by (simp split: prod.splits sum.splits)
  qed
qed simp

text \<open>
  C16. Draining ends. Whatever the broker, the locks and the hook do, \<open>drainOutbox\<close> has returned or
  thrown by the first pass that ends after the deadline. And when the broker answers for every
  row on an open channel, no row is locked and the deadline is not reached, it returns after at most
  one pass more than the attempts its pending rows have left together, however many rows are
  poison, with every row published or parked at five attempts.
\<close>

theorem drain_terminates:
  assumes "distinct (map ob_id (t_outbox s))"
  shows "((\<exists>env\<in>set envs. deadline < re_now env) \<longrightarrow> drainOutbox deadline 0 envs s \<noteq> None)
    \<and> (list_all answers envs \<and> list_all (\<lambda>env. re_now env \<le> deadline) envs
       \<and> (\<Sum>r\<leftarrow>t_outbox s. if ob_published_at r = None \<and> ob_attempts r < 5 then 5 - ob_attempts r else 0)
           < length envs
       \<longrightarrow> (\<exists>n s'. drainOutbox deadline 0 envs s = Some (Inr n, s')
            \<and> map ob_id (t_outbox s') = map ob_id (t_outbox s)
            \<and> (\<forall>r\<in>set (t_outbox s'). ob_published_at r \<noteq> None \<or> 5 \<le> ob_attempts r)))"
proof (intro conjI impI)
  assume "\<exists>env\<in>set envs. deadline < re_now env"
  then show "drainOutbox deadline 0 envs s \<noteq> None" by (rule drain_stops_after_deadline)
next
  assume A: "list_all answers envs \<and> list_all (\<lambda>env. re_now env \<le> deadline) envs
       \<and> (\<Sum>r\<leftarrow>t_outbox s. if ob_published_at r = None \<and> ob_attempts r < 5 then 5 - ob_attempts r else 0)
           < length envs"
  then have "work s < length envs"
    by (simp add: work_def row_work_def [abs_def] pending_def RELAY_MAX_ATTEMPTS_def cong: if_cong)
  from drain_ends [OF assms _ _ this, of deadline 0] A obtain n s' where
    D: "drainOutbox deadline 0 envs s = Some (Inr n, s')" "countPending s' = 0"
      "map ob_id (t_outbox s') = map ob_id (t_outbox s)"
    by blast
  from D(2) have "\<forall>r\<in>set (t_outbox s'). \<not> pending r"
    by (auto simp: countPending_def filter_empty_conv)
  with D show "\<exists>n s'. drainOutbox deadline 0 envs s = Some (Inr n, s')
      \<and> map ob_id (t_outbox s') = map ob_id (t_outbox s)
      \<and> (\<forall>r\<in>set (t_outbox s'). ob_published_at r \<noteq> None \<or> 5 \<le> ob_attempts r)"
    by (intro exI [of _ n] exI [of _ s']) (auto simp: pending_def RELAY_MAX_ATTEMPTS_def not_less)
qed

section \<open>One event, a broker that refuses first\<close>

definition demo_env :: "int \<Rightarrow> publish_outcome \<Rightarrow> relay_env" where
  "demo_env now answer = \<lparr>re_now = now, re_locked = \<lambda>_. False, re_outcome = \<lambda>_. answer,
     re_after = \<lambda>_. None, re_batch = RELAY_BATCH_SIZE\<rparr>"

definition demo_insert :: relay_event where
  "demo_insert = OutboxInsert 0 ''e1'' ORDER_AGGREGATE ''1'' ORDER_PLACED (JObj [])"

definition demo_outbox :: db where
  "demo_outbox = fst (relay_step demo_insert (empty_db, []))"

definition nacked :: publish_outcome where
  "nacked = Refused False (JsError ''message nacked'')"

lemma demo_outbox_rows: "t_outbox demo_outbox = [\<lparr>ob_id = ''e1'', ob_aggregate_type = ORDER_AGGREGATE,
    ob_aggregate_id = ''1'', ob_type = ORDER_PLACED, ob_payload = JObj [], ob_created_at = 0,
    ob_published_at = None, ob_attempts = 0, ob_last_error = None\<rparr>]"
  by (simp add: demo_outbox_def demo_insert_def insert_outbox_def empty_db_def)

lemma nacked_answers: "answers (demo_env now nacked)" "answers (demo_env now Confirmed)"
proof -
  have "\<not> isChannelClosed (JsError ''message nacked'')" by code_simp
  then show "answers (demo_env now nacked)" "answers (demo_env now Confirmed)"
    by (simp_all add: answers_def demo_env_def nacked_def RELAY_BATCH_SIZE_def)
qed

lemma demo_distinct: "distinct (map ob_id (t_outbox demo_outbox))"
  by (simp add: demo_outbox_rows)


lemma relay_pass_effect_witness:
  "\<exists>res s' held. relayBatch (demo_env 3 nacked) demo_outbox = (res, s', held)
    \<and> is_ok res \<and> map ob_attempts (t_outbox s') = [1]"
proof -
  obtain res s' held where b: "relayBatch (demo_env 3 nacked) demo_outbox = (res, s', held)"
    by (cases "relayBatch (demo_env 3 nacked) demo_outbox")
  moreover obtain r where r: "res = Inr r"
    using answering_pass [OF demo_distinct nacked_answers(1), of 3] b by auto
  ultimately have "s' = demo_outbox\<lparr>t_outbox := map (\<lambda>x. if x \<in> set (select_pending (demo_env 3 nacked) demo_outbox)
      then settle (demo_env 3 nacked) x else x) (t_outbox demo_outbox)\<rparr>"
    using relay_pass_effect [of demo_outbox "demo_env 3 nacked"]
    by (simp add: demo_outbox_rows Let_def)
  then have "map ob_attempts (t_outbox s') = [1]"
    by (simp add: demo_outbox_rows select_pending_def demo_env_def pending_def
        RELAY_MAX_ATTEMPTS_def RELAY_BATCH_SIZE_def)
  with b r show ?thesis by simp
qed

lemma drain_terminates_witness:
  "\<exists>n s'. drainOutbox 9 0 (replicate 6 (demo_env 3 nacked)) demo_outbox = Some (Inr n, s')
    \<and> (\<forall>r\<in>set (t_outbox s'). ob_published_at r \<noteq> None \<or> 5 \<le> ob_attempts r)"
  using conjunct2 [OF drain_terminates [of demo_outbox "replicate 6 (demo_env 3 nacked)" 9]]
    nacked_answers by (fastforce simp: demo_outbox_rows list_all_iff demo_env_def)

end
