(* ===== verification/Consumer.thy ===== *)
theory Consumer
  imports OutboxEvent
begin

text \<open>
  The order.placed consumer (\<open>src/outbox/consumer.ts\<close>): the inbox mark and the effect in one
  transaction, local retries of transient database errors, and what it answers the broker. The
  faults of the infrastructure are parameters: an attempt may fail before it commits, or after
  the commit took effect with only the answer lost; the channel may be gone when it answers.
\<close>

section \<open>The effect\<close>

definition CONSUMER_NAME :: string where "CONSUMER_NAME = ''order-confirmations''"
definition CONSUMER_LOCAL_ATTEMPTS :: nat where "CONSUMER_LOCAL_ATTEMPTS = 3"
definition CONSUMER_MAX_REDELIVERIES :: nat where "CONSUMER_MAX_REDELIVERIES = 5"

record consumer_stats =
  st_deliveries :: nat
  st_applied :: nat
  st_skipped :: nat
  st_rejected :: nat
  st_requeued :: nat
  st_failed :: nat

definition emptyStats :: consumer_stats where
  "emptyStats = \<lparr>st_deliveries = 0, st_applied = 0, st_skipped = 0, st_rejected = 0,
     st_requeued = 0, st_failed = 0\<rparr>"

definition marked :: "string \<Rightarrow> db \<Rightarrow> bool" where
  "marked eid s \<longleftrightarrow>
     (\<exists>m\<in>set (t_processed_messages s). pm_message_id m = eid \<and> pm_consumer m = CONSUMER_NAME)"

text \<open>\<open>INSERT INTO order_confirmations ... ON CONFLICT (order_id) DO NOTHING\<close>\<close>

definition insert_confirmation :: "int \<Rightarrow> order_placed_event \<Rightarrow> unit stmt" where
  "insert_confirmation now ev s =
     (case (bigint_in (ev_order_id ev), bigint_in (ev_user_id ev), int4_in (ev_total_cents ev)) of
        (Inr oid, Inr uid, Inr cents) \<Rightarrow>
          if cents < 0 then (Inl check_violation, s)
          else if oid \<in> cf_order_id ` set (t_confirmations s) then (Inr (), s)
          else (Inr (), s\<lparr>t_confirmations := t_confirmations s @
            [\<lparr>cf_order_id = oid, cf_event_id = ev_event_id ev, cf_user_id = uid,
              cf_total_cents = cents, cf_confirmed_at = now\<rparr>]\<rparr>)
      | (Inl e, _, _) \<Rightarrow> (Inl e, s)
      | (_, Inl e, _) \<Rightarrow> (Inl e, s)
      | (_, _, Inl e) \<Rightarrow> (Inl e, s))"

definition mark_processed :: "int \<Rightarrow> string \<Rightarrow> db \<Rightarrow> db" where
  "mark_processed now eid s = s\<lparr>t_processed_messages := t_processed_messages s @
     [\<lparr>pm_message_id = eid, pm_consumer = CONSUMER_NAME, pm_processed_at = now\<rparr>]\<rparr>"

datatype db_fault = NoFault | FailsBefore exn | FailsAfter exn

definition apply_tx :: "int \<Rightarrow> order_placed_event \<Rightarrow> bool stmt" where
  "apply_tx now ev s =
     (if marked (ev_event_id ev) s then (Inr False, s)
      else (case insert_confirmation now ev (mark_processed now (ev_event_id ev) s) of
          (Inl e, _) \<Rightarrow> (Inl e, s)
        | (Inr _, s') \<Rightarrow> (Inr True, s')))"

definition applyOrderPlaced :: "int \<Rightarrow> db_fault \<Rightarrow> order_placed_event \<Rightarrow> bool stmt" where
  "applyOrderPlaced now fault ev s = (case fault of
       NoFault \<Rightarrow> apply_tx now ev s
     | FailsBefore e \<Rightarrow> (Inl e, s)
     | FailsAfter e \<Rightarrow> (case apply_tx now ev s of
           (Inl e', s') \<Rightarrow> (Inl e', s')
         | (Inr _, s') \<Rightarrow> (Inl e, s')))"

section \<open>Local retries\<close>

text \<open>\<open>fn k\<close> is the k-th call of the argument.\<close>

function withLocalRetry :: "(nat \<Rightarrow> 'a stmt) \<Rightarrow> nat \<Rightarrow> 'a stmt" where
  "withLocalRetry fn attempt s = (case fn attempt s of
       (Inr x, s') \<Rightarrow> (Inr x, s')
     | (Inl err, s') \<Rightarrow>
         if \<not> isTransientDbError err \<or> CONSUMER_LOCAL_ATTEMPTS \<le> attempt then (Inl err, s')
         else withLocalRetry fn (attempt + 1) s')"
  by pat_completeness auto

termination
  by (relation "measure (\<lambda>(fn, attempt, s). CONSUMER_LOCAL_ATTEMPTS - attempt)") auto

declare withLocalRetry.simps [simp del]

section \<open>One delivery\<close>

text \<open>What \<open>JSON.parse\<close> makes of the content, the raw header \<open>x-delivery-count\<close>, the flag.\<close>

record consume_message =
  cm_content :: "jsval option"
  cm_delivery_count :: jsval
  cm_redelivered :: bool

definition deliveryCount :: "consume_message \<Rightarrow> jsnum" where
  "deliveryCount msg =
     (let raw = cm_delivery_count msg;
          n = (case raw of JNum x \<Rightarrow> x | _ \<Rightarrow> js_toNumber raw)
      in if js_isFinite n then n else if cm_redelivered msg then Fin 1 else Fin 0)"

datatype settlement = Ack | RejectMsg bool | NackToDlq

text \<open>
  \<open>he_after\<close> is the hook \<open>afterEffect\<close>, \<open>he_open\<close> whether the channel still takes answers. On a
  closed channel no answer reaches the broker.
\<close>

record handle_env =
  he_now :: int
  he_fault :: "nat \<Rightarrow> db_fault"
  he_after :: "order_placed_event \<Rightarrow> exn option"
  he_open :: bool

definition safely :: "handle_env \<Rightarrow> settlement \<Rightarrow> settlement option" where
  "safely env a = (if he_open env then Some a else None)"

definition bump_deliveries :: "consumer_stats \<Rightarrow> consumer_stats" where
  "bump_deliveries st = st\<lparr>st_deliveries := st_deliveries st + 1\<rparr>"

definition on_error :: "handle_env \<Rightarrow> consume_message \<Rightarrow> exn \<Rightarrow> consumer_stats
     \<Rightarrow> settlement option \<times> consumer_stats" where
  "on_error env msg err st =
     (let transient = (isTransientDbError err
            \<or> (case err of AfterEffectError _ \<Rightarrow> True | _ \<Rightarrow> False))
      in if transient \<and> js_lt (deliveryCount msg) (Fin (of_nat CONSUMER_MAX_REDELIVERIES))
         then (safely env (RejectMsg True), st\<lparr>st_requeued := st_requeued st + 1\<rparr>)
         else (safely env NackToDlq, st\<lparr>st_failed := st_failed st + 1\<rparr>))"

definition count_applied :: "bool \<Rightarrow> consumer_stats \<Rightarrow> consumer_stats" where
  "count_applied applied st =
     (if applied then st\<lparr>st_applied := st_applied st + 1\<rparr> else st\<lparr>st_skipped := st_skipped st + 1\<rparr>)"

definition handle ::
  "handle_env \<Rightarrow> consume_message \<Rightarrow> consumer_stats \<Rightarrow> db
     \<Rightarrow> settlement option \<times> consumer_stats \<times> db" where
  "handle env msg stats0 s =
     (let stats = bump_deliveries stats0 in
      case parseOrderPlacedEvent (cm_content msg) of
        None \<Rightarrow> (safely env (RejectMsg False), stats\<lparr>st_rejected := st_rejected stats + 1\<rparr>, s)
      | Some ev \<Rightarrow>
          (case withLocalRetry (\<lambda>k. applyOrderPlaced (he_now env) (he_fault env k) ev) 1 s of
             (Inl err, s') \<Rightarrow>
               (case on_error env msg err stats of (a, st) \<Rightarrow> (a, st, s'))
           | (Inr applied, s') \<Rightarrow>
               (case he_after env ev of
                  Some e \<Rightarrow>
                    (case on_error env msg (AfterEffectError (errorMessage e)) stats of
                       (a, st) \<Rightarrow> (a, st, s'))
                | None \<Rightarrow>
                    if he_open env then (Some Ack, count_applied applied stats, s')
                    else (case on_error env msg (JsError ''Channel closed'')
                                 (count_applied applied stats) of (a, st) \<Rightarrow> (a, st, s')))))"

section \<open>The work queue\<close>

text \<open>
  A queue message is its content with the number of times it was requeued, which the broker puts
  in the header from the first requeue on. An answer that did not reach the broker returns the
  message like a requeue; the dead-letter exchange takes what is refused for good.
\<close>

record queue_state =
  qs_db :: db
  qs_stats :: consumer_stats
  qs_ready :: "(jsval option \<times> nat) list"
  qs_acked :: "jsval option list"
  qs_dlq :: "jsval option list"

definition delivery :: "jsval option \<times> nat \<Rightarrow> consume_message" where
  "delivery m = \<lparr>cm_content = fst m,
     cm_delivery_count = (if snd m = 0 then JUndefined else JNum (Fin (of_nat (snd m)))),
     cm_redelivered = (snd m \<noteq> 0)\<rparr>"

definition deliver :: "handle_env \<Rightarrow> queue_state \<Rightarrow> queue_state" where
  "deliver env q = (case qs_ready q of
       [] \<Rightarrow> q
     | m # rest \<Rightarrow>
         (case handle env (delivery m) (qs_stats q) (qs_db q) of
            (a, st, s') \<Rightarrow>
              (let q' = q\<lparr>qs_db := s', qs_stats := st, qs_ready := rest\<rparr> in
               case a of
                 Some Ack \<Rightarrow> q'\<lparr>qs_acked := qs_acked q @ [fst m]\<rparr>
               | Some (RejectMsg requeue) \<Rightarrow>
                   if requeue then q'\<lparr>qs_ready := rest @ [(fst m, snd m + 1)]\<rparr>
                   else q'\<lparr>qs_dlq := qs_dlq q @ [fst m]\<rparr>
               | Some NackToDlq \<Rightarrow> q'\<lparr>qs_dlq := qs_dlq q @ [fst m]\<rparr>
               | None \<Rightarrow> q'\<lparr>qs_ready := rest @ [(fst m, snd m + 1)]\<rparr>)))"

end
