(* ===== verification/ConsumerProps.thy ===== *)
theory ConsumerProps
  imports Consumer "HOL-Library.Multiset"
begin

text \<open>
  The consumer applies each event at most once, acknowledges only what it applied, and settles
  every message after a bounded number of deliveries.
\<close>

section \<open>The inbox\<close>

text \<open>\<open>ord\<close> is the order of an event id: producers give every event its own id.\<close>

text \<open>The ids this consumer has marked.\<close>

definition marks :: "db \<Rightarrow> string list" where
  "marks s = map pm_message_id (filter (\<lambda>m. pm_consumer m = CONSUMER_NAME) (t_processed_messages s))"

lemma marked_iff: "marked eid s \<longleftrightarrow> eid \<in> set (marks s)"
  by (auto simp: marked_def marks_def)

definition inbox_inv :: "(string \<Rightarrow> string) \<Rightarrow> db \<Rightarrow> bool" where
  "inbox_inv ord s \<longleftrightarrow> distinct (map cf_order_id (t_confirmations s))
     \<and> distinct (map cf_event_id (t_confirmations s)) \<and> distinct (marks s)
     \<and> (\<forall>c\<in>set (t_confirmations s). marked (cf_event_id c) s)
     \<and> (\<forall>eid. marked eid s \<longrightarrow>
          (\<exists>c\<in>set (t_confirmations s). bigint_in (ord eid) = Inr (cf_order_id c)))"

definition inbox_grows :: "db \<Rightarrow> db \<Rightarrow> bool" where
  "inbox_grows s s' \<longleftrightarrow> (\<exists>cs ms. s' = s\<lparr>t_processed_messages :=
     t_processed_messages s @ ms, t_confirmations := t_confirmations s @ cs\<rparr>)"

lemma inbox_grows_refl: "inbox_grows s s"
proof -
  have "s = s\<lparr>t_processed_messages := t_processed_messages s @ [], t_confirmations := t_confirmations s @ []\<rparr>"
    by simp
  then show ?thesis unfolding inbox_grows_def by blast
qed

lemma inbox_grows_trans:
  assumes "inbox_grows s t" and "inbox_grows t u"
  shows "inbox_grows s u"
proof -
  from assms obtain cs ms cs' ms' where
    "t = s\<lparr>t_processed_messages := t_processed_messages s @ ms, t_confirmations := t_confirmations s @ cs\<rparr>"
    "u = t\<lparr>t_processed_messages := t_processed_messages t @ ms', t_confirmations := t_confirmations t @ cs'\<rparr>"
    by (auto simp: inbox_grows_def)
  then have "u = s\<lparr>t_processed_messages := t_processed_messages s @ (ms @ ms'),
      t_confirmations := t_confirmations s @ (cs @ cs')\<rparr>"
    by simp
  then show ?thesis unfolding inbox_grows_def by blast
qed

lemma marked_grows: "inbox_grows s s' \<Longrightarrow> marked eid s \<Longrightarrow> marked eid s'"
  by (auto simp: inbox_grows_def marked_def)

lemma insert_confirmation_Inr:
  assumes "insert_confirmation now ev s = (Inr u, s')"
  obtains oid cs where "bigint_in (ev_order_id ev) = Inr oid"
    and "s' = s\<lparr>t_confirmations := t_confirmations s @ cs\<rparr>"
    and "oid \<in> cf_order_id ` set (t_confirmations s')"
    and "cs = [] \<or> (\<exists>c. cs = [c] \<and> cf_order_id c = oid \<and> cf_event_id c = ev_event_id ev
      \<and> oid \<notin> cf_order_id ` set (t_confirmations s))"
proof -
  from assms obtain oid uid cents where p: "bigint_in (ev_order_id ev) = Inr oid"
    "bigint_in (ev_user_id ev) = Inr uid" "int4_in (ev_total_cents ev) = Inr cents" "\<not> cents < 0"
    by (auto simp: insert_confirmation_def split: sum.splits if_splits)
  show thesis
  proof (cases "oid \<in> cf_order_id ` set (t_confirmations s)")
    case True
    with assms p show thesis by (intro that [of oid "[]"]) (auto simp: insert_confirmation_def)
  next
    case False
    let ?c = "\<lparr>cf_order_id = oid, cf_event_id = ev_event_id ev, cf_user_id = uid,
              cf_total_cents = cents, cf_confirmed_at = now\<rparr>"
    have "s' = s\<lparr>t_confirmations := t_confirmations s @ [?c]\<rparr>"
      using assms p False by (simp add: insert_confirmation_def)
    with p False show thesis by (intro that [of oid "[?c]"]) auto
  qed
qed

lemma marked_mark [simp]: "marked e (mark_processed now eid s) \<longleftrightarrow> e = eid \<or> marked e s"
  by (auto simp: marked_def mark_processed_def)

lemma marked_confirmations [simp]: "marked e (s\<lparr>t_confirmations := cs\<rparr>) = marked e s"
  by (simp add: marked_def)

lemma mark_processed_confirmations [simp]:
  "t_confirmations (mark_processed now eid s) = t_confirmations s"
  by (simp add: mark_processed_def)

lemma apply_tx_keeps:
  assumes inv: "inbox_inv ord s" and o: "ev_order_id ev = ord (ev_event_id ev)"
    and a: "apply_tx now ev s = (r, s')"
  shows "inbox_inv ord s' \<and> inbox_grows s s' \<and> (is_ok r \<longrightarrow> marked (ev_event_id ev) s')"
proof (cases "marked (ev_event_id ev) s \<or> \<not> is_ok r")
  case True
  have "s' = s"
  proof (cases "marked (ev_event_id ev) s")
    case True
    with a show ?thesis by (simp add: apply_tx_def)
  next
    case unmarked: False
    obtain w v where "insert_confirmation now ev (mark_processed now (ev_event_id ev) s) = (w, v)"
      by (cases "insert_confirmation now ev (mark_processed now (ev_event_id ev) s)")
    with a unmarked True show ?thesis by (cases w; cases r) (simp_all add: apply_tx_def)
  qed
  with True inv inbox_grows_refl show ?thesis by auto
next
  case False
  let ?e = "ev_event_id ev"
  let ?t = "mark_processed now ?e s"
  obtain w v where wv: "insert_confirmation now ev ?t = (w, v)"
    by (cases "insert_confirmation now ev ?t")
  with False a have i: "insert_confirmation now ev ?t = (Inr (), s')"
    by (cases w; cases r) (simp_all add: apply_tx_def split: if_splits)
  from i obtain oid cs where c: "bigint_in (ev_order_id ev) = Inr oid"
      "s' = ?t\<lparr>t_confirmations := t_confirmations ?t @ cs\<rparr>"
      "oid \<in> cf_order_id ` set (t_confirmations s')"
      "cs = [] \<or> (\<exists>c. cs = [c] \<and> cf_order_id c = oid \<and> cf_event_id c = ?e
        \<and> oid \<notin> cf_order_id ` set (t_confirmations ?t))"
    by (rule insert_confirmation_Inr)
  have m: "marked e s' \<longleftrightarrow> e = ?e \<or> marked e s" for e by (simp add: c(2))
  have "?e \<notin> cf_event_id ` set (t_confirmations s)"
    using inv False by (auto simp: inbox_inv_def)
  with inv c(4) have d: "distinct (map cf_order_id (t_confirmations s'))"
      "distinct (map cf_event_id (t_confirmations s'))"
      "\<forall>x\<in>set (t_confirmations s'). marked (cf_event_id x) s'"
    unfolding m by (auto simp: c(2) inbox_inv_def image_iff)
  have "\<exists>x\<in>set (t_confirmations s'). bigint_in (ord e) = Inr (cf_order_id x)" if "marked e s'" for e
    using that inv c(1,3) o unfolding m by (auto simp: c(2) inbox_inv_def)
  moreover have "marks s' = marks s @ [?e]" by (simp add: c(2) marks_def mark_processed_def)
  with inv False have "distinct (marks s')" by (simp add: inbox_inv_def marked_iff)
  ultimately have "inbox_inv ord s'" using d by (auto simp: inbox_inv_def)
  moreover have "inbox_grows s s'"
    using c(2) by (auto simp: inbox_grows_def mark_processed_def)
  ultimately show ?thesis by (simp add: m)
qed

lemma applyOrderPlaced_keeps:
  assumes "inbox_inv ord s" and "ev_order_id ev = ord (ev_event_id ev)"
    and "applyOrderPlaced now fault ev s = (r, s')"
  shows "inbox_inv ord s' \<and> inbox_grows s s' \<and> (is_ok r \<longrightarrow> marked (ev_event_id ev) s')"
proof -
  obtain q t where q: "apply_tx now ev s = (q, t)" by (cases "apply_tx now ev s")
  note K = apply_tx_keeps [OF assms(1,2) q]
  show ?thesis
    using assms(1,3) q K inbox_grows_refl
    by (cases fault) (auto simp: applyOrderPlaced_def split: sum.splits)
qed

lemma withLocalRetry_keeps:
  assumes trans: "\<And>t u v. R t u \<Longrightarrow> R u v \<Longrightarrow> R t v"
    and step: "\<And>k t r t'. P t \<Longrightarrow> fn k t = (r, t') \<Longrightarrow> P t' \<and> R t t' \<and> (is_ok r \<longrightarrow> Q t')"
    and P: "P s" and run: "withLocalRetry fn attempt s = (r, s')"
  shows "P s' \<and> R s s' \<and> (is_ok r \<longrightarrow> Q s')"
  using step P run
proof (induction fn attempt s rule: withLocalRetry.induct)
  case (1 fn attempt s)
  obtain q t where q: "fn attempt s = (q, t)" by (cases "fn attempt s")
  note K = "1.prems"(1) [OF "1.prems"(2) q]
  show ?case
  proof (cases q)
    case (Inr x)
    with q "1.prems"(3) K show ?thesis by (simp add: withLocalRetry.simps [of fn attempt])
  next
    case (Inl e)
    show ?thesis
    proof (cases "\<not> isTransientDbError e \<or> CONSUMER_LOCAL_ATTEMPTS \<le> attempt")
      case True
      with Inl q "1.prems"(3) K show ?thesis by (auto simp: withLocalRetry.simps [of fn attempt])
    next
      case False
      with Inl q "1.prems"(3) have "withLocalRetry fn (attempt + 1) t = (r, s')"
        by (simp add: withLocalRetry.simps [of fn attempt])
      moreover have "P t" using K by blast
      ultimately have "P s' \<and> R t s' \<and> (is_ok r \<longrightarrow> Q s')"
        using "1.IH" [OF q [symmetric] Inl False] "1.prems"(1) by blast
      with K trans show ?thesis by blast
    qed
  qed
qed

section \<open>One delivery\<close>

lemma handle_keeps:
  assumes inv: "inbox_inv ord s"
    and o: "\<And>ev. parseOrderPlacedEvent (cm_content msg) = Some ev \<Longrightarrow>
      ev_order_id ev = ord (ev_event_id ev)"
    and h: "handle env msg st s = (a, st', s')"
  shows "inbox_inv ord s' \<and> inbox_grows s s'
    \<and> (a = Some Ack \<longrightarrow> (\<exists>ev. parseOrderPlacedEvent (cm_content msg) = Some ev
         \<and> marked (ev_event_id ev) s'))"
proof (cases "parseOrderPlacedEvent (cm_content msg)")
  case None
  with h inv show ?thesis by (auto simp: handle_def Let_def safely_def inbox_grows_refl split: if_splits)
next
  case (Some ev)
  let ?fn = "\<lambda>k. applyOrderPlaced (he_now env) (he_fault env k) ev"
  obtain r t where r: "withLocalRetry ?fn 1 s = (r, t)" by (cases "withLocalRetry ?fn 1 s")
  have K: "inbox_inv ord t \<and> inbox_grows s t \<and> (is_ok r \<longrightarrow> marked (ev_event_id ev) t)"
  proof (rule withLocalRetry_keeps [where R = inbox_grows
        and P = "inbox_inv ord" and Q = "marked (ev_event_id ev)" and fn = ?fn,
        OF inbox_grows_trans _ inv r])
    fix k u q u'
    assume "inbox_inv ord u" "?fn k u = (q, u')"
    then show "inbox_inv ord u' \<and> inbox_grows u u' \<and> (is_ok q \<longrightarrow> marked (ev_event_id ev) u')"
      using o [OF Some] by (intro applyOrderPlaced_keeps)
  qed
  have "s' = t" "a = Some Ack \<longrightarrow> is_ok r"
    using h Some r
    by (auto simp: handle_def Let_def on_error_def safely_def split: sum.splits option.splits if_splits)
  with K Some show ?thesis by auto
qed

lemma delivery_content [simp]: "cm_content (delivery m) = fst m"
  by (simp add: delivery_def)

section \<open>The queue\<close>

definition queue_inv :: "(string \<Rightarrow> string) \<Rightarrow> jsval option multiset \<Rightarrow> queue_state \<Rightarrow> bool" where
  "queue_inv ord all q \<longleftrightarrow> inbox_inv ord (qs_db q)
     \<and> mset (map fst (qs_ready q)) + mset (qs_acked q) + mset (qs_dlq q) = all
     \<and> (\<forall>c ev. c \<in># all \<longrightarrow> parseOrderPlacedEvent c = Some ev \<longrightarrow>
          ev_order_id ev = ord (ev_event_id ev))
     \<and> (\<forall>c\<in>set (qs_acked q). \<exists>ev. parseOrderPlacedEvent c = Some ev
          \<and> marked (ev_event_id ev) (qs_db q))"

lemma queue_inv_deliver:
  assumes inv: "queue_inv ord all q"
  shows "queue_inv ord all (deliver env q) \<and> inbox_grows (qs_db q) (qs_db (deliver env q))"
proof (cases "qs_ready q")
  case Nil
  with inv show ?thesis by (simp add: deliver_def inbox_grows_refl)
next
  case (Cons m rest)
  obtain a st' s' where h: "handle env (delivery m) (qs_stats q) (qs_db q) = (a, st', s')"
    by (cases "handle env (delivery m) (qs_stats q) (qs_db q)")
  have "fst m \<in># all" using inv Cons by (auto simp: queue_inv_def)
  then have K: "inbox_inv ord s' \<and> inbox_grows (qs_db q) s'
      \<and> (a = Some Ack \<longrightarrow> (\<exists>ev. parseOrderPlacedEvent (fst m) = Some ev \<and> marked (ev_event_id ev) s'))"
    using handle_keeps [OF _ _ h, of ord] inv by (auto simp: queue_inv_def)
  let ?q = "deliver env q"
  have db: "qs_db ?q = s'"
    using Cons h by (simp add: deliver_def Let_def split: option.split settlement.split)
  have "mset (map fst (qs_ready ?q)) + mset (qs_acked ?q) + mset (qs_dlq ?q) = all"
    using inv Cons h
    by (auto simp: deliver_def Let_def queue_inv_def split: option.split settlement.split)
  moreover have "\<forall>c\<in>set (qs_acked ?q). \<exists>ev. parseOrderPlacedEvent c = Some ev
      \<and> marked (ev_event_id ev) s'"
  proof
    fix c assume "c \<in> set (qs_acked ?q)"
    then have "c \<in> set (qs_acked q) \<or> (c = fst m \<and> a = Some Ack)"
      using Cons h
      by (auto simp: deliver_def Let_def split: option.splits settlement.splits if_splits)
    then show "\<exists>ev. parseOrderPlacedEvent c = Some ev \<and> marked (ev_event_id ev) s'"
      using inv K marked_grows by (auto simp: queue_inv_def)
  qed
  ultimately show ?thesis
    using inv K by (simp add: queue_inv_def db)
qed

interpretation deliveries: step_machine deliver "queue_inv ord all"
  by unfold_locales (simp add: queue_inv_deliver)

definition fresh_queue :: "db \<Rightarrow> jsval option list \<Rightarrow> queue_state" where
  "fresh_queue s msgs = \<lparr>qs_db = s, qs_stats = emptyStats, qs_ready = map (\<lambda>c. (c, 0)) msgs,
     qs_acked = [], qs_dlq = []\<rparr>"

lemma queue_inv_fresh:
  assumes "t_confirmations s = []" and "t_processed_messages s = []"
    and "\<forall>c\<in>set msgs. \<forall>ev. parseOrderPlacedEvent c = Some ev \<longrightarrow> ev_order_id ev = ord (ev_event_id ev)"
  shows "queue_inv ord (mset msgs) (fresh_queue s msgs)"
  using assms by (auto simp: queue_inv_def fresh_queue_def inbox_inv_def marked_def marks_def comp_def)

text \<open>
  C17. Delivery is at least once, the effect exactly once. Let an event id determine its order
  (\<open>ord\<close>: producers give each event an id of its own) and the inbox start empty. However often
  messages (duplicates included) are delivered, whatever attempts fail before or after their commit,
  and whether or not the channel survives: an order is confirmed at most once, by one event; an event
  has at most one processed mark; every confirmation has the mark of its event, and every mark has the
  confirmation of its event's order, so neither is ever there without the other; a message is
  acknowledged only when its event has the mark and its order the confirmation; no message is lost.
\<close>

theorem confirmed_exactly_once:
  assumes "t_confirmations s = []" and "t_processed_messages s = []"
    and "\<forall>c\<in>set msgs. \<forall>ev. parseOrderPlacedEvent c = Some ev \<longrightarrow> ev_order_id ev = ord (ev_event_id ev)"
    and "q = fold deliver envs (fresh_queue s msgs)"
  defines "confs \<equiv> set (t_confirmations (qs_db q))"
    and "processed \<equiv> filter (\<lambda>m. pm_consumer m = CONSUMER_NAME) (t_processed_messages (qs_db q))"
  shows "distinct (map cf_order_id (t_confirmations (qs_db q)))
    \<and> distinct (map cf_event_id (t_confirmations (qs_db q)))
    \<and> distinct (map pm_message_id processed)
    \<and> (\<forall>conf\<in>confs. \<exists>m\<in>set processed. pm_message_id m = cf_event_id conf)
    \<and> (\<forall>m\<in>set processed. \<exists>conf\<in>confs. bigint_in (ord (pm_message_id m)) = Inr (cf_order_id conf))
    \<and> (\<forall>c\<in>set (qs_acked q). \<exists>ev m conf. parseOrderPlacedEvent c = Some ev
         \<and> m \<in> set processed \<and> pm_message_id m = ev_event_id ev
         \<and> conf \<in> confs \<and> bigint_in (ev_order_id ev) = Inr (cf_order_id conf))
    \<and> mset (map fst (qs_ready q)) + mset (qs_acked q) + mset (qs_dlq q) = mset msgs"
proof -
  have inv: "queue_inv ord (mset msgs) q"
    unfolding assms(4) by (rule deliveries.run_keeps) (rule queue_inv_fresh [OF assms(1-3)])
  then have inbox: "inbox_inv ord (qs_db q)" by (simp add: queue_inv_def)
  have mk: "marked e (qs_db q) \<longleftrightarrow> (\<exists>m\<in>set processed. pm_message_id m = e)" for e
    by (auto simp: marked_def processed_def)
  have acked: "\<exists>ev m conf. parseOrderPlacedEvent c = Some ev \<and> m \<in> set processed
      \<and> pm_message_id m = ev_event_id ev \<and> conf \<in> confs
      \<and> bigint_in (ev_order_id ev) = Inr (cf_order_id conf)" if c: "c \<in> set (qs_acked q)" for c
  proof -
    from inv c obtain ev where ev: "parseOrderPlacedEvent c = Some ev"
        "marked (ev_event_id ev) (qs_db q)"
      by (auto simp: queue_inv_def)
    have "c \<in># mset (map fst (qs_ready q)) + mset (qs_acked q) + mset (qs_dlq q)" using c by simp
    then have "c \<in># mset msgs" using inv by (simp only: queue_inv_def)
    with inv ev(1) have "ev_order_id ev = ord (ev_event_id ev)" by (simp add: queue_inv_def)
    with inbox ev mk show ?thesis by (fastforce simp: inbox_inv_def confs_def)
  qed
  have "\<forall>conf\<in>confs. \<exists>m\<in>set processed. pm_message_id m = cf_event_id conf"
    using inbox unfolding inbox_inv_def mk confs_def by blast
  moreover have "\<forall>m\<in>set processed. \<exists>conf\<in>confs. bigint_in (ord (pm_message_id m)) = Inr (cf_order_id conf)"
    using inbox unfolding inbox_inv_def mk confs_def by blast
  moreover have "distinct (map pm_message_id processed)"
    using inbox by (simp add: inbox_inv_def marks_def processed_def)
  ultimately show ?thesis using inv acked by (simp add: queue_inv_def inbox_inv_def)
qed

section \<open>Every message is settled\<close>

definition deliveries_left :: "jsval option \<times> nat \<Rightarrow> nat" where
  "deliveries_left m = 6 - snd m"

definition counts_ok :: "queue_state \<Rightarrow> bool" where
  "counts_ok q \<longleftrightarrow> (\<forall>m\<in>set (qs_ready q). snd m \<le> 5)"

lemma deliveryCount_delivery: "deliveryCount (delivery m) = Fin (of_nat (snd m))"
  by (simp add: deliveryCount_def delivery_def)

lemma on_error_open:
  assumes "he_open env" and "on_error env (delivery m) err st = (a, st')"
  shows "a = Some (RejectMsg True) \<and> snd m < 5 \<or> a = Some NackToDlq"
proof -
  have "js_lt (deliveryCount (delivery m)) (Fin (of_nat CONSUMER_MAX_REDELIVERIES)) \<longleftrightarrow> snd m < 5"
    unfolding deliveryCount_delivery CONSUMER_MAX_REDELIVERIES_def js_lt.simps of_nat_less_iff ..
  with assms show ?thesis by (auto simp: on_error_def Let_def safely_def split: if_splits)
qed

lemma handle_open:
  assumes "he_open env" and "handle env (delivery m) st s = (a, st', s')"
  shows "a \<noteq> None" and "a = Some (RejectMsg True) \<Longrightarrow> snd m < 5"
proof -
  have "a = Some (RejectMsg True) \<and> snd m < 5 \<or> a = Some NackToDlq \<or> a = Some Ack
      \<or> a = Some (RejectMsg False)"
  proof (cases "parseOrderPlacedEvent (fst m)")
    case None
    with assms show ?thesis by (auto simp: handle_def Let_def safely_def)
  next
    case (Some ev)
    let ?fn = "\<lambda>k. applyOrderPlaced (he_now env) (he_fault env k) ev"
    obtain r t where r: "withLocalRetry ?fn 1 s = (r, t)" by (cases "withLocalRetry ?fn 1 s")
    have "(\<exists>err. on_error env (delivery m) err (bump_deliveries st) = (a, st')) \<or> a = Some Ack"
      using assms Some r
      by (cases r) (auto simp: handle_def Let_def split: option.splits prod.splits if_splits)
    then show ?thesis
      using on_error_open [OF assms(1)] by blast
  qed
  then show "a \<noteq> None" and "a = Some (RejectMsg True) \<Longrightarrow> snd m < 5" by auto
qed

lemma deliver_progress:
  assumes "he_open env" and "counts_ok q"
  shows "counts_ok (deliver env q)
    \<and> (qs_ready q \<noteq> [] \<longrightarrow> sum_list (map deliveries_left (qs_ready (deliver env q)))
         < sum_list (map deliveries_left (qs_ready q)))"
proof (cases "qs_ready q")
  case Nil
  with assms(2) show ?thesis by (simp add: deliver_def)
next
  case (Cons m rest)
  obtain a st' s' where h: "handle env (delivery m) (qs_stats q) (qs_db q) = (a, st', s')"
    by (cases "handle env (delivery m) (qs_stats q) (qs_db q)")
  note O = handle_open [OF assms(1) h]
  have "snd m \<le> 5" using assms(2) Cons by (simp add: counts_ok_def)
  moreover have "qs_ready (deliver env q) =
      (if a = Some (RejectMsg True) then rest @ [(fst m, snd m + 1)] else rest)"
    using Cons h O(1) by (auto simp: deliver_def Let_def split: option.split settlement.split)
  ultimately show ?thesis
    using O(2) assms(2) Cons by (auto simp: counts_ok_def deliveries_left_def)
qed

lemma deliver_all:
  assumes "list_all he_open envs" and "counts_ok q"
    and "sum_list (map deliveries_left (qs_ready q)) \<le> length envs"
  shows "qs_ready (fold deliver envs q) = []"
  using assms
proof (induction envs arbitrary: q)
  case Nil
  then show ?case
    by (cases "qs_ready q") (auto simp: counts_ok_def deliveries_left_def)
next
  case (Cons env envs)
  have D: "counts_ok (deliver env q)
    \<and> (qs_ready q \<noteq> [] \<longrightarrow> sum_list (map deliveries_left (qs_ready (deliver env q)))
         < sum_list (map deliveries_left (qs_ready q)))"
    by (rule deliver_progress) (use Cons.prems in simp_all)
  have "sum_list (map deliveries_left (qs_ready (deliver env q))) \<le> length envs"
  proof (cases "qs_ready q = []")
    case True
    then show ?thesis by (simp add: deliver_def)
  next
    case False
    with D Cons.prems(3) show ?thesis by simp
  qed
  with D Cons.IH Cons.prems(1) show ?case by simp
qed

text \<open>Where a message can be, and that every delivery is counted.\<close>

definition messages_of :: "queue_state \<Rightarrow> jsval option multiset" where
  "messages_of q = mset (map fst (qs_ready q)) + mset (qs_acked q) + mset (qs_dlq q)"

lemma handle_counts:
  assumes "handle env msg st s = (a, st', s')"
  shows "st_deliveries st' = st_deliveries st + 1"
    and "a = Some Ack \<Longrightarrow> parseOrderPlacedEvent (cm_content msg) \<noteq> None"
  using assms
  by (auto simp: handle_def Let_def on_error_def bump_deliveries_def count_applied_def safely_def
      split: option.splits prod.splits sum.splits if_splits)

lemma deliver_settles:
  "messages_of (deliver env q) = messages_of q
   \<and> (\<forall>c\<in>set (qs_acked (deliver env q)) - set (qs_acked q). parseOrderPlacedEvent c \<noteq> None)
   \<and> st_deliveries (qs_stats (deliver env q)) =
       st_deliveries (qs_stats q) + (if qs_ready q = [] then 0 else 1)"
proof (cases "qs_ready q")
  case Nil
  then show ?thesis by (simp add: deliver_def)
next
  case (Cons m rest)
  obtain a st' s' where h: "handle env (delivery m) (qs_stats q) (qs_db q) = (a, st', s')"
    by (cases "handle env (delivery m) (qs_stats q) (qs_db q)")
  note C = handle_counts [OF h]
  show ?thesis
    using Cons h C by (cases a) (auto simp: deliver_def Let_def messages_of_def split: settlement.split)
qed

lemma deliver_counts:
  assumes "list_all he_open envs" and "counts_ok q"
  shows "messages_of (fold deliver envs q) = messages_of q
    \<and> (\<forall>c\<in>set (qs_acked (fold deliver envs q)) - set (qs_acked q). parseOrderPlacedEvent c \<noteq> None)
    \<and> st_deliveries (qs_stats (fold deliver envs q))
        \<le> st_deliveries (qs_stats q) + sum_list (map deliveries_left (qs_ready q))"
  using assms
proof (induction envs arbitrary: q)
  case Nil
  then show ?case by simp
next
  case (Cons env envs)
  have D: "counts_ok (deliver env q)
    \<and> (qs_ready q \<noteq> [] \<longrightarrow> sum_list (map deliveries_left (qs_ready (deliver env q)))
         < sum_list (map deliveries_left (qs_ready q)))"
    by (rule deliver_progress) (use Cons.prems in simp_all)
  note S = deliver_settles [of env q]
  have "qs_ready q = [] \<Longrightarrow> deliver env q = q" by (simp add: deliver_def)
  with S D Cons.IH [of "deliver env q"] Cons.prems(1) show ?case
    by (cases "qs_ready q = []") auto
qed

text \<open>
  C18. While the channel is up every message is settled. With six deliveries or more per message,
  on each of which the answer reaches the broker, and whatever the database and the hook do: the work
  queue is empty, and every message is either acknowledged or in the dead-letter queue, each exactly
  once; there were at most six deliveries per message in all; and what is no order.placed event is in the dead-letter queue.
\<close>

theorem every_message_settled:
  assumes "list_all he_open envs" and "6 * length msgs \<le> length envs"
    and "q = fold deliver envs (fresh_queue s msgs)"
  shows "qs_ready q = [] \<and> mset (qs_acked q) + mset (qs_dlq q) = mset msgs
    \<and> st_deliveries (qs_stats q) \<le> 6 * length msgs
    \<and> (\<forall>c\<in>set msgs. parseOrderPlacedEvent c = None \<longrightarrow> c \<in> set (qs_dlq q))"
proof -
  have left: "sum_list (map deliveries_left (map (\<lambda>c. (c, 0)) msgs)) = 6 * length msgs"
    by (induction msgs) (simp_all add: deliveries_left_def)
  have fresh: "counts_ok (fresh_queue s msgs)" by (auto simp: fresh_queue_def counts_ok_def)
  have r: "qs_ready q = []"
    unfolding assms(3)
    by (intro deliver_all [OF assms(1) fresh]) (use assms(2) left in \<open>simp add: fresh_queue_def\<close>)
  note C = deliver_counts [OF assms(1) fresh, folded assms(3)]
  have m: "mset (qs_acked q) + mset (qs_dlq q) = mset msgs"
    using C r by (simp add: messages_of_def fresh_queue_def comp_def)
  have "c \<in> set (qs_dlq q)" if "c \<in> set msgs" "parseOrderPlacedEvent c = None" for c
  proof -
    have "c \<in># mset (qs_acked q) + mset (qs_dlq q)" using that(1) m by simp
    moreover have "c \<notin> set (qs_acked q)" using C that(2) by (auto simp: fresh_queue_def)
    ultimately show ?thesis by simp
  qed
  with r m C left show ?thesis by (simp add: fresh_queue_def emptyStats_def)
qed

section \<open>A duplicate, a lost answer and a malformed message\<close>

definition demo_event :: "jsval option" where
  "demo_event = Some (toOrderPlacedEvent ''e1'' \<lparr>po_order_id = 7, po_user_id = ''1'',
     po_total_cents = 2500, po_shipping_country = ''UA'', po_created_at = 0, po_items = []\<rparr>)"

definition demo_handle :: "(nat \<Rightarrow> db_fault) \<Rightarrow> handle_env" where
  "demo_handle faults = \<lparr>he_now = 0, he_fault = faults, he_after = \<lambda>_. None, he_open = True\<rparr>"

lemma demo_event_parses: "parseOrderPlacedEvent demo_event = Some \<lparr>ev_event_id = ''e1'',
    ev_order_id = show_int 7, ev_user_id = ''1'', ev_total_cents = Fin (of_int 2500),
    ev_body = the demo_event\<rparr>"
  unfolding demo_event_def option.sel by (subst parse_toOrderPlacedEvent) simp_all

lemma demo_first_delivery:
  "\<exists>q. deliver (demo_handle (\<lambda>_. NoFault)) (fresh_queue empty_db [demo_event, demo_event, None]) = q
    \<and> qs_acked q = [demo_event]"
proof -
  have "bigint_in (show_int 7) = Inr 7" "bigint_in ''1'' = Inr 1" by code_simp+
  moreover have "int4_in (Fin (of_int 2500)) = Inr 2500" by (simp add: int4_in_def int4_ok_def)
  ultimately show ?thesis
    by (simp add: deliver_def fresh_queue_def handle_def Let_def demo_event_parses
        withLocalRetry.simps applyOrderPlaced_def apply_tx_def marked_def empty_db_def
        insert_confirmation_def mark_processed_def demo_handle_def)
qed

lemma confirmed_exactly_once_witness:
  "\<exists>(q :: queue_state) conf. qs_acked q = [demo_event] \<and> conf \<in> set (t_confirmations (qs_db q))
    \<and> bigint_in (show_int 7) = Inr (cf_order_id conf)"
proof -
  obtain q :: queue_state where q: "deliver (demo_handle (\<lambda>_. NoFault)) (fresh_queue empty_db [demo_event, demo_event, None]) = q"
    "qs_acked q = [demo_event]"
    using demo_first_delivery by blast
  have "parseOrderPlacedEvent None = None" by (simp add: parseOrderPlacedEvent_def)
  then have ord: "\<forall>c\<in>set [demo_event, demo_event, None]. \<forall>ev. parseOrderPlacedEvent c = Some ev \<longrightarrow>
      ev_order_id ev = (\<lambda>_. show_int 7) (ev_event_id ev)"
    by (simp add: demo_event_parses)
  have "q = fold deliver [demo_handle (\<lambda>_. NoFault)] (fresh_queue empty_db [demo_event, demo_event, None])"
    using q(1) by simp
  from confirmed_exactly_once [OF _ _ ord this] q(2) obtain conf ev where
    "conf \<in> set (t_confirmations (qs_db q))" "parseOrderPlacedEvent demo_event = Some ev"
    "bigint_in (ev_order_id ev) = Inr (cf_order_id conf)"
    by (auto simp: empty_db_def)
  with q(2) show ?thesis by (intro exI [of _ q] exI [of _ conf]) (auto simp: demo_event_parses)
qed

lemma every_message_settled_witness:
  "qs_ready (fold deliver (replicate 12 (demo_handle (\<lambda>_. FailsAfter (pg_error ''57P01''))))
     (fresh_queue empty_db [demo_event, None])) = []"
  by (rule conjunct1 [OF every_message_settled [OF _ _ refl]]) (simp_all add: list_all_iff demo_handle_def)

end
