(* ===== verification/Retention.thy ===== *)
theory Retention
  imports OutboxEvent
begin

text \<open>
  The retention sweep (\<open>src/outbox/retention.ts\<close>): published outbox rows and inbox marks past
  their age are deleted in batches. The loop has no bound of its own, so it is a partial function;
  \<open>purgeOutbox\<close> returning \<open>None\<close> would mean that it does not return.
\<close>

definition DAY_MS :: int where "DAY_MS = 24 * 60 * 60 * 1000"
definition OUTBOX_RETENTION_MS :: int where "OUTBOX_RETENTION_MS = 7 * DAY_MS"
definition INBOX_RETENTION_MS :: int where "INBOX_RETENTION_MS = 30 * DAY_MS"
definition PURGE_BATCH_SIZE :: nat where "PURGE_BATCH_SIZE = 1000"
definition PURGE_INTERVAL_MS :: int where "PURGE_INTERVAL_MS = 10 * 60 * 1000"

record purge_options =
  pg_outbox_retention :: "int option"
  pg_inbox_retention :: "int option"
  pg_batch_size :: "nat option"

record purge_result =
  pu_outbox :: nat
  pu_processed :: nat

text \<open>
  One statement \<open>DELETE ... WHERE key IN (SELECT key ... LIMIT n)\<close>: \<open>pick n\<close> is which of the
  eligible rows the subquery returns, as there is no \<open>ORDER BY\<close>. The keys are unique, so the
  rows deleted are the rows chosen.
\<close>

type_synonym 'r chooser = "nat \<Rightarrow> 'r list \<Rightarrow> 'r list"

definition delete_batch :: "'r chooser \<Rightarrow> ('r \<Rightarrow> bool) \<Rightarrow> nat \<Rightarrow> 'r list \<Rightarrow> 'r list \<times> nat" where
  "delete_batch pick eligible batch rows =
     (let victims = pick batch (filter eligible rows)
      in (filter (\<lambda>r. r \<notin> set victims) rows, length victims))"

partial_function (option) deleteInBatches ::
  "'r chooser \<Rightarrow> ('r \<Rightarrow> bool) \<Rightarrow> nat \<Rightarrow> nat \<Rightarrow> 'r list \<Rightarrow> ('r list \<times> nat) option" where
  "deleteInBatches pick eligible batch total_n rows =
     (case delete_batch pick eligible batch rows of
        (rows', n) \<Rightarrow>
          if n < batch then Some (rows', total_n + n)
          else deleteInBatches pick eligible batch (total_n + n) rows')"

definition outbox_expired :: "int \<Rightarrow> outbox_row \<Rightarrow> bool" where
  "outbox_expired cutoff r = (case ob_published_at r of Some t \<Rightarrow> t < cutoff | None \<Rightarrow> False)"

definition mark_expired :: "int \<Rightarrow> processed_message_row \<Rightarrow> bool" where
  "mark_expired cutoff r \<longleftrightarrow> pm_processed_at r < cutoff"

definition with_default :: "'a option \<Rightarrow> 'a \<Rightarrow> 'a" where
  "with_default x d = (case x of Some v \<Rightarrow> v | None \<Rightarrow> d)"

definition purgeOutbox ::
  "outbox_row chooser \<Rightarrow> processed_message_row chooser \<Rightarrow> int \<Rightarrow> purge_options \<Rightarrow> db
     \<Rightarrow> (purge_result \<times> db) option" where
  "purgeOutbox pick1 pick2 now opts s =
     (let batch = with_default (pg_batch_size opts) PURGE_BATCH_SIZE;
          outboxCutoff = now - with_default (pg_outbox_retention opts) OUTBOX_RETENTION_MS;
          inboxCutoff = now - with_default (pg_inbox_retention opts) INBOX_RETENTION_MS
      in case deleteInBatches pick1 (outbox_expired outboxCutoff) batch 0 (t_outbox s) of
           None \<Rightarrow> None
         | Some (rows, n) \<Rightarrow>
             (case deleteInBatches pick2 (mark_expired inboxCutoff) batch 0
                     (t_processed_messages s) of
                None \<Rightarrow> None
              | Some (marks, m) \<Rightarrow>
                  Some (\<lparr>pu_outbox = n, pu_processed = m\<rparr>,
                        s\<lparr>t_outbox := rows, t_processed_messages := marks\<rparr>)))"

section \<open>The sweep ends and deletes exactly what is due\<close>

text \<open>What \<open>LIMIT\<close> promises of the rows it returns.\<close>

definition limits :: "'r chooser \<Rightarrow> bool" where
  "limits pick \<longleftrightarrow> (\<forall>n rows. distinct rows \<longrightarrow> distinct (pick n rows)
     \<and> set (pick n rows) \<subseteq> set rows \<and> length (pick n rows) = min n (length rows))"

lemma limits_take: "limits take"
  by (auto simp: limits_def dest: in_set_takeD)

lemma deleteInBatches_all:
  assumes "limits pick" and "1 \<le> batch" and "distinct rows"
  shows "deleteInBatches pick eligible batch k rows =
    Some (filter (\<lambda>r. \<not> eligible r) rows, k + length (filter eligible rows))"
  using assms(3)
proof (induction "length (filter eligible rows)" arbitrary: k rows rule: less_induct)
  case less
  let ?el = "filter eligible rows"
  let ?v = "pick batch ?el"
  have v: "distinct ?v" "set ?v \<subseteq> set ?el" "length ?v = min batch (length ?el)"
    using assms(1) distinct_filter [OF less.prems, of eligible] by (simp_all only: limits_def)
  show ?case
  proof (cases "length ?v < batch")
    case True
    with v(3) have len: "length ?v = length ?el" by simp
    have "set ?v = set ?el"
      using distinct_card [OF v(1)] distinct_card [OF distinct_filter [OF less.prems, of eligible]]
        len v(2)
      by (intro card_subset_eq) (simp_all only: finite_set)
    then have "filter (\<lambda>r. r \<notin> set ?v) rows = filter (\<lambda>r. \<not> eligible r) rows"
      by (intro filter_cong) auto
    with True len show ?thesis
      by (subst deleteInBatches.simps) (simp add: delete_batch_def Let_def)
  next
    case False
    let ?rows = "filter (\<lambda>r. r \<notin> set ?v) rows"
    have full: "length ?v = batch" using False v(3) by simp
    have el: "filter eligible ?rows = filter (\<lambda>r. r \<notin> set ?v) ?el"
      by (simp add: conj_commute)
    have "length (filter (\<lambda>r. r \<in> set ?v) ?el) = length ?v"
    proof -
      have "set (filter (\<lambda>r. r \<in> set ?v) ?el) = set ?v" using v(2) by auto
      then show ?thesis
        using v(1) less.prems by (metis distinct_card distinct_filter)
    qed
    then have count: "length (filter eligible ?rows) + batch = length ?el"
      using sum_length_filter_compl [of "\<lambda>r. r \<in> set ?v" ?el] el full by simp
    then have "deleteInBatches pick eligible batch (k + batch) ?rows =
        Some (filter (\<lambda>r. \<not> eligible r) ?rows, k + batch + length (filter eligible ?rows))"
      using assms(2) less.prems by (intro less.hyps) simp_all
    moreover have "filter (\<lambda>r. \<not> eligible r) ?rows = filter (\<lambda>r. \<not> eligible r) rows"
      unfolding filter_filter using v(2) by (intro filter_cong) auto
    ultimately show ?thesis
      using full count by (subst deleteInBatches.simps) (simp add: delete_batch_def Let_def)
  qed
qed

text \<open>
  The retention sweep returns, whichever rows each batch happens to delete, for every batch
  size from 1, and then exactly the outbox rows published before the cutoff and the inbox marks
  older than theirs are gone: pending and parked rows are never deleted.
\<close>

theorem purge_deletes_exactly:
  assumes "limits pick1" and "limits pick2"
    and "1 \<le> with_default (pg_batch_size opts) PURGE_BATCH_SIZE"
    and "distinct (t_outbox s)" and "distinct (t_processed_messages s)"
  shows "\<exists>r s'. purgeOutbox pick1 pick2 now opts s = Some (r, s')
    \<and> t_outbox s' = filter (\<lambda>x. \<not> outbox_expired
        (now - with_default (pg_outbox_retention opts) OUTBOX_RETENTION_MS) x) (t_outbox s)
    \<and> t_processed_messages s' = filter (\<lambda>x. \<not> mark_expired
        (now - with_default (pg_inbox_retention opts) INBOX_RETENTION_MS) x) (t_processed_messages s)
    \<and> (\<forall>x\<in>set (t_outbox s). ob_published_at x = None \<longrightarrow> x \<in> set (t_outbox s'))
    \<and> pu_outbox r + length (t_outbox s') = length (t_outbox s)"
proof -
  have "x \<in> set (filter (\<lambda>x. \<not> outbox_expired c x) (t_outbox s))"
    if "x \<in> set (t_outbox s)" "ob_published_at x = None" for x c
    using that by (simp add: outbox_expired_def)
  then show ?thesis
    using deleteInBatches_all [OF assms(1,3,4)] deleteInBatches_all [OF assms(2,3,5)]
      sum_length_filter_compl [of _ "t_outbox s"]
    by (simp add: purgeOutbox_def Let_def)
qed

definition demo_outbox_row :: "string \<Rightarrow> int option \<Rightarrow> outbox_row" where
  "demo_outbox_row i published = \<lparr>ob_id = i, ob_aggregate_type = ORDER_AGGREGATE,
     ob_aggregate_id = ''1'', ob_type = ORDER_PLACED, ob_payload = JObj [], ob_created_at = 0,
     ob_published_at = published, ob_attempts = 1, ob_last_error = None\<rparr>"

lemma purge_deletes_exactly_witness:
  "\<exists>r s'. purgeOutbox take take (8 * DAY_MS) \<lparr>pg_outbox_retention = None,
      pg_inbox_retention = None, pg_batch_size = Some 1\<rparr>
      (empty_db\<lparr>t_outbox := [demo_outbox_row ''e1'' (Some 5), demo_outbox_row ''e2'' None]\<rparr>) = Some (r, s')
    \<and> t_outbox s' = [demo_outbox_row ''e2'' None]"
proof -
  let ?opts = "\<lparr>pg_outbox_retention = None, pg_inbox_retention = None, pg_batch_size = Some 1\<rparr>"
  let ?s = "empty_db\<lparr>t_outbox := [demo_outbox_row ''e1'' (Some 5), demo_outbox_row ''e2'' None]\<rparr>"
  have "1 \<le> with_default (pg_batch_size ?opts) PURGE_BATCH_SIZE"
    "distinct (t_outbox ?s)" "distinct (t_processed_messages ?s)"
    by (simp_all add: with_default_def demo_outbox_row_def empty_db_def)
  from purge_deletes_exactly [OF limits_take limits_take this, of "8 * DAY_MS"]
  show ?thesis
    by (auto simp: with_default_def outbox_expired_def demo_outbox_row_def DAY_MS_def
        OUTBOX_RETENTION_MS_def)
qed

end
