(* ===== verification/Checkout.thy ===== *)
theory Checkout
  imports PlaceOrderProps
begin

text \<open>
  The one-product checkout (\<open>src/checkout/checkout.ts\<close>, \<open>errors.ts\<close>): stock, balance, order,
  item and job in the caller's transaction, and the conservation of goods and money it keeps.
\<close>

section \<open>Input, result, errors\<close>

abbreviation InsufficientStockError :: exn where
  "InsufficientStockError \<equiv> CheckoutFailure ''InsufficientStockError'' ''insufficient stock''"

abbreviation InsufficientFundsError :: exn where
  "InsufficientFundsError \<equiv> CheckoutFailure ''InsufficientFundsError'' ''insufficient funds''"

record checkout_input =
  ci_user_id :: string
  ci_product_id :: string
  ci_quantity :: jsnum
  ci_shipping_country :: "string option"

record checkout_result =
  co_order_id :: int
  co_job_id :: int
  co_total_cents :: int
  co_stock_left :: int

section \<open>Statements\<close>

text \<open>
  \<open>UPDATE users SET balance_cents = balance_cents - c WHERE id = u AND balance_cents >= c
  RETURNING id\<close>
\<close>

definition debit_match :: "int \<Rightarrow> int \<Rightarrow> user_row \<Rightarrow> bool" where
  "debit_match c uid r \<longleftrightarrow> us_id r = uid \<and> c \<le> us_balance_cents r"

definition pay :: "int \<Rightarrow> user_row \<Rightarrow> user_row" where
  "pay c r = r\<lparr>us_balance_cents := us_balance_cents r - c\<rparr>"

definition debit_balance :: "int \<Rightarrow> string \<Rightarrow> user_row list stmt" where
  "debit_balance c userId s =
     (if \<not> int4_ok c then (Inl numeric_out_of_range, s)
      else case bigint_in userId of
          Inl e \<Rightarrow> (Inl e, s)
        | Inr uid \<Rightarrow>
            (let new = map (pay c) (filter (debit_match c uid) (t_users s)) in
             if \<exists>r\<in>set new. \<not> int4_ok (us_balance_cents r) then (Inl numeric_out_of_range, s)
             else (Inr new, s\<lparr>t_users :=
               map (\<lambda>r. if debit_match c uid r then pay c r else r) (t_users s)\<rparr>)))"

text \<open>\<open>INSERT INTO jobs ... RETURNING id\<close>\<close>

definition insert_job :: "int \<Rightarrow> jsval \<Rightarrow> int \<Rightarrow> int stmt" where
  "insert_job now payload oid s =
     (let jid = sq_jobs (sequences s);
          s1 = s\<lparr>sequences := (sequences s)\<lparr>sq_jobs := jid + 1\<rparr>\<rparr>;
          row = \<lparr>jb_id = jid, jb_type = ''send_receipt'', jb_payload = payload,
                 jb_status = JobPending, jb_processed = 0, jb_worker_id = None,
                 jb_order_id = Some oid, jb_created_at = now, jb_processed_at = None\<rparr>
      in if oid \<notin> or_id ` set (t_orders s) then (Inl foreign_key_violation, s1)
         else (Inr jid, s1\<lparr>t_jobs := t_jobs s @ [row]\<rparr>))"

definition stock_by_text :: "int \<Rightarrow> string \<Rightarrow> product_row list stmt" where
  "stock_by_text quantity productId s =
     (if \<not> int4_ok quantity then (Inl numeric_out_of_range, s)
      else case bigint_in productId of
          Inl e \<Rightarrow> (Inl e, s)
        | Inr p \<Rightarrow> update_stock quantity p s)"

definition country_or_us :: "string option \<Rightarrow> string" where
  "country_or_us c = (case c of Some x \<Rightarrow> x | None \<Rightarrow> ''US'')"

section \<open>\<open>checkout\<close>\<close>

text \<open>The statements after the stock was taken; \<open>row\<close> is the product row as updated.\<close>

definition checkout_order ::
  "int \<Rightarrow> checkout_input \<Rightarrow> int \<Rightarrow> product_row \<Rightarrow> checkout_result stmt" where
  "checkout_order now input quantity row =
     (let totalCents = pr_price_cents row * quantity in
      db_bind (debit_balance totalCents (ci_user_id input)) (\<lambda>balanceRows.
      if balanceRows = [] then db_throw InsufficientFundsError
      else
        db_bind (insert_order_row now (ci_user_id input) totalCents
                  (country_or_us (ci_shipping_country input))) (\<lambda>ord.
        db_bind (insert_item_row (or_id ord) \<lparr>pl_product_id = pr_id row, pl_quantity = quantity,
                  pl_unit_price_cents = pr_price_cents row, pl_line_total_cents = totalCents\<rparr>) (\<lambda>_.
        db_bind (insert_job now (JObj [(''orderId'', JStr (show_int (or_id ord))),
                                       (''userId'', JStr (ci_user_id input))]) (or_id ord)) (\<lambda>jid.
        db_return \<lparr>co_order_id = or_id ord, co_job_id = jid, co_total_cents = totalCents,
                   co_stock_left = pr_stock row\<rparr>)))))"

definition checkout :: "int \<Rightarrow> checkout_input \<Rightarrow> checkout_result stmt" where
  "checkout now input =
     (if \<not> js_isInteger (ci_quantity input) \<or> js_int (ci_quantity input) < 1
      then db_throw (JsError ''quantity must be a positive integer'')
      else
        db_bind (stock_by_text (js_int (ci_quantity input)) (ci_product_id input)) (\<lambda>stockRows.
          case stockRows of
            [] \<Rightarrow> db_throw InsufficientStockError
          | row # _ \<Rightarrow> checkout_order now input (js_int (ci_quantity input)) row))"

section \<open>The statements keep the integrity of the tables\<close>

lemma debit_balance_Inr:
  assumes "debit_balance c userId s = (Inr rows, s')"
  obtains uid where "bigint_in userId = Inr uid" and "int4_ok c"
    and "rows = map (pay c) (filter (debit_match c uid) (t_users s))"
    and "\<forall>r\<in>set (t_users s). debit_match c uid r \<longrightarrow> int4_ok (us_balance_cents r - c)"
    and "s' = s\<lparr>t_users := map (\<lambda>r. if debit_match c uid r then pay c r else r) (t_users s)\<rparr>"
  using assms
  by (auto simp: debit_balance_def Let_def pay_def split: sum.splits if_splits)

lemma debit_balance_keeps [keeps]: "stmt_keeps shop_ok (debit_balance c userId)"
proof (rule stmt_keepsI)
  fix s rows s'
  assume ok: "shop_ok s" and d: "debit_balance c userId s = (Inr rows, s')"
  then show "shop_ok s'"
    by (elim debit_balance_Inr, simp only:, intro shop_ok_map_users)
      (auto simp: pay_def user_check_def debit_match_def)
qed

lemma debit_balance_seqs [keeps]: "seqs_grow (debit_balance c userId)"
  by (rule seqs_growI) (auto simp: debit_balance_def Let_def split: sum.splits if_splits)

lemma insert_job_keeps [keeps]: "stmt_keeps shop_ok (insert_job now payload oid)"
  by (rule stmt_keepsI)
    (fastforce simp: insert_job_def Let_def shop_ok_defs job_check_def split: if_splits)

lemma insert_job_seqs [keeps]: "seqs_grow (insert_job now payload oid)"
  by (rule seqs_growI) (auto simp: insert_job_def Let_def seqs_le_def split: if_splits)

lemma stock_by_text_keeps [keeps]: "stmt_keeps shop_ok (stock_by_text q p)"
proof (rule stmt_keepsI)
  fix s rows s'
  assume "shop_ok s" and "stock_by_text q p s = (Inr rows, s')"
  then show "shop_ok s'"
    using stmt_keepsD [OF update_stock_keeps]
    by (auto simp: stock_by_text_def split: sum.splits if_splits)
qed

lemma stock_by_text_seqs [keeps]: "seqs_grow (stock_by_text q p)"
  by (rule seqs_growI)
    (auto simp: stock_by_text_def update_stock_def Let_def split: sum.splits if_splits)

lemma checkout_order_keeps [keeps]: "stmt_keeps shop_ok (checkout_order now input q row)"
  unfolding checkout_order_def Let_def by (intro keeps if_splits(1) conjI impI) (auto intro!: keeps)

lemma checkout_order_seqs [keeps]: "seqs_grow (checkout_order now input q row)"
  unfolding checkout_order_def Let_def by (auto intro!: keeps)

lemma checkout_keeps [keeps]: "stmt_keeps shop_ok (checkout now input)"
  unfolding checkout_def by (auto intro!: keeps split: list.splits)

lemma checkout_seqs [keeps]: "seqs_grow (checkout now input)"
  unfolding checkout_def by (auto intro!: keeps split: list.splits)

section \<open>The effect of a checkout\<close>

lemma filter_one_key:
  assumes "distinct (map k xs)" and "filter (\<lambda>r. k r = v \<and> P r) xs \<noteq> []"
  obtains r where "r \<in> set xs" and "k r = v" and "P r"
    and "filter (\<lambda>r. k r = v \<and> P r) xs = [r]" and "\<And>x. x \<in> set xs \<Longrightarrow> k x = v \<Longrightarrow> x = r"
proof -
  from assms(2) obtain r where r: "r \<in> set xs" "k r = v" "P r" by (auto simp: filter_empty_conv)
  have u: "x = r" if "x \<in> set xs" "k x = v" for x
    using distinct_map_unique [OF assms(1) that(1) r(1)] that(2) r(2) by simp
  have "filter (\<lambda>r. k r = v \<and> P r) xs = filter (\<lambda>x. k x = k r) xs"
    by (intro filter_cong refl) (metis r(2,3) u)
  then have "filter (\<lambda>r. k r = v \<and> P r) xs = [r]"
    using filter_key_single [OF assms(1) r(1)] by simp
  then show thesis by (rule that [OF r _ u])
qed

lemma stock_by_text_Inr:
  assumes "shop_ok s" and "stock_by_text q ptext s = (Inr (row # rest), s')"
  obtains p where "bigint_in ptext = Inr (pr_id p)" and "p \<in> set (t_products s)"
    and "pr_is_active p" and "q \<le> pr_stock p" and "row = take_stock q p"
    and "s' = s\<lparr>t_products :=
      map (\<lambda>r. if pr_id r = pr_id p then take_stock q r else r) (t_products s)\<rparr>"
proof -
  from assms(2) obtain pid where pid: "bigint_in ptext = Inr pid"
    and up: "update_stock q pid s = (Inr (row # rest), s')"
    by (auto simp: stock_by_text_def split: sum.splits if_splits)
  let ?P = "\<lambda>r. pr_is_active r \<and> q \<le> pr_stock r"
  have sm: "stock_match q pid = (\<lambda>r. pr_id r = pid \<and> ?P r)"
    by (auto simp: stock_match_def fun_eq_iff)
  have d: "distinct (map pr_id (t_products s))" using assms(1) by (simp add: shop_ok_defs)
  have rows: "row # rest = map (take_stock q) (filter (\<lambda>r. pr_id r = pid \<and> ?P r) (t_products s))"
    and s': "s' = s\<lparr>t_products := map (\<lambda>r. if pr_id r = pid \<and> ?P r then take_stock q r else r)
      (t_products s)\<rparr>"
    using up by (auto simp: update_stock_def Let_def sm split: if_splits)
  from rows have ne: "filter (\<lambda>r. pr_id r = pid \<and> ?P r) (t_products s) \<noteq> []" by auto
  obtain p where p: "p \<in> set (t_products s)" "pr_id p = pid" "?P p"
    and f: "filter (\<lambda>r. pr_id r = pid \<and> ?P r) (t_products s) = [p]"
    and u: "\<And>x. x \<in> set (t_products s) \<Longrightarrow> pr_id x = pid \<Longrightarrow> x = p"
    using filter_one_key [OF d ne] by blast
  have "map (\<lambda>r. if pr_id r = pid \<and> ?P r then take_stock q r else r) (t_products s) =
      map (\<lambda>r. if pr_id r = pr_id p then take_stock q r else r) (t_products s)"
    by (intro map_cong refl if_cong) (metis p u)
  with s' have "s' = s\<lparr>t_products :=
      map (\<lambda>r. if pr_id r = pr_id p then take_stock q r else r) (t_products s)\<rparr>" by simp
  moreover have "row = take_stock q p" using rows f by simp
  ultimately show thesis using that [of p] p pid by blast
qed

lemma debit_balance_Inr':
  assumes "shop_ok s" and "debit_balance c utext s = (Inr rows, s')" and "rows \<noteq> []"
  obtains u where "bigint_in utext = Inr (us_id u)" and "u \<in> set (t_users s)"
    and "c \<le> us_balance_cents u"
    and "s' = s\<lparr>t_users := map (\<lambda>r. if us_id r = us_id u then pay c r else r) (t_users s)\<rparr>"
proof -
  from assms(2) obtain uid where uid: "bigint_in utext = Inr uid"
    and rows: "rows = map (pay c) (filter (debit_match c uid) (t_users s))"
    and s': "s' = s\<lparr>t_users := map (\<lambda>r. if debit_match c uid r then pay c r else r) (t_users s)\<rparr>"
    by (elim debit_balance_Inr)
  let ?P = "\<lambda>r. c \<le> us_balance_cents r"
  have sm: "debit_match c uid = (\<lambda>r. us_id r = uid \<and> ?P r)"
    by (auto simp: debit_match_def fun_eq_iff)
  have d: "distinct (map us_id (t_users s))" using assms(1) by (simp add: shop_ok_defs)
  from rows assms(3) have ne: "filter (\<lambda>r. us_id r = uid \<and> ?P r) (t_users s) \<noteq> []"
    by (simp add: sm)
  obtain u where u: "u \<in> set (t_users s)" "us_id u = uid" "?P u"
    and un: "\<And>x. x \<in> set (t_users s) \<Longrightarrow> us_id x = uid \<Longrightarrow> x = u"
    using filter_one_key [OF d ne] by blast
  have "map (\<lambda>r. if debit_match c uid r then pay c r else r) (t_users s) =
      map (\<lambda>r. if us_id r = us_id u then pay c r else r) (t_users s)"
    unfolding sm by (intro map_cong refl if_cong) (metis u un)
  with s' have "s' = s\<lparr>t_users :=
      map (\<lambda>r. if us_id r = us_id u then pay c r else r) (t_users s)\<rparr>" by simp
  then show thesis using that [of u] u uid by blast
qed

text \<open>The state a checkout leaves, in closed form: product \<open>p\<close>, buyer \<open>u\<close>, quantity \<open>q\<close>.\<close>

definition sale_order :: "int \<Rightarrow> user_row \<Rightarrow> product_row \<Rightarrow> int \<Rightarrow> string \<Rightarrow> db \<Rightarrow> order_row" where
  "sale_order now u p q country s =
     \<lparr>or_id = sq_orders (sequences s), or_user_id = us_id u, or_status = Completed,
      or_total_cents = pr_price_cents p * q, or_shipping_country = country, or_created_at = now\<rparr>"

definition sale_item :: "product_row \<Rightarrow> int \<Rightarrow> db \<Rightarrow> order_item_row" where
  "sale_item p q s =
     \<lparr>oi_id = sq_order_items (sequences s), oi_order_id = sq_orders (sequences s),
      oi_product_id = pr_id p, oi_quantity = q, oi_unit_price_cents = pr_price_cents p,
      oi_line_total_cents = pr_price_cents p * q\<rparr>"

definition sale_job :: "int \<Rightarrow> string \<Rightarrow> db \<Rightarrow> job_row" where
  "sale_job now utext s =
     \<lparr>jb_id = sq_jobs (sequences s), jb_type = ''send_receipt'',
      jb_payload = JObj [(''orderId'', JStr (show_int (sq_orders (sequences s)))),
                         (''userId'', JStr utext)],
      jb_status = JobPending, jb_processed = 0, jb_worker_id = None,
      jb_order_id = Some (sq_orders (sequences s)), jb_created_at = now, jb_processed_at = None\<rparr>"

definition sale_db ::
  "int \<Rightarrow> string \<Rightarrow> user_row \<Rightarrow> product_row \<Rightarrow> int \<Rightarrow> string \<Rightarrow> db \<Rightarrow> db" where
  "sale_db now utext u p q country s = s\<lparr>
     t_products := map (\<lambda>r. if pr_id r = pr_id p then take_stock q r else r) (t_products s),
     t_users := map (\<lambda>r. if us_id r = us_id u then pay (pr_price_cents p * q) r else r) (t_users s),
     t_orders := t_orders s @ [sale_order now u p q country s],
     t_order_items := t_order_items s @ [sale_item p q s],
     t_jobs := t_jobs s @ [sale_job now utext s],
     sequences := (sequences s)\<lparr>sq_orders := sq_orders (sequences s) + 1,
       sq_order_items := sq_order_items (sequences s) + 1, sq_jobs := sq_jobs (sequences s) + 1\<rparr>\<rparr>"

lemma insert_job_Inr:
  assumes "insert_job now payload oid s = (Inr jid, s')"
  shows "jid = sq_jobs (sequences s)"
    and "s' = s\<lparr>sequences := (sequences s)\<lparr>sq_jobs := sq_jobs (sequences s) + 1\<rparr>,
      t_jobs := t_jobs s @ [\<lparr>jb_id = jid, jb_type = ''send_receipt'', jb_payload = payload,
                 jb_status = JobPending, jb_processed = 0, jb_worker_id = None,
                 jb_order_id = Some oid, jb_created_at = now, jb_processed_at = None\<rparr>]\<rparr>"
  using assms by (auto simp: insert_job_def Let_def split: if_splits)

lemma checkout_sale:
  assumes ok: "shop_ok s" and c: "checkout now input s = (Inr r, s')"
  obtains p u country where "p \<in> set (t_products s)" and "u \<in> set (t_users s)"
    and "bigint_in (ci_product_id input) = Inr (pr_id p)"
    and "bigint_in (ci_user_id input) = Inr (us_id u)"
    and "1 \<le> js_int (ci_quantity input)" and "pr_is_active p"
    and "js_int (ci_quantity input) \<le> pr_stock p"
    and "pr_price_cents p * js_int (ci_quantity input) \<le> us_balance_cents u"
    and "char_in 2 (country_or_us (ci_shipping_country input)) = Inr country"
    and "s' = sale_db now (ci_user_id input) u p (js_int (ci_quantity input)) country s"
    and "r = \<lparr>co_order_id = sq_orders (sequences s), co_job_id = sq_jobs (sequences s),
      co_total_cents = pr_price_cents p * js_int (ci_quantity input),
      co_stock_left = pr_stock p - js_int (ci_quantity input)\<rparr>"
proof -
  let ?q = "js_int (ci_quantity input)"
  from c have q: "1 \<le> ?q" and "js_isInteger (ci_quantity input)"
    by (auto simp: checkout_def db_throw_def split: if_splits)
  with c obtain row rest s1 where st: "stock_by_text ?q (ci_product_id input) s = (Inr (row # rest), s1)"
    and co: "checkout_order now input ?q row s1 = (Inr r, s')"
    by (auto simp: checkout_def db_throw_def elim!: db_bind_InrE split: list.splits)
  obtain p where p: "bigint_in (ci_product_id input) = Inr (pr_id p)" "p \<in> set (t_products s)"
      "pr_is_active p" "?q \<le> pr_stock p" "row = take_stock ?q p"
    and s1: "s1 = s\<lparr>t_products :=
      map (\<lambda>r. if pr_id r = pr_id p then take_stock ?q r else r) (t_products s)\<rparr>"
    by (rule stock_by_text_Inr [OF ok st])
  have ok1: "shop_ok s1" by (rule stmt_keepsD [OF stock_by_text_keeps ok st])
  have row: "pr_price_cents row = pr_price_cents p" "pr_id row = pr_id p"
      "pr_stock row = pr_stock p - ?q"
    using p(5) by (simp_all add: take_stock_def)
  let ?c = "pr_price_cents p * ?q"
  from co obtain brows s2 ord s3 iu s4 jid where
      b: "debit_balance ?c (ci_user_id input) s1 = (Inr brows, s2)" and ne: "brows \<noteq> []"
    and o': "insert_order_row now (ci_user_id input) ?c
        (country_or_us (ci_shipping_country input)) s2 = (Inr ord, s3)"
    and i: "insert_item_row (or_id ord) \<lparr>pl_product_id = pr_id p, pl_quantity = ?q,
        pl_unit_price_cents = pr_price_cents p, pl_line_total_cents = ?c\<rparr> s3 = (Inr iu, s4)"
    and j: "insert_job now (JObj [(''orderId'', JStr (show_int (or_id ord))),
        (''userId'', JStr (ci_user_id input))]) (or_id ord) s4 = (Inr jid, s')"
    and r: "r = \<lparr>co_order_id = or_id ord, co_job_id = jid, co_total_cents = ?c,
        co_stock_left = pr_stock p - ?q\<rparr>"
    unfolding checkout_order_def Let_def row
    by (auto simp: db_throw_def db_return_def elim!: db_bind_InrE split: if_splits)
  obtain u where u: "bigint_in (ci_user_id input) = Inr (us_id u)" "u \<in> set (t_users s1)"
      "?c \<le> us_balance_cents u"
    and s2: "s2 = s1\<lparr>t_users := map (\<lambda>r. if us_id r = us_id u then pay ?c r else r) (t_users s1)\<rparr>"
    by (rule debit_balance_Inr' [OF ok1 b ne])
  note O = insert_order_row_Inr [OF o'] and I = insert_item_row_Inr [OF i] and J = insert_job_Inr [OF j]
  have seq: "sequences s2 = sequences s" by (simp add: s2 s1)
  have oid: "or_id ord = sq_orders (sequences s)" using O(1) by (metis order_row.select_convs(1) seq)
  have ou: "or_user_id ord = us_id u" using O(2) u(1) by simp
  have ord: "ord = sale_order now u p ?q (or_shipping_country ord) s"
    by (subst O(1)) (simp add: sale_order_def ou seq)
  have "s' = sale_db now (ci_user_id input) u p ?q (or_shipping_country ord) s"
    by (rule db.equality)
      (simp_all add: J(1,2) I(5) O(6) s2 s1 sale_db_def sale_item_def sale_job_def oid ord [symmetric])
  moreover have "jid = sq_jobs (sequences s)" by (simp add: J(1) I(5) O(6) seq)
  ultimately show thesis
    using that [of p u "or_shipping_country ord"] p u q O(3) r oid s1 by simp
qed

section \<open>Money and goods\<close>

definition balances :: "db \<Rightarrow> int" where
  "balances s = sum_list (map us_balance_cents (t_users s))"

definition turnover :: "db \<Rightarrow> int" where
  "turnover s = sum_list (map or_total_cents (t_orders s))"

lemma money_seqs [simp]:
  "balances (s\<lparr>sequences := q\<rparr>) = balances s" "turnover (s\<lparr>sequences := q\<rparr>) = turnover s"
  by (simp_all add: balances_def turnover_def)

lemma sale_money:
  assumes "shop_ok s" and "u \<in> set (t_users s)"
  shows "balances (sale_db now t u p q c s) = balances s - pr_price_cents p * q"
    and "turnover (sale_db now t u p q c s) = turnover s + pr_price_cents p * q"
proof -
  have d: "distinct (map us_id (t_users s))" using assms(1) by (simp add: shop_ok_defs)
  show "balances (sale_db now t u p q c s) = balances s - pr_price_cents p * q"
    using sum_list_map_update [OF d assms(2) refl, of us_balance_cents "pay (pr_price_cents p * q)"
        "- (pr_price_cents p * q)"]
    by (simp add: balances_def sale_db_def pay_def)
  show "turnover (sale_db now t u p q c s) = turnover s + pr_price_cents p * q"
    by (simp add: turnover_def sale_db_def sale_order_def)
qed

lemma sale_goods:
  assumes "shop_ok s" and "p \<in> set (t_products s)"
  shows "stock_of k (sale_db now t u p q c s) + sold k (sale_db now t u p q c s) =
    stock_of k s + sold k s"
proof -
  have d: "distinct (map pr_id (t_products s))" using assms(1) by (simp add: shop_ok_defs)
  let ?q = "\<lambda>i. if i = pr_id p then q else 0"
  have m: "map (\<lambda>r. if pr_id r = pr_id p then take_stock q r else r) (t_products s) =
      map (\<lambda>r. r\<lparr>pr_stock := pr_stock r - ?q (pr_id r)\<rparr>) (t_products s)"
    by (auto simp: take_stock_def)
  have "stock_of k (sale_db now t u p q c s) = stock_of k s - ?q k"
    unfolding stock_of_def sale_db_def using stock_debit_rows [OF d, of ?q k] assms(2)
    by (simp add: m split: if_splits)
  then show ?thesis by (simp add: sold_def sale_db_def sale_item_def)
qed

section \<open>Sequences of checkouts\<close>

text \<open>The caller runs each checkout in a transaction of its own.\<close>

definition serve_checkout :: "int \<times> checkout_input \<Rightarrow> db \<Rightarrow> db" where
  "serve_checkout rq s = snd (transaction (checkout (fst rq) (snd rq)) s)"

definition checkout_invariant :: "int \<Rightarrow> (int \<Rightarrow> int) \<Rightarrow> db \<Rightarrow> bool" where
  "checkout_invariant money goods s \<longleftrightarrow> shop_ok s \<and> balances s + turnover s = money
     \<and> (\<forall>k. stock_of k s + sold k s = goods k)"

lemma serve_checkout_keeps:
  assumes "checkout_invariant m g s"
  shows "checkout_invariant m g (serve_checkout rq s)"
proof -
  have ok: "shop_ok s" using assms by (simp add: checkout_invariant_def)
  obtain r s' where tx: "transaction (checkout (fst rq) (snd rq)) s = (r, s')"
    by (cases "transaction (checkout (fst rq) (snd rq)) s")
  have ok': "shop_ok s'" by (rule shop.transaction_keeps [OF checkout_keeps checkout_seqs ok tx])
  show ?thesis
  proof (cases r)
    case (Inl e)
    with tx have "same_tables s s'" by (auto dest: transaction_Inl)
    with assms ok' tx show ?thesis
      by (auto simp: checkout_invariant_def serve_checkout_def elim!: same_tablesE)
  next
    case (Inr x)
    with tx have "checkout (fst rq) (snd rq) s = (Inr x, s')" by (auto dest: transaction_InrD)
    then obtain p u country where "p \<in> set (t_products s)" "u \<in> set (t_users s)"
      and "s' = sale_db (fst rq) (ci_user_id (snd rq)) u p (js_int (ci_quantity (snd rq))) country s"
      by (rule checkout_sale [OF ok])
    with assms ok' tx sale_money [OF ok] sale_goods [OF ok] show ?thesis
      by (simp add: checkout_invariant_def serve_checkout_def)
  qed
qed

interpretation checkouts: step_machine serve_checkout "checkout_invariant m g"
  by unfold_locales (rule serve_checkout_keeps)

text \<open>
  C19. No sequence of checkouts creates or loses money or goods: the balances of the buyers plus
  the totals of the orders stay what they were, and so does, for each product, the shelf plus
  what was sold; no balance and no stock becomes negative.
\<close>

theorem checkouts_conserve:
  assumes "shop_ok s"
  shows "balances (fold serve_checkout rqs s) + turnover (fold serve_checkout rqs s)
      = balances s + turnover s
    \<and> stock_of k (fold serve_checkout rqs s) + sold k (fold serve_checkout rqs s)
      = stock_of k s + sold k s
    \<and> list_all (\<lambda>r. 0 \<le> us_balance_cents r) (t_users (fold serve_checkout rqs s))
    \<and> list_all (\<lambda>r. 0 \<le> pr_stock r) (t_products (fold serve_checkout rqs s))"
proof -
  have "checkout_invariant (balances s + turnover s) (\<lambda>k. stock_of k s + sold k s)
      (fold serve_checkout rqs s)"
    by (rule checkouts.run_keeps) (use assms in \<open>simp add: checkout_invariant_def\<close>)
  then show ?thesis
    by (auto simp: checkout_invariant_def shop_ok_defs list_all_iff user_check_def product_check_def)
qed

text \<open>
  A successful checkout takes \<open>quantity\<close> from one active product that has it and \<open>price *
  quantity\<close> from one buyer who has it, adds one completed order, its one line and one pending
  receipt job, and answers with their identifiers; everything else stays.
\<close>

theorem checkout_effect:
  assumes "shop_ok s" and "transaction (checkout now input) s = (Inr r, s')"
  shows "\<exists>p\<in>set (t_products s). \<exists>u\<in>set (t_users s). \<exists>country.
    bigint_in (ci_product_id input) = Inr (pr_id p) \<and> bigint_in (ci_user_id input) = Inr (us_id u)
    \<and> pr_is_active p \<and> 1 \<le> js_int (ci_quantity input)
    \<and> js_int (ci_quantity input) \<le> pr_stock p
    \<and> pr_price_cents p * js_int (ci_quantity input) \<le> us_balance_cents u
    \<and> s' = sale_db now (ci_user_id input) u p (js_int (ci_quantity input)) country s
    \<and> r = \<lparr>co_order_id = sq_orders (sequences s), co_job_id = sq_jobs (sequences s),
        co_total_cents = pr_price_cents p * js_int (ci_quantity input),
        co_stock_left = pr_stock p - js_int (ci_quantity input)\<rparr>"
  using assms by (blast elim: checkout_sale dest: transaction_InrD)

section \<open>A concrete checkout\<close>

definition rich_db :: db where
  "rich_db = demo_db\<lparr>t_users := map (\<lambda>r. r\<lparr>us_balance_cents := 6000\<rparr>) (t_users demo_db)\<rparr>"

definition two_lamps :: checkout_input where
  "two_lamps = \<lparr>ci_user_id = ''1'', ci_product_id = ''1'', ci_quantity = Fin 2,
     ci_shipping_country = None\<rparr>"

lemma rich_ok: "shop_ok rich_db"
  by (simp add: shop_ok_defs rich_db_def demo_db_def empty_db_def user_check_def product_check_def
      sql_trim_def int4_ok_def)

lemma two_lamps_sold:
  "transaction (checkout 5 two_lamps) rich_db =
   (Inr \<lparr>co_order_id = 1, co_job_id = 1, co_total_cents = 5000, co_stock_left = 1\<rparr>,
    snd (transaction (checkout 5 two_lamps) rich_db))"
  by code_simp

lemma two_lamps_again:
  "fst (transaction (checkout 6 (two_lamps\<lparr>ci_quantity := Fin 1\<rparr>))
     (snd (transaction (checkout 5 two_lamps) rich_db))) = Inl InsufficientFundsError"
  by code_simp

lemma checkouts_conserve_witness:
  "balances (fold serve_checkout [(5, two_lamps), (6, two_lamps)] rich_db)
   + turnover (fold serve_checkout [(5, two_lamps), (6, two_lamps)] rich_db) = 6000"
  using checkouts_conserve [OF rich_ok, of "[(5, two_lamps), (6, two_lamps)]"]
  by (simp add: balances_def turnover_def rich_db_def demo_db_def empty_db_def)

lemma checkout_effect_witness:
  "\<exists>p\<in>set (t_products rich_db). pr_is_active p \<and> js_int (ci_quantity two_lamps) \<le> pr_stock p"
  using checkout_effect [OF rich_ok two_lamps_sold] by blast

end
