(* ===== verification/Workers.thy ===== *)
theory Workers
  imports Schema
begin

text \<open>
  The receipt workers (\<open>src/workers.ts\<close>): a pool of loops that claim a pending job with \<open>FOR
  UPDATE SKIP LOCKED\<close>, hold its row lock while they work and commit the completion. The pool is
  a step function on the jobs table and the phases of the workers, under any interleaving.
\<close>

section \<open>One worker's statements\<close>

record ClaimedJob =
  cj_id :: int
  cj_type :: string
  cj_payload :: jsval
  cj_order_id :: "int option"

record WorkerStats =
  ws_workerId :: string
  ws_processed :: nat

text \<open>
  \<open>locked\<close> are the ids of the rows other transactions hold: the SELECT skips them and takes the
  first pending row left, by id.
\<close>

definition claimNextJob :: "int list \<Rightarrow> db \<Rightarrow> ClaimedJob option" where
  "claimNextJob locked s =
     (case filter (\<lambda>j. jb_status j = JobPending \<and> jb_id j \<notin> set locked)
             (sort_key jb_id (t_jobs s)) of
        [] \<Rightarrow> None
      | j # _ \<Rightarrow> Some \<lparr>cj_id = jb_id j, cj_type = jb_type j, cj_payload = jb_payload j,
                      cj_order_id = jb_order_id j\<rparr>)"

definition done_job :: "int \<Rightarrow> string \<Rightarrow> job_row \<Rightarrow> job_row" where
  "done_job now workerId j = j\<lparr>jb_status := JobDone, jb_processed := jb_processed j + 1,
     jb_worker_id := Some workerId, jb_processed_at := Some now\<rparr>"

definition completeJob :: "int \<Rightarrow> string \<Rightarrow> int \<Rightarrow> db \<Rightarrow> db" where
  "completeJob jobId workerId now s =
     s\<lparr>t_jobs := map (\<lambda>j. if jb_id j = jobId then done_job now workerId j else j) (t_jobs s)\<rparr>"

section \<open>The pool\<close>

text \<open>
  A worker polls with its count of empty claims, or works on a claimed job inside its
  transaction, or has been thrown out of its loop by a failed transaction.
\<close>

datatype worker_phase = Polling nat | Working ClaimedJob | Thrown

record worker =
  wk_stats :: WorkerStats
  wk_phase :: worker_phase

record pool =
  pool_db :: db
  pool_workers :: "worker list"

definition initial_stats :: "nat \<Rightarrow> WorkerStats list" where
  "initial_stats workerCount =
     map (\<lambda>i. \<lparr>ws_workerId = ''worker-'' @ show_nat (i + 1), ws_processed = 0\<rparr>) [0..<workerCount]"

definition initial_pool :: "nat \<Rightarrow> db \<Rightarrow> pool" where
  "initial_pool workerCount s = \<lparr>pool_db = s, pool_workers =
     map (\<lambda>st. \<lparr>wk_stats = st, wk_phase = Polling 0\<rparr>) (initial_stats workerCount)\<rparr>"

definition held :: "worker \<Rightarrow> int list" where
  "held w = (case wk_phase w of Working j \<Rightarrow> [cj_id j] | _ \<Rightarrow> [])"

definition locked_ids :: "worker list \<Rightarrow> int list" where
  "locked_ids ws = concat (map held ws)"

text \<open>The loop has ended: the bound of empty polls is reached, or its transaction threw.\<close>

definition exited :: "nat \<Rightarrow> worker \<Rightarrow> bool" where
  "exited idlePollsBeforeExit w =
     (case wk_phase w of Polling k \<Rightarrow> idlePollsBeforeExit \<le> k | Working _ \<Rightarrow> False | Thrown \<Rightarrow> True)"

datatype pool_event = Poll nat | Finish nat int | Throw nat

text \<open>
  \<open>Poll\<close> opens the transaction of worker \<open>i\<close> and claims, \<open>Finish\<close> completes the job and commits,
  \<open>Throw\<close> is a failing statement or a lost connection: the transaction rolls back and its lock is
  gone. An event that does not apply to the worker's phase leaves the pool as it is. A commit that took
  effect although its answer was lost is not an event of the model.
\<close>

fun pool_step :: "nat \<Rightarrow> pool_event \<Rightarrow> pool \<Rightarrow> pool" where
  "pool_step limit (Poll i) p =
     (if length (pool_workers p) \<le> i then p
      else let w = pool_workers p ! i in
        (case wk_phase w of
           Polling idlePolls \<Rightarrow>
             if idlePolls < limit then
               (case claimNextJob (locked_ids (pool_workers p)) (pool_db p) of
                  None \<Rightarrow> p\<lparr>pool_workers :=
                    (pool_workers p)[i := w\<lparr>wk_phase := Polling (idlePolls + 1)\<rparr>]\<rparr>
                | Some j \<Rightarrow> p\<lparr>pool_workers := (pool_workers p)[i := w\<lparr>wk_phase := Working j\<rparr>]\<rparr>)
             else p
         | _ \<Rightarrow> p))"
| "pool_step limit (Finish i now) p =
     (if length (pool_workers p) \<le> i then p
      else let w = pool_workers p ! i in
        (case wk_phase w of
           Working j \<Rightarrow>
             \<lparr>pool_db = completeJob (cj_id j) (ws_workerId (wk_stats w)) now (pool_db p),
              pool_workers = (pool_workers p)[i := \<lparr>wk_stats = (wk_stats w)\<lparr>ws_processed :=
                ws_processed (wk_stats w) + 1\<rparr>, wk_phase = Polling 0\<rparr>]\<rparr>
         | _ \<Rightarrow> p))"
| "pool_step limit (Throw i) p =
     (if length (pool_workers p) \<le> i \<or> exited limit (pool_workers p ! i) then p
      else p\<lparr>pool_workers := (pool_workers p)[i := (pool_workers p ! i)\<lparr>wk_phase := Thrown\<rparr>]\<rparr>)"

definition pool_result :: "pool \<Rightarrow> WorkerStats list" where
  "pool_result p = map wk_stats (pool_workers p)"

record RunWorkersOptions =
  ro_workerCount :: nat
  ro_idlePollsBeforeExit :: "nat option"

definition idle_polls_before_exit :: "RunWorkersOptions \<Rightarrow> nat" where
  "idle_polls_before_exit o' = (case ro_idlePollsBeforeExit o' of Some n \<Rightarrow> n | None \<Rightarrow> 3)"

text \<open>The pool under a schedule of its events.\<close>

definition runWorkerPool :: "RunWorkersOptions \<Rightarrow> pool_event list \<Rightarrow> db \<Rightarrow> pool" where
  "runWorkerPool o' schedule s =
     fold (pool_step (idle_polls_before_exit o')) schedule (initial_pool (ro_workerCount o') s)"

section \<open>Mutual exclusion and the count of a job\<close>

definition pending_ids :: "db \<Rightarrow> int set" where
  "pending_ids s = jb_id ` {j \<in> set (t_jobs s). jb_status j = JobPending}"

definition done_count :: "db \<Rightarrow> nat" where
  "done_count s = length (filter (\<lambda>j. jb_status j = JobDone) (t_jobs s))"

text \<open>A job has been processed once if it is done and not at all otherwise.\<close>

definition counted :: "job_row \<Rightarrow> bool" where
  "counted j \<longleftrightarrow> jb_processed j = (if jb_status j = JobDone then 1 else 0)"

definition jobs_counted :: "db \<Rightarrow> bool" where
  "jobs_counted s \<longleftrightarrow> distinct (map jb_id (t_jobs s)) \<and> list_all counted (t_jobs s)"

definition idle :: "worker \<Rightarrow> bool" where
  "idle w = (case wk_phase w of Polling k \<Rightarrow> 0 < k | _ \<Rightarrow> False)"

definition thrown :: "worker \<Rightarrow> bool" where
  "thrown w = (wk_phase w = Thrown)"

definition processed_sum :: "worker list \<Rightarrow> nat" where
  "processed_sum ws = sum_list (map (\<lambda>w. ws_processed (wk_stats w)) ws)"

text \<open>
  \<open>d\<close> counts the jobs done before. A worker that found nothing to claim shows that every pending
  job is in somebody's hands, which stays so as long as nobody is thrown out.
\<close>

definition pool_inv :: "nat \<Rightarrow> int set \<Rightarrow> pool \<Rightarrow> bool" where
  "pool_inv d ids p \<longleftrightarrow> jobs_counted (pool_db p)
     \<and> jb_id ` set (t_jobs (pool_db p)) = ids
     \<and> distinct (locked_ids (pool_workers p))
     \<and> set (locked_ids (pool_workers p)) \<subseteq> pending_ids (pool_db p)
     \<and> d + processed_sum (pool_workers p) = done_count (pool_db p)
     \<and> (list_ex thrown (pool_workers p) \<or> \<not> list_ex idle (pool_workers p)
        \<or> pending_ids (pool_db p) \<subseteq> set (locked_ids (pool_workers p)))"

lemma split_at:
  assumes "i < length xs"
  obtains a b where "xs = a @ xs ! i # b" and "\<And>y. xs[i := y] = a @ y # b"
  using assms id_take_nth_drop [of i xs] upd_conv_take_nth_drop [of i xs] by blast

lemma locked_ids_append [simp]:
  "locked_ids (a @ w # b) = locked_ids a @ held w @ locked_ids b"
  by (simp add: locked_ids_def)

lemma processed_sum_append [simp]:
  "processed_sum (a @ w # b) = processed_sum a + ws_processed (wk_stats w) + processed_sum b"
  by (simp add: processed_sum_def)

lemma claimNextJob_None: "claimNextJob l s = None \<longleftrightarrow> pending_ids s \<subseteq> set l"
  by (auto simp: claimNextJob_def pending_ids_def filter_empty_conv list.case_eq_if)

lemma claimNextJob_Some:
  assumes "claimNextJob l s = Some j"
  shows "cj_id j \<in> pending_ids s" and "cj_id j \<notin> set l"
proof -
  let ?P = "\<lambda>j. jb_status j = JobPending \<and> jb_id j \<notin> set l"
  from assms obtain r rs where f: "filter ?P (sort_key jb_id (t_jobs s)) = r # rs"
    and j: "cj_id j = jb_id r"
    by (auto simp: claimNextJob_def split: list.splits)
  have "r \<in> set (filter ?P (sort_key jb_id (t_jobs s)))" by (simp add: f)
  then show "cj_id j \<in> pending_ids s" "cj_id j \<notin> set l"
    using j by (auto simp: pending_ids_def)
qed

lemma completeJob_facts:
  assumes c: "jobs_counted s" and j: "i \<in> pending_ids s"
  shows "jobs_counted (completeJob i w now s)"
    and "pending_ids (completeJob i w now s) = pending_ids s - {i}"
    and "done_count (completeJob i w now s) = Suc (done_count s)"
    and "jb_id ` set (t_jobs (completeJob i w now s)) = jb_id ` set (t_jobs s)"
proof -
  let ?f = "\<lambda>j. if jb_id j = i then done_job now w j else j"
  have d: "distinct (map jb_id (t_jobs s))" using c by (simp add: jobs_counted_def)
  obtain r where r: "r \<in> set (t_jobs s)" "jb_id r = i" "jb_status r = JobPending"
    using j by (auto simp: pending_ids_def)
  have u: "jb_id x = i \<Longrightarrow> x = r" if "x \<in> set (t_jobs s)" for x
    using distinct_map_unique [OF d that r(1)] r(2) by simp
  have ids: "jb_id (?f x) = jb_id x" for x by (simp add: done_job_def)
  then have m: "map jb_id (map ?f (t_jobs s)) = map jb_id (t_jobs s)" by simp
  have "counted (?f x)" if "x \<in> set (t_jobs s)" for x
    using c that u [OF that] r
    by (auto simp: jobs_counted_def counted_def list_all_iff done_job_def)
  then have "list_all counted (map ?f (t_jobs s))" unfolding list_all_iff set_map by blast
  moreover have "distinct (map jb_id (map ?f (t_jobs s)))" using d by (simp only: m)
  ultimately show "jobs_counted (completeJob i w now s)"
    by (simp add: jobs_counted_def completeJob_def del: map_map)
  show "jb_id ` set (t_jobs (completeJob i w now s)) = jb_id ` set (t_jobs s)"
    using arg_cong [OF m, of set] by (simp add: completeJob_def del: map_map)
  show "pending_ids (completeJob i w now s) = pending_ids s - {i}"
  proof -
    have "{x \<in> set (t_jobs (completeJob i w now s)). jb_status x = JobPending} =
        {x \<in> set (t_jobs s). jb_status x = JobPending \<and> jb_id x \<noteq> i}"
      by (auto simp: completeJob_def done_job_def)
    then show ?thesis by (auto simp: pending_ids_def)
  qed
  have "length (filter (\<lambda>j. jb_status j = JobDone) (map ?f xs)) =
      (if r \<in> set xs then 1 else 0) + length (filter (\<lambda>j. jb_status j = JobDone) xs)"
    if "set xs \<subseteq> set (t_jobs s)" "distinct xs" for xs
    using that
  proof (induction xs)
    case Nil
    then show ?case by simp
  next
    case (Cons x xs)
    then show ?case using r u [of x] by (auto simp: done_job_def)
  qed
  moreover have "distinct (t_jobs s)" using d by (simp add: distinct_map)
  ultimately show "done_count (completeJob i w now s) = Suc (done_count s)"
    using r(1) by (simp add: done_count_def completeJob_def)
qed


text \<open>Each transition of one worker, between the workers before and after it.\<close>

lemma pool_inv_claim:
  assumes "pool_inv d ids p" and ws: "pool_workers p = a @ w # b" and "wk_phase w = Polling k"
    and cl: "claimNextJob (locked_ids (pool_workers p)) (pool_db p) = Some j"
  shows "pool_inv d ids (p\<lparr>pool_workers := a @ w\<lparr>wk_phase := Working j\<rparr> # b\<rparr>)"
proof -
  have "cj_id j \<in> pending_ids (pool_db p)" "cj_id j \<notin> set (locked_ids a)"
      "cj_id j \<notin> set (locked_ids b)"
    using claimNextJob_Some [OF cl] by (auto simp: ws)
  with assms(1,3) show ?thesis
    by (auto simp: pool_inv_def ws held_def idle_def thrown_def)
qed

lemma pool_inv_empty:
  assumes "pool_inv d ids p" and ws: "pool_workers p = a @ w # b" and "wk_phase w = Polling k"
    and cl: "claimNextJob (locked_ids (pool_workers p)) (pool_db p) = None"
  shows "pool_inv d ids (p\<lparr>pool_workers := a @ w\<lparr>wk_phase := Polling (k + 1)\<rparr> # b\<rparr>)"
  using assms(1,3) cl unfolding claimNextJob_None
  by (simp add: pool_inv_def ws held_def)

lemma pool_inv_finish:
  assumes inv: "pool_inv d ids p" and ws: "pool_workers p = a @ w # b" and ph: "wk_phase w = Working j"
  shows "pool_inv d ids \<lparr>pool_db = completeJob (cj_id j) wid now (pool_db p),
    pool_workers = a @ \<lparr>wk_stats = (wk_stats w)\<lparr>ws_processed := ws_processed (wk_stats w) + 1\<rparr>,
      wk_phase = Polling 0\<rparr> # b\<rparr>"
proof -
  have "cj_id j \<in> pending_ids (pool_db p)" using inv ph by (simp add: pool_inv_def ws held_def)
  with inv ph completeJob_facts [of "pool_db p" "cj_id j" wid now] show ?thesis
    by (auto simp: pool_inv_def ws held_def idle_def thrown_def)
qed

lemma pool_inv_throw:
  assumes "pool_inv d ids p" and ws: "pool_workers p = a @ w # b"
  shows "pool_inv d ids (p\<lparr>pool_workers := a @ w\<lparr>wk_phase := Thrown\<rparr> # b\<rparr>)"
  using assms(1) by (auto simp: pool_inv_def ws held_def thrown_def)

lemma pool_inv_step:
  assumes inv: "pool_inv d ids p"
  shows "pool_inv d ids (pool_step limit e p)"
proof -
  have keep: "pool_inv d ids (pool_step limit e p)"
    if il: "i < length (pool_workers p)" and e: "e \<in> {Poll i, Throw i} \<or> (\<exists>now. e = Finish i now)" for i
  proof -
    obtain a b where ab: "pool_workers p = a @ pool_workers p ! i # b"
      and up: "\<And>y. (pool_workers p)[i := y] = a @ y # b"
      using split_at [OF il] by blast
    show ?thesis
      using e inv il pool_inv_claim [OF inv ab] pool_inv_empty [OF inv ab]
        pool_inv_finish [OF inv ab] pool_inv_throw [OF inv ab]
      by (auto simp: Let_def up split: worker_phase.splits option.splits)
  qed
  show ?thesis
  proof (cases e)
    case (Poll i)
    then show ?thesis using keep [of i] inv by (cases "i < length (pool_workers p)") auto
  next
    case (Finish i now)
    then show ?thesis using keep [of i] inv by (cases "i < length (pool_workers p)") auto
  next
    case (Throw i)
    then show ?thesis using keep [of i] inv by (cases "i < length (pool_workers p)") auto
  qed
qed

interpretation pools: step_machine "pool_step limit" "pool_inv d ids"
  by unfold_locales (rule pool_inv_step)

lemma pool_inv_initial:
  assumes "jobs_counted s"
  shows "pool_inv (done_count s) (jb_id ` set (t_jobs s)) (initial_pool n s)"
proof -
  have "locked_ids (pool_workers (initial_pool n s)) = []"
    by (auto simp: locked_ids_def initial_pool_def held_def)
  moreover have "processed_sum (pool_workers (initial_pool n s)) = 0"
    by (simp add: processed_sum_def initial_pool_def initial_stats_def comp_def)
  moreover have "\<not> list_ex idle (pool_workers (initial_pool n s))"
    by (auto simp: list_ex_iff initial_pool_def idle_def)
  moreover have "pool_db (initial_pool n s) = s" by (simp add: initial_pool_def)
  ultimately show ?thesis using assms by (simp add: pool_inv_def)
qed

lemma pool_run_inv:
  "jobs_counted s \<Longrightarrow> pool_inv (done_count s) (jb_id ` set (t_jobs s)) (runWorkerPool opts schedule s)"
  unfolding runWorkerPool_def by (intro pools.run_keeps pool_inv_initial)

section \<open>The pool ends\<close>

text \<open>
  The potential of a pool: \<open>limit + 1\<close> for every job nobody holds, and for a worker the empty polls
  it has left.
\<close>

definition unclaimed :: "pool \<Rightarrow> nat" where
  "unclaimed p = card (pending_ids (pool_db p) - set (locked_ids (pool_workers p)))"

definition worker_potential :: "nat \<Rightarrow> worker \<Rightarrow> nat" where
  "worker_potential limit w =
     (case wk_phase w of Polling k \<Rightarrow> limit - k + 1 | Working _ \<Rightarrow> limit + 2 | Thrown \<Rightarrow> 0)"

definition potential :: "nat \<Rightarrow> pool \<Rightarrow> nat" where
  "potential limit p = unclaimed p * (limit + 1)
     + sum_list (map (worker_potential limit) (pool_workers p))"

lemma finite_pending [simp]: "finite (pending_ids s)"
  by (simp add: pending_ids_def)

lemma potential_at:
  "pool_workers p = a @ w # b \<Longrightarrow> potential limit p = unclaimed p * (limit + 1)
     + sum_list (map (worker_potential limit) a) + worker_potential limit w
     + sum_list (map (worker_potential limit) b)"
  by (simp add: potential_def)

lemma potential_less:
  fixes U U' L w w' :: nat
  assumes "U' * (L + 1) + w' < U * (L + 1) + w"
  shows "U' * (L + 1) + a + w' + b < U * (L + 1) + a + w + b"
  using assms by linarith

lemma potential_claim:
  assumes ws: "pool_workers p = a @ w # b" and ph: "wk_phase w = Polling k" "k < limit"
    and cl: "claimNextJob (locked_ids (pool_workers p)) (pool_db p) = Some j"
  shows "potential limit (p\<lparr>pool_workers := a @ w\<lparr>wk_phase := Working j\<rparr> # b\<rparr>) < potential limit p"
proof -
  let ?p = "p\<lparr>pool_workers := a @ w\<lparr>wk_phase := Working j\<rparr> # b\<rparr>"
  let ?A = "pending_ids (pool_db p) - set (locked_ids (pool_workers p))"
  have j: "cj_id j \<in> ?A" using claimNextJob_Some [OF cl] by blast
  have "pending_ids (pool_db ?p) - set (locked_ids (pool_workers ?p)) = ?A - {cj_id j}"
    by (auto simp: ws ph held_def)
  then have U: "Suc (unclaimed ?p) = unclaimed p"
    using card_Suc_Diff1 [OF _ j] by (simp add: unclaimed_def)
  have "unclaimed ?p * (limit + 1) + (limit + 2) < unclaimed p * (limit + 1) + (limit - k + 1)"
    using ph(2) by (simp add: U [symmetric])
  from potential_less [OF this] show ?thesis
    by (simp add: potential_def ws worker_potential_def ph(1) add.assoc)
qed

lemma potential_empty:
  assumes ws: "pool_workers p = a @ w # b" and ph: "wk_phase w = Polling k" "k < limit"
  shows "potential limit (p\<lparr>pool_workers := a @ w\<lparr>wk_phase := Polling (k + 1)\<rparr> # b\<rparr>) < potential limit p"
  using ph(2) by (simp add: potential_def unclaimed_def ws worker_potential_def ph(1) held_def)

lemma potential_finish:
  assumes inv: "pool_inv d ids p" and ws: "pool_workers p = a @ w # b" and ph: "wk_phase w = Working j"
    and p': "p' = \<lparr>pool_db = completeJob (cj_id j) wid now (pool_db p),
      pool_workers = a @ \<lparr>wk_stats = st, wk_phase = Polling 0\<rparr> # b\<rparr>"
  shows "potential limit p' < potential limit p"
proof -
  have "cj_id j \<in> pending_ids (pool_db p)" and "jobs_counted (pool_db p)"
    using inv ph by (simp_all add: pool_inv_def ws held_def)
  then have P: "pending_ids (pool_db p') = pending_ids (pool_db p) - {cj_id j}"
    by (simp add: p' completeJob_facts)
  have "set (locked_ids (pool_workers p)) = insert (cj_id j) (set (locked_ids (pool_workers p')))"
    by (auto simp: p' ws held_def ph)
  with P have "pending_ids (pool_db p') - set (locked_ids (pool_workers p')) =
      pending_ids (pool_db p) - set (locked_ids (pool_workers p))" by auto
  then have "unclaimed p' = unclaimed p" by (simp add: unclaimed_def)
  then show ?thesis by (simp add: potential_def p' ws worker_potential_def ph)
qed

lemma potential_throw:
  assumes ws: "pool_workers p = a @ w # b" and ph: "\<not> exited limit w"
  shows "potential limit (p\<lparr>pool_workers := a @ w\<lparr>wk_phase := Thrown\<rparr> # b\<rparr>) < potential limit p"
proof -
  let ?p = "p\<lparr>pool_workers := a @ w\<lparr>wk_phase := Thrown\<rparr> # b\<rparr>"
  let ?A = "pending_ids (pool_db p) - set (locked_ids (pool_workers p))"
  let ?B = "pending_ids (pool_db p) - set (locked_ids (pool_workers ?p))"
  show ?thesis
  proof (cases "wk_phase w")
    case (Working j)
    have "?B \<subseteq> insert (cj_id j) ?A" by (auto simp: ws held_def Working)
    then have "card ?B \<le> card (insert (cj_id j) ?A)" by (intro card_mono) auto
    also have "\<dots> \<le> Suc (card ?A)" by (simp add: card_insert_if)
    finally have "unclaimed ?p \<le> Suc (unclaimed p)" by (simp add: unclaimed_def)
    then have "unclaimed ?p * (limit + 1) \<le> Suc (unclaimed p) * (limit + 1)"
      by (rule mult_le_mono1)
    then have "unclaimed ?p * (limit + 1) + 0 < unclaimed p * (limit + 1) + (limit + 2)" by simp
    from potential_less [OF this] show ?thesis
      by (simp add: potential_def ws worker_potential_def Working add.assoc)
  qed (use ph in \<open>auto simp: exited_def potential_def unclaimed_def ws worker_potential_def held_def\<close>)
qed

text \<open>
  An event takes place when its worker is at that point of its loop: a poll while the bound of empty
  polls is not reached, a completion while it works, a failure while it is in its loop. Whether the
  event changes anything is another matter, so an iteration that does nothing counts as one.
\<close>

fun takes_place :: "nat \<Rightarrow> pool_event \<Rightarrow> pool \<Rightarrow> bool" where
  "takes_place limit (Poll i) p \<longleftrightarrow> i < length (pool_workers p)
     \<and> (case wk_phase (pool_workers p ! i) of Polling k \<Rightarrow> k < limit | _ \<Rightarrow> False)"
| "takes_place limit (Finish i now) p \<longleftrightarrow> i < length (pool_workers p)
     \<and> (case wk_phase (pool_workers p ! i) of Working j \<Rightarrow> True | _ \<Rightarrow> False)"
| "takes_place limit (Throw i) p \<longleftrightarrow> i < length (pool_workers p)
     \<and> \<not> exited limit (pool_workers p ! i)"

lemma potential_step:
  assumes inv: "pool_inv d ids p" and tp: "takes_place limit e p"
  shows "potential limit (pool_step limit e p) < potential limit p"
proof -
  obtain i where e: "e \<in> {Poll i, Throw i} \<or> (\<exists>now. e = Finish i now)" by (cases e) auto
  have il: "i < length (pool_workers p)" using tp e by auto
  obtain a b where ab: "pool_workers p = a @ pool_workers p ! i # b"
    and up: "\<And>y. (pool_workers p)[i := y] = a @ y # b"
    using split_at [OF il] by blast
  show ?thesis
    using tp e il potential_claim [OF ab] potential_empty [OF ab] potential_finish [OF inv ab]
      potential_throw [OF ab]
    by (auto simp: Let_def up split: worker_phase.splits option.splits if_splits)
qed

text \<open>The runs of the pool: schedules of which every event takes place.\<close>

fun pool_runs :: "nat \<Rightarrow> pool_event list \<Rightarrow> pool \<Rightarrow> bool" where
  "pool_runs limit [] p = True"
| "pool_runs limit (e # es) p = (takes_place limit e p \<and> pool_runs limit es (pool_step limit e p))"

lemma pool_runs_bounded:
  "pool_inv d ids p \<Longrightarrow> pool_runs limit es p \<Longrightarrow> length es \<le> potential limit p"
proof (induction es arbitrary: p)
  case Nil
  then show ?case by simp
next
  case (Cons e es)
  then have "length es \<le> potential limit (pool_step limit e p)"
    by (auto intro: pool_inv_step)
  with Cons.prems potential_step [of d ids p limit e] show ?case by auto
qed

text \<open>A worker still in its loop goes on by itself, without a failure.\<close>

fun is_throw :: "pool_event \<Rightarrow> bool" where
  "is_throw (Throw i) = True"
| "is_throw _ = False"

lemma worker_goes_on:
  assumes "i < length (pool_workers p)" and "\<not> exited limit (pool_workers p ! i)"
  shows "takes_place limit (Poll i) p \<or> takes_place limit (Finish i now) p"
  using assms by (auto simp: exited_def split: worker_phase.splits)

text \<open>So a run can be carried to its end without failures.\<close>

lemma pool_runs_to_end:
  assumes "pool_inv d ids p"
  shows "\<exists>es. pool_runs limit es p \<and> \<not> list_ex is_throw es
    \<and> list_all (exited limit) (pool_workers (fold (pool_step limit) es p))"
  using assms
proof (induction "potential limit p" arbitrary: p rule: less_induct)
  case less
  show ?case
  proof (cases "list_all (exited limit) (pool_workers p)")
    case True
    then show ?thesis by (intro exI [of _ "[]"]) simp
  next
    case False
    then obtain i where "i < length (pool_workers p)" "\<not> exited limit (pool_workers p ! i)"
      by (auto simp: list_all_length)
    from worker_goes_on [OF this, of 0] obtain e where e: "takes_place limit e p" "\<not> is_throw e"
      by (metis is_throw.simps(2,3))
    from less.hyps [OF potential_step [OF less.prems e(1)] pool_inv_step [OF less.prems]]
    obtain es where "pool_runs limit es (pool_step limit e p)" "\<not> list_ex is_throw es"
        "list_all (exited limit) (pool_workers (fold (pool_step limit) es (pool_step limit e p)))"
      by blast
    with e show ?thesis by (intro exI [of _ "e # es"]) simp
  qed
qed

lemma potential_initial:
  "potential limit (initial_pool n s) = (card (pending_ids s) + n) * (limit + 1)"
proof -
  have "locked_ids (pool_workers (initial_pool n s)) = []"
    by (auto simp: locked_ids_def initial_pool_def held_def)
  moreover have "map (worker_potential limit) (pool_workers (initial_pool n s)) = replicate n (limit + 1)"
    by (simp add: initial_pool_def initial_stats_def worker_potential_def comp_def map_replicate_const)
  moreover have "pool_db (initial_pool n s) = s" by (simp add: initial_pool_def)
  ultimately show ?thesis
    by (simp only: potential_def unclaimed_def) (simp add: sum_list_replicate algebra_simps)
qed

section \<open>What the pool promises\<close>

text \<open>
  C22. Whatever the interleaving of the workers and the failures of their transactions, no two
  workers hold one job, a job is marked done exactly as often as it was processed, never more than
  once, no job appears or disappears, and the processed counts of the workers add up to the jobs
  completed in the run.
\<close>

theorem jobs_processed_once:
  fixes opts :: RunWorkersOptions and schedule :: "pool_event list" and s :: db
  assumes "jobs_counted s"
  defines "p \<equiv> runWorkerPool opts schedule s"
  shows "distinct (locked_ids (pool_workers p))
    \<and> list_all (\<lambda>j. jb_processed j = (if jb_status j = JobDone then 1 else 0)) (t_jobs (pool_db p))
    \<and> jb_id ` set (t_jobs (pool_db p)) = jb_id ` set (t_jobs s)
    \<and> done_count s + sum_list (map ws_processed (pool_result p)) = done_count (pool_db p)"
proof -
  have "list_all (\<lambda>j. jb_processed j = (if jb_status j = JobDone then 1 else 0)) xs = list_all counted xs"
    for xs by (simp add: counted_def list_all_iff)
  moreover have "sum_list (map ws_processed (pool_result p)) = processed_sum (pool_workers p)"
    by (simp add: pool_result_def processed_sum_def comp_def)
  ultimately show ?thesis
    using pool_run_inv [OF assms(1), of opts schedule]
    by (simp add: p_def pool_inv_def jobs_counted_def)
qed

lemma pool_length [simp]: "length (pool_workers (pool_step limit e p)) = length (pool_workers p)"
  by (cases e) (auto simp: Let_def split: worker_phase.splits option.splits)

lemma pool_run_length: "length (pool_workers (runWorkerPool o' es s)) = ro_workerCount o'"
proof -
  have "length (pool_workers (fold (pool_step l) es p)) = length (pool_workers p)" for l p
    by (induction es arbitrary: p) simp_all
  then show ?thesis by (simp add: runWorkerPool_def initial_pool_def initial_stats_def)
qed

text \<open>
  When every worker of a non-empty pool has left its loop by itself, no pending job is left:
  the last one to give up has seen that no job was waiting and none was in another's hands.
\<close>

theorem pool_drains:
  assumes "jobs_counted s" and "0 < ro_workerCount opts" and "0 < idle_polls_before_exit opts"
    and "list_all (exited (idle_polls_before_exit opts)) (pool_workers (runWorkerPool opts schedule s))"
    and "\<not> list_ex thrown (pool_workers (runWorkerPool opts schedule s))"
  shows "list_all (\<lambda>j. jb_status j = JobDone \<and> jb_processed j = 1)
    (t_jobs (pool_db (runWorkerPool opts schedule s)))"
proof -
  let ?p = "runWorkerPool opts schedule s" and ?ws = "pool_workers (runWorkerPool opts schedule s)"
  have inv: "pool_inv (done_count s) (jb_id ` set (t_jobs s)) ?p"
    by (rule pool_run_inv [OF assms(1)])
  have poll: "\<exists>k. wk_phase w = Polling k \<and> 0 < k" if "w \<in> set ?ws" for w
  proof -
    have "exited (idle_polls_before_exit opts) w" "\<not> thrown w"
      using assms(4,5) that by (auto simp: list_all_iff list_ex_iff)
    with assms(3) show ?thesis by (cases "wk_phase w") (auto simp: exited_def thrown_def)
  qed
  have "?ws \<noteq> []" using pool_run_length [of opts schedule s] assms(2) by auto
  with poll have "list_ex idle ?ws"
    by (cases ?ws) (fastforce simp: idle_def)+
  moreover have "locked_ids ?ws = []"
    using poll by (force simp: locked_ids_def held_def)
  ultimately have "pending_ids (pool_db ?p) = {}" using inv assms(5) by (simp add: pool_inv_def)
  then have "\<forall>j\<in>set (t_jobs (pool_db ?p)). jb_status j = JobDone"
    by (auto simp: pending_ids_def) (metis job_status.exhaust)
  with inv show ?thesis
    by (auto simp: pool_inv_def jobs_counted_def list_all_iff counted_def)
qed

text \<open>
  C23. The pool ends. A run is a schedule of polls, completions and failures each of which its
  worker is due for, whether or not it changes anything. Every run has at most \<open>(jobs + workers) *
  (limit + 1)\<close> events; a run after which no worker is due for a poll or a completion has left every
  loop; and every run can be carried on, without a further failure, to such an end.
\<close>

theorem pool_terminates:
  fixes opts :: RunWorkersOptions and schedule :: "pool_event list" and s :: db
  assumes "jobs_counted s"
    and "pool_runs (idle_polls_before_exit opts) schedule (initial_pool (ro_workerCount opts) s)"
  defines "limit \<equiv> idle_polls_before_exit opts" and "p \<equiv> runWorkerPool opts schedule s"
  shows "length schedule \<le> (card (pending_ids s) + ro_workerCount opts) * (limit + 1)
    \<and> ((\<forall>i now. \<not> takes_place limit (Poll i) p \<and> \<not> takes_place limit (Finish i now) p)
       \<longrightarrow> list_all (exited limit) (pool_workers p))
    \<and> (\<exists>es. pool_runs limit es p \<and> \<not> list_ex is_throw es
         \<and> list_all (exited limit) (pool_workers (runWorkerPool opts (schedule @ es) s)))"
proof -
  note inv = pool_inv_initial [OF assms(1), of "ro_workerCount opts"]
  have "length schedule \<le> (card (pending_ids s) + ro_workerCount opts) * (limit + 1)"
    using pool_runs_bounded [OF inv assms(2)] by (simp add: potential_initial limit_def)
  moreover have "list_all (exited limit) (pool_workers p)"
    if "\<forall>i now. \<not> takes_place limit (Poll i) p \<and> \<not> takes_place limit (Finish i now) p"
    using that worker_goes_on [of _ p limit] by (auto simp: list_all_length)
  moreover have "\<exists>es. pool_runs limit es p \<and> \<not> list_ex is_throw es
      \<and> list_all (exited limit) (pool_workers (runWorkerPool opts (schedule @ es) s))"
    using pool_runs_to_end [OF pool_run_inv [OF assms(1), of opts schedule], of limit]
    by (simp add: p_def limit_def runWorkerPool_def)
  ultimately show ?thesis by blast
qed

section \<open>A concrete pool\<close>

definition receipt_job :: "int \<Rightarrow> job_row" where
  "receipt_job i = \<lparr>jb_id = i, jb_type = ''send_receipt'', jb_payload = JObj [], jb_status = JobPending,
     jb_processed = 0, jb_worker_id = None, jb_order_id = None, jb_created_at = 0,
     jb_processed_at = None\<rparr>"

definition jobs_db :: db where
  "jobs_db = empty_db\<lparr>t_jobs := [receipt_job 1, receipt_job 2]\<rparr>"

definition two_workers :: RunWorkersOptions where
  "two_workers = \<lparr>ro_workerCount = 2, ro_idlePollsBeforeExit = Some 1\<rparr>"

definition two_jobs_schedule :: "pool_event list" where
  "two_jobs_schedule = [Poll 0, Poll 1, Finish 1 5, Finish 0 6, Poll 0, Poll 1]"

lemma jobs_db_counted: "jobs_counted jobs_db"
  by (simp add: jobs_counted_def jobs_db_def receipt_job_def counted_def)

lemma jobs_processed_once_witness:
  "done_count (pool_db (runWorkerPool two_workers two_jobs_schedule jobs_db)) = 2"
proof -
  have "done_count jobs_db = 0"
      "map ws_processed (pool_result (runWorkerPool two_workers two_jobs_schedule jobs_db)) = [1, 1]"
    by code_simp+
  with jobs_processed_once [OF jobs_db_counted, of two_workers two_jobs_schedule] show ?thesis
    by simp
qed

lemma pool_drains_witness:
  "list_all (\<lambda>j. jb_status j = JobDone \<and> jb_processed j = 1)
    (t_jobs (pool_db (runWorkerPool two_workers two_jobs_schedule jobs_db)))"
  by (rule pool_drains [OF jobs_db_counted]) code_simp+

lemma pool_terminates_witness:
  "length two_jobs_schedule \<le> (card (pending_ids jobs_db) + 2) * 2"
proof -
  have "pool_runs (idle_polls_before_exit two_workers) two_jobs_schedule
      (initial_pool (ro_workerCount two_workers) jobs_db)"
    by code_simp
  from pool_terminates [OF jobs_db_counted this] show ?thesis
    by (simp add: two_workers_def idle_polls_before_exit_def)
qed

end
