(* ===== verification/Retry.thy ===== *)
theory Retry
  imports Schema
begin

text \<open>
  The retry of serialization failures (\<open>src/retry.ts\<close>): the whole callback is run again on the
  codes 40001 and 40P01, at most \<open>maxAttempts\<close> times, with a growing delay.
\<close>

section \<open>The codes\<close>

definition RETRYABLE_PG_CODES :: "string list" where
  "RETRYABLE_PG_CODES = [''40001'', ''40P01'']"

text \<open>\<open>err.code ?? err.driverError?.code\<close>; the errors without these members have no code.\<close>

definition getPgErrorCode :: "exn \<Rightarrow> string option" where
  "getPgErrorCode e = (case e of
       DriverError code driverCode m \<Rightarrow> (case code of Some c \<Rightarrow> Some c | None \<Rightarrow> driverCode)
     | _ \<Rightarrow> None)"

definition isRetryableSerializationError :: "exn \<Rightarrow> bool" where
  "isRetryableSerializationError e =
     (case getPgErrorCode e of None \<Rightarrow> False | Some c \<Rightarrow> c \<in> set RETRYABLE_PG_CODES)"

section \<open>The loop\<close>

record RetryOptions =
  rp_maxAttempts :: "int option"
  rp_baseDelayMs :: "int option"

definition max_attempts :: "RetryOptions \<Rightarrow> int" where
  "max_attempts o' = (case rp_maxAttempts o' of Some n \<Rightarrow> n | None \<Rightarrow> 8)"

definition base_delay :: "RetryOptions \<Rightarrow> int" where
  "base_delay o' = (case rp_baseDelayMs o' of Some n \<Rightarrow> n | None \<Rightarrow> 20)"

text \<open>What \<open>onRetry\<close> is told, and the delay slept before the next attempt.\<close>

record retry_info =
  ri_attempt :: int
  ri_code :: string
  ri_error :: exn
  ri_delay :: int

text \<open>
  \<open>fn\<close> is the callback on the state of the world; \<open>random k\<close> is \<open>Math.random()\<close> at the k-th
  attempt. The first argument is the number of attempts made so far.
\<close>

function retry_loop ::
  "int \<Rightarrow> RetryOptions \<Rightarrow> (int \<Rightarrow> rat) \<Rightarrow> ('s \<Rightarrow> (exn + 'a) \<times> 's) \<Rightarrow> 's
     \<Rightarrow> (exn + 'a) \<times> retry_info list \<times> 's" where
  "retry_loop attempt o' random fn s =
     (case fn s of
        (Inr x, s') \<Rightarrow> (Inr x, [], s')
      | (Inl e, s') \<Rightarrow>
          (if \<not> isRetryableSerializationError e \<or> max_attempts o' \<le> attempt + 1
           then (Inl e, [], s')
           else (case retry_loop (attempt + 1) o' random fn s' of
                   (r, infos, s'') \<Rightarrow>
                     (r, \<lparr>ri_attempt = attempt + 1,
                          ri_code = (case getPgErrorCode e of Some c \<Rightarrow> c | None \<Rightarrow> []),
                          ri_error = e,
                          ri_delay = base_delay o' * (attempt + 1)
                            + \<lfloor>random (attempt + 1) * of_int (base_delay o')\<rfloor>\<rparr> # infos, s''))))"
  by pat_completeness auto
termination
  by (relation "measure (\<lambda>(attempt, o', _). nat (max_attempts o' - attempt))") auto

declare retry_loop.simps [simp del]

definition withSerializationRetry ::
  "RetryOptions \<Rightarrow> (int \<Rightarrow> rat) \<Rightarrow> ('s \<Rightarrow> (exn + 'a) \<times> 's) \<Rightarrow> 's
     \<Rightarrow> (exn + 'a) \<times> retry_info list \<times> 's" where
  "withSerializationRetry o' random fn s = retry_loop 0 o' random fn s"

section \<open>The attempts made\<close>

text \<open>\<open>n\<close> failed attempts that are to be repeated, one after the other.\<close>

fun retried :: "nat \<Rightarrow> ('s \<Rightarrow> (exn + 'a) \<times> 's) \<Rightarrow> 's \<Rightarrow> exn list option \<times> 's" where
  "retried 0 fn s = (Some [], s)"
| "retried (Suc n) fn s = (case fn s of
       (Inl e, s') \<Rightarrow>
         if isRetryableSerializationError e
         then (case retried n fn s' of (es, s'') \<Rightarrow> (map_option (Cons e) es, s''))
         else (None, s')
     | (Inr _, s') \<Rightarrow> (None, s'))"

lemma retry_loop_attempts:
  assumes "retry_loop attempt o' random fn s = (r, infos, s')"
  shows "\<exists>t. retried (length infos) fn s = (Some (map ri_error infos), t) \<and> fn t = (r, s')
    \<and> (infos = [] \<or> attempt + int (length infos) < max_attempts o')
    \<and> map ri_attempt infos = [attempt + 1..attempt + int (length infos)]
    \<and> (\<forall>e. r = Inl e \<longrightarrow> \<not> isRetryableSerializationError e
          \<or> max_attempts o' \<le> attempt + int (length infos) + 1)"
  using assms
proof (induction attempt o' random fn s arbitrary: r infos s' rule: retry_loop.induct)
  case (1 attempt o' random fn s)
  obtain q u where q: "fn s = (q, u)" by (cases "fn s")
  show ?case
  proof (cases "\<exists>e. q = Inl e \<and> isRetryableSerializationError e \<and> \<not> max_attempts o' \<le> attempt + 1")
    case True
    then obtain e where e: "q = Inl e" "isRetryableSerializationError e"
        "\<not> max_attempts o' \<le> attempt + 1" by blast
    obtain js v where rec: "retry_loop (attempt + 1) o' random fn u = (r, js, s')"
      and infos: "infos = v # js" and v: "ri_attempt v = attempt + 1" "ri_error v = e"
      using 1(2) q e by (auto simp: retry_loop.simps [of attempt] split: prod.splits)
    from 1(1) [OF q [symmetric] e(1) _ rec] e(2,3) obtain t where
        t: "retried (length js) fn u = (Some (map ri_error js), t)" "fn t = (r, s')"
      and b: "js = [] \<or> attempt + 1 + int (length js) < max_attempts o'"
      and at: "map ri_attempt js = [attempt + 1 + 1..attempt + 1 + int (length js)]"
      and last: "\<forall>e. r = Inl e \<longrightarrow> \<not> isRetryableSerializationError e
          \<or> max_attempts o' \<le> attempt + 1 + int (length js) + 1"
      by auto
    have "[attempt + 1..attempt + int (length infos)] =
        (attempt + 1) # [attempt + 1 + 1..attempt + 1 + int (length js)]"
      by (subst upto_rec1) (simp_all add: infos algebra_simps)
    with t b at last e q show ?thesis
      by (intro exI [of _ t]) (auto simp: infos v algebra_simps)
  next
    case False
    with 1(2) q have "infos = []" "r = q" "s' = u"
      by (auto simp: retry_loop.simps [of attempt] split: sum.splits if_splits)
    with q False show ?thesis by auto
  qed
qed

section \<open>What the retry promises\<close>

text \<open>
  The callback is run at least once and at most \<open>maxAttempts\<close> times: every run but the last
  failed with a serialization failure or a deadlock, \<open>onRetry\<close> was told each of them in order with
  its number, and the answer is that of the last run; when that is an error, it is one that is not
  to be repeated or the attempts are used up.
\<close>

theorem retry_is_bounded:
  assumes "withSerializationRetry opts random fn s = (r, infos, s')"
  shows "\<exists>t. retried (length infos) fn s = (Some (map ri_error infos), t) \<and> fn t = (r, s')
    \<and> int (length infos) + 1 \<le> max 1 (max_attempts opts)
    \<and> map ri_attempt infos = [1..int (length infos)]
    \<and> (\<forall>e. r = Inl e \<longrightarrow> \<not> isRetryableSerializationError e
          \<or> max 1 (max_attempts opts) = int (length infos) + 1)"
  using retry_loop_attempts [OF assms [unfolded withSerializationRetry_def]] by fastforce

lemma same_tables_trans: "same_tables s u" if "same_tables s t" and "same_tables t u"
proof -
  from that obtain q q' where "t = s\<lparr>sequences := q\<rparr>" and "u = t\<lparr>sequences := q'\<rparr>"
    by (blast elim: same_tablesE)
  then show ?thesis by (simp add: same_tables_def)
qed

lemma retried_transaction:
  assumes "retried n (transaction body) s = (Some es, t)"
  shows "same_tables s t"
  using assms
proof (induction n arbitrary: s es)
  case 0
  then show ?case by simp
next
  case (Suc n)
  obtain q u where q: "transaction body s = (q, u)" by (cases "transaction body s")
  with Suc.prems obtain e es' where "q = Inl e" "retried n (transaction body) u = (Some es', t)"
    by (auto split: sum.splits if_splits prod.splits)
  with q Suc.IH show ?case
    using transaction_Inl [of body s e u] by (blast intro: same_tables_trans)
qed

text \<open>
  A transaction under the retry takes effect once or not at all: when it succeeds, the tables
  are those of one run of its body from the tables it started with, and when it fails they are
  unchanged, however many runs were rolled back before.
\<close>

theorem retried_transaction_is_atomic:
  assumes "withSerializationRetry opts random (transaction body) s = (r, infos, s')"
  shows "case r of Inr x \<Rightarrow> \<exists>t. same_tables s t \<and> body t = (Inr x, s') | Inl e \<Rightarrow> same_tables s s'"
proof -
  from retry_loop_attempts [OF assms [unfolded withSerializationRetry_def]]
  obtain t where t: "retried (length infos) (transaction body) s = (Some (map ri_error infos), t)"
    and r: "transaction body t = (r, s')" by blast
  have st: "same_tables s t" by (rule retried_transaction [OF t])
  show ?thesis
  proof (cases r)
    case (Inl e)
    with r have "same_tables t s'" by (auto dest: transaction_Inl)
    with st Inl show ?thesis by (auto intro: same_tables_trans)
  next
    case (Inr x)
    with r st show ?thesis by (auto dest: transaction_InrD)
  qed
qed

section \<open>A concrete retry\<close>

text \<open>A statement that deadlocks while the order sequence is below 3.\<close>

definition deadlocks_twice :: "int stmt" where
  "deadlocks_twice s =
     (let s' = s\<lparr>sequences := (sequences s)\<lparr>sq_orders := sq_orders (sequences s) + 1\<rparr>\<rparr>
      in if sq_orders (sequences s) < 3 then (Inl (pg_error ''40P01''), s') else (Inr 7, s'))"

definition default_retry :: RetryOptions where
  "default_retry = \<lparr>rp_maxAttempts = None, rp_baseDelayMs = None\<rparr>"

lemma third_time_lucky:
  "withSerializationRetry default_retry (\<lambda>_. 1 / 2) (transaction deadlocks_twice) empty_db =
   (Inr 7,
    [\<lparr>ri_attempt = 1, ri_code = ''40P01'', ri_error = pg_error ''40P01'', ri_delay = 30\<rparr>,
     \<lparr>ri_attempt = 2, ri_code = ''40P01'', ri_error = pg_error ''40P01'', ri_delay = 50\<rparr>],
    empty_db\<lparr>sequences := (sequences empty_db)\<lparr>sq_orders := 4\<rparr>\<rparr>)"
  by (simp add: withSerializationRetry_def retry_loop.simps default_retry_def deadlocks_twice_def
      transaction_def rollback_def empty_db_def isRetryableSerializationError_def getPgErrorCode_def
      RETRYABLE_PG_CODES_def max_attempts_def base_delay_def pg_error_def)

lemma retry_is_bounded_witness:
  "\<exists>t. transaction deadlocks_twice t =
     (Inr 7, empty_db\<lparr>sequences := (sequences empty_db)\<lparr>sq_orders := 4\<rparr>\<rparr>)"
  using retry_is_bounded [OF third_time_lucky] by blast

lemma retried_transaction_is_atomic_witness:
  "\<exists>t. same_tables empty_db t \<and> deadlocks_twice t =
     (Inr 7, empty_db\<lparr>sequences := (sequences empty_db)\<lparr>sq_orders := 4\<rparr>\<rparr>)"
  using retried_transaction_is_atomic [OF third_time_lucky] by simp

end
