(* ===== verification/FilePolicy.thy ===== *)
theory FilePolicy
  imports JsValues "HOL-Library.Word"
begin

text \<open>
  The upload policy (\<open>src/files/policy.ts\<close>): the table of content types, the multipart plan, the
  magic bytes. Sizes are integers below the double's exact range wherever the code divides.
\<close>

section \<open>Sizes\<close>

definition MiB :: int where
  "MiB = 1024 * 1024"

definition GiB :: int where
  "GiB = 1024 * MiB"

text \<open>\<open>Math.ceil(a / b)\<close> for integers and \<open>b > 0\<close>.\<close>

definition ceil_div :: "int \<Rightarrow> int \<Rightarrow> int" where
  "ceil_div a b = - ((- a) div b)"

definition PUT_URL_TTL_SEC :: int where "PUT_URL_TTL_SEC = 5 * 60"
definition PART_URL_TTL_SEC :: int where "PART_URL_TTL_SEC = 15 * 60"
definition DOWNLOAD_URL_TTL_SEC :: int where "DOWNLOAD_URL_TTL_SEC = 60"

definition MAX_PARTS :: int where "MAX_PARTS = 10000"
definition MIN_PART_BYTES :: int where "MIN_PART_BYTES = 5 * MiB"
definition MAX_PART_BYTES :: int where "MAX_PART_BYTES = 5 * GiB"
definition MAX_OBJECT_BYTES :: int where "MAX_OBJECT_BYTES = 5 * 1024 * GiB"
definition RETRY_BUDGET_SEC :: int where "RETRY_BUDGET_SEC = 64"
definition SLOW_LINK_BYTES_PER_SEC :: int where "SLOW_LINK_BYTES_PER_SEC = 128 * 1024"

lemmas size_defs = MiB_def GiB_def MAX_PARTS_def MIN_PART_BYTES_def MAX_PART_BYTES_def
  MAX_OBJECT_BYTES_def RETRY_BUDGET_SEC_def SLOW_LINK_BYTES_PER_SEC_def

definition multipartThreshold :: "int \<Rightarrow> int \<Rightarrow> int" where
  "multipartThreshold budgetSec bytesPerSec =
     (let bySpeed = ceil_div (budgetSec * bytesPerSec) MiB * MiB
      in max bySpeed (MIN_PART_BYTES + MiB))"

definition MULTIPART_THRESHOLD_BYTES :: int where
  "MULTIPART_THRESHOLD_BYTES = multipartThreshold RETRY_BUDGET_SEC SLOW_LINK_BYTES_PER_SEC"

section \<open>The multipart plan\<close>

record PartPlan =
  pp_partSize :: int
  pp_partCount :: int

definition planParts :: "int \<Rightarrow> PartPlan result" where
  "planParts sz =
     (if MAX_OBJECT_BYTES < sz then Inl (JsError ''object too large for S3'')
      else let byCount = ceil_div (ceil_div sz MAX_PARTS) MiB * MiB;
               partSize = max MIN_PART_BYTES byCount
           in if MAX_PART_BYTES < partSize
              then Inl (JsError ''part size above the S3 maximum'')
              else Inr \<lparr>pp_partSize = partSize, pp_partCount = ceil_div sz partSize\<rparr>)"

definition partLength :: "PartPlan \<Rightarrow> int \<Rightarrow> int \<Rightarrow> int" where
  "partLength plan sz partNumber =
     (if partNumber < pp_partCount plan then pp_partSize plan
      else sz - pp_partSize plan * (pp_partCount plan - 1))"

lemma ceil_div_bounds:
  assumes "0 < b"
  shows "a \<le> ceil_div a b * b" and "ceil_div a b * b < a + b"
proof -
  have d: "(- a) div b * b + (- a) mod b = - a" by simp
  have m: "0 \<le> (- a) mod b" "(- a) mod b < b" using assms by simp_all
  have c: "ceil_div a b * b = - ((- a) div b * b)" by (simp add: ceil_div_def)
  show "a \<le> ceil_div a b * b" using c d m(1) by linarith
  show "ceil_div a b * b < a + b" using c d m(2) by linarith
qed

lemma ceil_div_le: "ceil_div a b \<le> c" if "0 < b" and "a \<le> c * b"
proof -
  have "ceil_div a b * b < (c + 1) * b"
    using ceil_div_bounds(2) [OF that(1), of a] that(2) by (simp add: algebra_simps)
  then have "ceil_div a b < c + 1" by (rule mult_right_less_imp_less) (use that in simp)
  then show ?thesis by simp
qed

lemma ceil_div_pos: "0 < ceil_div a b" if "0 < b" and "0 < a"
proof -
  have "0 * b < ceil_div a b * b" using ceil_div_bounds(1) [OF that(1), of a] that(2) by simp
  then show ?thesis by (rule mult_right_less_imp_less) (use that in simp)
qed

lemma planParts_Inr:
  assumes "planParts sz = Inr plan" and "1 \<le> sz"
  shows "MIN_PART_BYTES \<le> pp_partSize plan" and "pp_partSize plan \<le> MAX_PART_BYTES"
    and "pp_partSize plan mod MiB = 0" and "pp_partCount plan = ceil_div sz (pp_partSize plan)"
    and "ceil_div sz MAX_PARTS \<le> pp_partSize plan"
proof -
  let ?b = "ceil_div (ceil_div sz MAX_PARTS) MiB * MiB"
  have plan: "plan = \<lparr>pp_partSize = max MIN_PART_BYTES ?b,
      pp_partCount = ceil_div sz (max MIN_PART_BYTES ?b)\<rparr>"
    and le: "max MIN_PART_BYTES ?b \<le> MAX_PART_BYTES"
    using assms(1) by (auto simp: planParts_def Let_def split: if_splits)
  have M: "0 < MiB" by (simp add: MiB_def)
  have "ceil_div sz MAX_PARTS \<le> ?b" by (rule ceil_div_bounds(1) [OF M])
  then show "ceil_div sz MAX_PARTS \<le> pp_partSize plan" by (simp add: plan)
  show "MIN_PART_BYTES \<le> pp_partSize plan" "pp_partSize plan \<le> MAX_PART_BYTES"
      "pp_partCount plan = ceil_div sz (pp_partSize plan)"
    using le by (simp_all add: plan)
  have "MIN_PART_BYTES mod MiB = 0" "?b mod MiB = 0" by (simp_all add: size_defs)
  then show "pp_partSize plan mod MiB = 0" by (simp add: plan max_def)
qed

lemma planParts_total:
  assumes "1 \<le> sz" and "sz \<le> MAX_OBJECT_BYTES"
  shows "\<exists>plan. planParts sz = Inr plan"
proof -
  have "ceil_div sz MAX_PARTS * MAX_PARTS < sz + MAX_PARTS"
    by (rule ceil_div_bounds(2)) (simp add: size_defs)
  then have 1: "ceil_div sz MAX_PARTS \<le> 549755814" using assms(2) by (simp add: size_defs)
  have "ceil_div (ceil_div sz MAX_PARTS) MiB * MiB < ceil_div sz MAX_PARTS + MiB"
    by (rule ceil_div_bounds(2)) (simp add: size_defs)
  with 1 have "ceil_div (ceil_div sz MAX_PARTS) MiB * MiB \<le> MAX_PART_BYTES"
    by (simp add: size_defs)
  moreover have "MIN_PART_BYTES \<le> MAX_PART_BYTES" by (simp add: size_defs)
  ultimately show ?thesis using assms by (simp add: planParts_def Let_def)
qed

lemma upto_last: "1 \<le> (n :: int) \<Longrightarrow> [1..n] = [1..n - 1] @ [n]"
  by (rule upto_rec2)

lemma sum_list_constant: "(\<And>n. n \<in> set ns \<Longrightarrow> f n = (c :: int)) \<Longrightarrow> sum_list (map f ns) = int (length ns) * c"
  by (induction ns) (auto simp: algebra_simps)

text \<open>
  C24. The multipart plan fits S3 for every object it may hold: at most 10,000 parts, each but the
  last of one size, a whole number of MiB between 5 MiB and 5 GiB, the last one not empty and not
  larger, and together they are the object.
\<close>

theorem planParts_fits_s3:
  assumes "1 \<le> sz" and "sz \<le> MAX_OBJECT_BYTES"
  shows "\<exists>plan. planParts sz = Inr plan
    \<and> 1 \<le> pp_partCount plan \<and> pp_partCount plan \<le> MAX_PARTS
    \<and> MIN_PART_BYTES \<le> pp_partSize plan \<and> pp_partSize plan \<le> MAX_PART_BYTES
    \<and> pp_partSize plan mod MiB = 0
    \<and> (\<forall>n\<in>set [1..pp_partCount plan]. 1 \<le> partLength plan sz n \<and> partLength plan sz n \<le> pp_partSize plan
          \<and> (n < pp_partCount plan \<longrightarrow> partLength plan sz n = pp_partSize plan))
    \<and> (\<Sum>n\<leftarrow>[1..pp_partCount plan]. partLength plan sz n) = sz"
proof -
  obtain plan where plan: "planParts sz = Inr plan" using planParts_total [OF assms] by blast
  note P = planParts_Inr [OF plan assms(1)]
  let ?c = "pp_partSize plan" and ?k = "pp_partCount plan"
  have c: "0 < ?c" using P(1) by (simp add: size_defs)
  have k1: "1 \<le> ?k" using ceil_div_pos [OF c, of sz] assms(1) by (simp add: P(4))
  have "sz \<le> ceil_div sz MAX_PARTS * MAX_PARTS" by (rule ceil_div_bounds(1)) (simp add: size_defs)
  also have "\<dots> \<le> ?c * MAX_PARTS" using P(5) by (simp add: size_defs)
  finally have kM: "?k \<le> MAX_PARTS"
    unfolding P(4) by (intro ceil_div_le [OF c]) (simp add: mult.commute)
  have b: "sz \<le> ?k * ?c" "?k * ?c < sz + ?c" unfolding P(4) by (rule ceil_div_bounds [OF c])+
  have last: "1 \<le> partLength plan sz ?k" "partLength plan sz ?k \<le> ?c"
    using b by (simp_all add: partLength_def algebra_simps)
  have "(\<Sum>n\<leftarrow>[1..?k - 1]. partLength plan sz n) = int (length [1..?k - 1]) * ?c"
    by (rule sum_list_constant) (simp add: partLength_def)
  then have "(\<Sum>n\<leftarrow>[1..?k]. partLength plan sz n) = (?k - 1) * ?c + partLength plan sz ?k"
    using k1 by (simp add: upto_last [OF k1])
  also have "\<dots> = sz" by (simp add: partLength_def algebra_simps)
  finally show ?thesis
    using plan k1 kM P(1-3) c last by (intro exI [of _ plan]) (auto simp: partLength_def)
qed

lemma planParts_fits_s3_witness:
  "\<exists>plan. planParts (53 * 1024 ^ 3) = Inr plan \<and> pp_partCount plan \<le> 10000"
  using planParts_fits_s3 [of "53 * 1024 ^ 3"] by (auto simp: size_defs)

section \<open>Content types\<close>

text \<open>
  The two tables are object literals, so a lookup also finds what every object inherits: the
  methods of \<open>Object.prototype\<close>, its \<open>constructor\<close>, and \<open>__proto__\<close>.
\<close>

definition Object_prototype :: "string list" where
  "Object_prototype = [''constructor'', ''__defineGetter__'', ''__defineSetter__'',
     ''hasOwnProperty'', ''__lookupGetter__'', ''__lookupSetter__'', ''isPrototypeOf'',
     ''propertyIsEnumerable'', ''toString'', ''valueOf'', ''__proto__'', ''toLocaleString'']"

record allowed_type =
  at_ext :: string
  at_maxBytes :: int

definition ALLOWED_TYPES :: "(string \<times> allowed_type) list" where
  "ALLOWED_TYPES =
     [(''image/png'', \<lparr>at_ext = ''png'', at_maxBytes = 20 * MiB\<rparr>),
      (''image/jpeg'', \<lparr>at_ext = ''jpg'', at_maxBytes = 20 * MiB\<rparr>),
      (''image/webp'', \<lparr>at_ext = ''webp'', at_maxBytes = 20 * MiB\<rparr>),
      (''application/pdf'', \<lparr>at_ext = ''pdf'', at_maxBytes = 100 * MiB\<rparr>),
      (''application/gzip'', \<lparr>at_ext = ''gz'', at_maxBytes = 1024 * GiB\<rparr>)]"

text \<open>What a property lookup gives: an entry of the table, an inherited member, or \<open>undefined\<close>.\<close>

datatype 'a js_member = Own 'a | Inherited string | Absent

definition js_lookup :: "(string \<times> 'a) list \<Rightarrow> string \<Rightarrow> 'a js_member" where
  "js_lookup table k = (case map_of table k of
       Some x \<Rightarrow> Own x
     | None \<Rightarrow> if k \<in> set Object_prototype then Inherited k else Absent)"

text \<open>
  The extension and the size cap of \<open>ALLOWED_TYPES[contentType]\<close> when it is truthy. An inherited
  member has neither: the extension prints as \<open>undefined\<close>, and no number is greater than it.
\<close>

definition allowed_type_of :: "string \<Rightarrow> (string \<times> int option) option" where
  "allowed_type_of contentType = (case js_lookup ALLOWED_TYPES contentType of
       Own t \<Rightarrow> Some (at_ext t, Some (at_maxBytes t))
     | Inherited _ \<Rightarrow> Some (''undefined'', None)
     | Absent \<Rightarrow> None)"

section \<open>Magic bytes\<close>

type_synonym buffer = "8 word list"

definition MAGIC_BYTES :: nat where "MAGIC_BYTES = 16"

definition latin1 :: "buffer \<Rightarrow> string" where
  "latin1 b = map (\<lambda>w. char_of (unat w)) b"

text \<open>\<open>b[i] === v\<close>, false past the end.\<close>

definition byte_is :: "buffer \<Rightarrow> nat \<Rightarrow> 8 word \<Rightarrow> bool" where
  "byte_is b i v \<longleftrightarrow> i < length b \<and> b ! i = v"

definition MAGIC :: "(string \<times> (buffer \<Rightarrow> bool)) list" where
  "MAGIC =
     [(''image/png'', \<lambda>b. take 8 b = [0x89, 0x50, 0x4e, 0x47, 0x0d, 0x0a, 0x1a, 0x0a]),
      (''image/jpeg'', \<lambda>b. byte_is b 0 0xff \<and> byte_is b 1 0xd8 \<and> byte_is b 2 0xff),
      (''image/webp'', \<lambda>b. latin1 (take 4 b) = ''RIFF'' \<and> latin1 (take 4 (drop 8 b)) = ''WEBP''),
      (''application/pdf'', \<lambda>b. latin1 (take 5 b) = ''%PDF-''),
      (''application/gzip'', \<lambda>b. byte_is b 0 0x1f \<and> byte_is b 1 0x8b)]"

text \<open>
  Calling an inherited member with the buffer, as a boolean: \<open>Object(head)\<close>, \<open>toString()\<close> and
  \<open>valueOf()\<close> answer something truthy, the property tests read the buffer as a property name, and
  two members and the prototype itself cannot be called that way.
\<close>

definition call_inherited :: "string \<Rightarrow> buffer \<Rightarrow> bool result" where
  "call_inherited name head =
     (if name \<in> {''constructor'', ''toString'', ''toLocaleString'', ''valueOf''} then Inr True
      else if name \<in> {''hasOwnProperty'', ''propertyIsEnumerable''}
        then Inr (latin1 head \<in> set (map fst MAGIC))
      else if name \<in> {''__lookupGetter__'', ''__lookupSetter__''} then Inr (latin1 head = ''__proto__'')
      else if name = ''isPrototypeOf'' then Inr False
      else Inl (JsError ''TypeError''))"

definition magicMatches :: "string \<Rightarrow> buffer \<Rightarrow> bool result" where
  "magicMatches contentType head = (case js_lookup MAGIC contentType of
       Own f \<Rightarrow> Inr (f head)
     | Inherited name \<Rightarrow> call_inherited name head
     | Absent \<Rightarrow> Inr False)"

lemma MAGIC_keys: "map fst MAGIC = map fst ALLOWED_TYPES"
  by (simp add: MAGIC_def ALLOWED_TYPES_def)

text \<open>
  A policy for its own types: a type of the table has a size cap and its bytes must begin as
  the type's do; a type outside the table is refused, unless its name is a member every object
  inherits.
\<close>

theorem content_type_policy:
  "(allowed_type_of ct = None \<longleftrightarrow> ct \<notin> fst ` set ALLOWED_TYPES \<and> ct \<notin> set Object_prototype)
   \<and> (ct \<in> fst ` set ALLOWED_TYPES \<longleftrightarrow> (\<exists>ext cap. allowed_type_of ct = Some (ext, Some cap)))
   \<and> (ct \<in> fst ` set ALLOWED_TYPES \<longleftrightarrow> (\<exists>f. js_lookup MAGIC ct = Own f \<and> magicMatches ct head = Inr (f head)))"
proof -
  have A: "ct \<in> fst ` set ALLOWED_TYPES \<longleftrightarrow> map_of ALLOWED_TYPES ct \<noteq> None"
    by (simp add: map_of_eq_None_iff)
  have "fst ` set MAGIC = fst ` set ALLOWED_TYPES" using MAGIC_keys by (metis set_map)
  then have "ct \<in> fst ` set ALLOWED_TYPES \<longleftrightarrow> map_of MAGIC ct \<noteq> None"
    by (simp add: map_of_eq_None_iff)
  with A show ?thesis
    by (auto simp: allowed_type_of_def js_lookup_def magicMatches_def)
qed

text \<open>
  The names every object inherits pass the policy: \<open>constructor\<close> is accepted as a content
  type, without a size cap, and any bytes match it.
\<close>

theorem constructor_is_a_content_type:
  "allowed_type_of ''constructor'' = Some (''undefined'', None)
   \<and> magicMatches ''constructor'' head = Inr True"
  by (simp_all add: allowed_type_of_def magicMatches_def js_lookup_def ALLOWED_TYPES_def MAGIC_def
      Object_prototype_def call_inherited_def)

end
