(* ===== verification/Storage.thy ===== *)
theory Storage
  imports FilePolicy
begin

text \<open>
  The object storage client (\<open>src/storage/storage.ts\<close>). S3 itself is a parameter: \<open>send\<close> takes a
  command and the state of the storage and answers with an output or an error; a presigner takes a
  command and a lifetime. What the class adds is modelled: the commands it builds, the paging
  loops, the batches of deletions, the errors it swallows.
\<close>

section \<open>Commands and outputs\<close>

record UploadedPart =
  up_partNumber :: int
  up_etag :: string
  up_size :: int

record ObjectHead =
  oh_size :: int
  oh_etag :: string
  oh_contentType :: "string option"
  oh_cacheControl :: "string option"

record StoredObject =
  so_body :: buffer
  so_contentType :: "string option"
  so_cacheControl :: "string option"
  so_etag :: "string option"

datatype s3_command =
    HeadObject string
  | GetObject string "string option"
  | PutObject string "buffer option" string "int option" "string option"
  | CreateMultipartUpload string string
  | UploadPart string string int int
  | ListParts string string "string option"
  | CompleteMultipartUpload string string "(int \<times> string) list"
  | AbortMultipartUpload string string
  | DeleteObjects "string list"
  | ListMultipartUploads string "string option" "string option"
  | ListObjectsV2 string "string option"
  | HeadBucket
  | CreateBucket
  | DeleteBucketPolicy
  | PutLifecycle string int

text \<open>The members of the outputs the class reads; an absent one is \<open>None\<close>.\<close>

record s3_output =
  o_ContentLength :: "int option"
  o_ETag :: "string option"
  o_ContentType :: "string option"
  o_CacheControl :: "string option"
  o_Body :: "buffer option"
  o_UploadId :: "string option"
  o_Parts :: "UploadedPart list"
  o_IsTruncated :: bool
  o_NextPartNumberMarker :: "string option"
  o_Uploads :: "(string \<times> string) list"
  o_NextKeyMarker :: "string option"
  o_NextUploadIdMarker :: "string option"
  o_Contents :: "string list"
  o_NextContinuationToken :: "string option"

definition empty_output :: s3_output where
  "empty_output = \<lparr>o_ContentLength = None, o_ETag = None, o_ContentType = None,
     o_CacheControl = None, o_Body = None, o_UploadId = None, o_Parts = [], o_IsTruncated = False,
     o_NextPartNumberMarker = None, o_Uploads = [], o_NextKeyMarker = None,
     o_NextUploadIdMarker = None, o_Contents = [], o_NextContinuationToken = None\<rparr>"

type_synonym 's s3 = "s3_command \<Rightarrow> 's \<Rightarrow> (exn + s3_output) \<times> 's"

text \<open>\<open>getSignedUrl\<close>: the command, the lifetime and the signed headers.\<close>

type_synonym presigner = "s3_command \<Rightarrow> int \<Rightarrow> string list \<Rightarrow> string"

definition isNotFound :: "exn \<Rightarrow> bool" where
  "isNotFound err = (case err of
       S3ServiceException status name \<Rightarrow> status = Some 404
         \<or> name \<in> {''NotFound'', ''NoSuchKey'', ''NoSuchBucket'', ''NoSuchUpload'', ''NoSuchBucketPolicy''}
     | _ \<Rightarrow> False)"

section \<open>Computations over the storage\<close>

text \<open>
  An operation may fail, and a paging loop may not end: a computation gives \<open>None\<close> when it does
  not, and otherwise a result and the state it leaves.
\<close>

type_synonym ('s, 'a) io = "'s \<Rightarrow> ((exn + 'a) \<times> 's) option"

definition io_return :: "'a \<Rightarrow> ('s, 'a) io" where
  "io_return x s = Some (Inr x, s)"

definition io_throw :: "exn \<Rightarrow> ('s, 'a) io" where
  "io_throw e s = Some (Inl e, s)"

definition io_bind :: "('s, 'a) io \<Rightarrow> ('a \<Rightarrow> ('s, 'b) io) \<Rightarrow> ('s, 'b) io" where
  "io_bind m f s = (case m s of
       None \<Rightarrow> None
     | Some (Inl e, s') \<Rightarrow> Some (Inl e, s')
     | Some (Inr x, s') \<Rightarrow> f x s')"

text \<open>\<open>try ... catch (err) { ... }\<close>\<close>

definition io_catch :: "('s, 'a) io \<Rightarrow> (exn \<Rightarrow> ('s, 'a) io) \<Rightarrow> ('s, 'a) io" where
  "io_catch m h s = (case m s of
       Some (Inl e, s') \<Rightarrow> h e s'
     | r \<Rightarrow> r)"

definition io_of :: "('s \<Rightarrow> (exn + 'a) \<times> 's) \<Rightarrow> ('s, 'a) io" where
  "io_of m s = Some (m s)"

lemma io_bind_SomeE:
  assumes "io_bind m f s = Some (r, s'')"
  obtains (failed) e where "m s = Some (Inl e, s'')" and "r = Inl e"
    | (passed) x s' where "m s = Some (Inr x, s')" and "f x s' = Some (r, s'')"
  using assms by (auto simp: io_bind_def split: option.splits prod.splits sum.splits)

lemma io_bind_InrE:
  assumes "io_bind m f s = Some (Inr y, s'')"
  obtains x s' where "m s = Some (Inr x, s')" and "f x s' = Some (Inr y, s'')"
  using assms by (auto elim: io_bind_SomeE)

lemma io_simps [simp]:
  "io_return x s = Some (Inr x, s)" "io_throw e s = Some (Inl e, s)"
  by (simp_all add: io_return_def io_throw_def)

lemma io_of_simp [simp]: "io_of m s = Some (m s)"
  by (simp add: io_of_def)

lemma io_bind_simps [simp]:
  "m s = Some (Inl e, s') \<Longrightarrow> io_bind m f s = Some (Inl e, s')"
  "m s = Some (Inr x, s') \<Longrightarrow> io_bind m f s = f x s'"
  by (simp_all add: io_bind_def)

lemma io_catch_simps [simp]:
  "m s = Some (Inl e, s') \<Longrightarrow> io_catch m h s = h e s'"
  "m s = Some (Inr x, s') \<Longrightarrow> io_catch m h s = Some (Inr x, s')"
  by (simp_all add: io_catch_def)

section \<open>The operations\<close>

definition s3_head :: "'s s3 \<Rightarrow> string \<Rightarrow> ('s, ObjectHead option) io" where
  "s3_head send key = io_catch
     (io_bind (io_of (send (HeadObject key))) (\<lambda>res. io_return (Some
        \<lparr>oh_size = (case o_ContentLength res of Some n \<Rightarrow> n | None \<Rightarrow> 0),
         oh_etag = (case o_ETag res of Some t \<Rightarrow> t | None \<Rightarrow> []),
         oh_contentType = o_ContentType res, oh_cacheControl = o_CacheControl res\<rparr>)))
     (\<lambda>err. if isNotFound err then io_return None else io_throw err)"

text \<open>\<open>res.Body!.transformToByteArray()\<close>\<close>

definition body_bytes :: "s3_output \<Rightarrow> ('s, buffer) io" where
  "body_bytes res = (case o_Body res of
       Some b \<Rightarrow> io_return b
     | None \<Rightarrow> io_throw (JsError ''TypeError''))"

definition s3_readRange :: "'s s3 \<Rightarrow> string \<Rightarrow> nat \<Rightarrow> ('s, buffer) io" where
  "s3_readRange send key n =
     io_bind (io_of (send (GetObject key (Some (''bytes=0-'' @ show_int (int n - 1)))))) body_bytes"

definition s3_get :: "'s s3 \<Rightarrow> string \<Rightarrow> ('s, StoredObject option) io" where
  "s3_get send key = io_catch
     (io_bind (io_of (send (GetObject key None))) (\<lambda>res.
      io_bind (body_bytes res) (\<lambda>b. io_return (Some
        \<lparr>so_body = b, so_contentType = o_ContentType res, so_cacheControl = o_CacheControl res,
         so_etag = o_ETag res\<rparr>))))
     (\<lambda>err. if isNotFound err then io_return None else io_throw err)"

definition s3_put :: "'s s3 \<Rightarrow> string \<Rightarrow> buffer \<Rightarrow> string \<Rightarrow> string option \<Rightarrow> ('s, unit) io" where
  "s3_put send key body contentType cacheControl =
     io_bind (io_of (send (PutObject key (Some body) contentType None cacheControl))) (\<lambda>_. io_return ())"

definition s3_createMultipart :: "'s s3 \<Rightarrow> string \<Rightarrow> string \<Rightarrow> ('s, string) io" where
  "s3_createMultipart send key contentType =
     io_bind (io_of (send (CreateMultipartUpload key contentType))) (\<lambda>res.
       case o_UploadId res of
         Some i \<Rightarrow> if i = [] then io_throw (JsError ''CreateMultipartUpload returned no UploadId'')
                   else io_return i
       | None \<Rightarrow> io_throw (JsError ''CreateMultipartUpload returned no UploadId''))"

definition presignPut :: "presigner \<Rightarrow> string \<Rightarrow> string \<Rightarrow> int \<Rightarrow> int \<Rightarrow> string" where
  "presignPut sign key contentType contentLength expiresIn =
     sign (PutObject key None contentType (Some contentLength) None) expiresIn
       [''content-type'', ''content-length'']"

definition presignGet :: "presigner \<Rightarrow> string \<Rightarrow> int \<Rightarrow> string" where
  "presignGet sign key expiresIn = sign (GetObject key None) expiresIn []"

definition presignPart :: "presigner \<Rightarrow> string \<Rightarrow> string \<Rightarrow> int \<Rightarrow> int \<Rightarrow> int \<Rightarrow> string" where
  "presignPart sign key uploadId partNumber contentLength expiresIn =
     sign (UploadPart key uploadId partNumber contentLength) expiresIn [''content-length'']"

text \<open>A marker or token ends the loop when it is absent or empty.\<close>

definition next_page :: "bool \<Rightarrow> string option \<Rightarrow> string option" where
  "next_page truncated token =
     (case token of Some t \<Rightarrow> if truncated \<and> t \<noteq> [] then Some t else None | None \<Rightarrow> None)"

partial_function (option) list_parts_loop ::
  "'s s3 \<Rightarrow> string \<Rightarrow> string \<Rightarrow> string option \<Rightarrow> UploadedPart list \<Rightarrow> 's
     \<Rightarrow> ((exn + UploadedPart list) \<times> 's) option" where
  "list_parts_loop send key uploadId marker parts s =
     (case send (ListParts key uploadId marker) s of
        (Inl e, s') \<Rightarrow> Some (Inl e, s')
      | (Inr res, s') \<Rightarrow>
          (case next_page (o_IsTruncated res) (o_NextPartNumberMarker res) of
             None \<Rightarrow> Some (Inr (sort_key up_partNumber (parts @ o_Parts res)), s')
           | Some m \<Rightarrow> list_parts_loop send key uploadId (Some m) (parts @ o_Parts res) s'))"

definition s3_listParts :: "'s s3 \<Rightarrow> string \<Rightarrow> string \<Rightarrow> ('s, UploadedPart list) io" where
  "s3_listParts send key uploadId = list_parts_loop send key uploadId None []"

definition s3_completeMultipart ::
  "'s s3 \<Rightarrow> string \<Rightarrow> string \<Rightarrow> UploadedPart list \<Rightarrow> ('s, unit) io" where
  "s3_completeMultipart send key uploadId parts =
     io_bind (io_of (send (CompleteMultipartUpload key uploadId
       (map (\<lambda>p. (up_partNumber p, up_etag p)) parts)))) (\<lambda>_. io_return ())"

definition s3_abortMultipart :: "'s s3 \<Rightarrow> string \<Rightarrow> string \<Rightarrow> ('s, unit) io" where
  "s3_abortMultipart send key uploadId = io_catch
     (io_bind (io_of (send (AbortMultipartUpload key uploadId))) (\<lambda>_. io_return ()))
     (\<lambda>err. if isNotFound err then io_return () else io_throw err)"

text \<open>Batches of at most a thousand keys, one command each.\<close>

function deleteKeys :: "'s s3 \<Rightarrow> string list \<Rightarrow> ('s, unit) io" where
  "deleteKeys send keys =
     (if keys = [] then io_return ()
      else io_bind (io_of (send (DeleteObjects (take 1000 keys)))) (\<lambda>_.
           deleteKeys send (drop 1000 keys)))"
  by pat_completeness auto
termination
  by (relation "measure (\<lambda>(_, keys). length keys)") auto

declare deleteKeys.simps [simp del]

definition s3_deleteObject :: "'s s3 \<Rightarrow> string \<Rightarrow> ('s, unit) io" where
  "s3_deleteObject send key = deleteKeys send [key]"

text \<open>\<open>purgePrefix\<close>: first the unfinished uploads, page by page, then the objects.\<close>

fun abort_all :: "'s s3 \<Rightarrow> (string \<times> string) list \<Rightarrow> ('s, unit) io" where
  "abort_all send [] = io_return ()"
| "abort_all send ((key, uploadId) # us) =
     io_bind (s3_abortMultipart send key uploadId) (\<lambda>_. abort_all send us)"

partial_function (option) purge_uploads_loop ::
  "'s s3 \<Rightarrow> string \<Rightarrow> string option \<Rightarrow> string option \<Rightarrow> nat \<Rightarrow> 's \<Rightarrow> ((exn + nat) \<times> 's) option" where
  "purge_uploads_loop send prefix keyMarker idMarker uploads s =
     (case send (ListMultipartUploads prefix keyMarker idMarker) s of
        (Inl e, s') \<Rightarrow> Some (Inl e, s')
      | (Inr res, s') \<Rightarrow>
          (case abort_all send (o_Uploads res) s' of
             None \<Rightarrow> None
           | Some (Inl e, s'') \<Rightarrow> Some (Inl e, s'')
           | Some (Inr _, s'') \<Rightarrow>
               (case next_page (o_IsTruncated res) (o_NextKeyMarker res) of
                  None \<Rightarrow> Some (Inr (uploads + length (o_Uploads res)), s'')
                | Some k \<Rightarrow> purge_uploads_loop send prefix (Some k)
                    (if o_IsTruncated res then o_NextUploadIdMarker res else None)
                    (uploads + length (o_Uploads res)) s'')))"

partial_function (option) purge_objects_loop ::
  "'s s3 \<Rightarrow> string \<Rightarrow> string option \<Rightarrow> nat \<Rightarrow> 's \<Rightarrow> ((exn + nat) \<times> 's) option" where
  "purge_objects_loop send prefix token objects s =
     (case send (ListObjectsV2 prefix token) s of
        (Inl e, s') \<Rightarrow> Some (Inl e, s')
      | (Inr res, s') \<Rightarrow>
          (case deleteKeys send (o_Contents res) s' of
             None \<Rightarrow> None
           | Some (Inl e, s'') \<Rightarrow> Some (Inl e, s'')
           | Some (Inr _, s'') \<Rightarrow>
               (case next_page (o_IsTruncated res) (o_NextContinuationToken res) of
                  None \<Rightarrow> Some (Inr (objects + length (o_Contents res)), s'')
                | Some tk \<Rightarrow> purge_objects_loop send prefix (Some tk)
                    (objects + length (o_Contents res)) s'')))"

record purge_counts =
  pc_objects :: nat
  pc_uploads :: nat

definition s3_purgePrefix :: "'s s3 \<Rightarrow> string \<Rightarrow> ('s, purge_counts) io" where
  "s3_purgePrefix send prefix =
     io_bind (purge_uploads_loop send prefix None None 0) (\<lambda>uploads.
     io_bind (purge_objects_loop send prefix None 0) (\<lambda>objects.
     io_return \<lparr>pc_objects = objects, pc_uploads = uploads\<rparr>))"

text \<open>The answer tells whether the lifecycle rule was accepted.\<close>

definition s3_ensureBucket :: "'s s3 \<Rightarrow> ('s, bool) io" where
  "s3_ensureBucket send =
     io_bind (io_catch (io_bind (io_of (send HeadBucket)) (\<lambda>_. io_return ()))
       (\<lambda>err. if \<not> isNotFound err then io_throw err
              else io_bind (io_of (send CreateBucket)) (\<lambda>_. io_return ()))) (\<lambda>_.
     io_bind (io_catch (io_bind (io_of (send DeleteBucketPolicy)) (\<lambda>_. io_return ()))
       (\<lambda>err. if isNotFound err then io_return () else io_throw err)) (\<lambda>_.
     io_catch (io_bind (io_of (send (PutLifecycle ''abort-incomplete-multipart'' 7))) (\<lambda>_. io_return True))
       (\<lambda>_. io_return False)))"

section \<open>\<open>directUrl\<close>\<close>

definition is_unreserved :: "char \<Rightarrow> bool" where
  "is_unreserved c = (is_digit c \<or> (let n = of_char c :: nat in
     65 \<le> n \<and> n \<le> 90 \<or> 97 \<le> n \<and> n \<le> 122) \<or> c \<in> set ''-_.!~*()'' \<or> (of_char c :: nat) = 39)"

definition hex_digit :: "nat \<Rightarrow> char" where
  "hex_digit d = (if d < 10 then char_of (48 + d) else char_of (55 + d))"

definition percent :: "nat \<Rightarrow> string" where
  "percent n = [CHR ''%'', hex_digit (n div 16), hex_digit (n mod 16)]"

text \<open>A character up to U+00FF is one or two bytes of UTF-8.\<close>

definition encode_char :: "char \<Rightarrow> string" where
  "encode_char c = (let n = of_char c :: nat in
     if is_unreserved c then [c]
     else if n < 128 then percent n
     else percent (192 + n div 64) @ percent (128 + n mod 64))"

definition encodeURIComponent :: "string \<Rightarrow> string" where
  "encodeURIComponent s = concat (map encode_char s)"

definition strip_slash :: "string \<Rightarrow> string" where
  "strip_slash s = (if s \<noteq> [] \<and> last s = CHR ''/'' then butlast s else s)"

definition directUrl :: "string option \<Rightarrow> string \<Rightarrow> string \<Rightarrow> string \<Rightarrow> string" where
  "directUrl endpoint region bucket key =
     (let path = js_join ''/'' (map encodeURIComponent (js_split (CHR ''/'') key)) in
      case endpoint of
        Some e \<Rightarrow> strip_slash e @ ''/'' @ bucket @ ''/'' @ path
      | None \<Rightarrow> ''https://'' @ bucket @ ''.s3.'' @ region @ ''.amazonaws.com/'' @ path)"

section \<open>Paging\<close>

text \<open>
  The documented behaviour of ListParts on an upload nobody writes to meanwhile: the parts after
  the marker in ascending order, at most \<open>n\<close> of them, truncated when more are left, and the number
  of the last one as the next marker.
\<close>

definition marker_number :: "string option \<Rightarrow> int" where
  "marker_number m = (case m of None \<Rightarrow> 0 | Some t \<Rightarrow> int (digits_val t))"

definition parts_after :: "string option \<Rightarrow> UploadedPart list \<Rightarrow> UploadedPart list" where
  "parts_after m parts = filter (\<lambda>p. marker_number m < up_partNumber p) parts"

definition parts_page :: "nat \<Rightarrow> UploadedPart list \<Rightarrow> s3_output" where
  "parts_page n rest = empty_output\<lparr>o_Parts := take n rest, o_IsTruncated := n < length rest,
     o_NextPartNumberMarker := Some (show_int (up_partNumber (last (take n rest))))\<rparr>"

definition serves_parts :: "'s s3 \<Rightarrow> nat \<Rightarrow> string \<Rightarrow> string \<Rightarrow> UploadedPart list \<Rightarrow> 's \<Rightarrow> bool" where
  "serves_parts send n key uploadId parts s \<longleftrightarrow> 0 < n
     \<and> sorted_wrt (<) (map up_partNumber parts) \<and> (\<forall>p\<in>set parts. 1 \<le> up_partNumber p)
     \<and> (\<forall>m. send (ListParts key uploadId m) s = (Inr (parts_page n (parts_after m parts)), s))"

lemma parts_after_None: "\<forall>p\<in>set parts. 1 \<le> up_partNumber p \<Longrightarrow> parts_after None parts = parts"
  by (auto simp: parts_after_def marker_number_def intro!: filter_True)

lemma parts_after_later:
  "marker_number m < marker_number m' \<Longrightarrow>
   parts_after m' parts = filter (\<lambda>p. marker_number m' < up_partNumber p) (parts_after m parts)"
  by (auto simp: parts_after_def intro!: filter_cong)

lemma filter_after_take:
  fixes f :: "'p \<Rightarrow> int"
  assumes "sorted_wrt (<) (map f xs)" and "0 < n" and "n < length xs"
  shows "filter (\<lambda>p. f (last (take n xs)) < f p) xs = drop n xs"
proof -
  have l: "last (take n xs) = xs ! (n - 1)" using assms(2,3) by (subst last_conv_nth) (auto simp: min_def)
  have s: "i < j \<Longrightarrow> j < length xs \<Longrightarrow> f (xs ! i) < f (xs ! j)" for i j
    using assms(1) by (simp add: sorted_wrt_iff_nth_less)
  have "\<not> f (last (take n xs)) < f p" if "p \<in> set (take n xs)" for p
  proof -
    from that obtain i where "i < n" "p = xs ! i" by (auto simp: in_set_conv_nth)
    moreover from this have "i < n - 1 \<or> i = n - 1" by linarith
    moreover have "n - 1 < length xs" using assms(3) by simp
    ultimately show ?thesis using s [of i "n - 1"] by (auto simp: l)
  qed
  then have 1: "filter (\<lambda>p. f (last (take n xs)) < f p) (take n xs) = []"
    by (auto simp: filter_empty_conv)
  have "f (last (take n xs)) < f p" if "p \<in> set (drop n xs)" for p
  proof -
    from that obtain i where "n + i < length xs" "p = xs ! (n + i)"
      using assms(3) by (auto simp: in_set_conv_nth less_diff_conv add.commute)
    then show ?thesis using s [of "n - 1" "n + i"] assms(2) by (simp add: l)
  qed
  then have 2: "filter (\<lambda>p. f (last (take n xs)) < f p) (drop n xs) = drop n xs"
    by (auto intro!: filter_True)
  show ?thesis
    using 1 2 by (metis append_Nil append_take_drop_id filter_append)
qed

lemma list_parts_loop_pages:
  assumes sv: "serves_parts send n key uploadId parts s"
  shows "list_parts_loop send key uploadId m acc s =
    Some (Inr (sort_key up_partNumber (acc @ parts_after m parts)), s)"
proof (induction "length (parts_after m parts)" arbitrary: m acc rule: less_induct)
  case less
  let ?rest = "parts_after m parts"
  have n: "0 < n" and page: "send (ListParts key uploadId m) s = (Inr (parts_page n ?rest), s)"
    and srt: "sorted_wrt (<) (map up_partNumber parts)"
    and pos: "\<forall>p\<in>set parts. 1 \<le> up_partNumber p"
    using sv by (auto simp: serves_parts_def)
  have srt': "sorted_wrt (<) (map up_partNumber ?rest)"
    using srt by (simp add: parts_after_def sorted_wrt_map sorted_wrt_filter)
  show ?case
  proof (cases "n < length ?rest")
    case False
    then show ?thesis
      by (subst list_parts_loop.simps) (simp add: page parts_page_def next_page_def empty_output_def split: option.splits)
  next
    case True
    let ?l = "up_partNumber (last (take n ?rest))"
    let ?m = "show_int ?l"
    have "last (take n ?rest) \<in> set (take n ?rest)" using n True by (intro last_in_set) auto
    then have l: "1 \<le> ?l" "marker_number m < ?l"
      using pos by (auto simp: parts_after_def dest!: in_set_takeD)
    then have mk: "marker_number (Some ?m) = ?l" by (simp add: marker_number_def show_int_def)
    have "parts_after (Some ?m) parts = filter (\<lambda>p. ?l < up_partNumber p) ?rest"
      using parts_after_later [of m "Some ?m" parts] l(2) by (simp only: mk)
    also have "\<dots> = drop n ?rest" by (rule filter_after_take [OF srt' n True])
    finally have after: "parts_after (Some ?m) parts = drop n ?rest" .
    have "length (parts_after (Some ?m) parts) < length ?rest" using n True by (simp add: after)
    from less [OF this, of "acc @ take n ?rest"]
    have "list_parts_loop send key uploadId (Some ?m) (acc @ take n ?rest) s =
        Some (Inr (sort_key up_partNumber (acc @ ?rest)), s)"
      by (simp only: after append_assoc append_take_drop_id)
    moreover have "?m \<noteq> []" by (simp add: show_int_def)
    ultimately show ?thesis
      by (subst list_parts_loop.simps) (simp add: page parts_page_def next_page_def empty_output_def True)
  qed
qed

text \<open>
  \<open>listParts\<close> ends and returns every part of the upload, by number, whatever the size of the
  storage's pages.
\<close>

theorem listParts_complete:
  assumes "serves_parts send n key uploadId parts s"
  shows "s3_listParts send key uploadId s = Some (Inr parts, s)"
proof -
  have pos: "\<forall>p\<in>set parts. 1 \<le> up_partNumber p" and "sorted_wrt (<) (map up_partNumber parts)"
    using assms by (simp_all add: serves_parts_def)
  then have "sorted (map up_partNumber parts)"
    by (auto intro: sorted_wrt_mono_rel [rotated])
  then have "sort_key up_partNumber parts = parts" by (rule sort_key_id_if_sorted)
  then show ?thesis
    by (simp add: s3_listParts_def list_parts_loop_pages [OF assms] parts_after_None [OF pos])
qed

lemma listParts_complete_witness:
  "\<exists>send parts. length parts = 3 \<and> s3_listParts send ''k'' ''u'' () = Some (Inr parts, ())"
proof -
  let ?p = "map (\<lambda>i. \<lparr>up_partNumber = i, up_etag = ''e'', up_size = 5\<rparr>) [1..3]"
  let ?send = "\<lambda>c s. case c of ListParts k u m \<Rightarrow> (Inr (parts_page 2 (parts_after m ?p)), s)
    | _ \<Rightarrow> (Inr empty_output, s)"
  have "[1..3] = [1, 2, 3 :: int]" by code_simp
  then have "serves_parts ?send 2 ''k'' ''u'' ?p ()" by (simp add: serves_parts_def)
  from listParts_complete [OF this] show ?thesis by (intro exI [of _ ?send] exI [of _ ?p]) simp
qed

end
