(* ===== verification/Files.thy ===== *)
theory Files
  imports Schema Storage AuthTokens
begin

text \<open>
  The upload contract (\<open>src/files/files.service.ts\<close>, \<open>files.controller.ts\<close>, \<open>files.dto.ts\<close>):
  intent, resume, commit and download over the \<open>files\<close> table and the storage. The bytes go past the
  service, straight into the storage, so the state of the storage changes between two calls.
\<close>

section \<open>The world of the service\<close>

record 's world =
  w_db :: db
  w_s3 :: 's

definition on_s3 :: "('s, 'a) io \<Rightarrow> ('s world, 'a) io" where
  "on_s3 m w = (case m (w_s3 w) of
       None \<Rightarrow> None
     | Some (r, s') \<Rightarrow> Some (r, w\<lparr>w_s3 := s'\<rparr>))"

definition on_db :: "'a stmt \<Rightarrow> ('s world, 'a) io" where
  "on_db m w = (case m (w_db w) of (r, d') \<Rightarrow> Some (r, w\<lparr>w_db := d'\<rparr>))"

text \<open>A query that does not write.\<close>

definition ask_db :: "(db \<Rightarrow> exn + 'a) \<Rightarrow> ('s world, 'a) io" where
  "ask_db f w = Some (f (w_db w), w)"

lemma on_simps [simp]:
  "m (w_s3 w) = Some (r, s') \<Longrightarrow> on_s3 m w = Some (r, w\<lparr>w_s3 := s'\<rparr>)"
  "ask_db f w = Some (f (w_db w), w)"
  by (simp_all add: on_s3_def ask_db_def)

section \<open>Answers\<close>

record PartUrl =
  pt_partNumber :: int
  pt_url :: string

record SingleIntent =
  si_fileId :: string
  si_key :: string
  si_expiresIn :: int
  si_url :: string
  si_contentType :: string

record MultipartIntent =
  mi_fileId :: string
  mi_key :: string
  mi_expiresIn :: int
  mi_partSize :: int
  mi_partCount :: int
  mi_uploadedParts :: "int list"
  mi_parts :: "PartUrl list"

datatype IntentResponse =
    Single SingleIntent
  | Multipart MultipartIntent
  | Completed string string

record CommitResponse =
  cm_fileId :: string
  cm_key :: string
  cm_size :: int
  cm_etag :: string

record intent_input =
  in_contentType :: string
  in_size :: int

section \<open>\<open>findOwned\<close>\<close>

definition is_hex :: "char \<Rightarrow> bool" where
  "is_hex c = (is_digit c \<or> (let n = of_char c :: nat in 65 \<le> n \<and> n \<le> 70 \<or> 97 \<le> n \<and> n \<le> 102))"

definition isUuid :: "string \<Rightarrow> bool" where
  "isUuid v = (map length (js_split (CHR ''-'') v) = [8, 4, 4, 4, 12]
     \<and> list_all (list_all is_hex) (js_split (CHR ''-'') v))"

definition nil_uuid :: string where
  "nil_uuid = ''00000000-0000-0000-0000-000000000000''"

text \<open>A uuid parameter is read without regard to case; the rows hold it in lower case.\<close>

definition file_by_id :: "string \<Rightarrow> db \<Rightarrow> exn + file_row list" where
  "file_by_id value s =
     (let i = js_toLowerCase (if isUuid value then value else nil_uuid)
      in Inr (filter (\<lambda>r. fl_id r = i) (t_files s)))"

definition file_by_key :: "string \<Rightarrow> string \<Rightarrow> db \<Rightarrow> exn + file_row list" where
  "file_by_key sub value s = res_bind (bigint_in sub) (\<lambda>owner.
     Inr (filter (\<lambda>r. fl_owner_id r = owner \<and> fl_idempotency_key r = Some value) (t_files s)))"

definition owned :: "access_claims \<Rightarrow> file_row list \<Rightarrow> exn + file_row" where
  "owned viewer rows = (case rows of
       [] \<Rightarrow> Inl (NotFoundException ''file not found'')
     | row # _ \<Rightarrow>
         if show_int (fl_owner_id row) \<noteq> ac_sub viewer \<and> ac_role viewer \<noteq> ''admin''
         then Inl (ForbiddenException ''not your file'')
         else Inr row)"

definition findOwned :: "access_claims \<Rightarrow> string \<Rightarrow> db \<Rightarrow> exn + file_row" where
  "findOwned viewer value s = res_bind (file_by_id value s) (owned viewer)"

definition findOwnedByKey :: "access_claims \<Rightarrow> string \<Rightarrow> db \<Rightarrow> exn + file_row" where
  "findOwnedByKey viewer value s = res_bind (file_by_key (ac_sub viewer) value s) (owned viewer)"

section \<open>\<open>signFor\<close>\<close>

definition listPartsOrGone :: "'s s3 \<Rightarrow> file_row \<Rightarrow> string \<Rightarrow> ('s world, UploadedPart list) io" where
  "listPartsOrGone send row uploadId = io_catch (on_s3 (s3_listParts send (fl_key row) uploadId))
     (\<lambda>err. if isNotFound err then io_throw (GoneException ''upload expired, start a new intent'')
            else io_throw err)"

text \<open>\<open>row.upload_id\<close> when it is truthy.\<close>

definition upload_of :: "file_row \<Rightarrow> string option" where
  "upload_of row = (case fl_upload_id row of Some u \<Rightarrow> if u = [] then None else Some u | None \<Rightarrow> None)"

definition number_or_zero :: "int option \<Rightarrow> int" where
  "number_or_zero n = (case n of Some v \<Rightarrow> v | None \<Rightarrow> 0)"

definition plan_of :: "file_row \<Rightarrow> PartPlan" where
  "plan_of row = \<lparr>pp_partSize = number_or_zero (fl_part_size row),
     pp_partCount = number_or_zero (fl_part_count row)\<rparr>"

definition missing_parts :: "presigner \<Rightarrow> file_row \<Rightarrow> string \<Rightarrow> int set \<Rightarrow> PartUrl list" where
  "missing_parts sign row uploadId have' =
     map (\<lambda>n. \<lparr>pt_partNumber = n, pt_url = presignPart sign (fl_key row) uploadId n
                 (partLength (plan_of row) (fl_size row) n) PART_URL_TTL_SEC\<rparr>)
       (filter (\<lambda>n. n \<notin> have') [1..pp_partCount (plan_of row)])"

definition signFor :: "'s s3 \<Rightarrow> presigner \<Rightarrow> file_row \<Rightarrow> ('s world, IntentResponse) io" where
  "signFor send sign row = (case upload_of row of
       None \<Rightarrow> io_return (Single \<lparr>si_fileId = fl_id row, si_key = fl_key row,
         si_expiresIn = PUT_URL_TTL_SEC,
         si_url = presignPut sign (fl_key row) (fl_content_type row) (fl_size row) PUT_URL_TTL_SEC,
         si_contentType = fl_content_type row\<rparr>)
     | Some uploadId \<Rightarrow> io_bind (listPartsOrGone send row uploadId) (\<lambda>uploaded.
         let have' = map up_partNumber uploaded in
         io_return (Multipart \<lparr>mi_fileId = fl_id row, mi_key = fl_key row,
           mi_expiresIn = PART_URL_TTL_SEC, mi_partSize = pp_partSize (plan_of row),
           mi_partCount = pp_partCount (plan_of row),
           mi_uploadedParts = sort (remdups have'),
           mi_parts = missing_parts sign row uploadId (set have')\<rparr>)))"

section \<open>\<open>intent\<close>\<close>

text \<open>
  \<open>INSERT INTO files ... ON CONFLICT (owner_id, idempotency_key) WHERE idempotency_key IS NOT NULL
  DO NOTHING RETURNING ...\<close>
\<close>

definition insert_file ::
  "int \<Rightarrow> string \<Rightarrow> string \<Rightarrow> string \<Rightarrow> string \<Rightarrow> int \<Rightarrow> PartPlan option \<Rightarrow> string option
     \<Rightarrow> file_row list stmt" where
  "insert_file now newId sub key contentType sz plan idem s =
     (case bigint_in sub of
        Inl e \<Rightarrow> (Inl e, s)
      | Inr owner \<Rightarrow>
          let row = \<lparr>fl_id = newId, fl_owner_id = owner, fl_key = key,
                     fl_content_type = contentType, fl_size = sz, fl_status = FilePending,
                     fl_upload_id = None, fl_part_size = map_option pp_partSize plan,
                     fl_part_count = map_option pp_partCount plan, fl_etag = None,
                     fl_idempotency_key = idem, fl_created_at = now, fl_completed_at = None\<rparr>
          in if \<not> int8_ok sz then (Inl numeric_out_of_range, s)
             else if \<not> file_check row then (Inl check_violation, s)
             else if idem \<noteq> None \<and> (\<exists>r\<in>set (t_files s). fl_owner_id r = owner \<and> fl_idempotency_key r = idem)
                  then (Inr [], s)
             else if newId \<in> fl_id ` set (t_files s) \<or> key \<in> fl_key ` set (t_files s)
                  then (Inl unique_violation, s)
             else if owner \<notin> us_id ` set (t_users s) then (Inl foreign_key_violation, s)
             else (Inr [row], s\<lparr>t_files := t_files s @ [row]\<rparr>))"

definition set_upload_id :: "string \<Rightarrow> string \<Rightarrow> unit stmt" where
  "set_upload_id i uploadId s =
     (Inr (), s\<lparr>t_files := map (\<lambda>r. if fl_id r = i then r\<lparr>fl_upload_id := Some uploadId\<rparr> else r) (t_files s)\<rparr>)"

text \<open>The random identifiers of one intent, and its time.\<close>

record intent_call =
  ic_now :: int
  ic_newId :: string
  ic_keyUuid :: string

definition object_key :: "access_claims \<Rightarrow> string \<Rightarrow> string \<Rightarrow> string" where
  "object_key viewer uuid ext = ''uploads/'' @ ac_sub viewer @ ''/'' @ uuid @ ''.'' @ ext"

definition multipart_plan :: "int \<Rightarrow> PartPlan option result" where
  "multipart_plan sz =
     (if MULTIPART_THRESHOLD_BYTES < sz then res_bind (planParts sz) (\<lambda>p. Inr (Some p)) else Inr None)"

text \<open>What follows the INSERT: its row, or the row an earlier intent left under the key.\<close>

definition intent_row ::
  "'s s3 \<Rightarrow> presigner \<Rightarrow> access_claims \<Rightarrow> intent_input \<Rightarrow> PartPlan option \<Rightarrow> string option
     \<Rightarrow> file_row list \<Rightarrow> ('s world, IntentResponse) io" where
  "intent_row send sign viewer input plan idem inserted = (case inserted of
       [] \<Rightarrow>
         io_bind (ask_db (findOwnedByKey viewer (case idem of Some k \<Rightarrow> k | None \<Rightarrow> []))) (\<lambda>row.
           if fl_content_type row \<noteq> in_contentType input \<or> fl_size row \<noteq> in_size input
           then io_throw (UnprocessableEntityException ''Idempotency-Key reused with a different body'')
           else if fl_status row = FileCompleted then io_return (Completed (fl_id row) (fl_key row))
           else if fl_part_count row \<noteq> None \<and> fl_upload_id row = None
           then io_throw (ConflictException ''intent in progress, retry'')
           else signFor send sign row)
     | row # _ \<Rightarrow>
         if plan = None then signFor send sign row
         else io_bind (on_s3 (s3_createMultipart send (fl_key row) (fl_content_type row))) (\<lambda>uploadId.
              io_bind (on_db (set_upload_id (fl_id row) uploadId)) (\<lambda>_.
              signFor send sign (row\<lparr>fl_upload_id := Some uploadId\<rparr>))))"

definition intent ::
  "'s s3 \<Rightarrow> presigner \<Rightarrow> intent_call \<Rightarrow> access_claims \<Rightarrow> intent_input \<Rightarrow> string option
     \<Rightarrow> ('s world, IntentResponse) io" where
  "intent send sign call viewer input idem = (case allowed_type_of (in_contentType input) of
       None \<Rightarrow> io_throw (UnsupportedMediaTypeException ''content type not allowed'')
     | Some (ext, cap) \<Rightarrow>
         if (case cap of Some c \<Rightarrow> c < in_size input | None \<Rightarrow> False)
         then io_throw (PayloadTooLargeException ''file too large'')
         else (case multipart_plan (in_size input) of
             Inl e \<Rightarrow> io_throw e
           | Inr plan \<Rightarrow>
               io_bind (on_db (insert_file (ic_now call) (ic_newId call) (ac_sub viewer)
                   (object_key viewer (ic_keyUuid call) ext) (in_contentType input)
                   (in_size input) plan idem))
                 (intent_row send sign viewer input plan idem)))"

section \<open>\<open>resume\<close>, \<open>commit\<close>, \<open>downloadUrl\<close>\<close>

definition resume ::
  "'s s3 \<Rightarrow> presigner \<Rightarrow> access_claims \<Rightarrow> string \<Rightarrow> ('s world, IntentResponse) io" where
  "resume send sign viewer i = io_bind (ask_db (findOwned viewer i)) (\<lambda>row.
     if fl_status row = FileCompleted then io_return (Completed (fl_id row) (fl_key row))
     else if upload_of row = None
     then io_throw (BadRequestException ''not a multipart upload'')
     else signFor send sign row)"

definition find_wrong :: "file_row \<Rightarrow> UploadedPart list \<Rightarrow> UploadedPart option" where
  "find_wrong row parts = List.find (\<lambda>p. up_size p \<noteq> partLength (plan_of row) (fl_size row) (up_partNumber p)) parts"

definition parts_conflict :: "file_row \<Rightarrow> UploadedPart list \<Rightarrow> exn" where
  "parts_conflict row parts = ConflictException (''parts uploaded '' @ show_int (int (length parts)) @ '' of ''
     @ (case fl_part_count row of Some n \<Rightarrow> show_int n | None \<Rightarrow> ''null''))"

text \<open>\<open>Some parts\<close> to complete, or \<open>None\<close> when a concurrent commit has already completed it.\<close>

definition stored_parts :: "'s s3 \<Rightarrow> file_row \<Rightarrow> string \<Rightarrow> ('s world, UploadedPart list option) io" where
  "stored_parts send row uploadId = io_catch
     (io_bind (on_s3 (s3_listParts send (fl_key row) uploadId)) (\<lambda>ps. io_return (Some ps)))
     (\<lambda>err. if isNotFound err
        then io_bind (on_s3 (s3_head send (fl_key row))) (\<lambda>h.
               if h \<noteq> None then io_return None else io_throw err)
        else io_throw err)"

definition completeFromStorage :: "'s s3 \<Rightarrow> file_row \<Rightarrow> string \<Rightarrow> ('s world, unit) io" where
  "completeFromStorage send row uploadId = io_bind (stored_parts send row uploadId) (\<lambda>found.
     case found of
       None \<Rightarrow> io_return ()
     | Some parts \<Rightarrow>
         if fl_part_count row \<noteq> Some (int (length parts)) then io_throw (parts_conflict row parts)
         else (case find_wrong row parts of
             Some p \<Rightarrow> io_throw (ConflictException
               (''part '' @ show_int (up_partNumber p) @ '' has the wrong size''))
           | None \<Rightarrow> io_catch (on_s3 (s3_completeMultipart send (fl_key row) uploadId parts))
               (\<lambda>err. if isNotFound err then io_return () else io_throw err)))"

definition mark_completed :: "int \<Rightarrow> string \<Rightarrow> string \<Rightarrow> unit stmt" where
  "mark_completed now i etag s = (Inr (), s\<lparr>t_files :=
     map (\<lambda>r. if fl_id r = i \<and> fl_status r = FilePending
              then r\<lparr>fl_status := FileCompleted, fl_etag := Some etag, fl_completed_at := Some now\<rparr>
              else r) (t_files s)\<rparr>)"

definition commit_response :: "file_row \<Rightarrow> int \<Rightarrow> string \<Rightarrow> CommitResponse" where
  "commit_response row sz etag =
     \<lparr>cm_fileId = fl_id row, cm_key = fl_key row, cm_size = sz, cm_etag = etag\<rparr>"

text \<open>The object is looked at after the parts are put together; \<open>meanwhile\<close> is what other processes
  do to the tables before the last statement.\<close>

definition verify_object :: "'s s3 \<Rightarrow> file_row \<Rightarrow> ('s world, ObjectHead) io" where
  "verify_object send row = io_bind (on_s3 (s3_head send (fl_key row))) (\<lambda>head. case head of
       None \<Rightarrow> io_throw (ConflictException ''object not uploaded'')
     | Some h \<Rightarrow>
         if oh_size h \<noteq> fl_size row
         then io_bind (on_s3 (s3_deleteObject send (fl_key row))) (\<lambda>_.
                io_throw (ConflictException (''size mismatch: expected '' @ show_int (fl_size row)
                  @ '', got '' @ show_int (oh_size h))))
         else io_bind (on_s3 (s3_readRange send (fl_key row) MAGIC_BYTES)) (\<lambda>magic.
           case magicMatches (fl_content_type row) magic of
             Inl e \<Rightarrow> io_throw e
           | Inr ok \<Rightarrow>
               if \<not> ok
               then io_bind (on_s3 (s3_deleteObject send (fl_key row))) (\<lambda>_.
                      io_throw (UnprocessableEntityException ''content does not match its content type''))
               else io_return h))"

definition commit ::
  "'s s3 \<Rightarrow> (db \<Rightarrow> db) \<Rightarrow> int \<Rightarrow> access_claims \<Rightarrow> string \<Rightarrow> ('s world, CommitResponse) io" where
  "commit send meanwhile now viewer i = io_bind (ask_db (findOwned viewer i)) (\<lambda>row.
     if fl_status row = FileCompleted
     then io_return (commit_response row (fl_size row)
            (case fl_etag row of Some t \<Rightarrow> t | None \<Rightarrow> []))
     else
       io_bind (case upload_of row of
           Some u \<Rightarrow> completeFromStorage send row u
         | None \<Rightarrow> io_return ()) (\<lambda>_.
       io_bind (verify_object send row) (\<lambda>h.
       io_bind (on_db (\<lambda>s. mark_completed now (fl_id row) (oh_etag h) (meanwhile s))) (\<lambda>_.
       io_return (commit_response row (oh_size h) (oh_etag h))))))"

definition downloadUrl :: "presigner \<Rightarrow> access_claims \<Rightarrow> string \<Rightarrow> ('s world, string) io" where
  "downloadUrl sign viewer i = io_bind (ask_db (findOwned viewer i)) (\<lambda>row.
     if fl_status row \<noteq> FileCompleted then io_throw (NotFoundException ''file not found'')
     else io_return (presignGet sign (fl_key row) DOWNLOAD_URL_TTL_SEC))"

section \<open>The controller\<close>

definition is_word_char :: "char \<Rightarrow> bool" where
  "is_word_char c = (is_digit c \<or> c = CHR ''_'' \<or> (let n = of_char c :: nat in
     65 \<le> n \<and> n \<le> 90 \<or> 97 \<le> n \<and> n \<le> 122))"

definition idempotency_key_ok :: "string \<Rightarrow> bool" where
  "idempotency_key_ok k = (1 \<le> length k \<and> length k \<le> 128
     \<and> list_all (\<lambda>c. is_word_char c \<or> c = CHR ''-'') k)"

text \<open>What the validation pipe lets through.\<close>

record UploadIntentDto =
  ui_contentType :: string
  ui_size :: int
  ui_filename :: "string option"

definition upload_intent_ok :: "UploadIntentDto \<Rightarrow> bool" where
  "upload_intent_ok dto = (length (ui_contentType dto) \<le> 100 \<and> 1 \<le> ui_size dto
     \<and> (case ui_filename dto of Some f \<Rightarrow> length f \<le> 1024 | None \<Rightarrow> True))"

definition post_intent ::
  "'s s3 \<Rightarrow> presigner \<Rightarrow> intent_call \<Rightarrow> access_claims \<Rightarrow> UploadIntentDto \<Rightarrow> string option
     \<Rightarrow> ('s world, IntentResponse) io" where
  "post_intent send sign call user dto idempotencyKey =
     (if \<not> upload_intent_ok dto then io_throw (BadRequestException ''Bad Request'')
      else if (case idempotencyKey of Some k \<Rightarrow> \<not> idempotency_key_ok k | None \<Rightarrow> False)
      then io_throw (BadRequestException ''invalid Idempotency-Key'')
      else intent send sign call user
             \<lparr>in_contentType = ui_contentType dto, in_size = ui_size dto\<rparr> idempotencyKey)"

record redirect_answer =
  ra_url :: string
  ra_statusCode :: nat

definition download :: "presigner \<Rightarrow> access_claims \<Rightarrow> string \<Rightarrow> ('s world, redirect_answer) io" where
  "download sign user i = io_bind (downloadUrl sign user i) (\<lambda>u.
     io_return \<lparr>ra_url = u, ra_statusCode = 302\<rparr>)"

end
