(* ===== verification/Orphans.thy ===== *)
theory Orphans
  imports Files
begin

text \<open>
  The orphan sweep (\<open>src/files/orphans.ts\<close>): pending rows past their age lose first what the
  storage has of them and then their row, in one transaction. A failing statement of the
  transaction and the rows other sweeps hold are parameters.
\<close>

definition ORPHAN_AGE_HOURS :: int where "ORPHAN_AGE_HOURS = 24"
definition ORPHAN_SWEEP_INTERVAL_MS :: int where "ORPHAN_SWEEP_INTERVAL_MS = 60 * 60 * 1000"
definition ORPHAN_BATCH :: nat where "ORPHAN_BATCH = 100"

definition is_orphan :: "int \<Rightarrow> int \<Rightarrow> file_row \<Rightarrow> bool" where
  "is_orphan now olderThanHours r \<longleftrightarrow>
     fl_status r = FilePending \<and> fl_created_at r < now - olderThanHours * 3600000"

text \<open>\<open>SELECT ... ORDER BY created_at LIMIT 100 FOR UPDATE SKIP LOCKED\<close>\<close>

definition select_orphans :: "(string \<Rightarrow> bool) \<Rightarrow> int \<Rightarrow> int \<Rightarrow> db \<Rightarrow> file_row list" where
  "select_orphans locked now olderThanHours s =
     take ORPHAN_BATCH (sort_key fl_created_at
       (filter (\<lambda>r. is_orphan now olderThanHours r \<and> \<not> locked (fl_id r)) (t_files s)))"

fun sweep_storage :: "'s s3 \<Rightarrow> file_row list \<Rightarrow> ('s, unit) io" where
  "sweep_storage send [] = io_return ()"
| "sweep_storage send (row # rows) =
     io_bind (case upload_of row of
         Some u \<Rightarrow> s3_abortMultipart send (fl_key row) u
       | None \<Rightarrow> io_return ()) (\<lambda>_.
     io_bind (s3_deleteObject send (fl_key row)) (\<lambda>_.
     sweep_storage send rows))"

definition delete_files :: "string list \<Rightarrow> db \<Rightarrow> db" where
  "delete_files ids s = s\<lparr>t_files := filter (\<lambda>r. fl_id r \<notin> set ids) (t_files s)\<rparr>"

text \<open>\<open>fault\<close> is an error of the DELETE or the COMMIT.\<close>

definition sweepOrphanFiles ::
  "'s s3 \<Rightarrow> (string \<Rightarrow> bool) \<Rightarrow> exn option \<Rightarrow> int \<Rightarrow> int \<Rightarrow> ('s world, nat) io" where
  "sweepOrphanFiles send locked fault now olderThanHours w =
     (let rows = select_orphans locked now olderThanHours (w_db w) in
      io_bind (on_s3 (sweep_storage send rows)) (\<lambda>_.
        case fault of
          Some e \<Rightarrow> io_throw e
        | None \<Rightarrow> io_bind (on_db (\<lambda>s. (Inr (), delete_files (map fl_id rows) s))) (\<lambda>_.
            io_return (length rows))) w)"

lemma select_orphans_set:
  assumes "r \<in> set (select_orphans locked now h s)"
  shows "r \<in> set (t_files s)" and "is_orphan now h r" and "\<not> locked (fl_id r)"
  using assms by (auto simp: select_orphans_def dest!: in_set_takeD)

end
