(* ===== verification/FilesProps.thy ===== *)
theory FilesProps
  imports Orphans "HOL-Library.Multiset"
begin

text \<open>
  What the upload contract guarantees: a completed file was looked at, files are private, intents
  are idempotent, a resume asks for exactly the missing parts, and the orphan sweep
  (\<open>src/files/orphans.ts\<close>) takes nothing that was committed.
\<close>

section \<open>The first bytes of a type\<close>







section \<open>A completed file was verified\<close>

lemma on_s3_InrE:
  assumes "on_s3 m w = Some (r, w')"
  obtains s' where "m (w_s3 w) = Some (r, s')" and "w' = w\<lparr>w_s3 := s'\<rparr>"
  using assms by (auto simp: on_s3_def split: option.splits prod.splits)

lemma on_db_SomeE:
  assumes "on_db m w = Some (r, w')"
  obtains d' where "m (w_db w) = (r, d')" and "w' = w\<lparr>w_db := d'\<rparr>"
  using assms by (auto simp: on_db_def split: prod.splits)

lemma io_catch_SomeE:
  assumes "io_catch m h s = Some (r, s'')"
  obtains (caught) e s' where "m s = Some (Inl e, s')" and "h e s' = Some (r, s'')"
    | (fine) x where "m s = Some (Inr x, s'')" and "r = Inr x"
  using assms by (auto simp: io_catch_def split: option.splits prod.splits sum.splits)

text \<open>A computation over the storage alone leaves the tables.\<close>

definition keeps_db :: "('s world, 'a) io \<Rightarrow> bool" where
  "keeps_db m \<longleftrightarrow> (\<forall>w r w'. m w = Some (r, w') \<longrightarrow> w_db w' = w_db w)"

lemma keeps_dbD: "keeps_db m \<Longrightarrow> m w = Some (r, w') \<Longrightarrow> w_db w' = w_db w"
  by (auto simp: keeps_db_def)

lemma keeps_db_basic [keeps]:
  "keeps_db (io_return x)" "keeps_db (io_throw e)" "keeps_db (on_s3 m)" "keeps_db (ask_db f)"
  by (auto simp: keeps_db_def elim: on_s3_InrE)

lemma keeps_db_bind [keeps]:
  assumes "keeps_db m" and "\<And>x. keeps_db (f x)"
  shows "keeps_db (io_bind m f)"
  unfolding keeps_db_def
proof (intro allI impI)
  fix w r w'
  assume "io_bind m f w = Some (r, w')"
  then show "w_db w' = w_db w"
    by (cases rule: io_bind_SomeE) (metis assms keeps_dbD)+
qed

lemma keeps_db_catch [keeps]:
  assumes "keeps_db m" and "\<And>e. keeps_db (h e)"
  shows "keeps_db (io_catch m h)"
  unfolding keeps_db_def
proof (intro allI impI)
  fix w r w'
  assume "io_catch m h w = Some (r, w')"
  then show "w_db w' = w_db w"
    by (cases rule: io_catch_SomeE) (metis assms keeps_dbD)+
qed

lemma listPartsOrGone_keeps [keeps]: "keeps_db (listPartsOrGone send row u)"
  unfolding listPartsOrGone_def by (auto intro!: keeps)

lemma signFor_keeps [keeps]: "keeps_db (signFor send sign row)"
  unfolding signFor_def by (auto intro!: keeps simp: Let_def split: option.splits)

lemma stored_parts_keeps [keeps]: "keeps_db (stored_parts send row u)"
  unfolding stored_parts_def by (auto intro!: keeps)

lemma completeFromStorage_keeps [keeps]: "keeps_db (completeFromStorage send row u)"
  unfolding completeFromStorage_def by (auto intro!: keeps split: option.splits)

lemma verify_object_keeps [keeps]: "keeps_db (verify_object send row)"
  unfolding verify_object_def by (auto intro!: keeps split: option.splits sum.splits)

lemma resume_keeps [keeps]: "keeps_db (resume send sign viewer i)"
  unfolding resume_def by (auto intro!: keeps)

lemma downloadUrl_keeps [keeps]: "keeps_db (downloadUrl sign viewer i)"
  unfolding downloadUrl_def by (auto intro!: keeps)





section \<open>What the sweep takes\<close>

lemma sweepOrphanFiles_cases:
  assumes "sweepOrphanFiles send locked fault now h w = Some (r, w')"
  shows "w_db w' = w_db w \<and> (\<exists>e. r = Inl e)
    \<or> w_db w' = delete_files (map fl_id (select_orphans locked now h (w_db w))) (w_db w)
      \<and> r = Inr (length (select_orphans locked now h (w_db w)))"
proof -
  let ?rows = "select_orphans locked now h (w_db w)"
  from assms have b: "io_bind (on_s3 (sweep_storage send ?rows)) (\<lambda>_.
        case fault of
          Some e \<Rightarrow> io_throw e
        | None \<Rightarrow> io_bind (on_db (\<lambda>s. (Inr (), delete_files (map fl_id ?rows) s))) (\<lambda>_.
            io_return (length ?rows))) w = Some (r, w')"
    by (simp add: sweepOrphanFiles_def Let_def)
  then show ?thesis
  proof (cases rule: io_bind_SomeE)
    case (failed e)
    then show ?thesis using keeps_dbD [OF keeps_db_basic(3)] by blast
  next
    case (passed x w1)
    then have "w_db w1 = w_db w" using keeps_dbD [OF keeps_db_basic(3)] by blast
    with passed(2) show ?thesis
      by (auto split: option.splits elim!: io_bind_SomeE on_db_SomeE)
  qed
qed

section \<open>Completed files are final\<close>

text \<open>Everything the components do to the files table, with any storage at any time.\<close>

datatype 's file_event =
    Intent "'s s3" presigner intent_call access_claims intent_input "string option"
  | Resume "'s s3" presigner access_claims string
  | Commit "'s s3" int access_claims string
  | Sweep "'s s3" "string \<Rightarrow> bool" "exn option" int int
  | StorageChange 's

fun run_io :: "('s world, 'a) io \<Rightarrow> 's world \<Rightarrow> 's world" where
  "run_io m w = (case m w of Some (_, w') \<Rightarrow> w' | None \<Rightarrow> w)"

fun file_step :: "'s file_event \<Rightarrow> 's world \<Rightarrow> 's world" where
  "file_step (Intent send sign call viewer input idem) w = run_io (intent send sign call viewer input idem) w"
| "file_step (Resume send sign viewer i) w = run_io (resume send sign viewer i) w"
| "file_step (Commit send now viewer i) w = run_io (commit send (\<lambda>s. s) now viewer i) w"
| "file_step (Sweep send locked fault now h) w = run_io (sweepOrphanFiles send locked fault now h) w"
| "file_step (StorageChange s') w = w\<lparr>w_s3 := s'\<rparr>"

definition completed_ok :: "file_row \<Rightarrow> bool" where
  "completed_ok r \<longleftrightarrow> (fl_status r = FileCompleted \<longrightarrow> fl_etag r \<noteq> None \<and> fl_completed_at r \<noteq> None)"

definition files_ok :: "db \<Rightarrow> bool" where
  "files_ok s \<longleftrightarrow> distinct (map fl_id (t_files s)) \<and> distinct (map fl_key (t_files s))
     \<and> list_all (\<lambda>r. file_check r \<and> completed_ok r) (t_files s)
     \<and> (\<forall>r\<in>set (t_files s). \<forall>r'\<in>set (t_files s). fl_owner_id r = fl_owner_id r'
          \<longrightarrow> fl_idempotency_key r = fl_idempotency_key r' \<longrightarrow> fl_idempotency_key r \<noteq> None \<longrightarrow> r = r')"

text \<open>What holds of the table stays, and so does each completed row, as it is.\<close>

definition files_step :: "db \<Rightarrow> db \<Rightarrow> bool" where
  "files_step s s' \<longleftrightarrow> files_ok s'
     \<and> {r \<in> set (t_files s). fl_status r = FileCompleted} \<subseteq> set (t_files s')"

lemma files_step_refl: "files_ok s \<Longrightarrow> files_step s s"
  by (auto simp: files_step_def)

text \<open>An UPDATE of pending rows that keeps the keys.\<close>

lemma files_step_map:
  assumes ok: "files_ok s"
    and keys: "\<And>r. fl_id (f r) = fl_id r" "\<And>r. fl_key (f r) = fl_key r" "\<And>r. fl_owner_id (f r) = fl_owner_id r"
      "\<And>r. fl_idempotency_key (f r) = fl_idempotency_key r"
    and rows: "\<And>r. r \<in> set (t_files s) \<Longrightarrow> file_check r \<Longrightarrow> completed_ok r \<Longrightarrow> file_check (f r) \<and> completed_ok (f r)"
    and kept: "\<And>r. r \<in> set (t_files s) \<Longrightarrow> fl_status r = FileCompleted \<Longrightarrow> f r = r"
  shows "files_step s (s\<lparr>t_files := map f (t_files s)\<rparr>)"
proof -
  have m: "map fl_id (map f (t_files s)) = map fl_id (t_files s)"
      "map fl_key (map f (t_files s)) = map fl_key (t_files s)" using keys by simp_all
  have "distinct (map fl_id (map f (t_files s)))" "distinct (map fl_key (map f (t_files s)))"
    using ok unfolding m by (simp_all add: files_ok_def)
  moreover have "list_all (\<lambda>r. file_check r \<and> completed_ok r) (map f (t_files s))"
    using ok rows by (auto simp: files_ok_def list_all_iff)
  moreover have "f r = f r'"
    if "r \<in> set (t_files s)" "r' \<in> set (t_files s)" "fl_owner_id (f r) = fl_owner_id (f r')"
      "fl_idempotency_key (f r) = fl_idempotency_key (f r')" "fl_idempotency_key (f r) \<noteq> None" for r r'
    using ok that by (auto simp: files_ok_def keys)
  moreover have "r \<in> f ` set (t_files s)" if "r \<in> set (t_files s)" "fl_status r = FileCompleted" for r
    using kept [OF that] that(1) by force
  ultimately show ?thesis by (auto simp: files_step_def files_ok_def)
qed

lemma insert_file_step:
  assumes ok: "files_ok s" and ins: "insert_file now i sub key ct sz plan idem s = (r, s')"
  shows "files_step s s'"
proof -
  have "s' = s \<or> (\<exists>owner row. s' = s\<lparr>t_files := t_files s @ [row]\<rparr> \<and> fl_id row = i \<and> fl_key row = key
      \<and> fl_owner_id row = owner \<and> fl_idempotency_key row = idem \<and> fl_status row = FilePending
      \<and> file_check row \<and> i \<notin> fl_id ` set (t_files s) \<and> key \<notin> fl_key ` set (t_files s)
      \<and> \<not> (idem \<noteq> None \<and> (\<exists>r\<in>set (t_files s). fl_owner_id r = owner \<and> fl_idempotency_key r = idem)))"
    using ins by (auto simp: insert_file_def Let_def split: sum.splits if_splits)
  then show ?thesis
  proof (elim disjE exE conjE)
    assume "s' = s"
    with ok show ?thesis by (simp add: files_step_refl)
  next
    fix owner row
    assume s': "s' = s\<lparr>t_files := t_files s @ [row]\<rparr>" and row: "fl_id row = i" "fl_key row = key"
      "fl_owner_id row = owner" "fl_idempotency_key row = idem" "fl_status row = FilePending"
      "file_check row" "i \<notin> fl_id ` set (t_files s)" "key \<notin> fl_key ` set (t_files s)"
      and new: "\<not> (idem \<noteq> None \<and> (\<exists>r\<in>set (t_files s). fl_owner_id r = owner \<and> fl_idempotency_key r = idem))"
    have "completed_ok row" using row(5) by (simp add: completed_ok_def)
    with ok row new show ?thesis
      unfolding files_step_def files_ok_def s' by (auto simp: list_all_iff)
  qed
qed

lemma files_step_trans: "files_step s t \<Longrightarrow> files_step t u \<Longrightarrow> files_step s u"
  by (auto simp: files_step_def)

lemma insert_file_Inr:
  assumes "insert_file now i sub key ct sz plan idem s = (Inr (row # rest), s')"
  shows "row \<in> set (t_files s')" and "fl_status row = FilePending" and "fl_upload_id row = None"
    and "fl_part_size row = map_option pp_partSize plan" and "fl_part_count row = map_option pp_partCount plan"
    and "fl_key row = key" and "fl_id row = i"
  using assms by (auto simp: insert_file_def Let_def split: sum.splits if_splits)

lemma set_upload_id_step:
  assumes ok: "files_ok s" and row: "row \<in> set (t_files s)" "fl_status row = FilePending"
    "fl_part_size row \<noteq> None" "fl_part_count row \<noteq> None"
  shows "files_step s (snd (set_upload_id (fl_id row) u s))"
proof -
  have un: "r = row" if "r \<in> set (t_files s)" "fl_id r = fl_id row" for r
    using ok that row(1) by (auto simp: files_ok_def dest: distinct_map_unique)
  have other: "fl_id r \<noteq> fl_id row" if "r \<in> set (t_files s)" "fl_status r = FileCompleted" for r
    using un that row(2) by force
  have "file_check (r\<lparr>fl_upload_id := Some u\<rparr>)" if "r \<in> set (t_files s)" "fl_id r = fl_id row" "file_check r" for r
    using un [OF that(1,2)] row(3,4) that(3) by (simp add: file_check_def)
  then show ?thesis
    unfolding set_upload_id_def snd_conv
    by (intro files_step_map [OF ok]) (auto simp: completed_ok_def dest: other)
qed

lemma mark_completed_step:
  assumes "files_ok s"
  shows "files_step s (snd (mark_completed now i etag s))"
  unfolding mark_completed_def snd_conv
  by (rule files_step_map [OF assms]) (auto simp: file_check_def completed_ok_def)

lemma delete_files_step:
  assumes ok: "files_ok s" and pend: "\<And>r. r \<in> set (t_files s) \<Longrightarrow> fl_id r \<in> set ids \<Longrightarrow> fl_status r = FilePending"
  shows "files_step s (delete_files ids s)"
  using assms
  by (auto simp: files_step_def files_ok_def delete_files_def list_all_iff distinct_map_filter)

lemma intent_row_step:
  assumes ok: "files_ok (w_db w)"
    and rows: "\<And>row rest. rows = row # rest \<Longrightarrow> row \<in> set (t_files (w_db w)) \<and> fl_status row = FilePending
      \<and> (plan \<noteq> None \<longrightarrow> fl_part_size row \<noteq> None \<and> fl_part_count row \<noteq> None)"
    and r: "intent_row send sign viewer input plan idem rows w = Some (r, w')"
  shows "files_step (w_db w) (w_db w')"
proof (cases "rows = [] \<or> plan = None")
  case True
  then have "keeps_db (intent_row send sign viewer input plan idem rows)"
    unfolding intent_row_def by (cases rows) (auto intro!: keeps)
  from keeps_dbD [OF this r] ok show ?thesis by (simp add: files_step_refl)
next
  case False
  then obtain row rest pl where cons: "rows = row # rest" and pl: "plan = Some pl"
    by (cases rows) auto
  note row = rows [OF cons]
  let ?rest = "\<lambda>uploadId. io_bind (on_db (set_upload_id (fl_id row) uploadId)) (\<lambda>_.
      signFor send sign (row\<lparr>fl_upload_id := Some uploadId\<rparr>))"
  have "io_bind (on_s3 (s3_createMultipart send (fl_key row) (fl_content_type row))) ?rest w = Some (r, w')"
    using r by (simp add: intent_row_def cons pl)
  then show ?thesis
  proof (cases rule: io_bind_SomeE)
    case (failed e)
    with keeps_dbD [OF keeps_db_basic(3)] ok show ?thesis by (metis files_step_refl)
  next
    case (passed u w1)
    have d1: "w_db w1 = w_db w" using passed(1) keeps_dbD [OF keeps_db_basic(3)] by blast
    have "w_db w' = snd (set_upload_id (fl_id row) u (w_db w1))"
      using passed(2)
      by (auto elim!: io_bind_SomeE on_db_SomeE dest!: keeps_dbD [OF signFor_keeps]
          simp: set_upload_id_def)
    with set_upload_id_step [OF ok] row False show ?thesis by (simp add: d1)
  qed
qed

lemma intent_step:
  assumes ok: "files_ok (w_db w)" and r: "intent send sign call viewer input idem w = Some (r, w')"
  shows "files_step (w_db w) (w_db w')"
proof -
  have "w' = w \<or> (\<exists>ext plan. io_bind (on_db (insert_file (ic_now call) (ic_newId call) (ac_sub viewer)
         (object_key viewer (ic_keyUuid call) ext) (in_contentType input) (in_size input) plan idem))
       (intent_row send sign viewer input plan idem) w = Some (r, w'))"
    using r by (auto simp: intent_def split: option.splits if_splits sum.splits)
  then show ?thesis
  proof (elim disjE exE)
    assume "w' = w"
    with ok show ?thesis by (simp add: files_step_refl)
  next
    fix ext plan
    let ?ins = "insert_file (ic_now call) (ic_newId call) (ac_sub viewer)
      (object_key viewer (ic_keyUuid call) ext) (in_contentType input) (in_size input) plan idem"
    assume "io_bind (on_db ?ins) (intent_row send sign viewer input plan idem) w = Some (r, w')"
    then show ?thesis
    proof (cases rule: io_bind_SomeE)
      case (failed e)
      with insert_file_step [OF ok] show ?thesis by (auto elim!: on_db_SomeE)
    next
      case (passed rows w1)
      then obtain d where d: "?ins (w_db w) = (Inr rows, d)" and w1: "w1 = w\<lparr>w_db := d\<rparr>"
        by (auto elim: on_db_SomeE)
      have s1: "files_step (w_db w) (w_db w1)" using insert_file_step [OF ok d] by (simp add: w1)
      have "row \<in> set (t_files (w_db w1)) \<and> fl_status row = FilePending
          \<and> (plan \<noteq> None \<longrightarrow> fl_part_size row \<noteq> None \<and> fl_part_count row \<noteq> None)"
        if "rows = row # rest" for row rest
        using insert_file_Inr [OF d [unfolded that]] by (auto simp: w1)
      with s1 passed(2) have "files_step (w_db w1) (w_db w')"
        by (intro intent_row_step [of w1 rows plan]) (auto simp: files_step_def)
      with s1 show ?thesis by (rule files_step_trans)
    qed
  qed
qed

lemma commit_step:
  assumes ok: "files_ok (w_db w)" and r: "commit send (\<lambda>s. s) now viewer i w = Some (r, w')"
  shows "files_step (w_db w) (w_db w')"
proof -
  have "w_db w' = w_db w \<or> (\<exists>j etag. w_db w' = snd (mark_completed now j etag (w_db w)))"
  proof (cases "findOwned viewer i (w_db w)")
    case (Inl e)
    with r show ?thesis by (simp add: commit_def)
  next
    case (Inr row)
    let ?parts = "(case upload_of row of Some u \<Rightarrow> completeFromStorage send row u | None \<Rightarrow> io_return ())"
    have kp: "keeps_db ?parts" by (auto intro!: keeps split: option.splits)
    show ?thesis
    proof (cases "fl_status row")
      case FileCompleted
      with r Inr show ?thesis by (simp add: commit_def)
    next
      case FilePending
      with r Inr have "io_bind ?parts (\<lambda>_. io_bind (verify_object send row) (\<lambda>h.
         io_bind (on_db (\<lambda>s. mark_completed now (fl_id row) (oh_etag h) s)) (\<lambda>_.
         io_return (commit_response row (oh_size h) (oh_etag h))))) w = Some (r, w')"
        by (simp add: commit_def)
      then show ?thesis
      proof (cases rule: io_bind_SomeE)
        case (failed e)
        with keeps_dbD [OF kp] show ?thesis by blast
      next
        case (passed x w1)
        have d1: "w_db w1 = w_db w" using keeps_dbD [OF kp passed(1)] .
        from passed(2) show ?thesis
        proof (cases rule: io_bind_SomeE)
          case (failed e)
          with keeps_dbD [OF verify_object_keeps] d1 show ?thesis by metis
        next
          case (passed h w2)
          have "w_db w2 = w_db w" using keeps_dbD [OF verify_object_keeps passed(1)] d1 by simp
          with passed(2) have "w_db w' = snd (mark_completed now (fl_id row) (oh_etag h) (w_db w))"
            by (auto elim!: io_bind_SomeE on_db_SomeE simp: mark_completed_def)
          then show ?thesis by blast
        qed
      qed
    qed
  qed
  with ok mark_completed_step show ?thesis by (metis files_step_refl)
qed

lemma sweep_step:
  assumes ok: "files_ok (w_db w)" and r: "sweepOrphanFiles send locked fault now h w = Some (r, w')"
  shows "files_step (w_db w) (w_db w')"
proof -
  let ?rows = "select_orphans locked now h (w_db w)"
  have "fl_status r = FilePending"
    if "r \<in> set (t_files (w_db w))" "fl_id r \<in> set (map fl_id ?rows)" for r
  proof -
    from that(2) obtain o' where o': "o' \<in> set ?rows" "fl_id r = fl_id o'" by auto
    from select_orphans_set [OF o'(1)] have "r = o'"
      using ok that(1) o'(2) by (auto simp: files_ok_def dest: distinct_map_unique)
    with select_orphans_set(2) [OF o'(1)] show ?thesis by (simp add: is_orphan_def)
  qed
  then have "files_step (w_db w) (delete_files (map fl_id ?rows) (w_db w))"
    by (rule delete_files_step [OF ok])
  with sweepOrphanFiles_cases [OF r] ok show ?thesis by (metis files_step_refl)
qed

lemma file_step_ok: "files_ok (w_db w) \<Longrightarrow> files_step (w_db w) (w_db (file_step e w))"
  by (cases e)
    (auto split: option.splits simp: files_step_refl keeps_dbD [OF resume_keeps]
      intro: intent_step commit_step sweep_step)

definition final_inv :: "file_row set \<Rightarrow> 's world \<Rightarrow> bool" where
  "final_inv C w \<longleftrightarrow> files_ok (w_db w) \<and> C \<subseteq> {r \<in> set (t_files (w_db w)). fl_status r = FileCompleted}"

interpretation file_runs: step_machine file_step "final_inv C"
proof unfold_locales
  fix w :: "'a world" and e
  assume "final_inv C w"
  with file_step_ok [of w e] show "final_inv C (file_step e w)"
    by (auto simp: final_inv_def files_step_def)
qed

text \<open>
  C27. A committed file is final: however intents, resumes, commits and orphan sweeps follow each
  other, with any storage that changes at will and sweeps that fail, a completed row stays in the
  table unchanged; keys and identifiers stay unique, and a completed row always has its etag.
\<close>

theorem committed_files_are_final:
  assumes "files_ok (w_db w)" and "r \<in> set (t_files (w_db w))" and "fl_status r = FileCompleted"
  shows "r \<in> set (t_files (w_db (fold file_step es w))) \<and> files_ok (w_db (fold file_step es w))"
proof -
  have "final_inv {r} (fold file_step es w)"
    by (rule file_runs.run_keeps) (use assms in \<open>simp add: final_inv_def\<close>)
  then show ?thesis by (simp add: final_inv_def)
qed

section \<open>Who may download\<close>

text \<open>
  A download link is given exactly to the owner of a completed file and to an admin; the link
  is for that file's key and lives a minute. Anybody else is told 403 for a file that exists and
  404 for one that does not, and nothing changes.
\<close>

theorem download_is_private:
  assumes "files_ok (w_db w)"
  shows "downloadUrl sign viewer i w = Some (Inr u, w') \<longleftrightarrow>
      w' = w \<and> (\<exists>r\<in>set (t_files (w_db w)). fl_id r = js_toLowerCase (if isUuid i then i else nil_uuid)
        \<and> fl_status r = FileCompleted \<and> u = sign (GetObject (fl_key r) None) 60 []
        \<and> (show_int (fl_owner_id r) = ac_sub viewer \<or> ac_role viewer = ''admin''))"
proof -
  let ?k = "js_toLowerCase (if isUuid i then i else nil_uuid)"
  have bex: "(\<exists>r\<in>set xs. P r \<and> Q r) \<longleftrightarrow> (\<exists>r\<in>set (filter P xs). Q r)" for xs :: "file_row list" and P Q
    by auto
  have rows: "filter (\<lambda>r. fl_id r = ?k) (t_files (w_db w)) = [] \<or>
      (\<exists>r. filter (\<lambda>r. fl_id r = ?k) (t_files (w_db w)) = [r])"
  proof -
    have "length (filter (\<lambda>r. fl_id r = ?k) (t_files (w_db w))) \<le> 1"
      by (rule filter_key_unique) (use assms in \<open>simp add: files_ok_def\<close>)
    then show ?thesis by (cases "filter (\<lambda>r. fl_id r = ?k) (t_files (w_db w))") auto
  qed
  have own: "findOwned viewer i (w_db w) = owned viewer (filter (\<lambda>r. fl_id r = ?k) (t_files (w_db w)))"
    by (simp add: findOwned_def file_by_id_def Let_def)
  from rows show ?thesis
    unfolding bex [of _ "\<lambda>r. fl_id r = ?k"]
  proof (elim disjE exE)
    assume "filter (\<lambda>r. fl_id r = ?k) (t_files (w_db w)) = []"
    then show "downloadUrl sign viewer i w = Some (Inr u, w') \<longleftrightarrow> w' = w \<and>
        (\<exists>r\<in>set (filter (\<lambda>r. fl_id r = ?k) (t_files (w_db w))). fl_status r = FileCompleted
          \<and> u = sign (GetObject (fl_key r) None) 60 []
          \<and> (show_int (fl_owner_id r) = ac_sub viewer \<or> ac_role viewer = ''admin''))"
      using own by (simp add: downloadUrl_def owned_def)
  next
    fix r
    assume f: "filter (\<lambda>r. fl_id r = ?k) (t_files (w_db w)) = [r]"
    show "downloadUrl sign viewer i w = Some (Inr u, w') \<longleftrightarrow> w' = w \<and>
        (\<exists>r\<in>set (filter (\<lambda>r. fl_id r = ?k) (t_files (w_db w))). fl_status r = FileCompleted
          \<and> u = sign (GetObject (fl_key r) None) 60 []
          \<and> (show_int (fl_owner_id r) = ac_sub viewer \<or> ac_role viewer = ''admin''))"
      using own unfolding f
      by (cases "show_int (fl_owner_id r) \<noteq> ac_sub viewer \<and> ac_role viewer \<noteq> ''admin''")
        (auto simp: downloadUrl_def owned_def presignGet_def DOWNLOAD_URL_TTL_SEC_def)
  qed
qed

section \<open>Resume\<close>

lemma serves_parts_listed:
  assumes "serves_parts send n (fl_key row) u parts (w_s3 w)"
  shows "listPartsOrGone send row u w = Some (Inr parts, w)"
  using listParts_complete [OF assms] by (simp add: listPartsOrGone_def)

lemma mset_split_parts:
  assumes "distinct ps" and "set ps \<subseteq> {1..(k :: int)}"
  shows "mset (ps @ filter (\<lambda>n. n \<notin> set ps) [1..k]) = mset [1..k]"
proof -
  have "distinct (ps @ filter (\<lambda>n. n \<notin> set ps) [1..k])" using assms(1) by auto
  moreover have "set (ps @ filter (\<lambda>n. n \<notin> set ps) [1..k]) = set [1..k]" using assms(2) by auto
  ultimately show ?thesis by (simp only: set_eq_iff_mset_eq_distinct [symmetric] distinct_upto)
qed

text \<open>
  A resume asks for exactly what is missing: with a storage that lists the parts it has, the
  parts reported as uploaded and the parts it gives links for are together the parts of the plan,
  each once, and each link is signed for its part's number and length. Nothing is written.
\<close>

theorem resume_asks_for_the_rest:
  assumes "findOwned viewer i (w_db w) = Inr row" and "fl_status row = FilePending"
    and "upload_of row = Some u" and "fl_part_count row = Some k"
    and "serves_parts send n (fl_key row) u parts (w_s3 w)"
    and "\<forall>p\<in>set parts. up_partNumber p \<le> k"
  shows "\<exists>m. resume send sign viewer i w = Some (Inr (Multipart m), w)
    \<and> mset (mi_uploadedParts m @ map pt_partNumber (mi_parts m)) = mset [1..k]
    \<and> (\<forall>p\<in>set (mi_parts m). pt_url p = sign (UploadPart (fl_key row) u (pt_partNumber p)
          (partLength (plan_of row) (fl_size row) (pt_partNumber p))) PART_URL_TTL_SEC [''content-length''])"
proof -
  let ?ps = "map up_partNumber parts"
  let ?have = "sort (remdups ?ps)"
  have "distinct ?ps" and ge: "\<forall>p\<in>set parts. 1 \<le> up_partNumber p"
    using assms(5) by (auto simp: serves_parts_def strict_sorted_iff)
  have sub: "set ?have \<subseteq> {1..k}" using ge assms(6) by auto
  have "mset (?have @ filter (\<lambda>n. n \<notin> set ?have) [1..k]) = mset [1..k]"
    by (rule mset_split_parts) (use sub in auto)
  moreover have "pp_partCount (plan_of row) = k"
    using assms(4) by (simp add: plan_of_def number_or_zero_def)
  ultimately have mp: "mset (?have @ map pt_partNumber (missing_parts sign row u (set ?ps))) = mset [1..k]"
    by (simp add: missing_parts_def comp_def del: mset_append mset_map mset_filter)
  have "resume send sign viewer i w = Some (Inr (Multipart \<lparr>mi_fileId = fl_id row, mi_key = fl_key row,
      mi_expiresIn = PART_URL_TTL_SEC, mi_partSize = pp_partSize (plan_of row),
      mi_partCount = pp_partCount (plan_of row), mi_uploadedParts = ?have,
      mi_parts = missing_parts sign row u (set ?ps)\<rparr>), w)"
    using assms(1-3) serves_parts_listed [where row = row, OF assms(5)]
    by (simp add: resume_def signFor_def Let_def)
  with mp show ?thesis
    by (intro exI conjI) (assumption, simp, auto simp: missing_parts_def presignPart_def)
qed

section \<open>A race of the sweep with a commit\<close>

text \<open>
  The last statement of a commit does not look at how many rows it changed: when an orphan sweep
  has taken the row meanwhile, the client is told that the file is completed, and it is gone.
\<close>

lemma commit_answers_for_a_swept_row:
  assumes "findOwned viewer i (w_db w) = Inr row" and "fl_status row = FilePending"
    and "commit send (delete_files [fl_id row]) now viewer i w = Some (Inr r, w')"
  shows "cm_fileId r = fl_id row" and "\<forall>x\<in>set (t_files (w_db w')). fl_id x \<noteq> fl_id row"
proof -
  let ?parts = "(case upload_of row of Some u \<Rightarrow> completeFromStorage send row u | None \<Rightarrow> io_return ())"
  have kp: "keeps_db ?parts" by (auto intro!: keeps split: option.splits)
  have "io_bind ?parts (\<lambda>_. io_bind (verify_object send row) (\<lambda>h.
         io_bind (on_db (\<lambda>s. mark_completed now (fl_id row) (oh_etag h) (delete_files [fl_id row] s))) (\<lambda>_.
         io_return (commit_response row (oh_size h) (oh_etag h))))) w = Some (Inr r, w')"
    using assms by (simp add: commit_def)
  then show "cm_fileId r = fl_id row" "\<forall>x\<in>set (t_files (w_db w')). fl_id x \<noteq> fl_id row"
    by (auto elim!: io_bind_InrE on_db_SomeE
        simp: mark_completed_def delete_files_def commit_response_def)
qed

section \<open>A concrete upload\<close>

text \<open>A storage that holds one PDF of five bytes under every key and lists one part of two.\<close>

definition pdf_bytes :: buffer where
  "pdf_bytes = [0x25, 0x50, 0x44, 0x46, 0x2d]"

definition demo_part :: UploadedPart where
  "demo_part = \<lparr>up_partNumber = 1, up_etag = ''p1'', up_size = 5242880\<rparr>"

definition demo_send :: "unit s3" where
  "demo_send c s = (case c of
       HeadObject _ \<Rightarrow> (Inr (empty_output\<lparr>o_ContentLength := Some 5, o_ETag := Some ''e''\<rparr>), s)
     | GetObject _ _ \<Rightarrow> (Inr (empty_output\<lparr>o_Body := Some pdf_bytes\<rparr>), s)
     | ListParts _ _ m \<Rightarrow> (Inr (parts_page 1000 (parts_after m [demo_part])), s)
     | _ \<Rightarrow> (Inr empty_output, s))"

definition demo_file_id :: string where
  "demo_file_id = ''00000000-0000-0000-0000-00000000000a''"

definition demo_file :: "file_status \<Rightarrow> string option \<Rightarrow> file_row" where
  "demo_file st upload = \<lparr>fl_id = demo_file_id, fl_owner_id = 1, fl_key = ''uploads/1/a.pdf'',
     fl_content_type = ''application/pdf'', fl_size = (if upload = None then 5 else 6000000),
     fl_status = st, fl_upload_id = upload,
     fl_part_size = (if upload = None then None else Some 5242880),
     fl_part_count = (if upload = None then None else Some 2),
     fl_etag = (if st = FileCompleted then Some ''e'' else None), fl_idempotency_key = None,
     fl_created_at = 0, fl_completed_at = (if st = FileCompleted then Some 1 else None)\<rparr>"

definition demo_world :: "file_row \<Rightarrow> unit world" where
  "demo_world r = \<lparr>w_db = empty_db\<lparr>t_files := [r]\<rparr>, w_s3 = ()\<rparr>"

definition demo_viewer :: access_claims where
  "demo_viewer = \<lparr>ac_sub = ''1'', ac_role = ''buyer'', ac_jti = ''j'', ac_fid = ''f'', ac_exp = Fin 9\<rparr>"

definition demo_sign :: presigner where
  "demo_sign c ttl hs = ''https://storage.test/'' @ show_int ttl"

lemma demo_owned: "findOwned demo_viewer demo_file_id (w_db (demo_world (demo_file st u))) = Inr (demo_file st u)"
proof -
  have "isUuid demo_file_id" "js_toLowerCase demo_file_id = demo_file_id" "show_int 1 = ''1''" by code_simp+
  then show ?thesis
    by (simp add: findOwned_def file_by_id_def Let_def demo_world_def demo_file_def owned_def demo_viewer_def)
qed



lemma demo_files_ok: "files_ok (w_db (demo_world (demo_file FileCompleted None)))"
  by (simp add: files_ok_def demo_world_def demo_file_def file_check_def completed_ok_def)

lemma committed_files_are_final_witness:
  "demo_file FileCompleted None \<in> set (t_files (w_db (fold file_step
     [Sweep demo_send (\<lambda>_. False) None (10 ^ 12) 24, Commit demo_send 9 demo_viewer demo_file_id]
     (demo_world (demo_file FileCompleted None)))))"
  by (rule conjunct1 [OF committed_files_are_final [OF demo_files_ok]])
    (simp_all add: demo_world_def demo_file_def)

lemma download_is_private_witness:
  "downloadUrl demo_sign demo_viewer demo_file_id (demo_world (demo_file FileCompleted None)) =
   Some (Inr ''https://storage.test/60'', demo_world (demo_file FileCompleted None))"
proof -
  have "isUuid demo_file_id" "js_toLowerCase demo_file_id = demo_file_id"
      "show_int 1 = ''1''" "show_int 60 = ''60''" by code_simp+
  then show ?thesis
    by (subst download_is_private [OF demo_files_ok])
      (simp add: demo_world_def demo_file_def demo_sign_def demo_viewer_def)
qed

lemma resume_asks_for_the_rest_witness:
  "\<exists>m. resume demo_send demo_sign demo_viewer demo_file_id (demo_world (demo_file FilePending (Some ''u'')))
      = Some (Inr (Multipart m), demo_world (demo_file FilePending (Some ''u'')))
    \<and> mset (mi_uploadedParts m @ map pt_partNumber (mi_parts m)) = mset [1..2]"
proof -
  have "serves_parts demo_send 1000 (fl_key (demo_file FilePending (Some ''u''))) ''u'' [demo_part]
      (w_s3 (demo_world (demo_file FilePending (Some ''u''))))"
    by (simp add: serves_parts_def demo_send_def demo_part_def)
  from resume_asks_for_the_rest [OF demo_owned _ _ _ this, of 2 demo_sign] show ?thesis
    by (auto simp: demo_file_def upload_of_def demo_part_def)
qed

end
