(* ===== verification/Edge.thy ===== *)
theory Edge
  imports Storage
begin

text \<open>
  The edge cache (\<open>src/cdn/edge.ts\<close>, \<open>assets.ts\<close>): a byte-bounded LRU in front of the private
  bucket, one origin fetch per key at a time, and the naming of published assets. A request that
  misses waits for the origin; the server is a state machine over arriving requests and settling
  fetches. \<open>decodeURIComponent\<close> is a parameter, because its results lie outside the characters of the model.
\<close>

section \<open>Headers\<close>

definition bare_tag :: "string \<Rightarrow> string" where
  "bare_tag tag = (let t = js_trim tag in if js_startsWith ''W/'' t then drop 2 t else t)"

definition etagMatches :: "string option \<Rightarrow> string \<Rightarrow> bool" where
  "etagMatches ifNoneMatch etag = (case ifNoneMatch of
       None \<Rightarrow> False
     | Some h \<Rightarrow> h \<noteq> [] \<and>
         list_ex (\<lambda>tag. js_trim tag = ''*'' \<or> bare_tag tag = bare_tag etag) (js_split (CHR '','') h))"

text \<open>\<open>d.split('=')[1]\<close>\<close>

definition directive_value :: "string \<Rightarrow> string option" where
  "directive_value d = (case js_split (CHR ''='') d of _ # v # _ \<Rightarrow> Some v | _ \<Rightarrow> None)"

definition cacheableSeconds :: "string option \<Rightarrow> rat" where
  "cacheableSeconds cacheControl = (case cacheControl of
       None \<Rightarrow> 0
     | Some cc \<Rightarrow>
         if cc = [] then 0
         else let directives = map js_trim (js_split (CHR '','') (js_toLowerCase cc)) in
           if list_ex (\<lambda>d. d \<in> {''no-store'', ''private'', ''no-cache''}) directives then 0
           else if ''public'' \<notin> set directives then 0
           else let sMaxAge = List.find (js_startsWith ''s-maxage='') directives;
                    maxAge = List.find (js_startsWith ''max-age='') directives;
                    chosen = (case sMaxAge of Some d \<Rightarrow> Some d | None \<Rightarrow> maxAge)
                in (case js_Number_opt (Option.bind chosen directive_value) of
                      Fin v \<Rightarrow> if 0 < v then v else 0
                    | _ \<Rightarrow> 0))"

section \<open>The server's state\<close>

record edge_options =
  eo_maxBytes :: "int option"
  eo_maxObjectBytes :: "int option"

definition EDGE_MAX_BYTES :: int where "EDGE_MAX_BYTES = 64 * 1024 * 1024"
definition EDGE_MAX_OBJECT_BYTES :: int where "EDGE_MAX_OBJECT_BYTES = 10 * 1024 * 1024"

definition max_bytes :: "edge_options \<Rightarrow> int" where
  "max_bytes o' = (case eo_maxBytes o' of Some n \<Rightarrow> n | None \<Rightarrow> EDGE_MAX_BYTES)"

definition max_object_bytes :: "edge_options \<Rightarrow> int" where
  "max_object_bytes o' =
     min (case eo_maxObjectBytes o' of Some n \<Rightarrow> n | None \<Rightarrow> EDGE_MAX_OBJECT_BYTES) (max_bytes o')"

record entry =
  en_obj :: StoredObject
  en_expiresAt :: rat

definition body_length :: "entry \<Rightarrow> int" where
  "body_length e = int (length (so_body (en_obj e)))"

record edge_stats =
  eg_hits :: nat
  eg_misses :: nat
  eg_originFetches :: nat
  eg_cachedBytes :: int
  eg_evictions :: nat

record edge_request =
  eq_id :: nat
  eq_method :: string
  eq_url :: "string option"
  eq_if_none_match :: "string option"

record edge_response =
  ex_status :: nat
  ex_headers :: "(string \<times> string) list"
  ex_body :: "buffer option"

text \<open>
  The cache in the order of the \<open>Map\<close>, the requests waiting for each fetch in flight, and the
  responses sent so far.
\<close>

record edge =
  ed_cache :: "(string \<times> entry) list"
  ed_inflight :: "(string \<times> edge_request list) list"
  ed_stats :: edge_stats
  ed_sent :: "(nat \<times> edge_response) list"

definition empty_edge :: edge where
  "empty_edge = \<lparr>ed_cache = [], ed_inflight = [],
     ed_stats = \<lparr>eg_hits = 0, eg_misses = 0, eg_originFetches = 0, eg_cachedBytes = 0, eg_evictions = 0\<rparr>,
     ed_sent = []\<rparr>"

section \<open>\<open>drop\<close> and \<open>store\<close>\<close>

definition edge_drop :: "string \<Rightarrow> edge \<Rightarrow> edge" where
  "edge_drop key st = (case map_of (ed_cache st) key of
       None \<Rightarrow> st
     | Some e \<Rightarrow> st\<lparr>ed_cache := filter (\<lambda>kv. fst kv \<noteq> key) (ed_cache st),
         ed_stats := (ed_stats st)\<lparr>eg_cachedBytes := eg_cachedBytes (ed_stats st) - body_length e\<rparr>\<rparr>)"

text \<open>
  The loop that drops the first key while the bytes are above the budget. On an empty cache it
  would drop nothing and not end: \<open>None\<close>.
\<close>

fun evict :: "int \<Rightarrow> (string \<times> entry) list \<Rightarrow> int \<Rightarrow> nat \<Rightarrow> ((string \<times> entry) list \<times> int \<times> nat) option" where
  "evict budget [] bytes n = (if budget < bytes then None else Some ([], bytes, n))"
| "evict budget ((k, e) # cache) bytes n =
     (if budget < bytes then evict budget cache (bytes - body_length e) (n + 1)
      else Some ((k, e) # cache, bytes, n))"

definition edge_store :: "edge_options \<Rightarrow> string \<Rightarrow> entry \<Rightarrow> edge \<Rightarrow> edge option" where
  "edge_store o' key e st =
     (let st1 = edge_drop key st in
      case evict (max_bytes o') (ed_cache st1 @ [(key, e)])
             (eg_cachedBytes (ed_stats st1) + body_length e) (eg_evictions (ed_stats st1)) of
        None \<Rightarrow> None
      | Some (cache, bytes, n) \<Rightarrow> Some (st1\<lparr>ed_cache := cache,
          ed_stats := (ed_stats st1)\<lparr>eg_cachedBytes := bytes, eg_evictions := n\<rparr>\<rparr>))"

section \<open>Requests\<close>

definition reply :: "edge_request \<Rightarrow> edge_response \<Rightarrow> edge \<Rightarrow> edge" where
  "reply req res st = st\<lparr>ed_sent := ed_sent st @ [(eq_id req, res)]\<rparr>"

definition plain :: "nat \<Rightarrow> (string \<times> string) list \<Rightarrow> edge_response" where
  "plain status headers = \<lparr>ex_status = status, ex_headers = headers, ex_body = None\<rparr>"

definition header_if :: "string \<Rightarrow> string option \<Rightarrow> (string \<times> string) list" where
  "header_if name v = (case v of Some x \<Rightarrow> if x = [] then [] else [(name, x)] | None \<Rightarrow> [])"

definition send :: "edge_request \<Rightarrow> StoredObject \<Rightarrow> string \<Rightarrow> edge_response" where
  "send req obj xCache =
     (let headers = (''x-cache'', xCache) # header_if ''cache-control'' (so_cacheControl obj)
            @ header_if ''etag'' (so_etag obj)
      in if (case so_etag obj of Some t \<Rightarrow> t \<noteq> [] \<and> etagMatches (eq_if_none_match req) t | None \<Rightarrow> False)
         then plain 304 headers
         else \<lparr>ex_status = 200,
               ex_headers = headers @ header_if ''content-type'' (so_contentType obj)
                 @ [(''content-length'', show_int (int (length (so_body obj))))],
               ex_body = (if eq_method req = ''HEAD'' then None else Some (so_body obj))\<rparr>)"

text \<open>The key of a request, or the status it is refused with.\<close>

definition request_key :: "(string \<Rightarrow> string option) \<Rightarrow> edge_request \<Rightarrow> edge_response + string" where
  "request_key decode req =
     (case decode (hd (js_split (CHR ''?'') (case eq_url req of Some u \<Rightarrow> u | None \<Rightarrow> ''/''))) of
        None \<Rightarrow> Inl (plain 400 [])
      | Some path \<Rightarrow>
          (let key = dropWhile (\<lambda>c. c = CHR ''/'') path in
           if eq_method req \<noteq> ''GET'' \<and> eq_method req \<noteq> ''HEAD''
           then Inl (plain 405 [(''allow'', ''GET, HEAD'')])
           else if \<not> js_startsWith ''assets/'' key \<or> ''..'' \<in> set (js_split (CHR ''/'') key)
           then Inl (plain 404 [])
           else Inr key))"

definition is_fresh :: "int \<Rightarrow> entry \<Rightarrow> bool" where
  "is_fresh now e \<longleftrightarrow> of_int now < en_expiresAt e"

text \<open>A miss: the request joins the fetch of its key, or starts one.\<close>

definition edge_miss :: "string \<Rightarrow> edge_request \<Rightarrow> edge \<Rightarrow> edge" where
  "edge_miss key req st =
     (let stats = (ed_stats st)\<lparr>eg_misses := eg_misses (ed_stats st) + 1\<rparr> in
      case map_of (ed_inflight st) key of
        Some ws \<Rightarrow> st\<lparr>ed_stats := stats,
          ed_inflight := map (\<lambda>(k, v). if k = key then (k, v @ [req]) else (k, v)) (ed_inflight st)\<rparr>
      | None \<Rightarrow> st\<lparr>ed_stats := stats\<lparr>eg_originFetches := eg_originFetches stats + 1\<rparr>,
          ed_inflight := ed_inflight st @ [(key, [req])]\<rparr>)"

definition on_request ::
  "(string \<Rightarrow> string option) \<Rightarrow> edge_options \<Rightarrow> int \<Rightarrow> edge_request \<Rightarrow> edge \<Rightarrow> edge option" where
  "on_request decode o' now req st = (case request_key decode req of
       Inl res \<Rightarrow> Some (reply req res st)
     | Inr key \<Rightarrow>
         (case map_of (ed_cache st) key of
            Some e \<Rightarrow>
              if is_fresh now e
              then map_option (reply req (send req (en_obj e) ''HIT''))
                (edge_store o' key e (st\<lparr>ed_stats := (ed_stats st)\<lparr>eg_hits := eg_hits (ed_stats st) + 1\<rparr>\<rparr>))
              else Some (edge_miss key req (edge_drop key st))
          | None \<Rightarrow> Some (edge_miss key req st)))"

text \<open>One waiting request goes on after the fetch; each of them stores the object again.\<close>

definition after_fetch ::
  "edge_options \<Rightarrow> int \<Rightarrow> string \<Rightarrow> exn + StoredObject option \<Rightarrow> edge_request \<Rightarrow> edge \<Rightarrow> edge option" where
  "after_fetch o' now key result req st = (case result of
       Inl _ \<Rightarrow> Some (reply req (plain 502 []) st)
     | Inr None \<Rightarrow> Some (reply req (plain 404 [(''x-cache'', ''MISS'')]) st)
     | Inr (Some obj) \<Rightarrow>
         (let ttl = cacheableSeconds (so_cacheControl obj) in
          map_option (reply req (send req obj ''MISS''))
            (if 0 < ttl \<and> int (length (so_body obj)) \<le> max_object_bytes o'
             then edge_store o' key \<lparr>en_obj = obj, en_expiresAt = of_int now + ttl * 1000\<rparr> st
             else Some st)))"

fun resume_waiters ::
  "edge_options \<Rightarrow> int \<Rightarrow> string \<Rightarrow> exn + StoredObject option \<Rightarrow> edge_request list \<Rightarrow> edge \<Rightarrow> edge option" where
  "resume_waiters o' now key result [] st = Some st"
| "resume_waiters o' now key result (req # reqs) st =
     Option.bind (after_fetch o' now key result req st) (resume_waiters o' now key result reqs)"

definition on_settled ::
  "edge_options \<Rightarrow> int \<Rightarrow> string \<Rightarrow> exn + StoredObject option \<Rightarrow> edge \<Rightarrow> edge option" where
  "on_settled o' now key result st = (case map_of (ed_inflight st) key of
       None \<Rightarrow> Some st
     | Some reqs \<Rightarrow> resume_waiters o' now key result reqs
         (st\<lparr>ed_inflight := filter (\<lambda>kv. fst kv \<noteq> key) (ed_inflight st)\<rparr>))"

datatype edge_event = Arrives int edge_request | Settles int string "exn + StoredObject option"

text \<open>The server over its events; \<open>None\<close> when it no longer gets out of its eviction loop.\<close>

fun edge_step ::
  "(string \<Rightarrow> string option) \<Rightarrow> edge_options \<Rightarrow> edge_event \<Rightarrow> edge option \<Rightarrow> edge option" where
  "edge_step decode o' (Arrives now req) st = Option.bind st (on_request decode o' now req)"
| "edge_step decode o' (Settles now key result) st = Option.bind st (on_settled o' now key result)"

section \<open>Publishing\<close>

definition IMMUTABLE :: string where
  "IMMUTABLE = ''public, max-age=31536000, immutable''"

definition asset_types :: "(string \<times> string) list" where
  "asset_types = [(''.css'', ''text/css; charset=utf-8''), (''.js'', ''text/javascript; charset=utf-8''),
     (''.svg'', ''image/svg+xml''), (''.png'', ''image/png''), (''.woff2'', ''font/woff2'')]"

text \<open>\<open>extname\<close>: from the last dot of the last path segment, unless the segment begins with it.\<close>

definition extname :: "string \<Rightarrow> string" where
  "extname name =
     (let trimmed = rev (dropWhile (\<lambda>c. c = CHR ''/'') (rev name));
          base = last (js_split (CHR ''/'') trimmed); parts = js_split (CHR ''.'') base in
      if length parts < 2 \<or> butlast parts = [[]] \<or> base = ''..'' then []
      else CHR ''.'' # last parts)"

definition hashedName :: "(buffer \<Rightarrow> string) \<Rightarrow> string \<Rightarrow> buffer \<Rightarrow> string" where
  "hashedName sha256 name body =
     (let ext = extname name; hash = take 8 (sha256 body)
      in take (length name - length ext) name @ ''.'' @ hash @ ext)"

definition publishAsset ::
  "(buffer \<Rightarrow> string) \<Rightarrow> 's s3 \<Rightarrow> string \<Rightarrow> buffer \<Rightarrow> ('s, string \<times> string) io" where
  "publishAsset sha256 snd' name body =
     (let key = ''assets/'' @ hashedName sha256 name body in
      io_bind (s3_put snd' key body
        (case map_of asset_types (extname name) of Some t \<Rightarrow> t | None \<Rightarrow> ''application/octet-stream'')
        (Some IMMUTABLE)) (\<lambda>_. io_return (key, CHR ''/'' # key)))"

end
