(* ===== verification/EdgeProps.thy ===== *)
theory EdgeProps
  imports Edge "HOL-Library.Multiset"
begin

text \<open>
  What the edge guarantees: its memory stays within the budget, every request is answered, once and
  with an answer of its own, or waits for the one fetch of its key, and a hit is an answer of the origin that is still fresh.
\<close>

section \<open>The eviction loop\<close>

definition total_bytes :: "(string \<times> entry) list \<Rightarrow> int" where
  "total_bytes cache = sum_list (map (\<lambda>kv. body_length (snd kv)) cache)"

lemma total_bytes_simps [simp]:
  "total_bytes [] = 0" "total_bytes (kv # c) = body_length (snd kv) + total_bytes c"
  "total_bytes (c @ d) = total_bytes c + total_bytes d"
  by (simp_all add: total_bytes_def)

text \<open>The loop drops the shortest prefix of the cache that makes the rest fit.\<close>

lemma evict_spec:
  assumes "bytes = total_bytes cache" and "0 \<le> budget"
  shows "\<exists>k. evict budget cache bytes n = Some (drop k cache, total_bytes (drop k cache), n + k)
    \<and> total_bytes (drop k cache) \<le> budget \<and> (\<forall>j<k. budget < total_bytes (drop j cache))"
  using assms
proof (induction budget cache bytes n rule: evict.induct)
  case (1 budget bytes n)
  then show ?case by simp
next
  case (2 budget k e cache bytes n)
  show ?case
  proof (cases "budget < bytes")
    case True
    with 2 obtain j where j: "evict budget cache (bytes - body_length e) (n + 1) =
        Some (drop j cache, total_bytes (drop j cache), n + 1 + j)"
      "total_bytes (drop j cache) \<le> budget" "\<forall>i<j. budget < total_bytes (drop i cache)"
      by auto
    with True 2(2) show ?thesis
      by (intro exI [of _ "Suc j"]) (auto simp: less_Suc_eq_0_disj)
  next
    case False
    with 2(2) show ?thesis by (intro exI [of _ 0]) simp
  qed
qed

section \<open>The invariant\<close>

text \<open>What the origin has answered: time, key, object.\<close>

type_synonym origin_log = "(int \<times> string \<times> StoredObject) list"

definition log_of :: "edge_event list \<Rightarrow> origin_log" where
  "log_of es = List.map_filter (\<lambda>e. case e of Settles now key (Inr (Some obj)) \<Rightarrow> Some (now, key, obj) | _ \<Rightarrow> None) es"

definition from_log :: "origin_log \<Rightarrow> edge_options \<Rightarrow> string \<times> entry \<Rightarrow> bool" where
  "from_log lg o' kv \<longleftrightarrow> (\<exists>(t, key, obj)\<in>set lg. key = fst kv \<and> en_obj (snd kv) = obj
     \<and> 0 < cacheableSeconds (so_cacheControl obj)
     \<and> en_expiresAt (snd kv) = of_int t + cacheableSeconds (so_cacheControl obj) * 1000
     \<and> body_length (snd kv) \<le> max_object_bytes o')"

definition served_key :: "string \<Rightarrow> bool" where
  "served_key key \<longleftrightarrow> js_startsWith ''assets/'' key \<and> ''..'' \<notin> set (js_split (CHR ''/'') key)"

text \<open>The requests that arrived, and those that wait for a fetch in flight.\<close>

definition arrived :: "edge_event list \<Rightarrow> edge_request list" where
  "arrived es = List.map_filter (\<lambda>e. case e of Arrives now req \<Rightarrow> Some req | _ \<Rightarrow> None) es"

definition waiting :: "edge \<Rightarrow> edge_request list" where
  "waiting st = concat (map snd (ed_inflight st))"

text \<open>
  The right answers to a request: the refusal of a request without a key, and otherwise what
  the origin said of that very key, formed for that request.
\<close>

definition right_answer ::
  "(string \<Rightarrow> string option) \<Rightarrow> edge_event list \<Rightarrow> edge_request \<Rightarrow> edge_response \<Rightarrow> bool" where
  "right_answer decode es req res \<longleftrightarrow> (case request_key decode req of
       Inl refusal \<Rightarrow> res = refusal
     | Inr key \<Rightarrow> (\<exists>t result. Settles t key result \<in> set es \<and>
         (case result of
            Inl _ \<Rightarrow> res = plain 502 []
          | Inr None \<Rightarrow> res = plain 404 [(''x-cache'', ''MISS'')]
          | Inr (Some obj) \<Rightarrow> res = send req obj ''MISS'' \<or> res = send req obj ''HIT'')))"

text \<open>\<open>answered\<close> are the requests the responses belong to, in the order of the responses.\<close>

definition all_answered ::
  "(string \<Rightarrow> string option) \<Rightarrow> edge_event list \<Rightarrow> edge_request multiset \<Rightarrow> edge \<Rightarrow> bool" where
  "all_answered decode es R st \<longleftrightarrow> (\<exists>answered.
     list_all2 (\<lambda>req sent. fst sent = eq_id req \<and> right_answer decode es req (snd sent)) answered (ed_sent st)
     \<and> mset answered + mset (waiting st) = R)"

definition edge_ok ::
  "(string \<Rightarrow> string option) \<Rightarrow> edge_options \<Rightarrow> edge_event list \<Rightarrow> edge_request multiset \<Rightarrow> edge \<Rightarrow> bool" where
  "edge_ok decode o' es R st \<longleftrightarrow>
     distinct (map fst (ed_cache st))
     \<and> eg_cachedBytes (ed_stats st) = total_bytes (ed_cache st)
     \<and> total_bytes (ed_cache st) \<le> max_bytes o'
     \<and> (\<forall>kv\<in>set (ed_cache st). from_log (log_of es) o' kv)
     \<and> distinct (map fst (ed_inflight st))
     \<and> (\<forall>kv\<in>set (ed_inflight st). \<forall>req\<in>set (snd kv). request_key decode req = Inr (fst kv))
     \<and> all_answered decode es R st"

lemma log_of_append: "log_of (es @ es') = log_of es @ log_of es'"
  by (simp add: log_of_def List.map_filter_def)

lemma log_of_set: "(t, key, obj) \<in> set (log_of es) \<longleftrightarrow> Settles t key (Inr (Some obj)) \<in> set es"
  by (induction es)
    (auto simp: log_of_def List.map_filter_def split: edge_event.splits sum.splits option.splits)

lemma right_answer_mono:
  "right_answer decode es req res \<Longrightarrow> right_answer decode (es @ es') req res"
  unfolding right_answer_def by (cases "request_key decode req") (simp, simp, blast)

lemma from_log_mono: "from_log lg o' kv \<Longrightarrow> set lg \<subseteq> set lg' \<Longrightarrow> from_log lg' o' kv"
  by (force simp: from_log_def)

lemma edge_ok_mono: "edge_ok decode o' es R st \<Longrightarrow> edge_ok decode o' (es @ es') R st"
proof -
  assume ok: "edge_ok decode o' es R st"
  obtain answered where "list_all2 (\<lambda>req sent. fst sent = eq_id req \<and> right_answer decode es req (snd sent))
      answered (ed_sent st)" and m: "mset answered + mset (waiting st) = R"
    using ok by (auto simp: edge_ok_def all_answered_def)
  from list_all2_mono [OF this(1)]
  have "list_all2 (\<lambda>req sent. fst sent = eq_id req \<and> right_answer decode (es @ es') req (snd sent))
      answered (ed_sent st)"
    by (simp add: right_answer_mono)
  with m have "all_answered decode (es @ es') R st" by (auto simp: all_answered_def)
  with ok show ?thesis by (auto simp: edge_ok_def log_of_append intro: from_log_mono)
qed

lemma total_bytes_remove:
  assumes "distinct (map fst c)" and "map_of c key = Some e"
  shows "total_bytes (filter (\<lambda>kv. fst kv \<noteq> key) c) = total_bytes c - body_length e"
  using assms
proof (induction c)
  case Nil
  then show ?case by simp
next
  case (Cons kv c)
  show ?case
  proof (cases "fst kv = key")
    case True
    with Cons.prems(1) have "filter (\<lambda>kv. fst kv \<noteq> key) c = c"
      by (auto simp: filter_id_conv image_iff)
    with True Cons.prems(2) show ?thesis by (cases kv) simp
  next
    case False
    with Cons show ?thesis by (cases kv) auto
  qed
qed

lemma body_length_nonneg: "0 \<le> body_length e"
  by (simp add: body_length_def)

lemma edge_drop_ok:
  assumes "edge_ok decode o' es R st"
  shows "edge_ok decode o' es R (edge_drop key st)" and "key \<notin> fst ` set (ed_cache (edge_drop key st))"
    and "ed_inflight (edge_drop key st) = ed_inflight st" and "ed_sent (edge_drop key st) = ed_sent st"
proof -
  show "ed_inflight (edge_drop key st) = ed_inflight st" "ed_sent (edge_drop key st) = ed_sent st"
    by (auto simp: edge_drop_def split: option.splits)
  show "key \<notin> fst ` set (ed_cache (edge_drop key st))"
    by (auto simp: edge_drop_def map_of_eq_None_iff split: option.splits)
  show "edge_ok decode o' es R (edge_drop key st)"
  proof (cases "map_of (ed_cache st) key")
    case None
    with assms show ?thesis by (simp add: edge_drop_def)
  next
    case (Some e)
    have "total_bytes (filter (\<lambda>kv. fst kv \<noteq> key) (ed_cache st)) = total_bytes (ed_cache st) - body_length e"
      by (rule total_bytes_remove) (use assms Some in \<open>simp_all add: edge_ok_def\<close>)
    with assms Some body_length_nonneg [of e] show ?thesis
      by (auto simp: edge_drop_def edge_ok_def all_answered_def waiting_def distinct_map_filter)
  qed
qed

lemma edge_store_ok:
  assumes ok: "edge_ok decode o' es R st" and pos: "0 \<le> max_bytes o'" and new: "from_log (log_of es) o' (key, e)"
  shows "\<exists>st'. edge_store o' key e st = Some st' \<and> edge_ok decode o' es R st'
    \<and> ed_inflight st' = ed_inflight st \<and> ed_sent st' = ed_sent st"
proof -
  let ?st1 = "edge_drop key st"
  let ?c = "ed_cache ?st1 @ [(key, e)]"
  note D = edge_drop_ok [OF ok, of key]
  have "eg_cachedBytes (ed_stats ?st1) + body_length e = total_bytes ?c"
    using D(1) by (simp add: edge_ok_def)
  from evict_spec [OF this pos, of "eg_evictions (ed_stats ?st1)"] obtain k where
      ev: "evict (max_bytes o') ?c (eg_cachedBytes (ed_stats ?st1) + body_length e)
        (eg_evictions (ed_stats ?st1)) = Some (drop k ?c, total_bytes (drop k ?c), eg_evictions (ed_stats ?st1) + k)"
      and le: "total_bytes (drop k ?c) \<le> max_bytes o'" by blast
  have "distinct (map fst ?c)" using D(1,2) by (auto simp: edge_ok_def)
  then have "distinct (map fst (drop k ?c))" by (metis distinct_drop drop_map)
  moreover have "\<forall>kv\<in>set (drop k ?c). from_log (log_of es) o' kv"
    using D(1) new by (auto simp: edge_ok_def dest!: in_set_dropD)
  moreover define c where "c = drop k ?c"
  ultimately have c: "distinct (map fst c)" "\<forall>kv\<in>set c. from_log (log_of es) o' kv" "total_bytes c \<le> max_bytes o'"
    using le by simp_all
  have "edge_store o' key e st = Some (?st1\<lparr>ed_cache := c, ed_stats := (ed_stats ?st1)\<lparr>
      eg_cachedBytes := total_bytes c, eg_evictions := eg_evictions (ed_stats ?st1) + k\<rparr>\<rparr>)"
    unfolding edge_store_def Let_def ev by (simp add: c_def)
  with c D(1,3,4) show ?thesis
    by (simp add: edge_ok_def all_answered_def waiting_def)
qed

section \<open>Every event keeps it\<close>

lemma edge_ok_reply:
  assumes "edge_ok decode o' es R st" and "right_answer decode es req res"
  shows "edge_ok decode o' es (add_mset req R) (reply req res st)"
proof -
  let ?P = "\<lambda>req sent. fst sent = eq_id req \<and> right_answer decode es req (snd sent)"
  obtain answered where a: "list_all2 ?P answered (ed_sent st)" "mset answered + mset (waiting st) = R"
    using assms(1) by (auto simp: edge_ok_def all_answered_def)
  have "list_all2 ?P (answered @ [req]) (ed_sent (reply req res st))"
    using a(1) assms(2) by (auto simp: reply_def intro!: list_all2_appendI)
  moreover have "mset (answered @ [req]) + mset (waiting (reply req res st)) = add_mset req R"
    using a(2) by (auto simp: reply_def waiting_def)
  ultimately have "all_answered decode es (add_mset req R) (reply req res st)"
    unfolding all_answered_def by blast
  with assms(1) show ?thesis by (simp add: edge_ok_def reply_def)
qed

lemma waiting_join:
  assumes "distinct (map fst xs)" and "map_of xs key = Some ws"
  shows "mset (concat (map snd (map (\<lambda>(k, v). if k = key then (k, v @ [req]) else (k, v)) xs)))
    = add_mset req (mset (concat (map snd xs)))"
  using assms
proof (induction xs)
  case Nil
  then show ?case by simp
next
  case (Cons kv xs)
  obtain k v where kv: "kv = (k, v)" by force
  show ?case
  proof (cases "k = key")
    case True
    with Cons.prems(1) have "map (\<lambda>(k, v). if k = key then (k, v @ [req]) else (k, v)) xs = xs"
      by (intro map_idI) (auto simp: kv image_iff)
    with True show ?thesis by (simp add: kv)
  next
    case False
    with Cons show ?thesis by (simp add: kv)
  qed
qed

text \<open>A change of the waiting requests adds them to those that arrived.\<close>

lemma all_answered_waits:
  assumes "all_answered decode es R st" and "ed_sent st' = ed_sent st"
    and "mset (waiting st') = mset (waiting st) + W"
  shows "all_answered decode es (R + W) st'"
  using assms by (auto simp: all_answered_def ac_simps)

lemma edge_miss_ok:
  assumes ok: "edge_ok decode o' es R st" and key: "request_key decode req = Inr key"
  shows "edge_ok decode o' es (add_mset req R) (edge_miss key req st)"
proof (cases "map_of (ed_inflight st) key")
  case None
  then have "key \<notin> fst ` set (ed_inflight st)" by (simp add: map_of_eq_None_iff)
  moreover have "all_answered decode es (R + {#req#}) (edge_miss key req st)"
    using ok None by (intro all_answered_waits [of _ _ _ st])
      (auto simp: edge_ok_def edge_miss_def waiting_def Let_def)
  ultimately show ?thesis
    using ok None key by (auto simp: edge_miss_def edge_ok_def Let_def)
next
  case (Some ws)
  let ?join = "map (\<lambda>(k, v). if k = key then (k, v @ [req]) else (k, v)) (ed_inflight st)"
  have m: "map fst ?join = map fst (ed_inflight st)"
    by (auto simp: comp_def split: prod.splits)
  have "\<forall>kv\<in>set ?join. \<forall>req\<in>set (snd kv). request_key decode req = Inr (fst kv)"
    using ok key by (auto simp: edge_ok_def split: if_splits)
  moreover have "all_answered decode es (R + {#req#}) (edge_miss key req st)"
    using ok waiting_join [of "ed_inflight st" key ws req] Some
    by (intro all_answered_waits [of _ _ _ st])
      (simp_all add: edge_ok_def edge_miss_def waiting_def Let_def del: map_map)
  ultimately show ?thesis
    using ok Some m by (simp add: edge_miss_def edge_ok_def Let_def del: map_map)
qed

lemma request_key_Inr: "request_key decode req = Inr key \<Longrightarrow> served_key key"
  by (auto simp: request_key_def served_key_def Let_def split: option.splits if_splits)

lemma on_request_ok:
  assumes ok: "edge_ok decode o' es R st" and pos: "0 \<le> max_bytes o'"
  shows "\<exists>st'. on_request decode o' now req st = Some st' \<and> edge_ok decode o' es (add_mset req R) st'"
proof (cases "request_key decode req")
  case (Inl res)
  with edge_ok_reply [OF ok] show ?thesis by (simp add: on_request_def right_answer_def)
next
  case (Inr key)
  show ?thesis
  proof (cases "map_of (ed_cache st) key")
    case None
    with Inr edge_miss_ok [OF ok Inr] show ?thesis by (simp add: on_request_def)
  next
    case (Some e)
    then have lge: "from_log (log_of es) o' (key, e)" using ok by (auto simp: edge_ok_def dest: map_of_SomeD)
    then have ra: "right_answer decode es req (send req (en_obj e) ''HIT'')"
      using Inr by (force simp: from_log_def right_answer_def log_of_set)
    let ?st = "st\<lparr>ed_stats := (ed_stats st)\<lparr>eg_hits := eg_hits (ed_stats st) + 1\<rparr>\<rparr>"
    have "edge_ok decode o' es R ?st" using ok by (simp add: edge_ok_def all_answered_def waiting_def)
    from edge_store_ok [OF this pos lge] obtain st' where "edge_store o' key e ?st = Some st'"
      and "edge_ok decode o' es R st'" by blast
    with Inr Some ra edge_miss_ok [OF edge_drop_ok(1) [OF ok] Inr] show ?thesis
      by (auto simp: on_request_def intro: edge_ok_reply)
  qed
qed

lemma after_fetch_ok:
  assumes ok: "edge_ok decode o' es R st" and pos: "0 \<le> max_bytes o'"
    and logged: "Settles now key result \<in> set es" and key: "request_key decode req = Inr key"
  shows "\<exists>st'. after_fetch o' now key result req st = Some st' \<and> edge_ok decode o' es (add_mset req R) st'"
proof (cases "\<exists>obj. result = Inr (Some obj)")
  case False
  then consider e where "result = Inl e" | "result = Inr None"
    by (cases result; cases "projr result") auto
  then show ?thesis
  proof cases
    case (1 e)
    with logged key have "right_answer decode es req (plain 502 [])"
      by (force simp: right_answer_def)
    with 1 edge_ok_reply [OF ok] show ?thesis by (simp add: after_fetch_def)
  next
    case 2
    with logged key have "right_answer decode es req (plain 404 [(''x-cache'', ''MISS'')])"
      by (force simp: right_answer_def)
    with 2 edge_ok_reply [OF ok] show ?thesis by (simp add: after_fetch_def)
  qed
next
  case True
  then obtain obj where obj: "result = Inr (Some obj)" by blast
  let ?ttl = "cacheableSeconds (so_cacheControl obj)"
  let ?e = "\<lparr>en_obj = obj, en_expiresAt = of_int now + ?ttl * 1000\<rparr>"
  have lg: "(now, key, obj) \<in> set (log_of es)" using logged obj by (simp add: log_of_set)
  have ra: "right_answer decode es req (send req obj ''MISS'')"
    using logged key obj by (force simp: right_answer_def)
  show ?thesis
  proof (cases "0 < ?ttl \<and> int (length (so_body obj)) \<le> max_object_bytes o'")
    case True
    then have "from_log (log_of es) o' (key, ?e)"
      using lg by (force simp: from_log_def body_length_def)
    from edge_store_ok [OF ok pos this] True obj ra show ?thesis
      by (auto simp: after_fetch_def Let_def intro: edge_ok_reply)
  next
    case False
    with obj edge_ok_reply [OF ok ra] show ?thesis by (auto simp: after_fetch_def Let_def)
  qed
qed

lemma resume_waiters_ok:
  assumes "edge_ok decode o' es R st" and "0 \<le> max_bytes o'"
    and "Settles now key result \<in> set es" and "\<forall>req\<in>set reqs. request_key decode req = Inr key"
  shows "\<exists>st'. resume_waiters o' now key result reqs st = Some st' \<and> edge_ok decode o' es (R + mset reqs) st'"
  using assms(1,4)
proof (induction reqs arbitrary: R st)
  case Nil
  then show ?case by simp
next
  case (Cons req reqs)
  then obtain st1 where s1: "after_fetch o' now key result req st = Some st1"
      "edge_ok decode o' es (add_mset req R) st1"
    using after_fetch_ok [OF Cons.prems(1) assms(2,3), of req] by auto
  with Cons.IH [OF s1(2)] Cons.prems(2) show ?case by simp
qed

lemma waiting_remove:
  assumes "distinct (map fst xs)" and "map_of xs key = Some ws"
  shows "mset (concat (map snd (filter (\<lambda>kv. fst kv \<noteq> key) xs))) + mset ws = mset (concat (map snd xs))"
  using assms
proof (induction xs)
  case Nil
  then show ?case by simp
next
  case (Cons kv xs)
  obtain k v where kv: "kv = (k, v)" by force
  show ?case
  proof (cases "k = key")
    case True
    with Cons.prems(1) have "filter (\<lambda>kv. fst kv \<noteq> key) xs = xs"
      by (auto simp: kv filter_id_conv image_iff)
    with True Cons.prems(2) show ?thesis by (simp add: kv)
  next
    case False
    with Cons show ?thesis by (simp add: kv)
  qed
qed

lemma on_settled_ok:
  assumes ok: "edge_ok decode o' es R st" and pos: "0 \<le> max_bytes o'"
    and logged: "Settles now key result \<in> set es"
  shows "\<exists>st'. on_settled o' now key result st = Some st' \<and> edge_ok decode o' es R st'"
proof (cases "map_of (ed_inflight st) key")
  case None
  with ok show ?thesis by (simp add: on_settled_def)
next
  case (Some ws)
  let ?st = "st\<lparr>ed_inflight := filter (\<lambda>kv. fst kv \<noteq> key) (ed_inflight st)\<rparr>"
  have w: "mset (waiting ?st) + mset ws = mset (waiting st)"
    using waiting_remove [of "ed_inflight st" key ws] ok Some by (simp add: waiting_def edge_ok_def)
  obtain answered where a: "list_all2 (\<lambda>req sent. fst sent = eq_id req \<and> right_answer decode es req (snd sent))
      answered (ed_sent st)" "mset answered + mset (waiting st) = R"
    using ok by (auto simp: edge_ok_def all_answered_def)
  then have "all_answered decode es (mset answered + mset (waiting ?st)) ?st"
    by (auto simp: all_answered_def)
  then have ok': "edge_ok decode o' es (mset answered + mset (waiting ?st)) ?st"
    using ok by (auto simp: edge_ok_def distinct_map_filter)
  have "\<forall>req\<in>set ws. request_key decode req = Inr key"
    using ok Some by (auto simp: edge_ok_def dest!: map_of_SomeD)
  from resume_waiters_ok [OF ok' pos logged this] Some a(2) w show ?thesis
    by (simp add: on_settled_def add.assoc)
qed

section \<open>Runs\<close>

definition edge_run ::
  "(string \<Rightarrow> string option) \<Rightarrow> edge_options \<Rightarrow> edge_event list \<Rightarrow> edge option" where
  "edge_run decode o' es = fold (edge_step decode o') es (Some empty_edge)"

lemma edge_run_ok:
  assumes pos: "0 \<le> max_bytes o'"
  shows "\<exists>st. edge_run decode o' es = Some st \<and> edge_ok decode o' es (mset (arrived es)) st"
proof (induction es rule: rev_induct)
  case Nil
  show ?case
    using pos by (simp add: edge_run_def edge_ok_def all_answered_def empty_edge_def waiting_def
        arrived_def List.map_filter_def)
next
  case (snoc e es)
  then obtain st where st: "edge_run decode o' es = Some st" "edge_ok decode o' es (mset (arrived es)) st"
    by blast
  note ok = edge_ok_mono [OF st(2), of "[e]"]
  show ?case
  proof (cases e)
    case (Arrives now req)
    with on_request_ok [OF ok pos, of now req] st(1) show ?thesis
      by (simp add: edge_run_def arrived_def List.map_filter_def)
  next
    case (Settles now key result)
    with on_settled_ok [OF ok pos, of now key result] st(1) show ?thesis
      by (simp add: edge_run_def arrived_def List.map_filter_def)
  qed
qed

text \<open>
  C28. With a budget that is not negative the edge stays within its memory and answers every
  request with an answer of its own: under every sequence of requests and origin answers its eviction
  loop ends, the byte count is that of the cached bodies and never above the budget, no cached body is
  above the object limit, and there is at most one fetch in flight per key. The requests that arrived
  are, each exactly once, those answered, in the order of the responses, and those that wait for the
  fetch of their own key; a response carries the id of its request and is the refusal of that request
  or what the origin answered for that request's key.
\<close>

theorem edge_is_bounded:
  assumes "0 \<le> max_bytes opts"
  shows "\<exists>st answered. edge_run decode opts es = Some st
    \<and> eg_cachedBytes (ed_stats st) = sum_list (map (\<lambda>kv. int (length (so_body (en_obj (snd kv))))) (ed_cache st))
    \<and> eg_cachedBytes (ed_stats st) \<le> max_bytes opts
    \<and> (\<forall>kv\<in>set (ed_cache st). int (length (so_body (en_obj (snd kv)))) \<le> max_object_bytes opts)
    \<and> distinct (map fst (ed_cache st)) \<and> distinct (map fst (ed_inflight st))
    \<and> mset (answered @ concat (map snd (ed_inflight st))) = mset (arrived es)
    \<and> map fst (ed_sent st) = map eq_id answered
    \<and> (\<forall>(req, sent)\<in>set (zip answered (ed_sent st)). right_answer decode es req (snd sent))
    \<and> (\<forall>(key, reqs)\<in>set (ed_inflight st). \<forall>req\<in>set reqs. request_key decode req = Inr key)"
proof -
  obtain st where run: "edge_run decode opts es = Some st"
    and ok: "edge_ok decode opts es (mset (arrived es)) st"
    using edge_run_ok [OF assms] by blast
  obtain answered where a: "list_all2 (\<lambda>req sent. fst sent = eq_id req \<and> right_answer decode es req (snd sent))
      answered (ed_sent st)" and m: "mset answered + mset (waiting st) = mset (arrived es)"
    using ok by (auto simp: edge_ok_def all_answered_def)
  have "map fst (ed_sent st) = map eq_id answered"
    using a by (induction rule: list_all2_induct) simp_all
  moreover have "\<forall>(req, sent)\<in>set (zip answered (ed_sent st)). right_answer decode es req (snd sent)"
    using a by (auto simp: list_all2_iff)
  moreover have "\<forall>(key, reqs)\<in>set (ed_inflight st). \<forall>req\<in>set reqs. request_key decode req = Inr key"
    using ok by (auto simp: edge_ok_def)
  moreover have "int (length (so_body (en_obj (snd kv)))) \<le> max_object_bytes opts"
    if "kv \<in> set (ed_cache st)" for kv
    using ok that by (auto simp: edge_ok_def from_log_def body_length_def)
  ultimately show ?thesis
    using run ok m by (intro exI [of _ st] exI [of _ answered])
      (simp add: edge_ok_def total_bytes_def body_length_def waiting_def)
qed

text \<open>
  C40. A hit is fresh and public. With a budget that is not negative, a request answered from the
  cache has a key under \<open>assets/\<close> without a \<open>..\<close> segment, and the answer is an object the origin
  returned for that very key, whose own Cache-Control allowed shared caching and has not run out at
  the time of the request.
\<close>

theorem hit_is_fresh:
  assumes "0 \<le> max_bytes opts" and "edge_run decode opts es = Some st"
    and "on_request decode opts now req st = Some st'"
    and "eg_hits (ed_stats st') = eg_hits (ed_stats st) + 1"
  shows "\<exists>key t obj. request_key decode req = Inr key \<and> served_key key
    \<and> Settles t key (Inr (Some obj)) \<in> set es
    \<and> 0 < cacheableSeconds (so_cacheControl obj)
    \<and> of_int now < of_int t + cacheableSeconds (so_cacheControl obj) * 1000
    \<and> ed_sent st' = ed_sent st @ [(eq_id req, send req obj ''HIT'')]"
proof -
  have ok: "edge_ok decode opts es (mset (arrived es)) st"
    using edge_run_ok [OF assms(1), of decode es] assms(2) by auto
  have same_hits: "eg_hits (ed_stats (edge_miss k r s)) = eg_hits (ed_stats s)"
      "eg_hits (ed_stats (edge_drop k s)) = eg_hits (ed_stats s)" for k r s
    by (auto simp: edge_miss_def Let_def edge_drop_def split: option.splits)
  obtain key where k: "request_key decode req = Inr key"
    using assms(3,4) by (cases "request_key decode req") (auto simp: on_request_def reply_def)
  obtain e where e: "map_of (ed_cache st) key = Some e" and fresh: "is_fresh now e"
    and st': "map_option (reply req (send req (en_obj e) ''HIT''))
        (edge_store opts key e (st\<lparr>ed_stats := (ed_stats st)\<lparr>eg_hits := eg_hits (ed_stats st) + 1\<rparr>\<rparr>)) = Some st'"
    using assms(3,4) k by (auto simp: on_request_def same_hits split: option.splits if_splits)
  have lg: "from_log (log_of es) opts (key, e)" using ok e by (auto simp: edge_ok_def dest: map_of_SomeD)
  let ?st = "st\<lparr>ed_stats := (ed_stats st)\<lparr>eg_hits := eg_hits (ed_stats st) + 1\<rparr>\<rparr>"
  have "edge_ok decode opts es (mset (arrived es)) ?st"
    using ok by (simp add: edge_ok_def all_answered_def waiting_def)
  from edge_store_ok [OF this assms(1) lg] st' have
    sent: "ed_sent st' = ed_sent st @ [(eq_id req, send req (en_obj e) ''HIT'')]"
    by (auto simp: reply_def)
  from lg obtain t obj where lg': "(t, key, obj) \<in> set (log_of es)" "en_obj e = obj"
      "0 < cacheableSeconds (so_cacheControl obj)"
      "en_expiresAt e = of_int t + cacheableSeconds (so_cacheControl obj) * 1000"
    by (auto simp: from_log_def)
  have "Settles t key (Inr (Some obj)) \<in> set es"
    using lg'(1) by (simp add: log_of_set)
  with k request_key_Inr [OF k] lg' fresh sent show ?thesis
    by (auto simp: is_fresh_def)
qed

section \<open>A concrete run\<close>

definition asset_request :: "nat \<Rightarrow> edge_request" where
  "asset_request i = \<lparr>eq_id = i, eq_method = ''GET'', eq_url = Some ''/assets/a.css?v=1'', eq_if_none_match = None\<rparr>"

definition css_object :: StoredObject where
  "css_object = \<lparr>so_body = [1, 2, 3], so_contentType = Some ''text/css'', so_cacheControl = Some ''public, max-age=9'',
     so_etag = Some ''x''\<rparr>"

definition small_edge :: edge_options where
  "small_edge = \<lparr>eo_maxBytes = Some 4, eo_maxObjectBytes = None\<rparr>"

abbreviation two_requests :: "edge_event list" where
  "two_requests \<equiv> [Arrives 0 (asset_request 1), Arrives 1 (asset_request 2),
     Settles 2 ''assets/a.css'' (Inr (Some css_object))]"

lemma edge_is_bounded_witness:
  "\<exists>st. edge_run Some small_edge two_requests = Some st \<and> eg_cachedBytes (ed_stats st) \<le> 4"
  using edge_is_bounded [of small_edge Some two_requests] by (auto simp: small_edge_def max_bytes_def)

lemma css_ttl: "cacheableSeconds (so_cacheControl css_object) = 9"
proof -
  have "map js_trim (js_split (CHR '','') (js_toLowerCase ''public, max-age=9'')) = [''public'', ''max-age=9'']"
      "List.find (js_startsWith ''s-maxage='') [''public'', ''max-age=9''] = None"
      "List.find (js_startsWith ''max-age='') [''public'', ''max-age=9''] = Some ''max-age=9''"
      "directive_value ''max-age=9'' = Some (show_nat 9)"
    by code_simp+
  then show ?thesis
    by (simp add: cacheableSeconds_def css_object_def Let_def js_Number_opt_def js_Number_show_nat)
qed

lemma asset_key: "request_key Some (asset_request i) = Inr ''assets/a.css''"
proof -
  have "hd (js_split (CHR ''?'') ''/assets/a.css?v=1'') = ''/assets/a.css''"
      "dropWhile (\<lambda>c. c = CHR ''/'') ''/assets/a.css'' = ''assets/a.css''"
      "js_startsWith ''assets/'' ''assets/a.css''" "''..'' \<notin> set (js_split (CHR ''/'') ''assets/a.css'')"
    by code_simp+
  then show ?thesis by (simp add: request_key_def asset_request_def)
qed

lemma two_requests_served:
  "edge_run Some small_edge two_requests = Some (the (edge_run Some small_edge two_requests))"
  "on_request Some small_edge 5 (asset_request 3) (the (edge_run Some small_edge two_requests)) =
   Some (the (on_request Some small_edge 5 (asset_request 3) (the (edge_run Some small_edge two_requests))))"
  "eg_hits (ed_stats (the (on_request Some small_edge 5 (asset_request 3)
     (the (edge_run Some small_edge two_requests))))) =
   eg_hits (ed_stats (the (edge_run Some small_edge two_requests))) + 1"
proof -
  have "int (length (so_body css_object)) = 3" "max_bytes small_edge = 4" "max_object_bytes small_edge = 4"
    by (simp_all add: css_object_def small_edge_def max_bytes_def max_object_bytes_def EDGE_MAX_OBJECT_BYTES_def)
  note run = this css_ttl asset_key edge_run_def on_request_def on_settled_def edge_miss_def empty_edge_def
    after_fetch_def edge_store_def edge_drop_def body_length_def reply_def is_fresh_def Let_def
  show "edge_run Some small_edge two_requests = Some (the (edge_run Some small_edge two_requests))"
    by (simp add: run)
  show "on_request Some small_edge 5 (asset_request 3) (the (edge_run Some small_edge two_requests)) =
     Some (the (on_request Some small_edge 5 (asset_request 3) (the (edge_run Some small_edge two_requests))))"
    by (simp add: run)
  show "eg_hits (ed_stats (the (on_request Some small_edge 5 (asset_request 3)
       (the (edge_run Some small_edge two_requests))))) =
     eg_hits (ed_stats (the (edge_run Some small_edge two_requests))) + 1"
    by (simp add: run)
qed

lemma hit_is_fresh_witness:
  "\<exists>key t obj. Settles t key (Inr (Some obj)) \<in> set two_requests \<and> served_key key"
  using hit_is_fresh [OF _ two_requests_served] by (auto simp: small_edge_def max_bytes_def)

end
