(* ===== verification/Redis.thy ===== *)
theory Redis
  imports JsValues Prelude
begin

text \<open>
  The keyspace of a Redis instance, with the commands the program's clients and scripts issue: a
  key holds a value and perhaps the millisecond at which it expires. The program uses two
  instances, one for the cache (\<open>REDIS_URL\<close>) and one for sessions and rate limits
  (\<open>REDIS_QUEUE_URL\<close>); each component has its own key prefix and its own type of value. A script
  runs alone and at one instant. What every client relies on is the locale \<open>expiring_store\<close>.
\<close>

section \<open>Keys with an expiry\<close>

type_synonym 'v keyspace = "string \<Rightarrow> ('v \<times> int option) option"

definition empty_keyspace :: "'v keyspace" where
  "empty_keyspace = (\<lambda>k. None)"

definition not_expired :: "int \<Rightarrow> int option \<Rightarrow> bool" where
  "not_expired now ex = (case ex of None \<Rightarrow> True | Some t \<Rightarrow> now \<le> t)"

text \<open>\<open>GET\<close>, \<open>EXISTS\<close> and their like see a key that has not expired.\<close>

definition r_get :: "int \<Rightarrow> 'v keyspace \<Rightarrow> string \<Rightarrow> 'v option" where
  "r_get now ks k = (case ks k of
       Some (v, ex) \<Rightarrow> if not_expired now ex then Some v else None
     | None \<Rightarrow> None)"

text \<open>A write with a time to live (\<open>SET ... PX\<close>, or a write followed by \<open>PEXPIRE\<close>).\<close>

definition r_put :: "int \<Rightarrow> string \<Rightarrow> 'v \<Rightarrow> int \<Rightarrow> 'v keyspace \<Rightarrow> 'v keyspace" where
  "r_put now k v ttl ks = ks(k \<mapsto> (v, Some (now + ttl)))"

text \<open>A write that leaves the expiry of a live key as it is (\<open>ZREMRANGEBYSCORE\<close>).\<close>

definition r_modify :: "int \<Rightarrow> string \<Rightarrow> 'v \<Rightarrow> 'v keyspace \<Rightarrow> 'v keyspace" where
  "r_modify now k v ks = (case ks k of
       Some (_, ex) \<Rightarrow> ks(k \<mapsto> (v, if not_expired now ex then ex else None))
     | None \<Rightarrow> ks(k \<mapsto> (v, None)))"

definition r_del :: "string \<Rightarrow> 'v keyspace \<Rightarrow> 'v keyspace" where
  "r_del k ks = ks(k := None)"

text \<open>\<open>SET k v PX ttl NX\<close>\<close>

definition r_set_nx :: "int \<Rightarrow> string \<Rightarrow> 'v \<Rightarrow> int \<Rightarrow> 'v keyspace \<Rightarrow> bool \<times> 'v keyspace" where
  "r_set_nx now k v ttl ks =
     (if r_get now ks k = None then (True, r_put now k v ttl ks) else (False, ks))"

lemma r_get_empty [simp]: "r_get now empty_keyspace k = None"
  by (simp add: r_get_def empty_keyspace_def)

lemma r_get_put [simp]:
  "r_get now' (r_put now k v ttl ks) k' =
     (if k' = k then (if now' \<le> now + ttl then Some v else None) else r_get now' ks k')"
  by (simp add: r_get_def r_put_def not_expired_def)

lemma r_get_del [simp]: "r_get now (r_del k ks) k' = (if k' = k then None else r_get now ks k')"
  by (simp add: r_get_def r_del_def)

lemma r_get_modify [simp]:
  assumes "r_get now ks k = Some v0"
  shows "r_get now' (r_modify now k v ks) k' =
     (if k' = k then map_option (\<lambda>_. v) (r_get now' ks k) else r_get now' ks k')"
  using assms by (auto simp: r_get_def r_modify_def split: option.splits if_splits)

lemma r_get_fades:
  assumes "r_get now ks k = None" and "now \<le> now'"
  shows "r_get now' ks k = None"
  using assms by (auto simp: r_get_def not_expired_def split: option.splits if_splits)

lemma r_get_earlier:
  assumes "r_get now' ks k = Some v" and "now \<le> now'"
  shows "r_get now ks k = Some v"
  using assms by (auto simp: r_get_def not_expired_def split: option.splits if_splits)

section \<open>Commands over the wire\<close>

text \<open>\<open>Lost reached\<close>: the client sees an error; \<open>reached\<close> tells whether Redis ran the command.\<close>

datatype wire = Answered | Lost bool

definition redis_error :: exn where
  "redis_error = JsError ''Connection is closed.''"

definition command :: "wire \<Rightarrow> ('v keyspace \<Rightarrow> 'a \<times> 'v keyspace) \<Rightarrow> 'v keyspace \<Rightarrow> (exn + 'a) \<times> 'v keyspace" where
  "command w f ks = (case w of
       Answered \<Rightarrow> (Inr (fst (f ks)), snd (f ks))
     | Lost reached \<Rightarrow> (Inl redis_error, if reached then snd (f ks) else ks))"

lemma command_simps [simp]:
  "command Answered f ks = (Inr (fst (f ks)), snd (f ks))"
  "command (Lost False) f ks = (Inl redis_error, ks)"
  "command (Lost True) f ks = (Inl redis_error, snd (f ks))"
  by (simp_all add: command_def)

section \<open>What the clients rely on\<close>

text \<open>
  A store whose entries vanish with time: what is looked up was put and is not older than its time
  to live, and what has vanished stays away until it is put again.
\<close>

locale expiring_store =
  fixes look :: "int \<Rightarrow> 's \<Rightarrow> 'k \<Rightarrow> 'v option"
    and put :: "int \<Rightarrow> 'k \<Rightarrow> 'v \<Rightarrow> int \<Rightarrow> 's \<Rightarrow> 's"
    and remove :: "'k \<Rightarrow> 's \<Rightarrow> 's"
  assumes look_put: "look now' (put now k v ttl s) k' =
      (if k' = k then (if now' \<le> now + ttl then Some v else None) else look now' s k')"
    and look_remove: "look now (remove k s) k' = (if k' = k then None else look now s k')"
    and look_fades: "look now s k = None \<Longrightarrow> now \<le> now' \<Longrightarrow> look now' s k = None"
    and look_earlier: "look now' s k = Some v \<Longrightarrow> now \<le> now' \<Longrightarrow> look now s k = Some v"
begin

text \<open>Updating what is there and nothing else: the shape of \<open>TOUCH\<close> and of every guarded write.\<close>

definition renew :: "int \<Rightarrow> 'k \<Rightarrow> ('v \<Rightarrow> 'v) \<Rightarrow> int \<Rightarrow> 's \<Rightarrow> 's" where
  "renew now k f ttl s = (case look now s k of Some v \<Rightarrow> put now k (f v) ttl s | None \<Rightarrow> s)"

lemma renew_not_resurrect:
  assumes "look now s k = None" and "now \<le> now'" and "now' \<le> now''"
  shows "look now'' (renew now' k' f ttl s) k = None"
proof (cases "look now' s k'")
  case None
  with assms look_fades [of now s k now''] show ?thesis by (simp add: renew_def)
next
  case (Some v)
  with assms look_fades [of now s k now'] have "k \<noteq> k'" by auto
  with assms Some look_fades [of now s k now''] show ?thesis by (simp add: renew_def look_put)
qed

lemma renew_live:
  assumes "look now s k = Some v" and "now' \<le> now + ttl"
  shows "look now' (renew now k f ttl s) k = Some (f v)"
  using assms by (simp add: renew_def look_put)

lemma renew_other: "k' \<noteq> k \<Longrightarrow> look now' (renew now k f ttl s) k' = look now' s k'"
  by (simp add: renew_def look_put split: option.splits)

text \<open>A removed or expired entry is gone for every later renewal and removal of any key.\<close>

lemma gone_stays_gone:
  assumes "look now s k = None" and "sorted (now # map (\<lambda>(t, _, _, _). t) ops)"
    and "\<forall>op\<in>set ops. fst op \<le> now'" and "now \<le> now'"
  shows "look now' (fold (\<lambda>(t, k', f, ttl) s'. renew t k' f ttl s') ops s) k = None"
  using assms
proof (induction ops arbitrary: now s)
  case Nil
  then show ?case by (simp add: look_fades)
next
  case (Cons op ops)
  obtain t k' f ttl where op: "op = (t, k', f, ttl)" by (cases op)
  have "look t (renew t k' f ttl s) k = None"
    by (rule renew_not_resurrect [OF Cons.prems(1)]) (use Cons.prems(2) op in auto)
  with Cons.IH [of t "renew t k' f ttl s"] Cons.prems op show ?case by auto
qed

end

interpretation rk: expiring_store r_get r_put r_del
  by unfold_locales (auto intro: r_get_fades r_get_earlier)

end
