(* ===== verification/RateLimit.thy ===== *)
theory RateLimit
  imports Redis
begin

text \<open>
  The rate limit (\<open>src/rate-limit/*\<close>): the sliding-window script over the sorted set of a key, the
  limiter that runs it and the guard in front of the handlers. A sorted set is a list of members
  with their scores. \<open>TIME\<close> and the random member are arguments.
\<close>

section \<open>Configuration\<close>

record rate_limit_config =
  rl_limit :: int
  rl_windowMs :: int

definition positiveInt :: "string option \<Rightarrow> int \<Rightarrow> int" where
  "positiveInt raw fallback =
     (let n = js_Number_opt raw in if js_isInteger n \<and> js_lt (Fin 0) n then js_int n else fallback)"

definition rateLimitConfigFromEnv :: "(string \<Rightarrow> string option) \<Rightarrow> rate_limit_config" where
  "rateLimitConfigFromEnv env = \<lparr>rl_limit = positiveInt (env ''RATE_LIMIT_LIMIT'') 60,
     rl_windowMs = positiveInt (env ''RATE_LIMIT_WINDOW_MS'') 60000\<rparr>"

section \<open>The script\<close>

type_synonym zset = "(string \<times> int) list"

definition zset_of :: "zset option \<Rightarrow> zset" where
  "zset_of z = (case z of Some xs \<Rightarrow> xs | None \<Rightarrow> [])"

text \<open>\<open>ZADD\<close> moves a member that is already there to its new score.\<close>

definition zadd :: "string \<Rightarrow> int \<Rightarrow> zset \<Rightarrow> zset" where
  "zadd m score z = upsert fst (m, score) z"

text \<open>\<open>ZRANGE key 0 0 WITHSCORES\<close>, the score of it: \<open>nil\<close> when the set is empty.\<close>

definition lowest_score :: "zset \<Rightarrow> int option" where
  "lowest_score z = (case map snd z of [] \<Rightarrow> None | s # ss \<Rightarrow> Some (fold min ss s))"

record window_reply =
  wr_allowed :: int
  wr_remaining :: int
  wr_retryAfterMs :: int

text \<open>\<open>TIME\<close> answers with seconds and microseconds.\<close>

definition script_now :: "int \<times> int \<Rightarrow> int" where
  "script_now t = fst t * 1000 + snd t div 1000"

text \<open>\<open>ZREMRANGEBYSCORE key -inf (now - window)\<close>; a set left empty is no key any more.\<close>

definition zrem_up_to :: "int \<Rightarrow> string \<Rightarrow> int \<Rightarrow> zset keyspace \<Rightarrow> zset keyspace" where
  "zrem_up_to now key bound ks = (case r_get now ks key of
       None \<Rightarrow> ks
     | Some z \<Rightarrow>
         (let kept = filter (\<lambda>ms. bound < snd ms) z
          in if kept = [] then r_del key ks else r_modify now key kept ks))"

definition SLIDING_WINDOW ::
  "int \<times> int \<Rightarrow> string \<Rightarrow> int \<Rightarrow> int \<Rightarrow> string \<Rightarrow> zset keyspace
     \<Rightarrow> (exn + window_reply) \<times> zset keyspace" where
  "SLIDING_WINDOW t key window limit member ks =
     (let now = script_now t;
          ks1 = zrem_up_to now key (now - window) ks;
          z = zset_of (r_get now ks1 key);
          count = int (length z)
      in if count < limit
         then (Inr \<lparr>wr_allowed = 1, wr_remaining = limit - count - 1, wr_retryAfterMs = 0\<rparr>,
               r_put now key (zadd member now z) window ks1)
         else (case lowest_score z of
                 None \<Rightarrow> (Inl (JsError ''attempt to perform arithmetic on a nil value''), ks1)
               | Some s \<Rightarrow>
                   (Inr \<lparr>wr_allowed = 0, wr_remaining = 0, wr_retryAfterMs = s + window - now\<rparr>, ks1)))"

section \<open>The limiter\<close>

record rate_limit_decision =
  rd_allowed :: bool
  rd_remaining :: int
  rd_retryAfterMs :: int

text \<open>\<open>redis\<close> is what \<open>redis.eval\<close> does with the script: an error of the client or the script's run.\<close>

definition hit ::
  "rate_limit_config \<Rightarrow> exn option \<Rightarrow> int \<times> int \<Rightarrow> string \<Rightarrow> string \<Rightarrow> zset keyspace
     \<Rightarrow> (exn + rate_limit_decision) \<times> zset keyspace" where
  "hit cfg down t uuid key ks = (case down of
       Some e \<Rightarrow> (Inl e, ks)
     | None \<Rightarrow>
         (case SLIDING_WINDOW t key (rl_windowMs cfg) (rl_limit cfg) uuid ks of
            (Inl e, ks') \<Rightarrow> (Inl e, ks')
          | (Inr r, ks') \<Rightarrow> (Inr \<lparr>rd_allowed = (wr_allowed r = 1), rd_remaining = wr_remaining r,
              rd_retryAfterMs = wr_retryAfterMs r\<rparr>, ks')))"

section \<open>The guard\<close>

record limited_request =
  lq_route_path :: "string option"
  lq_path :: string
  lq_ip :: "string option"

definition limit_key :: "limited_request \<Rightarrow> string" where
  "limit_key req = ''rl:'' @ (case lq_route_path req of Some p \<Rightarrow> p | None \<Rightarrow> lq_path req) @ '':''
     @ (case lq_ip req of Some ip \<Rightarrow> ip | None \<Rightarrow> ''unknown'')"

definition ceil_seconds :: "int \<Rightarrow> int" where
  "ceil_seconds ms = - ((- ms) div 1000)"

text \<open>The answer of the guard with the headers it set.\<close>

definition canActivate ::
  "rate_limit_config \<Rightarrow> exn option \<Rightarrow> int \<times> int \<Rightarrow> string \<Rightarrow> limited_request \<Rightarrow> zset keyspace
     \<Rightarrow> ((exn + bool) \<times> (string \<times> string) list) \<times> zset keyspace" where
  "canActivate cfg down t uuid req ks =
     (case hit cfg down t uuid (limit_key req) ks of
        (Inl e, ks') \<Rightarrow> ((Inr True, []), ks')
      | (Inr d, ks') \<Rightarrow>
          (let headers = [(''RateLimit-Limit'', show_int (rl_limit cfg)),
                          (''RateLimit-Remaining'', show_int (rd_remaining d))]
           in if rd_allowed d then ((Inr True, headers), ks')
              else ((Inl (HttpException 429 ''Too Many Requests''),
                     headers @ [(''Retry-After'', show_int (max 1 (ceil_seconds (rd_retryAfterMs d))))]),
                    ks')))"

section \<open>The window as it is meant\<close>

text \<open>
  The abstract limiter remembers when each key was granted, for ever, and grants while fewer than
  \<open>limit\<close> grants lie in the window that ends now.
\<close>

type_synonym grants = "string \<Rightarrow> int list"

definition in_window :: "rate_limit_config \<Rightarrow> int \<Rightarrow> int list \<Rightarrow> int list" where
  "in_window cfg now ts = filter (\<lambda>t. now - rl_windowMs cfg < t) ts"

definition spec_hit ::
  "rate_limit_config \<Rightarrow> int \<Rightarrow> string \<Rightarrow> grants \<Rightarrow> rate_limit_decision \<times> grants" where
  "spec_hit cfg now key g =
     (let ws = in_window cfg now (g key); n = int (length ws)
      in if n < rl_limit cfg
         then (\<lparr>rd_allowed = True, rd_remaining = rl_limit cfg - n - 1, rd_retryAfterMs = 0\<rparr>,
               g(key := g key @ [now]))
         else (\<lparr>rd_allowed = False, rd_remaining = 0,
                rd_retryAfterMs = Min (set ws) + rl_windowMs cfg - now\<rparr>, g))"

text \<open>A run of hits: when, with which member, on which key.\<close>

type_synonym hit_event = "(int \<times> int) \<times> string \<times> string"

fun run_hits :: "rate_limit_config \<Rightarrow> hit_event list \<Rightarrow> zset keyspace \<Rightarrow> (exn + rate_limit_decision) list" where
  "run_hits cfg [] ks = []"
| "run_hits cfg ((t, uuid, key) # es) ks =
     (case hit cfg None t uuid key ks of (d, ks') \<Rightarrow> d # run_hits cfg es ks')"

fun spec_hits :: "rate_limit_config \<Rightarrow> hit_event list \<Rightarrow> grants \<Rightarrow> rate_limit_decision list" where
  "spec_hits cfg [] g = []"
| "spec_hits cfg ((t, uuid, key) # es) g =
     (case spec_hit cfg (script_now t) key g of (d, g') \<Rightarrow> d # spec_hits cfg es g')"

definition granted :: "hit_event list \<Rightarrow> (exn + rate_limit_decision) list \<Rightarrow> string \<Rightarrow> int list" where
  "granted es ds key = map (\<lambda>((t, _, _), _). script_now t)
     (filter (\<lambda>((_, _, k), d). k = key \<and> (case d of Inr r \<Rightarrow> rd_allowed r | Inl _ \<Rightarrow> False)) (zip es ds))"

section \<open>The script implements the window\<close>

lemma zset_of_simps [simp]: "zset_of None = []" "zset_of (Some z) = z"
  by (simp_all add: zset_of_def)

lemma zset_fades: "now \<le> now' \<Longrightarrow> set (zset_of (r_get now' ks k)) \<subseteq> set (zset_of (r_get now ks k))"
proof (cases "r_get now' ks k")
  case (Some z)
  assume "now \<le> now'"
  from r_get_earlier [OF Some this] Some show ?thesis by simp
qed simp

lemma zrem_up_to_get:
  assumes "now \<le> now'" and "bound \<le> bound'"
  shows "filter (\<lambda>ms. bound' < snd ms) (zset_of (r_get now' (zrem_up_to now key bound ks) k))
       = filter (\<lambda>ms. bound' < snd ms) (zset_of (r_get now' ks k))"
proof (cases "k = key \<and> r_get now ks key \<noteq> None")
  case False
  then show ?thesis by (auto simp: zrem_up_to_def Let_def split: option.splits)
next
  case True
  then obtain z where z: "r_get now ks key = Some z" by auto
  have sub: "filter (\<lambda>ms. bound' < snd ms) (filter (\<lambda>ms. bound < snd ms) z) = filter (\<lambda>ms. bound' < snd ms) z"
    using assms(2) by (auto intro!: filter_cong)
  show ?thesis
  proof (cases "r_get now' ks key")
    case None
    with True z show ?thesis by (simp add: zrem_up_to_def Let_def)
  next
    case (Some z')
    with r_get_earlier [OF this assms(1)] z have "z' = z" by simp
    with True z Some sub show ?thesis
      by (cases "filter (\<lambda>ms. bound < snd ms) z = []") (simp_all add: zrem_up_to_def Let_def)
  qed
qed

lemma zrem_up_to_now:
  "zset_of (r_get now (zrem_up_to now key bound ks) key)
     = filter (\<lambda>ms. bound < snd ms) (zset_of (r_get now ks key))"
proof (cases "r_get now ks key")
  case None
  then show ?thesis by (simp add: zrem_up_to_def)
next
  case (Some z)
  then show ?thesis by (cases "filter (\<lambda>ms. bound < snd ms) z = []") (simp_all add: zrem_up_to_def Let_def)
qed

lemma zrem_up_to_members:
  "set (zset_of (r_get now (zrem_up_to now key bound ks) k)) \<subseteq> set (zset_of (r_get now ks k))"
proof (cases "k = key")
  case False
  then have "r_get now (zrem_up_to now key bound ks) k = r_get now ks k"
    by (auto simp: zrem_up_to_def Let_def split: option.splits)
  then show ?thesis by simp
qed (auto simp: zrem_up_to_now)

lemma zadd_fresh: "m \<notin> fst ` set z \<Longrightarrow> zadd m s z = z @ [(m, s)]"
  by (simp add: zadd_def upsert_def)

lemma lowest_score_Min: "z \<noteq> [] \<Longrightarrow> lowest_score z = Some (Min (snd ` set z))"
proof -
  assume "z \<noteq> []"
  then obtain x xs where z: "z = x # xs" by (cases z) auto
  have "fold min (map snd xs) (snd x) = Min (set (snd x # map snd xs))"
    by (rule Min.set_eq_fold [symmetric])
  then show ?thesis by (simp add: z lowest_score_def)
qed

text \<open>
  The script's state stands for the grants so far: from now on, the set of a key holds the grants
  of the window, and every member in it has been used.
\<close>

definition stands_for ::
  "rate_limit_config \<Rightarrow> int \<Rightarrow> string set \<Rightarrow> zset keyspace \<Rightarrow> grants \<Rightarrow> bool" where
  "stands_for cfg now used ks g \<longleftrightarrow>
     (\<forall>key. (\<forall>t\<in>set (g key). t \<le> now) \<and> fst ` set (zset_of (r_get now ks key)) \<subseteq> used
       \<and> (\<forall>now'\<ge>now. map snd (filter (\<lambda>ms. now' - rl_windowMs cfg < snd ms) (zset_of (r_get now' ks key)))
            = in_window cfg now' (g key)))"

lemma stands_for_later:
  assumes "stands_for cfg now used ks g" and "now \<le> now'"
  shows "stands_for cfg now' used ks g"
proof -
  have "fst ` set (zset_of (r_get now' ks key)) \<subseteq> used" for key
  proof -
    have "fst ` set (zset_of (r_get now ks key)) \<subseteq> used" using assms(1) by (simp add: stands_for_def)
    then show ?thesis by (rule order_trans [OF image_mono [OF zset_fades [OF assms(2)]]])
  qed
  moreover have "\<forall>t\<in>set (g key). t \<le> now'" for key
    using assms by (fastforce simp: stands_for_def)
  moreover have "map snd (filter (\<lambda>ms. n - rl_windowMs cfg < snd ms) (zset_of (r_get n ks key)))
      = in_window cfg n (g key)" if "now' \<le> n" for n key
    using assms that by (simp add: stands_for_def)
  ultimately show ?thesis unfolding stands_for_def by blast
qed

lemma hit_refines:
  assumes st: "stands_for cfg now used ks g" and "0 < rl_limit cfg" and w: "0 < rl_windowMs cfg"
    and "uuid \<notin> used" and now: "script_now t = now"
  shows "\<exists>ks'. hit cfg None t uuid key ks = (Inr (fst (spec_hit cfg now key g)), ks')
    \<and> stands_for cfg now (insert uuid used) ks' (snd (spec_hit cfg now key g))"
proof -
  let ?w = "rl_windowMs cfg"
  let ?ks1 = "zrem_up_to now key (now - ?w) ks"
  let ?z = "zset_of (r_get now ?ks1 key)"
  have z: "map snd ?z = in_window cfg now (g key)"
    using st by (simp add: zrem_up_to_now stands_for_def)
  then have len: "length ?z = length (in_window cfg now (g key))" by (metis length_map)
  have st1: "stands_for cfg now used ?ks1 g"
    unfolding stands_for_def
  proof (intro allI conjI impI)
    fix k
    show "\<forall>t\<in>set (g k). t \<le> now" using st by (simp add: stands_for_def)
    show "fst ` set (zset_of (r_get now ?ks1 k)) \<subseteq> used"
    proof -
      have "fst ` set (zset_of (r_get now ks k)) \<subseteq> used" using st by (simp add: stands_for_def)
      then show ?thesis by (rule order_trans [OF image_mono [OF zrem_up_to_members]])
    qed
    fix now' assume "now \<le> now'"
    then show "map snd (filter (\<lambda>ms. now' - ?w < snd ms) (zset_of (r_get now' ?ks1 k))) = in_window cfg now' (g k)"
      using st by (simp add: zrem_up_to_get stands_for_def)
  qed
  show ?thesis
  proof (cases "int (length ?z) < rl_limit cfg")
    case True
    have fresh: "uuid \<notin> fst ` set ?z" using st1 assms(4) by (auto simp: stands_for_def)
    have "stands_for cfg now (insert uuid used) (r_put now key (?z @ [(uuid, now)]) ?w ?ks1) (g(key := g key @ [now]))"
      unfolding stands_for_def
    proof (intro allI conjI impI)
      fix k
      show "\<forall>t\<in>set ((g(key := g key @ [now])) k). t \<le> now" using st by (auto simp: stands_for_def)
      show "fst ` set (zset_of (r_get now (r_put now key (?z @ [(uuid, now)]) ?w ?ks1) k)) \<subseteq> insert uuid used"
        using st1 w by (auto simp: stands_for_def)
      fix now' assume n: "now \<le> now'"
      have ws: "in_window cfg now' (g key) = filter (\<lambda>t. now' - ?w < t) (map snd ?z)"
        unfolding z using n by (auto simp: in_window_def intro!: filter_cong)
      have late: "in_window cfg now' (g key @ [now]) = []" if "now + ?w < now'"
        using st that by (fastforce simp: in_window_def filter_empty_conv stands_for_def)
      show "map snd (filter (\<lambda>ms. now' - ?w < snd ms)
          (zset_of (r_get now' (r_put now key (?z @ [(uuid, now)]) ?w ?ks1) k)))
        = in_window cfg now' ((g(key := g key @ [now])) k)"
      proof (cases "k = key")
        case True
        show ?thesis
        proof (cases "now' \<le> now + ?w")
          case inside: True
          have "in_window cfg now' (g key @ [now]) = in_window cfg now' (g key) @ in_window cfg now' [now]"
            by (simp add: in_window_def)
          with True inside ws show ?thesis by (simp add: in_window_def filter_map comp_def)
        qed (use True late in simp)
      qed (use st1 n in \<open>simp add: stands_for_def\<close>)
    qed
    with True fresh show ?thesis
      by (simp add: hit_def SLIDING_WINDOW_def Let_def now spec_hit_def len zadd_fresh)
  next
    case False
    then have ne: "?z \<noteq> []" using assms(2) by auto
    have "snd ` set ?z = set (in_window cfg now (g key))" by (simp add: z [symmetric])
    moreover have "stands_for cfg now (insert uuid used) ?ks1 g" using st1 by (auto simp: stands_for_def)
    ultimately show ?thesis
      using False by (simp add: hit_def SLIDING_WINDOW_def Let_def now spec_hit_def len lowest_score_Min [OF ne])
  qed
qed

lemma stands_for_empty: "stands_for cfg now {} empty_keyspace (\<lambda>_. [])"
  by (simp add: stands_for_def in_window_def)

lemma run_hits_refine:
  assumes "stands_for cfg now used ks g" and "0 < rl_limit cfg" and "0 < rl_windowMs cfg"
    and "distinct (map (\<lambda>(_, uuid, _). uuid) es)" and "used \<inter> (\<lambda>(_, uuid, _). uuid) ` set es = {}"
    and "sorted (now # map (\<lambda>(t, _, _). script_now t) es)"
  shows "run_hits cfg es ks = map Inr (spec_hits cfg es g)"
  using assms
proof (induction es arbitrary: now used ks g)
  case Nil
  then show ?case by simp
next
  case (Cons e es)
  obtain t uuid key where e: "e = (t, uuid, key)" by (cases e)
  have st: "stands_for cfg (script_now t) used ks g"
    by (rule stands_for_later [OF Cons.prems(1)]) (use Cons.prems(6) e in simp)
  have "uuid \<notin> used" using Cons.prems(5) e by simp
  from hit_refines [OF st Cons.prems(2,3) this refl, of key]
  obtain ks' where "hit cfg None t uuid key ks = (Inr (fst (spec_hit cfg (script_now t) key g)), ks')"
    "stands_for cfg (script_now t) (insert uuid used) ks' (snd (spec_hit cfg (script_now t) key g))"
    by (elim exE conjE)
  moreover from this(2) have "run_hits cfg es ks' = map Inr (spec_hits cfg es (snd (spec_hit cfg (script_now t) key g)))"
    by (rule Cons.IH) (use Cons.prems e in auto)
  ultimately show ?case by (simp add: e split_beta)
qed

lemmas script_refines_window = run_hits_refine [OF stands_for_empty]

text \<open>
  C29. The script is the sliding window it is meant to be: over every sequence of hits, on any
  keys and by any pods, with Redis' clock never running backwards and fresh members, each decision,
  each remaining count and each waiting time is the one computed from the complete history of
  grants, although the script forgets what has left the window.
\<close>

theorem rate_limit_refines_window:
  assumes "0 < rl_limit cfg" and "0 < rl_windowMs cfg"
    and "distinct (map (\<lambda>(_, uuid, _). uuid) es)" and "sorted (map (\<lambda>(t, _, _). script_now t) es)"
  shows "run_hits cfg es empty_keyspace = map Inr (spec_hits cfg es (\<lambda>_. []))"
proof (cases es)
  case (Cons e es')
  then show ?thesis
    using assms by (intro script_refines_window [where now = "script_now (fst e)"]) (auto simp: split_beta)
qed simp

section \<open>The window is never overrun\<close>

lemma granted_simps [simp]:
  "granted [] ds key = []" "granted es [] key = []"
  "granted ((t, u, k) # es) (d # ds) key =
     (if k = key \<and> (case d of Inr r \<Rightarrow> rd_allowed r | Inl _ \<Rightarrow> False)
      then script_now t # granted es ds key else granted es ds key)"
  by (simp_all add: granted_def)

lemma length_filter_weaker:
  "(\<And>x. x \<in> set xs \<Longrightarrow> P x \<Longrightarrow> Q x) \<Longrightarrow> length (filter P xs) \<le> length (filter Q xs)"
  by (induction xs) (auto simp: le_SucI)

definition within_limit :: "rate_limit_config \<Rightarrow> int \<Rightarrow> int list \<Rightarrow> bool" where
  "within_limit cfg now ts \<longleftrightarrow> (\<forall>t\<in>set ts. t \<le> now)
     \<and> (\<forall>T. int (length (filter (\<lambda>t. T - rl_windowMs cfg < t \<and> t \<le> T) ts)) \<le> rl_limit cfg)"

lemma within_limit_spec_hit:
  assumes "\<forall>k. within_limit cfg now (g k)" and "now \<le> now'"
  shows "within_limit cfg now' (snd (spec_hit cfg now' key g) k)"
proof -
  have old: "\<forall>t\<in>set (g k). t \<le> now'" using assms by (fastforce simp: within_limit_def)
  have lim: "int (length (filter (\<lambda>t. T - rl_windowMs cfg < t \<and> t \<le> T) (g k))) \<le> rl_limit cfg" for T
    using assms(1) by (simp add: within_limit_def)
  show ?thesis
  proof (cases "k = key \<and> int (length (in_window cfg now' (g key))) < rl_limit cfg")
    case True
    have "int (length (filter (\<lambda>t. T - rl_windowMs cfg < t \<and> t \<le> T) (g k @ [now']))) \<le> rl_limit cfg" for T
    proof (cases "now' \<le> T")
      case late: True
      have "length (filter (\<lambda>t. T - rl_windowMs cfg < t \<and> t \<le> T) (g k)) \<le> length (in_window cfg now' (g k))"
        unfolding in_window_def by (rule length_filter_weaker) (use late in auto)
      with True late show ?thesis by simp
    qed (use lim in simp)
    with True old show ?thesis by (simp add: spec_hit_def Let_def within_limit_def)
  next
    case False
    with old lim show ?thesis by (auto simp: spec_hit_def Let_def within_limit_def)
  qed
qed

lemma spec_hits_within_limit:
  assumes "\<forall>k. within_limit cfg now (g k)" and "sorted (now # map (\<lambda>(t, _, _). script_now t) es)"
  shows "\<exists>now'. within_limit cfg now' (g key @ granted es (map Inr (spec_hits cfg es g)) key)"
  using assms
proof (induction es arbitrary: now g)
  case Nil
  then show ?case by auto
next
  case (Cons e es)
  obtain t uuid k where e: "e = (t, uuid, k)" by (cases e)
  let ?g = "snd (spec_hit cfg (script_now t) k g)"
  have "\<forall>k'. within_limit cfg (script_now t) (?g k')"
    using within_limit_spec_hit [OF Cons.prems(1)] Cons.prems(2) e by simp
  with Cons.IH Cons.prems(2) e have
    "\<exists>now'. within_limit cfg now' (?g key @ granted es (map Inr (spec_hits cfg es ?g)) key)" by simp
  moreover have "?g key @ granted es (map Inr (spec_hits cfg es ?g)) key
      = g key @ granted (e # es) (map Inr (spec_hits cfg (e # es) g)) key"
    by (simp add: e spec_hit_def Let_def)
  ultimately show ?case by simp
qed

text \<open>
  No window is overrun: over every sequence of hits from all pods, for every key and every
  instant, at most \<open>limit\<close> requests were let through in the \<open>windowMs\<close> milliseconds up to that
  instant, however the hits fall across the edges of fixed windows.
\<close>

theorem window_never_overrun:
  assumes "0 < rl_limit cfg" and "0 < rl_windowMs cfg"
    and "distinct (map (\<lambda>(_, uuid, _). uuid) es)" and "sorted (map (\<lambda>(t, _, _). script_now t) es)"
  shows "int (length (filter (\<lambda>t. T - rl_windowMs cfg < t \<and> t \<le> T)
    (granted es (run_hits cfg es empty_keyspace) key))) \<le> rl_limit cfg"
proof (cases es)
  case Nil
  with assms(1) show ?thesis by simp
next
  case (Cons e es')
  let ?now = "script_now (fst e)"
  have srt: "sorted (?now # map (\<lambda>(t, _, _). script_now t) es)" using assms(4) Cons by (auto simp: split_beta)
  have "\<forall>k. within_limit cfg ?now ([] :: int list)" using assms(1) by (simp add: within_limit_def)
  from spec_hits_within_limit [OF this srt, of key]
  have "\<exists>now'. within_limit cfg now' (granted es (map Inr (spec_hits cfg es (\<lambda>_. []))) key)" by simp
  moreover have "run_hits cfg es empty_keyspace = map Inr (spec_hits cfg es (\<lambda>_. []))"
    by (rule script_refines_window [OF assms(1-3) _ srt]) simp
  ultimately show ?thesis by (auto simp: within_limit_def)
qed

section \<open>The guard\<close>

lemma ceil_seconds_bounds: "ms \<le> ceil_seconds ms * 1000" "ceil_seconds ms * 1000 < ms + 1000"
  unfolding ceil_seconds_def by linarith+

text \<open>
  A request is refused only by a decision of the limiter; without Redis it passes. After a refusal
  the advertised \<open>Retry-After\<close> is long enough for the oldest grant to have left the window.
\<close>

lemma guard_fails_open: "canActivate cfg (Some e) t uuid req ks = ((Inr True, []), ks)"
  by (simp add: canActivate_def hit_def)

lemma guard_refuses:
  assumes "canActivate cfg down t uuid req ks = ((Inl e, headers), ks')"
  obtains d where "hit cfg down t uuid (limit_key req) ks = (Inr d, ks')" and "\<not> rd_allowed d"
    and "e = HttpException 429 ''Too Many Requests''"
    and "headers = [(''RateLimit-Limit'', show_int (rl_limit cfg)),
      (''RateLimit-Remaining'', show_int (rd_remaining d)),
      (''Retry-After'', show_int (max 1 (ceil_seconds (rd_retryAfterMs d))))]"
  using assms by (auto simp: canActivate_def Let_def split: prod.splits sum.splits if_splits)

section \<open>Concrete hits\<close>

definition two_per_second :: rate_limit_config where
  "two_per_second = \<lparr>rl_limit = 2, rl_windowMs = 1000\<rparr>"

definition five_hits :: "hit_event list" where
  "five_hits = [((10, 0), ''a'', ''k''), ((10, 400000), ''b'', ''k''), ((10, 500000), ''c'', ''k''),
     ((10, 500000), ''d'', ''other''), ((11, 0), ''e'', ''k'')]"

lemma five_hits_decisions:
  "spec_hits two_per_second five_hits (\<lambda>_. []) =
    [\<lparr>rd_allowed = True, rd_remaining = 1, rd_retryAfterMs = 0\<rparr>,
     \<lparr>rd_allowed = True, rd_remaining = 0, rd_retryAfterMs = 0\<rparr>,
     \<lparr>rd_allowed = False, rd_remaining = 0, rd_retryAfterMs = 500\<rparr>,
     \<lparr>rd_allowed = True, rd_remaining = 1, rd_retryAfterMs = 0\<rparr>,
     \<lparr>rd_allowed = True, rd_remaining = 0, rd_retryAfterMs = 0\<rparr>]"
  by (simp add: two_per_second_def five_hits_def spec_hit_def in_window_def script_now_def Let_def)

lemma rate_limit_refines_window_witness:
  "run_hits two_per_second five_hits empty_keyspace = map Inr
    [\<lparr>rd_allowed = True, rd_remaining = 1, rd_retryAfterMs = 0\<rparr>,
     \<lparr>rd_allowed = True, rd_remaining = 0, rd_retryAfterMs = 0\<rparr>,
     \<lparr>rd_allowed = False, rd_remaining = 0, rd_retryAfterMs = 500\<rparr>,
     \<lparr>rd_allowed = True, rd_remaining = 1, rd_retryAfterMs = 0\<rparr>,
     \<lparr>rd_allowed = True, rd_remaining = 0, rd_retryAfterMs = 0\<rparr>]"
  using rate_limit_refines_window [of two_per_second five_hits] five_hits_decisions
  by (simp add: two_per_second_def five_hits_def script_now_def)

lemma window_never_overrun_witness:
  "int (length (filter (\<lambda>t. 11000 - rl_windowMs two_per_second < t \<and> t \<le> 11000)
    (granted five_hits (run_hits two_per_second five_hits empty_keyspace) ''k''))) \<le> 2"
  using window_never_overrun [of two_per_second five_hits 11000 "''k''"]
  by (simp add: two_per_second_def five_hits_def script_now_def)

end
