(* ===== verification/SingleFlight.thy ===== *)
theory SingleFlight
  imports Redis
begin

text \<open>
  The lock (\<open>src/redis/lock.ts\<close>) and the single-flight cache (\<open>single-flight-cache.ts\<close>). Callers of
  \<open>getOrLoad\<close> run interleaved: one step of a caller is what it does between two awaits, a Redis
  command or the load. A command can be lost before or after Redis ran it. \<open>JSON.stringify\<close> and
  \<open>JSON.parse\<close> of \<open>{ v }\<close> are a pair of functions, random numbers and tokens arguments.
\<close>

section \<open>The lock\<close>

definition acquireLock ::
  "wire \<Rightarrow> int \<Rightarrow> string \<Rightarrow> string \<Rightarrow> int \<Rightarrow> string keyspace \<Rightarrow> (exn + string option) \<times> string keyspace" where
  "acquireLock w now token key ttlMs ks =
     (case command w (r_set_nx now key token ttlMs) ks of
        (Inl e, ks') \<Rightarrow> (Inl e, ks')
      | (Inr ok, ks') \<Rightarrow> (Inr (if ok then Some token else None), ks'))"

definition RELEASE_IF_OWNER :: "int \<Rightarrow> string \<Rightarrow> string \<Rightarrow> string keyspace \<Rightarrow> int \<times> string keyspace" where
  "RELEASE_IF_OWNER now key token ks =
     (if r_get now ks key = Some token then (1, r_del key ks) else (0, ks))"

definition releaseLock ::
  "wire \<Rightarrow> int \<Rightarrow> string \<Rightarrow> string \<Rightarrow> string keyspace \<Rightarrow> (exn + bool) \<times> string keyspace" where
  "releaseLock w now key token ks =
     (case command w (RELEASE_IF_OWNER now key token) ks of
        (Inl e, ks') \<Rightarrow> (Inl e, ks')
      | (Inr n, ks') \<Rightarrow> (Inr (n = 1), ks'))"

text \<open>A release removes the caller's own lock or nothing.\<close>

lemma release_only_own:
  assumes "releaseLock w now key token ks = (r, ks')" and "r_get now ks key = Some other" and "other \<noteq> token"
  shows "ks' = ks"
  using assms by (auto simp: releaseLock_def command_def RELEASE_IF_OWNER_def split: wire.splits prod.splits sum.splits)

section \<open>The cache\<close>

record single_flight_options =
  sf_ttlBaseSec :: int
  sf_ttlJitterSec :: nat
  sf_negativeTtlBaseSec :: int
  sf_negativeTtlJitterSec :: nat
  sf_lockTtlMs :: int
  sf_pollMs :: int

type_synonym 'v codec = "('v option \<Rightarrow> string) \<times> (string \<Rightarrow> 'v option option)"

datatype 'v read_result = Hit "'v option" | Miss | Down

text \<open>\<open>randomInt(0, n)\<close> is \<open>draw mod n\<close> for an arbitrary \<open>draw\<close>.\<close>

definition ttlSeconds :: "single_flight_options \<Rightarrow> nat \<Rightarrow> bool \<Rightarrow> int" where
  "ttlSeconds opts draw found =
     (if found then sf_ttlBaseSec opts + int (draw mod (sf_ttlJitterSec opts + 1))
      else sf_negativeTtlBaseSec opts + int (draw mod (sf_negativeTtlJitterSec opts + 1)))"

definition cache_read :: "'v codec \<Rightarrow> wire \<Rightarrow> int \<Rightarrow> string \<Rightarrow> string keyspace \<Rightarrow> 'v read_result" where
  "cache_read codec w now key ks = (case fst (command w (\<lambda>s. (r_get now s key, s)) ks) of
       Inl e \<Rightarrow> Down
     | Inr None \<Rightarrow> Miss
     | Inr (Some raw) \<Rightarrow> (case snd codec raw of Some v \<Rightarrow> Hit v | None \<Rightarrow> Miss))"

definition cache_write ::
  "'v codec \<Rightarrow> single_flight_options \<Rightarrow> wire \<Rightarrow> int \<Rightarrow> nat \<Rightarrow> string \<Rightarrow> 'v option \<Rightarrow> string keyspace \<Rightarrow> string keyspace" where
  "cache_write codec opts w now draw key v ks =
     snd (command w (\<lambda>s. ((), r_put now key (fst codec v) (ttlSeconds opts draw (v \<noteq> None) * 1000) s)) ks)"

definition invalidate :: "wire \<Rightarrow> string list \<Rightarrow> string keyspace \<Rightarrow> string keyspace" where
  "invalidate w keys ks =
     (if keys = [] then ks else snd (command w (\<lambda>s. ((), fold r_del keys s)) ks))"

definition lock_key :: "string \<Rightarrow> string" where
  "lock_key key = ''lock:'' @ key"

text \<open>
  Where a caller of \<open>getOrLoad\<close> stands: at its first read, before the lock, with the lock before
  the second read, the load, the write and the release, before the read that follows a poll's
  sleep, before a load without the lock, or done.
\<close>

datatype 'v pc =
    FirstRead
  | Locking
  | ReadAgain string
  | Loading string
  | Writing string "'v option"
  | Releasing string "exn + 'v option"
  | Polling
  | LoadDirectly
  | Finished "exn + 'v option"

text \<open>One step; the list holds the value loaded in it, if any.\<close>

fun caller_step ::
  "'v codec \<Rightarrow> single_flight_options \<Rightarrow> string \<Rightarrow> wire \<Rightarrow> int \<Rightarrow> string \<Rightarrow> nat \<Rightarrow> exn + 'v option
     \<Rightarrow> 'v pc \<Rightarrow> string keyspace \<Rightarrow> 'v pc \<times> string keyspace \<times> 'v option list" where
  "caller_step codec opts key w now token draw loaded FirstRead ks =
     (case cache_read codec w now key ks of
        Hit v \<Rightarrow> Finished (Inr v) | Down \<Rightarrow> LoadDirectly | Miss \<Rightarrow> Locking, ks, [])"
| "caller_step codec opts key w now token draw loaded Locking ks =
     (case acquireLock w now token (lock_key key) (sf_lockTtlMs opts) ks of
        (Inl e, ks') \<Rightarrow> (LoadDirectly, ks', [])
      | (Inr None, ks') \<Rightarrow> (Polling, ks', [])
      | (Inr (Some tk), ks') \<Rightarrow> (ReadAgain tk, ks', []))"
| "caller_step codec opts key w now token draw loaded (ReadAgain tk) ks =
     (case cache_read codec w now key ks of
        Hit v \<Rightarrow> Releasing tk (Inr v) | _ \<Rightarrow> Loading tk, ks, [])"
| "caller_step codec opts key w now token draw loaded (Loading tk) ks = (case loaded of
        Inl e \<Rightarrow> (Releasing tk (Inl e), ks, [])
      | Inr v \<Rightarrow> (Writing tk v, ks, [v]))"
| "caller_step codec opts key w now token draw loaded (Writing tk v) ks =
     (Releasing tk (Inr v), cache_write codec opts w now draw key v ks, [])"
| "caller_step codec opts key w now token draw loaded (Releasing tk r) ks =
     (Finished r, snd (releaseLock w now (lock_key key) tk ks), [])"
| "caller_step codec opts key w now token draw loaded Polling ks =
     (case cache_read codec w now key ks of
        Hit v \<Rightarrow> Finished (Inr v) | Down \<Rightarrow> LoadDirectly | Miss \<Rightarrow> Locking, ks, [])"
| "caller_step codec opts key w now token draw loaded LoadDirectly ks =
     (Finished loaded, ks, case loaded of Inr v \<Rightarrow> [v] | Inl e \<Rightarrow> [])"
| "caller_step codec opts key w now token draw loaded (Finished r) ks = (Finished r, ks, [])"

text \<open>
  The callers with their keys, the Redis instance, and the values loaded so far for each key. An
  event is a step of a caller, an eviction by the instance, or an invalidation.
\<close>

record 'v flight =
  fg_ks :: "string keyspace"
  fg_callers :: "(string \<times> 'v pc) list"
  fg_loads :: "(string \<times> 'v option) list"

datatype 'v flight_event =
    Step nat wire int string nat "exn + 'v option"
  | Evict string
  | Invalidate wire "string list"

fun flight_step :: "'v codec \<Rightarrow> single_flight_options \<Rightarrow> 'v flight_event \<Rightarrow> 'v flight \<Rightarrow> 'v flight" where
  "flight_step codec opts (Step i w now token draw loaded) st =
     (if i < length (fg_callers st)
      then (case fg_callers st ! i of (key, pc) \<Rightarrow>
             (case caller_step codec opts key w now token draw loaded pc (fg_ks st) of
                (pc', ks', ls) \<Rightarrow> st\<lparr>fg_ks := ks', fg_callers := (fg_callers st)[i := (key, pc')],
                   fg_loads := fg_loads st @ map (Pair key) ls\<rparr>))
      else st)"
| "flight_step codec opts (Evict k) st = st\<lparr>fg_ks := r_del k (fg_ks st)\<rparr>"
| "flight_step codec opts (Invalidate w keys) st = st\<lparr>fg_ks := invalidate w keys (fg_ks st)\<rparr>"

text \<open>The callers of the given keys, all about to read from an empty cache.\<close>

definition callers_of :: "string list \<Rightarrow> 'v flight" where
  "callers_of keys = \<lparr>fg_ks = empty_keyspace, fg_callers = map (\<lambda>k. (k, FirstRead)) keys, fg_loads = []\<rparr>"

definition run_flight ::
  "'v codec \<Rightarrow> single_flight_options \<Rightarrow> 'v flight_event list \<Rightarrow> 'v flight \<Rightarrow> 'v flight" where
  "run_flight codec opts es st = fold (flight_step codec opts) es st"

end
