(* ===== verification/SingleFlightProps.thy ===== *)
theory SingleFlightProps
  imports SingleFlight
begin

text \<open>
  Properties of the single-flight cache: whatever fails, a caller is given a value somebody loaded
  for its key; and as long as
  Redis answers and the lock outlives the load, one load serves every caller.
\<close>

section \<open>Never wrong data\<close>

fun pc_values :: "'v pc \<Rightarrow> 'v option set" where
  "pc_values (Writing tk v) = {v}"
| "pc_values (Releasing tk (Inr v)) = {v}"
| "pc_values (Finished (Inr v)) = {v}"
| "pc_values _ = {}"

definition is_lock_key :: "string \<Rightarrow> bool" where
  "is_lock_key k \<longleftrightarrow> js_startsWith ''lock:'' k"

definition cached_loaded :: "'v codec \<Rightarrow> (string \<times> 'v option) set \<Rightarrow> string keyspace \<Rightarrow> bool" where
  "cached_loaded codec L ks \<longleftrightarrow>
     (\<forall>k raw ex. ks k = Some (raw, ex) \<and> \<not> is_lock_key k \<longrightarrow> (\<exists>v. raw = fst codec v \<and> (k, v) \<in> L))"

definition flight_sound :: "'v codec \<Rightarrow> 'v flight \<Rightarrow> bool" where
  "flight_sound codec st \<longleftrightarrow> (\<forall>v. snd codec (fst codec v) = Some v)
     \<and> cached_loaded codec (set (fg_loads st)) (fg_ks st)
     \<and> (\<forall>(k, pc)\<in>set (fg_callers st). \<not> is_lock_key k \<and> Pair k ` pc_values pc \<subseteq> set (fg_loads st))"

lemma lock_key_is_lock [simp]: "is_lock_key (lock_key k)"
  by (simp add: is_lock_key_def lock_key_def js_startsWith_def)

lemma cached_loaded_mono: "cached_loaded codec L ks \<Longrightarrow> L \<subseteq> L' \<Longrightarrow> cached_loaded codec L' ks"
  unfolding cached_loaded_def by blast

lemma cached_loaded_del: "cached_loaded codec L ks \<Longrightarrow> cached_loaded codec L (r_del k ks)"
  by (simp add: cached_loaded_def r_del_def)

lemma cached_loaded_dels: "cached_loaded codec L ks \<Longrightarrow> cached_loaded codec L (fold r_del keys ks)"
  by (induction keys arbitrary: ks) (auto intro: cached_loaded_del)

lemma cached_loaded_acquire:
  assumes "cached_loaded codec L ks" and "acquireLock w now token (lock_key key) ttl ks = (r, ks')"
  shows "cached_loaded codec L ks'"
  using assms by (auto simp: acquireLock_def command_def r_set_nx_def cached_loaded_def r_put_def
      split: wire.splits if_splits)

lemma cached_loaded_release:
  assumes "cached_loaded codec L ks"
  shows "cached_loaded codec L (snd (releaseLock w now key token ks))"
  using assms cached_loaded_del [OF assms, of key]
  by (auto simp: releaseLock_def command_def RELEASE_IF_OWNER_def split: wire.splits)

lemma cached_loaded_write:
  assumes "cached_loaded codec L ks" and "(key, v) \<in> L"
  shows "cached_loaded codec L (cache_write codec opts w now draw key v ks)"
  using assms by (auto simp: cache_write_def command_def cached_loaded_def r_put_def split: wire.splits)

lemma cached_loaded_read:
  assumes "cached_loaded codec L ks" and "\<forall>v. snd codec (fst codec v) = Some v" and "\<not> is_lock_key key"
    and "cache_read codec w now key ks = Hit v"
  shows "(key, v) \<in> L"
  using assms by (fastforce simp: cache_read_def command_def r_get_def cached_loaded_def
      split: wire.splits option.splits if_splits)

lemma caller_step_sound:
  assumes "\<forall>v. snd codec (fst codec v) = Some v" and "cached_loaded codec L ks" and "\<not> is_lock_key key"
    and "Pair key ` pc_values pc \<subseteq> L"
    and "caller_step codec opts key w now token draw loaded pc ks = (pc', ks', ls)"
  shows "cached_loaded codec (L \<union> Pair key ` set ls) ks'
    \<and> Pair key ` pc_values pc' \<subseteq> L \<union> Pair key ` set ls"
proof -
  have hit: "\<forall>w now v. cache_read codec w now key ks = Hit v \<longrightarrow> (key, v) \<in> L"
    using cached_loaded_read [OF assms(2,1,3)] by blast
  show ?thesis
proof (cases pc)
  case FirstRead
  with assms hit show ?thesis by (auto split: read_result.splits)
next
  case Locking
  with assms(5) show ?thesis
    by (auto split: prod.splits sum.splits option.splits dest: cached_loaded_acquire [OF assms(2)])
next
  case (ReadAgain tk)
  with assms hit show ?thesis by (auto split: read_result.splits)
next
  case (Loading tk)
  with assms show ?thesis by (auto split: sum.splits elim: cached_loaded_mono)
next
  case (Writing tk v)
  with assms show ?thesis by (auto intro: cached_loaded_write)
next
  case (Releasing tk r)
  with assms show ?thesis by (cases r) (auto intro: cached_loaded_release)
next
  case Polling
  with assms hit show ?thesis by (auto split: read_result.splits)
next
  case LoadDirectly
  with assms show ?thesis by (auto split: sum.splits elim: cached_loaded_mono)
next
  case (Finished r)
  with assms show ?thesis by auto
qed
qed

lemma flight_sound_callers:
  "flight_sound codec st \<Longrightarrow>
     \<forall>(k, pc)\<in>set (fg_callers st). \<not> is_lock_key k \<and> Pair k ` pc_values pc \<subseteq> set (fg_loads st)"
  by (simp add: flight_sound_def)

lemma flight_sound_step: "flight_sound codec st \<Longrightarrow> flight_sound codec (flight_step codec opts e st)"
proof (cases e)
  case (Step i w now token draw loaded)
  assume ok: "flight_sound codec st"
  show ?thesis
  proof (cases "i < length (fg_callers st)")
    case False
    with ok Step show ?thesis by simp
  next
    case True
    obtain key pc where c: "fg_callers st ! i = (key, pc)" by (cases "fg_callers st ! i")
    then have mem: "(key, pc) \<in> set (fg_callers st)" using True by (metis nth_mem)
    obtain pc' ks' ls where s: "caller_step codec opts key w now token draw loaded pc (fg_ks st) = (pc', ks', ls)"
      by (metis prod_cases3)
    let ?L = "set (fg_loads st)"
    have key: "\<not> is_lock_key key" "Pair key ` pc_values pc \<subseteq> ?L"
      using bspec [OF flight_sound_callers [OF ok] mem] by simp_all
    have "cached_loaded codec (?L \<union> Pair key ` set ls) ks' \<and> Pair key ` pc_values pc' \<subseteq> ?L \<union> Pair key ` set ls"
      by (rule caller_step_sound [OF _ _ key(1) key(2) s]) (use ok in \<open>simp_all add: flight_sound_def\<close>)
    moreover note key(1)
    moreover have "set ((fg_callers st)[i := (key, pc')]) \<subseteq> insert (key, pc') (set (fg_callers st))"
      by (rule set_update_subset_insert)
    ultimately show ?thesis
      using ok True c s Step by (fastforce simp: flight_sound_def)
  qed
next
  case (Evict k)
  assume "flight_sound codec st"
  with Evict show ?thesis by (simp add: flight_sound_def cached_loaded_del)
next
  case (Invalidate w keys)
  assume "flight_sound codec st"
  with Invalidate show ?thesis
    by (auto simp: flight_sound_def invalidate_def command_def cached_loaded_dels split: wire.splits)
qed

interpretation flights: step_machine "flight_step codec opts" "flight_sound codec" for codec opts
  by unfold_locales (rule flight_sound_step)

text \<open>
  C30. The cache never serves wrong data: whatever commands are lost, whichever keys are evicted or
  invalidated, however the lock expires or is stolen, and however the callers of all keys are
  interleaved, a caller that is given a value is given one that was loaded for its own key.
\<close>

theorem cache_serves_loaded_values:
  assumes "\<forall>v. snd codec (fst codec v) = Some v" and "\<forall>k\<in>set keys. \<not> is_lock_key k"
    and "(key, Finished (Inr v)) \<in> set (fg_callers (run_flight codec opts es (callers_of keys)))"
  shows "(key, v) \<in> set (fg_loads (run_flight codec opts es (callers_of keys)))"
proof -
  have "flight_sound codec (callers_of keys)"
    using assms(1,2) by (auto simp: flight_sound_def callers_of_def cached_loaded_def empty_keyspace_def)
  then have "flight_sound codec (run_flight codec opts es (callers_of keys))"
    unfolding run_flight_def by (rule flights.run_keeps)
  from bspec [OF flight_sound_callers [OF this] assms(3)] show ?thesis by simp
qed

section \<open>One load for everybody\<close>

text \<open>Up to \<open>H\<close> the key shows the same value.\<close>

definition shows_until :: "int \<Rightarrow> string keyspace \<Rightarrow> string \<Rightarrow> string option \<Rightarrow> bool" where
  "shows_until H ks k r \<longleftrightarrow> (\<forall>now\<le>H. r_get now ks k = r)"

lemma shows_until_put:
  assumes "H \<le> now + ttl"
  shows "shows_until H (r_put now k v ttl ks) k (Some v)"
    and "k' \<noteq> k \<Longrightarrow> shows_until H ks k' r \<Longrightarrow> shows_until H (r_put now k v ttl ks) k' r"
  using assms by (auto simp: shows_until_def)

lemma shows_until_del:
  "shows_until H (r_del k ks) k None"
  "k' \<noteq> k \<Longrightarrow> shows_until H ks k' r \<Longrightarrow> shows_until H (r_del k ks) k' r"
  by (auto simp: shows_until_def)

lemma shows_until_now: "shows_until H ks k r \<Longrightarrow> now \<le> H \<Longrightarrow> r_get now ks k = r"
  by (simp add: shows_until_def)

lemma lock_key_other [simp]: "lock_key k \<noteq> k" "k \<noteq> lock_key k"
proof -
  have "length (lock_key k) \<noteq> length k" by (simp add: lock_key_def)
  then show "lock_key k \<noteq> k" "k \<noteq> lock_key k" by auto
qed

fun holds :: "'v pc \<Rightarrow> string option" where
  "holds (ReadAgain tk) = Some tk"
| "holds (Loading tk) = Some tk"
| "holds (Writing tk v) = Some tk"
| "holds (Releasing tk r) = Some tk"
| "holds _ = None"

text \<open>What the place of a caller says about the loads so far and the cached value.\<close>

fun pc_fits :: "'v option list \<Rightarrow> 'v option option \<Rightarrow> 'v pc \<Rightarrow> bool" where
  "pc_fits loads c (Loading tk) = (loads = [])"
| "pc_fits loads c (Writing tk v) = (loads = [v] \<and> c = None)"
| "pc_fits loads c (Releasing tk r) = (\<forall>v. r = Inr v \<longrightarrow> loads = [v] \<and> c = Some v)"
| "pc_fits loads c (Finished r) = (\<forall>v. r = Inr v \<longrightarrow> loads = [v] \<and> c = Some v)"
| "pc_fits loads c LoadDirectly = False"
| "pc_fits loads c _ = True"

definition one_flight ::
  "'v codec \<Rightarrow> int \<Rightarrow> string \<Rightarrow> string option \<Rightarrow> 'v option option \<Rightarrow> string keyspace \<Rightarrow> 'v pc list
     \<Rightarrow> 'v option list \<Rightarrow> bool" where
  "one_flight codec H k lock c ks pcs loads \<longleftrightarrow>
     shows_until H ks (lock_key k) lock \<and> shows_until H ks k (map_option (fst codec) c)
     \<and> (\<forall>i<length pcs. holds (pcs ! i) \<noteq> None \<longrightarrow> lock = holds (pcs ! i))
     \<and> (\<forall>i<length pcs. \<forall>j<length pcs. holds (pcs ! i) \<noteq> None \<and> holds (pcs ! j) \<noteq> None \<longrightarrow> i = j)
     \<and> (\<forall>i<length pcs. pc_fits loads c (pcs ! i))
     \<and> (loads = [] \<and> c = None
        \<or> (\<exists>v. loads = [v] \<and> (c = Some v \<or> c = None \<and> (\<exists>i<length pcs. \<exists>tk. pcs ! i = Writing tk v))))"

definition ttl_covers :: "single_flight_options \<Rightarrow> int \<Rightarrow> bool" where
  "ttl_covers opts d \<longleftrightarrow> d \<le> sf_lockTtlMs opts \<and> d \<le> sf_ttlBaseSec opts * 1000
     \<and> d \<le> sf_negativeTtlBaseSec opts * 1000"

lemma ttlSeconds_covers: "ttl_covers opts d \<Longrightarrow> d \<le> ttlSeconds opts draw found * 1000"
  by (auto simp: ttl_covers_def ttlSeconds_def)

lemma read_shows:
  assumes "shows_until H ks k (map_option (fst codec) c)" and "now \<le> H"
    and "\<forall>v. snd codec (fst codec v) = Some v"
  shows "cache_read codec Answered now k ks = (case c of Some v \<Rightarrow> Hit v | None \<Rightarrow> Miss)"
  using assms by (auto simp: cache_read_def command_def shows_until_now split: option.splits)

text \<open>A step of a caller that holds the lock, or takes it while nobody does.\<close>

lemma one_flight_alone:
  assumes i: "i < length pcs" and "shows_until H ks (lock_key k) lock"
    and "shows_until H ks k (map_option (fst codec) c)"
    and "holds pc' \<noteq> None \<longrightarrow> lock = holds pc'"
    and idle: "\<And>j. j < length pcs \<Longrightarrow> j \<noteq> i \<Longrightarrow> holds (pcs ! j) = None"
    and fits: "\<And>j. j < length pcs \<Longrightarrow> j \<noteq> i \<Longrightarrow> pc_fits loads c (pcs ! j)"
    and "pc_fits loads c pc'"
    and tail: "loads = [] \<and> c = None \<or> (\<exists>v. loads = [v] \<and> (c = Some v \<or> c = None \<and> (\<exists>tk. pc' = Writing tk v)))"
  shows "one_flight codec H k lock c ks (pcs[i := pc']) loads"
proof -
  have "holds (pcs[i := pc'] ! j) \<noteq> None \<Longrightarrow> j = i" if "j < length pcs" for j
    using idle [OF that] by (cases "j = i") auto
  then have one: "\<forall>a<length (pcs[i := pc']). \<forall>b<length (pcs[i := pc']).
      holds (pcs[i := pc'] ! a) \<noteq> None \<and> holds (pcs[i := pc'] ! b) \<noteq> None \<longrightarrow> a = b"
    by (metis length_list_update)
  have hold: "\<forall>j<length (pcs[i := pc']). holds (pcs[i := pc'] ! j) \<noteq> None \<longrightarrow> lock = holds (pcs[i := pc'] ! j)"
    using assms(4) idle i by (auto simp: nth_list_update)
  have fit: "\<forall>j<length (pcs[i := pc']). pc_fits loads c (pcs[i := pc'] ! j)"
    using assms(7) fits i by (auto simp: nth_list_update)
  have "\<exists>j<length (pcs[i := pc']). \<exists>tk. pcs[i := pc'] ! j = Writing tk v" if "\<exists>tk. pc' = Writing tk v" for v
    using that i by (intro exI [of _ i]) simp
  with tail have "loads = [] \<and> c = None \<or> (\<exists>v. loads = [v] \<and> (c = Some v \<or> c = None
      \<and> (\<exists>j<length (pcs[i := pc']). \<exists>tk. pcs[i := pc'] ! j = Writing tk v)))"
    by blast
  with one hold fit assms(2,3) show ?thesis by (simp only: one_flight_def simp_thms)
qed

lemma one_flightD:
  assumes "one_flight codec H k lock c ks pcs loads"
  shows "shows_until H ks (lock_key k) lock" "shows_until H ks k (map_option (fst codec) c)"
    "\<And>i. i < length pcs \<Longrightarrow> holds (pcs ! i) \<noteq> None \<Longrightarrow> lock = holds (pcs ! i)"
    "\<And>i. i < length pcs \<Longrightarrow> pc_fits loads c (pcs ! i)"
    "\<And>i j. i < length pcs \<Longrightarrow> holds (pcs ! i) \<noteq> None \<Longrightarrow> j < length pcs \<Longrightarrow> j \<noteq> i \<Longrightarrow> holds (pcs ! j) = None"
    "loads = [] \<and> c = None \<or> (\<exists>v. loads = [v] \<and> (c = Some v \<or> c = None \<and> (\<exists>i<length pcs. \<exists>tk. pcs ! i = Writing tk v)))"
  using assms unfolding one_flight_def by blast+

text \<open>A step of a caller without the lock that changes nothing.\<close>

lemma one_flight_idle:
  assumes inv: "one_flight codec H k lock c ks pcs loads" and i: "i < length pcs"
    and old: "holds (pcs ! i) = None" and new: "holds pc' = None" and "pc_fits loads c pc'"
  shows "one_flight codec H k lock c ks (pcs[i := pc']) loads"
proof -
  have same: "holds (pcs[i := pc'] ! j) = holds (pcs ! j)" for j
    using old new i by (cases "j = i") auto
  have w: "\<exists>j<length pcs. \<exists>tk. pcs[i := pc'] ! j = Writing tk v"
    if "\<exists>j<length pcs. \<exists>tk. pcs ! j = Writing tk v" for v
  proof -
    from that obtain j tk where j: "j < length pcs" "pcs ! j = Writing tk v" by blast
    with old have "j \<noteq> i" by auto
    with j show ?thesis by (intro exI [of _ j]) simp
  qed
  have "\<forall>j<length pcs. pc_fits loads c (pcs[i := pc'] ! j)"
    using inv assms(5) i by (auto simp: one_flight_def nth_list_update)
  moreover have "loads = [] \<and> c = None \<or> (\<exists>v. loads = [v] \<and> (c = Some v \<or> c = None
      \<and> (\<exists>j<length pcs. \<exists>tk. pcs[i := pc'] ! j = Writing tk v)))"
    using one_flightD(6) [OF inv]
  proof (elim disjE exE conjE)
    fix v j tk
    assume "loads = [v]" "c = None" "j < length pcs" "pcs ! j = Writing tk v"
    with w [of v] show ?thesis by blast
  qed simp_all
  ultimately show ?thesis
    using inv unfolding one_flight_def same length_list_update by (elim conjE) (intro conjI; assumption)
qed

text \<open>Without a cached value, whoever does not hold the lock fits any state.\<close>

lemma idle_fits: "holds pc = None \<Longrightarrow> pc_fits loads None pc \<Longrightarrow> pc_fits loads' c' pc"
  by (cases pc) auto

lemma one_flight_acquire:
  assumes inv: "one_flight codec H k None c ks pcs loads" and i: "i < length pcs"
    and "H \<le> now + ttl"
  shows "one_flight codec H k (Some token) c (r_put now (lock_key k) token ttl ks) (pcs[i := ReadAgain token]) loads"
proof -
  have free: "holds (pcs ! j) = None" if "j < length pcs" for j
    using one_flightD(3) [OF inv that] by (cases "holds (pcs ! j)") auto
  have "pcs ! j \<noteq> Writing tk v" if "j < length pcs" for j tk v using free [OF that] by auto
  then have "loads = [] \<and> c = None \<or> (\<exists>v. loads = [v] \<and> c = Some v)" using one_flightD(6) [OF inv] by blast
  then show ?thesis
    by (intro one_flight_alone [OF i]) (use one_flightD(1,2,4) [OF inv] assms(3) free in \<open>auto simp: shows_until_put\<close>)
qed

text \<open>The holder found the value, or found none and goes on to load it.\<close>

lemma one_flight_reread:
  assumes inv: "one_flight codec H k lock c ks pcs loads" and i: "i < length pcs"
    and pc: "pcs ! i = ReadAgain tk"
  shows "one_flight codec H k lock c ks
    (pcs[i := (case c of Some v \<Rightarrow> Releasing tk (Inr v) | None \<Rightarrow> Loading tk)]) loads"
proof -
  have idle: "holds (pcs ! j) = None" if "j < length pcs" "j \<noteq> i" for j
    by (rule one_flightD(5) [OF inv i _ that]) (simp add: pc)
  have "pcs ! j \<noteq> Writing tk' v" if "j < length pcs" for j tk' v
    using idle [OF that] pc by (cases "j = i") auto
  then have "loads = [] \<and> c = None \<or> (\<exists>v. loads = [v] \<and> c = Some v)" using one_flightD(6) [OF inv] by blast
  then show ?thesis
    by (intro one_flight_alone [OF i])
      (use one_flightD(1-4) [OF inv] i pc idle in \<open>auto split: option.splits\<close>)
qed

lemma one_flight_loaded:
  assumes inv: "one_flight codec H k lock c ks pcs loads" and i: "i < length pcs" and pc: "pcs ! i = Loading tk"
  shows "one_flight codec H k lock c ks (pcs[i := Writing tk v]) (loads @ [v])"
proof -
  have l: "loads = []" and c: "c = None" using one_flightD(4,6) [OF inv] i pc by fastforce+
  have idle: "holds (pcs ! j) = None" if "j < length pcs" "j \<noteq> i" for j
    by (rule one_flightD(5) [OF inv i _ that]) (simp add: pc)
  have "pc_fits [v] None (pcs ! j)" if "j < length pcs" "j \<noteq> i" for j
    using idle_fits [OF idle [OF that]] one_flightD(4) [OF inv that(1)] c by blast
  then show ?thesis
    using l c idle one_flightD(1,2) [OF inv] one_flightD(3) [OF inv i] pc
    by (intro one_flight_alone [OF i]) auto
qed

lemma one_flight_written:
  assumes inv: "one_flight codec H k lock c ks pcs loads" and i: "i < length pcs"
    and pc: "pcs ! i = Writing tk v" and "H \<le> now + ttl"
  shows "one_flight codec H k lock (Some v) (r_put now k (fst codec v) ttl ks) (pcs[i := Releasing tk (Inr v)]) loads"
proof -
  have l: "loads = [v]" and c: "c = None" using one_flightD(4) [OF inv i] pc by auto
  have idle: "holds (pcs ! j) = None" if "j < length pcs" "j \<noteq> i" for j
    by (rule one_flightD(5) [OF inv i _ that]) (simp add: pc)
  have "pc_fits [v] (Some v) (pcs ! j)" if "j < length pcs" "j \<noteq> i" for j
    using idle_fits [OF idle [OF that]] one_flightD(4) [OF inv that(1)] c by blast
  then show ?thesis
    using l c idle one_flightD(1) [OF inv] one_flightD(3) [OF inv i] pc assms(4)
    by (intro one_flight_alone [OF i]) (auto simp: shows_until_put)
qed

text \<open>A failed load leaves nothing behind, and the next holder of the lock loads again.\<close>

lemma one_flight_failed:
  assumes inv: "one_flight codec H k lock c ks pcs loads" and i: "i < length pcs" and pc: "pcs ! i = Loading tk"
  shows "one_flight codec H k lock c ks (pcs[i := Releasing tk (Inl e)]) loads"
proof -
  have l: "loads = []" and c: "c = None" using one_flightD(4,6) [OF inv] i pc by fastforce+
  have idle: "holds (pcs ! j) = None" if "j < length pcs" "j \<noteq> i" for j
    by (rule one_flightD(5) [OF inv i _ that]) (simp add: pc)
  show ?thesis
    using l c idle one_flightD(1,2,4) [OF inv] one_flightD(3) [OF inv i] pc
    by (intro one_flight_alone [OF i]) auto
qed

lemma one_flight_released:
  assumes inv: "one_flight codec H k lock c ks pcs loads" and i: "i < length pcs"
    and pc: "pcs ! i = Releasing tk r"
  shows "one_flight codec H k None c (r_del (lock_key k) ks) (pcs[i := Finished r]) loads"
proof -
  have idle: "holds (pcs ! j) = None" if "j < length pcs" "j \<noteq> i" for j
    by (rule one_flightD(5) [OF inv i _ that]) (simp add: pc)
  have "pcs ! j \<noteq> Writing tk' v" if "j < length pcs" for j tk' v
    using idle [OF that] pc by (cases "j = i") auto
  then have "loads = [] \<and> c = None \<or> (\<exists>v. loads = [v] \<and> c = Some v)" using one_flightD(6) [OF inv] by blast
  moreover have "pc_fits loads c (Finished r)" using one_flightD(4) [OF inv i] pc by simp
  ultimately show ?thesis
    using idle one_flightD(2,4) [OF inv]
    by (intro one_flight_alone [OF i]) (auto simp: shows_until_del)
qed

text \<open>Deleting other keys does not touch it.\<close>

lemma one_flight_del:
  assumes "one_flight codec H k lock c ks pcs loads" and "k' \<noteq> k" and "k' \<noteq> lock_key k"
  shows "one_flight codec H k lock c (r_del k' ks) pcs loads"
  using assms by (auto simp: one_flight_def shows_until_del(2))

lemma one_flight_dels:
  "one_flight codec H k lock c ks pcs loads \<Longrightarrow> k \<notin> set keys \<Longrightarrow> lock_key k \<notin> set keys
    \<Longrightarrow> one_flight codec H k lock c (fold r_del keys ks) pcs loads"
proof (induction keys arbitrary: ks)
  case (Cons a keys)
  have "one_flight codec H k lock c (r_del a ks) pcs loads"
    by (rule one_flight_del [OF Cons.prems(1)]) (use Cons.prems(2,3) in auto)
  with Cons show ?case by simp
qed simp

lemma caller_step_one_flight:
  assumes inv: "one_flight codec H k lock c ks pcs loads" and i: "i < length pcs"
    and "t0 \<le> now" "now \<le> H" and ttl: "ttl_covers opts (H - t0)"
    and codec: "\<forall>v. snd codec (fst codec v) = Some v"
    and step: "caller_step codec opts k Answered now token draw loaded (pcs ! i) ks = (pc', ks', ls)"
  shows "\<exists>lock c. one_flight codec H k lock c ks' (pcs[i := pc']) (loads @ ls)"
proof -
  note D = one_flightD [OF inv]
  have read: "cache_read codec Answered now k ks = (case c of Some v \<Rightarrow> Hit v | None \<Rightarrow> Miss)"
    by (rule read_shows [OF D(2) assms(4) codec])
  have hit: "pc_fits loads c (Finished (Inr v))" if "c = Some v" for v using D(6) that by auto
  have lockttl: "H \<le> now + sf_lockTtlMs opts" using ttl assms(3) by (simp add: ttl_covers_def)
  show ?thesis
  proof (cases "pcs ! i")
    case FirstRead
    with step read have "pc' = (case c of Some v \<Rightarrow> Finished (Inr v) | None \<Rightarrow> Locking)" "ks' = ks" "ls = []"
      by (auto split: option.splits)
    moreover from this(1) have "one_flight codec H k lock c ks (pcs[i := pc']) loads"
      using FirstRead hit by (intro one_flight_idle [OF inv i]) (auto split: option.splits)
    ultimately show ?thesis by auto
  next
    case Locking
    show ?thesis
    proof (cases lock)
      case None
      with Locking step shows_until_now [OF D(1) assms(4)] have
        "pc' = ReadAgain token" "ks' = r_put now (lock_key k) token (sf_lockTtlMs opts) ks" "ls = []"
        by (auto simp: acquireLock_def command_def r_set_nx_def)
      with one_flight_acquire [OF inv [unfolded None] i lockttl] show ?thesis by auto
    next
      case (Some tk)
      with Locking step shows_until_now [OF D(1) assms(4)] have "pc' = Polling" "ks' = ks" "ls = []"
        by (auto simp: acquireLock_def command_def r_set_nx_def)
      moreover have "one_flight codec H k lock c ks (pcs[i := Polling]) loads"
        by (rule one_flight_idle [OF inv i]) (use Locking in simp_all)
      ultimately show ?thesis by auto
    qed
  next
    case (ReadAgain tk)
    with step read have "pc' = (case c of Some v \<Rightarrow> Releasing tk (Inr v) | None \<Rightarrow> Loading tk)" "ks' = ks" "ls = []"
      by (auto split: option.splits)
    with one_flight_reread [OF inv i ReadAgain] show ?thesis by auto
  next
    case (Loading tk)
    show ?thesis
    proof (cases loaded)
      case (Inl e)
      with step Loading have "pc' = Releasing tk (Inl e)" "ks' = ks" "ls = []" by auto
      with one_flight_failed [OF inv i Loading, of e] show ?thesis by auto
    next
      case (Inr lv)
      with step Loading have "pc' = Writing tk lv" "ks' = ks" "ls = [lv]" by auto
      with one_flight_loaded [OF inv i Loading, of lv] show ?thesis by auto
    qed
  next
    case (Writing tk v)
    have "H \<le> now + ttlSeconds opts draw (v \<noteq> None) * 1000"
      using ttlSeconds_covers [OF ttl, of draw "v \<noteq> None"] assms(3) by linarith
    from one_flight_written [OF inv i Writing this] step Writing show ?thesis
      by (auto simp: cache_write_def command_def)
  next
    case (Releasing tk r)
    have "lock = Some tk" using D(3) [OF i] Releasing by simp
    with shows_until_now [OF D(1) assms(4)] step Releasing have "pc' = Finished r" "ks' = r_del (lock_key k) ks" "ls = []"
      by (auto simp: releaseLock_def command_def RELEASE_IF_OWNER_def)
    with one_flight_released [OF inv i Releasing] show ?thesis by auto
  next
    case Polling
    with step read have "pc' = (case c of Some v \<Rightarrow> Finished (Inr v) | None \<Rightarrow> Locking)" "ks' = ks" "ls = []"
      by (auto split: option.splits)
    moreover from this(1) have "one_flight codec H k lock c ks (pcs[i := pc']) loads"
      using Polling hit by (intro one_flight_idle [OF inv i]) (auto split: option.splits)
    ultimately show ?thesis by auto
  next
    case LoadDirectly
    with D(4) [OF i] show ?thesis by simp
  next
    case (Finished r)
    with step have "pc' = pcs ! i" "ks' = ks" "ls = []" by auto
    with inv show ?thesis by auto
  qed
qed

text \<open>
  A step of a caller with Redis answering, within the lifetime of the lock, or the removal of keys
  other than the cached key and its lock.
\<close>

fun in_time :: "string \<Rightarrow> int \<Rightarrow> int \<Rightarrow> 'v flight_event \<Rightarrow> bool" where
  "in_time key t0 H (Step i w now token draw loaded) \<longleftrightarrow> w = Answered \<and> t0 \<le> now \<and> now \<le> H"
| "in_time key t0 H (Evict k) \<longleftrightarrow> k \<noteq> key \<and> k \<noteq> lock_key key"
| "in_time key t0 H (Invalidate w keys) \<longleftrightarrow> key \<notin> set keys \<and> lock_key key \<notin> set keys"

definition flight_of :: "'v codec \<Rightarrow> int \<Rightarrow> string \<Rightarrow> 'v flight \<Rightarrow> bool" where
  "flight_of codec H k st \<longleftrightarrow> (\<exists>lock c pcs loads. one_flight codec H k lock c (fg_ks st) pcs loads
     \<and> fg_callers st = map (Pair k) pcs \<and> fg_loads st = map (Pair k) loads)"

lemma flight_of_step:
  assumes "flight_of codec H k st" and "in_time k t0 H e" and "ttl_covers opts (H - t0)"
    and "\<forall>v. snd codec (fst codec v) = Some v"
  shows "flight_of codec H k (flight_step codec opts e st)"
proof -
  obtain lock c pcs loads where inv: "one_flight codec H k lock c (fg_ks st) pcs loads"
    and st: "fg_callers st = map (Pair k) pcs" "fg_loads st = map (Pair k) loads"
    using assms(1) by (auto simp: flight_of_def)
  show ?thesis
  proof (cases e)
    case (Step i w now token draw loaded)
    with assms(2) have t: "w = Answered" "t0 \<le> now" "now \<le> H" by simp_all
    show ?thesis
    proof (cases "i < length pcs")
      case False
      with assms(1) Step st show ?thesis by simp
    next
      case True
      obtain pc' ks' ls where s: "caller_step codec opts k Answered now token draw loaded (pcs ! i) (fg_ks st) = (pc', ks', ls)"
        by (metis prod_cases3)
      from caller_step_one_flight [OF inv True t(2,3) assms(3,4) s]
      obtain lock' c' where "one_flight codec H k lock' c' ks' (pcs[i := pc']) (loads @ ls)" by blast
      with True Step t(1) st s show ?thesis by (auto simp: flight_of_def map_update intro!: exI)
    qed
  next
    case (Evict k')
    with assms(2) have "one_flight codec H k lock c (r_del k' (fg_ks st)) pcs loads"
      by (intro one_flight_del [OF inv]) simp_all
    with Evict st show ?thesis by (auto simp: flight_of_def)
  next
    case (Invalidate w keys)
    with assms(2) one_flight_dels [OF inv]
    have "one_flight codec H k lock c (invalidate w keys (fg_ks st)) pcs loads"
      using inv by (auto simp: invalidate_def command_def split: wire.splits)
    with Invalidate st show ?thesis by (auto simp: flight_of_def)
  qed
qed

text \<open>A caller that ends with an error is told of a load that failed.\<close>

fun pc_error :: "'v pc \<Rightarrow> exn option" where
  "pc_error (Releasing tk (Inl e)) = Some e"
| "pc_error (Finished (Inl e)) = Some e"
| "pc_error _ = None"

definition load_failed :: "'v flight_event list \<Rightarrow> exn \<Rightarrow> bool" where
  "load_failed es e \<longleftrightarrow> (\<exists>i w now token draw. Step i w now token draw (Inl e) \<in> set es)"

lemma caller_step_error:
  "caller_step codec opts key w now token draw loaded pc ks = (pc', ks', ls) \<Longrightarrow>
    pc_error pc' = pc_error pc \<or> pc_error pc' = None \<or> loaded = Inl (the (pc_error pc'))"
proof (cases pc)
  case (Releasing tk r)
  then show "caller_step codec opts key w now token draw loaded pc ks = (pc', ks', ls) \<Longrightarrow> ?thesis"
    by (cases r) auto
qed (cases loaded; auto split: read_result.splits prod.splits sum.splits option.splits)+

lemma errors_of_loads:
  "(k, pc) \<in> set (fg_callers (run_flight codec opts es (callers_of keys))) \<Longrightarrow> pc_error pc = Some e
     \<Longrightarrow> load_failed es e"
proof (induction es arbitrary: k pc rule: rev_induct)
  case Nil
  then show ?case by (auto simp: run_flight_def callers_of_def)
next
  case (snoc ev es)
  let ?st = "run_flight codec opts es (callers_of keys)"
  have run: "run_flight codec opts (es @ [ev]) (callers_of keys) = flight_step codec opts ev ?st"
    by (simp add: run_flight_def)
  have more: "load_failed es e \<Longrightarrow> load_failed (es @ [ev]) e" by (fastforce simp: load_failed_def)
  show ?case
  proof (cases "(k, pc) \<in> set (fg_callers ?st)")
    case True
    with snoc more show ?thesis by blast
  next
    case False
    with snoc.prems(1) run obtain i w now token draw loaded where
        ev: "ev = Step i w now token draw loaded" and i: "i < length (fg_callers ?st)"
      by (cases ev) (auto split: if_splits)
    obtain key pc0 where c: "fg_callers ?st ! i = (key, pc0)" by (cases "fg_callers ?st ! i")
    obtain pc' ks' ls where s: "caller_step codec opts key w now token draw loaded pc0 (fg_ks ?st) = (pc', ks', ls)"
      by (metis prod_cases3)
    have "(k, pc) \<in> insert (key, pc') (set (fg_callers ?st))"
      using snoc.prems(1) run ev i c s set_update_subset_insert [of "fg_callers ?st" i "(key, pc')"] by auto
    with False have pc: "pc = pc'" by auto
    have mem: "(key, pc0) \<in> set (fg_callers ?st)" using i c by (metis nth_mem)
    consider "pc_error pc0 = Some e" | "loaded = Inl e"
      using caller_step_error [OF s] snoc.prems(2) pc by auto
    then show ?thesis
    proof cases
      case 1
      with mem snoc.IH more show ?thesis by blast
    next
      case 2
      with ev show ?thesis by (fastforce simp: load_failed_def)
    qed
  qed
qed

text \<open>
  C31. One load serves everybody. Let any number of callers miss one key together, let Redis answer
  every command, let no step come later than the lock and the entries live, and let nothing but other
  keys be evicted or invalidated. Then in every interleaving at most one load succeeds between them;
  a caller that has a value has that value, and a caller that has an error has the error of a load that
  failed, after which the lock elects the next loader.
\<close>

theorem single_flight:
  assumes "\<forall>v. snd codec (fst codec v) = Some v" and "ttl_covers opts (H - t0)"
    and "\<forall>e\<in>set es. in_time key t0 H e"
    and "st = run_flight codec opts es (callers_of (replicate n key))"
  shows "length (fg_loads st) \<le> 1
    \<and> (\<forall>k v. (k, Finished (Inr v)) \<in> set (fg_callers st) \<longrightarrow> fg_loads st = [(key, v)])
    \<and> (\<forall>k e. (k, Finished (Inl e)) \<in> set (fg_callers st) \<longrightarrow>
        (\<exists>i w now token draw. Step i w now token draw (Inl e) \<in> set es))"
proof -
  have "flight_of codec H key (callers_of (replicate n key))"
    unfolding flight_of_def one_flight_def callers_of_def
    by (intro exI [of _ None] exI [of _ "replicate n FirstRead"] exI [of _ "[]"])
      (simp add: shows_until_def map_replicate)
  then have "flight_of codec H key (fold (flight_step codec opts) es (callers_of (replicate n key)))"
    using assms(3)
  proof (induction es rule: rev_induct)
    case (snoc e es)
    then show ?case by (auto intro: flight_of_step [OF _ _ assms(2,1)])
  qed simp
  then obtain lock c pcs loads where inv: "one_flight codec H key lock c (fg_ks st) pcs loads"
    and st: "fg_callers st = map (Pair key) pcs" "fg_loads st = map (Pair key) loads"
    using assms(4) by (auto simp: flight_of_def run_flight_def)
  have "length loads \<le> 1" using one_flightD(6) [OF inv] by auto
  moreover have "loads = [v]" if "Finished (Inr v) \<in> set pcs" for v
    using that one_flightD(4) [OF inv] by (fastforce simp: in_set_conv_nth)
  moreover have "load_failed es e" if "(k, Finished (Inl e)) \<in> set (fg_callers st)" for k e
    by (rule errors_of_loads [OF that [unfolded assms(4)]]) simp
  ultimately show ?thesis using st by (fastforce simp: load_failed_def)
qed

section \<open>Concrete flights\<close>

definition bit_codec :: "bool codec" where
  "bit_codec = (\<lambda>v. case v of None \<Rightarrow> ''null'' | Some b \<Rightarrow> if b then ''true'' else ''false'',
     \<lambda>s. if s = ''null'' then Some None else if s = ''true'' then Some (Some True)
         else if s = ''false'' then Some (Some False) else None)"

lemma bit_codec_roundtrip: "\<forall>v. snd bit_codec (fst bit_codec v) = Some v"
  by (simp add: bit_codec_def split: option.splits)

definition demo_opts :: single_flight_options where
  "demo_opts = \<lparr>sf_ttlBaseSec = 300, sf_ttlJitterSec = 60, sf_negativeTtlBaseSec = 30,
     sf_negativeTtlJitterSec = 15, sf_lockTtlMs = 5000, sf_pollMs = 25\<rparr>"

definition demo_at :: "nat \<Rightarrow> int \<Rightarrow> string \<Rightarrow> bool flight_event" where
  "demo_at i now token = Step i Answered now token 0 (Inr (Some True))"

definition two_callers :: "bool flight_event list" where
  "two_callers = [demo_at 0 1 ''a'', demo_at 1 1 ''b'', demo_at 0 2 ''a'', demo_at 1 2 ''b'', demo_at 0 3 ''a'',
     demo_at 0 4 ''a'', demo_at 0 5 ''a'', demo_at 1 27 ''b'', demo_at 0 28 ''a'']"

lemma two_callers_done:
  "fg_callers (run_flight bit_codec demo_opts two_callers (callers_of (replicate 2 ''k'')))
     = [(''k'', Finished (Inr (Some True))), (''k'', Finished (Inr (Some True)))]"
  "fg_loads (run_flight bit_codec demo_opts two_callers (callers_of (replicate 2 ''k''))) = [(''k'', Some True)]"
  by code_simp+

lemma cache_serves_loaded_values_witness:
  "(''k'', Some True) \<in> set (fg_loads (run_flight bit_codec demo_opts two_callers (callers_of (replicate 2 ''k''))))"
  by (rule cache_serves_loaded_values [OF bit_codec_roundtrip])
    (simp add: is_lock_key_def js_startsWith_def, simp add: two_callers_done)

lemma single_flight_witness:
  "length (fg_loads (run_flight bit_codec demo_opts two_callers (callers_of (replicate 2 ''k'')))) \<le> 1"
  using single_flight [OF bit_codec_roundtrip, of demo_opts 5001 1 two_callers "''k''" _ 2]
  by (simp add: ttl_covers_def demo_opts_def two_callers_def demo_at_def)

end
