(* ===== verification/Session.thy ===== *)
theory Session
  imports Redis
begin

text \<open>
  Server-side sessions (\<open>src/session/*\<close>): the store over the hashes of the state Redis, the
  middleware that touches a session on every request, the cookie, and the controller. The hash
  function, \<open>decodeURIComponent\<close>, new session ids and the two clocks (that of Redis and the
  process's dates) are arguments.
\<close>

section \<open>The store\<close>

definition SESSION_COOKIE :: string where "SESSION_COOKIE = ''sid''"
definition SESSION_TTL_MS :: int where "SESSION_TTL_MS = 30 * 60 * 1000"

text \<open>A field read back from Redis that is not there is \<open>undefined\<close>: \<open>None\<close>.\<close>

record session_data =
  se_userId :: "string option"
  se_createdAt :: "string option"
  se_lastSeenAt :: "string option"
  se_requests :: jsnum

type_synonym hash = "(string \<times> string) list"

definition hset :: "string \<Rightarrow> string \<Rightarrow> hash \<Rightarrow> hash" where
  "hset f v h = upsert fst (f, v) h"

text \<open>\<open>HINCRBY\<close>: the field as a 64-bit integer, 0 when absent.\<close>

definition redis_int :: "string \<Rightarrow> int option" where
  "redis_int s =
     (let neg = (s \<noteq> [] \<and> hd s = CHR ''-''); ds = (if neg then tl s else s);
          n = (if neg then - int (digits_val ds) else int (digits_val ds))
      in if ds \<noteq> [] \<and> list_all is_digit ds \<and> int8_ok n then Some n else None)"

definition hincrby :: "string \<Rightarrow> int \<Rightarrow> hash \<Rightarrow> exn + hash" where
  "hincrby f d h = (case map_of h f of
       None \<Rightarrow> Inr (hset f (show_int d) h)
     | Some s \<Rightarrow>
         (case redis_int s of
            None \<Rightarrow> Inl (JsError ''ERR hash value is not an integer'')
          | Some n \<Rightarrow> if int8_ok (n + d) then Inr (hset f (show_int (n + d)) h)
              else Inl (JsError ''ERR increment or decrement would overflow'')))"

definition TOUCH :: "int \<Rightarrow> string \<Rightarrow> int \<Rightarrow> string \<Rightarrow> hash keyspace \<Rightarrow> (exn + hash option) \<times> hash keyspace" where
  "TOUCH now key ttl seen ks = (case r_get now ks key of
       None \<Rightarrow> (Inr None, ks)
     | Some h \<Rightarrow>
         (case hincrby ''requests'' 1 h of
            Inl e \<Rightarrow> (Inl e, ks)
          | Inr h1 \<Rightarrow>
              (let h2 = hset ''lastSeenAt'' seen h1 in (Inr (Some h2), r_put now key h2 ttl ks))))"

definition keyFor :: "(string \<Rightarrow> string) \<Rightarrow> string \<Rightarrow> string" where
  "keyFor sha256 sid = ''session:'' @ sha256 sid"

definition new_fields :: "string \<Rightarrow> string \<Rightarrow> hash" where
  "new_fields userId now =
     [(''userId'', userId), (''createdAt'', now), (''lastSeenAt'', now), (''requests'', show_int 1)]"

text \<open>\<open>create\<close>: \<open>sid\<close> is the random id drawn, \<open>date\<close> the process's clock.\<close>

definition session_create ::
  "(string \<Rightarrow> string) \<Rightarrow> int \<Rightarrow> wire \<Rightarrow> int \<Rightarrow> int \<Rightarrow> string \<Rightarrow> string \<Rightarrow> hash keyspace
     \<Rightarrow> (exn + string \<times> session_data) \<times> hash keyspace" where
  "session_create sha256 ttlMs w now date sid userId ks =
     (let d = js_toISOString date; key = keyFor sha256 sid;
          h0 = (\<lambda>s. case r_get now s key of Some h \<Rightarrow> h | None \<Rightarrow> [])
      in case command w (\<lambda>s. ((), r_put now key (fold (\<lambda>(f, v). hset f v) (new_fields userId d) (h0 s)) ttlMs s)) ks of
           (Inl e, ks') \<Rightarrow> (Inl e, ks')
         | (Inr _, ks') \<Rightarrow> (Inr (sid, \<lparr>se_userId = Some userId, se_createdAt = Some d,
             se_lastSeenAt = Some d, se_requests = Fin 1\<rparr>), ks'))"

definition data_of_hash :: "hash \<Rightarrow> session_data" where
  "data_of_hash h = \<lparr>se_userId = map_of h ''userId'', se_createdAt = map_of h ''createdAt'',
     se_lastSeenAt = map_of h ''lastSeenAt'', se_requests = js_Number_opt (map_of h ''requests'')\<rparr>"

definition touch ::
  "(string \<Rightarrow> string) \<Rightarrow> int \<Rightarrow> wire \<Rightarrow> int \<Rightarrow> int \<Rightarrow> string \<Rightarrow> hash keyspace
     \<Rightarrow> (exn + session_data option) \<times> hash keyspace" where
  "touch sha256 ttlMs w now date sid ks =
     (case command w (TOUCH now (keyFor sha256 sid) ttlMs (js_toISOString date)) ks of
        (Inl e, ks') \<Rightarrow> (Inl e, ks')
      | (Inr (Inl e), ks') \<Rightarrow> (Inl e, ks')
      | (Inr (Inr flat), ks') \<Rightarrow> (Inr (map_option data_of_hash flat), ks'))"

definition session_destroy ::
  "(string \<Rightarrow> string) \<Rightarrow> wire \<Rightarrow> string \<Rightarrow> hash keyspace \<Rightarrow> (exn + unit) \<times> hash keyspace" where
  "session_destroy sha256 w sid ks = command w (\<lambda>s. ((), r_del (keyFor sha256 sid) s)) ks"

section \<open>Cookies\<close>

definition cookie_parts :: "string \<Rightarrow> (string \<times> string) option" where
  "cookie_parts part =
     (if CHR ''='' \<in> set part
      then Some (js_trim (takeWhile (\<lambda>c. c \<noteq> CHR ''='') part), js_trim (tl (dropWhile (\<lambda>c. c \<noteq> CHR ''='') part)))
      else None)"

text \<open>\<open>readCookie\<close>; \<open>decode\<close> is \<open>decodeURIComponent\<close>, \<open>None\<close> where that throws.\<close>

definition readCookie ::
  "(string \<Rightarrow> string option) \<Rightarrow> string option \<Rightarrow> string \<Rightarrow> exn + string option" where
  "readCookie decode header name = (case header of
       None \<Rightarrow> Inr None
     | Some h \<Rightarrow>
         if h = [] then Inr None
         else (case List.find (\<lambda>kv. fst kv = name) (List.map_filter cookie_parts (js_split (CHR '';'') h)) of
             None \<Rightarrow> Inr None
           | Some (_, v) \<Rightarrow> (case decode v of Some s \<Rightarrow> Inr (Some s) | None \<Rightarrow> Inl (JsError ''URI malformed''))))"

definition LOOPBACK_HOSTS :: "string list" where
  "LOOPBACK_HOSTS = [''localhost'', ''127.0.0.1'', ''::1'', ''[::1]'']"

record session_request =
  sr_cookie :: "string option"
  sr_secure :: bool
  sr_hostname :: string
  sr_session :: "(string \<times> session_data) option"

definition cookieAttributes :: "session_request \<Rightarrow> string" where
  "cookieAttributes req =
     (let local = (\<not> sr_secure req \<and> sr_hostname req \<in> set LOOPBACK_HOSTS)
      in ''Path=/; HttpOnly; SameSite=Lax'' @ (if local then [] else ''; Secure''))"

definition setSessionCookie :: "session_request \<Rightarrow> string \<Rightarrow> string" where
  "setSessionCookie req sid = SESSION_COOKIE @ ''='' @ sid @ ''; '' @ cookieAttributes req"

definition clearSessionCookie :: "session_request \<Rightarrow> string" where
  "clearSessionCookie req = SESSION_COOKIE @ ''=; '' @ cookieAttributes req @ ''; Max-Age=0''"

section \<open>Middleware\<close>

text \<open>The request with its session, and the \<open>Set-Cookie\<close> header set on the response.\<close>

definition session_use ::
  "(string \<Rightarrow> string) \<Rightarrow> (string \<Rightarrow> string option) \<Rightarrow> int \<Rightarrow> wire \<Rightarrow> int \<Rightarrow> int \<Rightarrow> session_request
     \<Rightarrow> hash keyspace \<Rightarrow> (exn + session_request \<times> string option) \<times> hash keyspace" where
  "session_use sha256 decode ttlMs w now date req ks =
     (case readCookie decode (sr_cookie req) SESSION_COOKIE of
        Inl e \<Rightarrow> (Inl e, ks)
      | Inr None \<Rightarrow> (Inr (req, None), ks)
      | Inr (Some sid) \<Rightarrow>
          if sid = [] then (Inr (req, None), ks)
          else (case touch sha256 ttlMs w now date sid ks of
              (Inl e, ks') \<Rightarrow> (Inr (req, None), ks')
            | (Inr (Some data), ks') \<Rightarrow> (Inr (req\<lparr>sr_session := Some (sid, data)\<rparr>, None), ks')
            | (Inr None, ks') \<Rightarrow> (Inr (req, Some (clearSessionCookie req)), ks')))"

section \<open>Controller\<close>

record session_body =
  sb_user_id :: "string option"
  sb_created_at :: "string option"
  sb_last_seen_at :: "string option"
  sb_requests :: jsnum

definition toBody :: "session_data \<Rightarrow> session_body" where
  "toBody data = \<lparr>sb_user_id = se_userId data, sb_created_at = se_createdAt data,
     sb_last_seen_at = se_lastSeenAt data, sb_requests = se_requests data\<rparr>"

text \<open>The answers of the three handlers: a body, with the cookie set, if any.\<close>

type_synonym session_reply = "exn + session_body option \<times> string option"

definition post_session ::
  "(string \<Rightarrow> string) \<Rightarrow> int \<Rightarrow> wire \<Rightarrow> wire \<Rightarrow> int \<Rightarrow> int \<Rightarrow> string \<Rightarrow> string \<Rightarrow> session_request
     \<Rightarrow> hash keyspace \<Rightarrow> session_reply \<times> hash keyspace" where
  "post_session sha256 ttlMs w1 w2 now date new_sid user_sub req ks =
     (case (case sr_session req of
              Some (sid, _) \<Rightarrow> session_destroy sha256 w1 sid ks
            | None \<Rightarrow> (Inr (), ks)) of
        (Inl e, ks1) \<Rightarrow> (Inl e, ks1)
      | (Inr _, ks1) \<Rightarrow>
          (case session_create sha256 ttlMs w2 now date new_sid user_sub ks1 of
             (Inl e, ks2) \<Rightarrow> (Inl e, ks2)
           | (Inr (sid, data), ks2) \<Rightarrow> (Inr (Some (toBody data), Some (setSessionCookie req sid)), ks2)))"

definition get_session :: "session_request \<Rightarrow> session_reply" where
  "get_session req = (case sr_session req of
       None \<Rightarrow> Inl (UnauthorizedException ''no session'')
     | Some (_, data) \<Rightarrow> Inr (Some (toBody data), None))"

definition delete_session ::
  "(string \<Rightarrow> string) \<Rightarrow> wire \<Rightarrow> session_request \<Rightarrow> hash keyspace \<Rightarrow> session_reply \<times> hash keyspace" where
  "delete_session sha256 w req ks =
     (case (case sr_session req of
              Some (sid, _) \<Rightarrow> session_destroy sha256 w sid ks
            | None \<Rightarrow> (Inr (), ks)) of
        (Inl e, ks1) \<Rightarrow> (Inl e, ks1)
      | (Inr _, ks1) \<Rightarrow> (Inr (None, Some (clearSessionCookie req)), ks1))"

text \<open>
  A request to the server: the middleware, then the handler of its route, if the route is one of
  the session controller. \<open>PostSession\<close> carries the user the access token proves and the id drawn.
\<close>

datatype session_route = PostSession string string | GetSession | DeleteSession | OtherRoute

record session_event =
  sv_now :: int
  sv_date :: int
  sv_wires :: "wire \<times> wire \<times> wire"
  sv_request :: session_request
  sv_route :: session_route

definition serve_session ::
  "(string \<Rightarrow> string) \<Rightarrow> (string \<Rightarrow> string option) \<Rightarrow> int \<Rightarrow> session_event \<Rightarrow> hash keyspace
     \<Rightarrow> session_reply \<times> hash keyspace" where
  "serve_session sha256 decode ttlMs ev ks =
     (case sv_wires ev of (w1, w2, w3) \<Rightarrow>
        (case session_use sha256 decode ttlMs w1 (sv_now ev) (sv_date ev) (sv_request ev) ks of
           (Inl e, ks1) \<Rightarrow> (Inl e, ks1)
         | (Inr (req, cookie), ks1) \<Rightarrow>
             (case sv_route ev of
                PostSession user sid \<Rightarrow> post_session sha256 ttlMs w2 w3 (sv_now ev) (sv_date ev) sid user req ks1
              | GetSession \<Rightarrow>
                  (case get_session req of Inl e \<Rightarrow> Inl e | Inr (b, _) \<Rightarrow> Inr (b, cookie), ks1)
              | DeleteSession \<Rightarrow> delete_session sha256 w2 req ks1
              | OtherRoute \<Rightarrow> (Inr (None, cookie), ks1))))"

end
