(* ===== verification/SessionProps.thy ===== *)
theory SessionProps
  imports Session
begin

text \<open>
  Properties of the sessions: the store over Redis hashes is a table of typed sessions with
  deadlines, and a session that was logged out never comes back.
\<close>

section \<open>The store as a table of sessions\<close>

record abs_session =
  as_user :: string
  as_created :: string
  as_seen :: string
  as_requests :: nat

text \<open>Each session with the last instant at which it is alive.\<close>

type_synonym abs_store = "string \<Rightarrow> (abs_session \<times> int) option"

definition abs_get :: "int \<Rightarrow> abs_store \<Rightarrow> string \<Rightarrow> abs_session option" where
  "abs_get now A sid = (case A sid of Some (d, t) \<Rightarrow> if now \<le> t then Some d else None | None \<Rightarrow> None)"

definition abs_data :: "abs_session \<Rightarrow> session_data" where
  "abs_data d = \<lparr>se_userId = Some (as_user d), se_createdAt = Some (as_created d),
     se_lastSeenAt = Some (as_seen d), se_requests = Fin (of_nat (as_requests d))\<rparr>"

datatype session_op = OpCreate string string | OpTouch string | OpDestroy string

fun op_sid :: "session_op \<Rightarrow> string" where
  "op_sid (OpCreate sid user) = sid"
| "op_sid (OpTouch sid) = sid"
| "op_sid (OpDestroy sid) = sid"

text \<open>The answer of an operation: the session it concerns, if there is one.\<close>

fun abs_op :: "int \<Rightarrow> int \<Rightarrow> int \<Rightarrow> session_op \<Rightarrow> abs_store \<Rightarrow> session_data option \<times> abs_store" where
  "abs_op ttl now date (OpCreate sid user) A =
     (let d = \<lparr>as_user = user, as_created = js_toISOString date, as_seen = js_toISOString date, as_requests = 1\<rparr>
      in (Some (abs_data d), A(sid \<mapsto> (d, now + ttl))))"
| "abs_op ttl now date (OpTouch sid) A = (case abs_get now A sid of
       None \<Rightarrow> (None, A)
     | Some d \<Rightarrow>
         (let d' = d\<lparr>as_seen := js_toISOString date, as_requests := as_requests d + 1\<rparr>
          in (Some (abs_data d'), A(sid \<mapsto> (d', now + ttl)))))"
| "abs_op ttl now date (OpDestroy sid) A = (None, A(sid := None))"

fun store_op ::
  "(string \<Rightarrow> string) \<Rightarrow> int \<Rightarrow> int \<Rightarrow> int \<Rightarrow> session_op \<Rightarrow> hash keyspace
     \<Rightarrow> (exn + session_data option) \<times> hash keyspace" where
  "store_op sha256 ttl now date (OpCreate sid user) ks =
     (case session_create sha256 ttl Answered now date sid user ks of
        (Inl e, ks') \<Rightarrow> (Inl e, ks') | (Inr (_, data), ks') \<Rightarrow> (Inr (Some data), ks'))"
| "store_op sha256 ttl now date (OpTouch sid) ks = touch sha256 ttl Answered now date sid ks"
| "store_op sha256 ttl now date (OpDestroy sid) ks =
     (case session_destroy sha256 Answered sid ks of
        (Inl e, ks') \<Rightarrow> (Inl e, ks') | (Inr _, ks') \<Rightarrow> (Inr None, ks'))"

fun run_store :: "(string \<Rightarrow> string) \<Rightarrow> int \<Rightarrow> (int \<times> int \<times> session_op) list \<Rightarrow> hash keyspace
    \<Rightarrow> (exn + session_data option) list" where
  "run_store sha256 ttl [] ks = []"
| "run_store sha256 ttl ((now, date, e) # es) ks =
     (case store_op sha256 ttl now date e ks of (r, ks') \<Rightarrow> r # run_store sha256 ttl es ks')"

fun abs_run :: "int \<Rightarrow> (int \<times> int \<times> session_op) list \<Rightarrow> abs_store \<Rightarrow> session_data option list" where
  "abs_run ttl [] A = []"
| "abs_run ttl ((now, date, e) # es) A =
     (case abs_op ttl now date e A of (r, A') \<Rightarrow> r # abs_run ttl es A')"

section \<open>The hash of a session\<close>

definition enc_session :: "abs_session \<Rightarrow> hash" where
  "enc_session d = [(''userId'', as_user d), (''createdAt'', as_created d), (''lastSeenAt'', as_seen d),
     (''requests'', show_int (int (as_requests d)))]"

lemma redis_int_show:
  assumes "int8_ok (int n)"
  shows "redis_int (show_int (int n)) = Some (int n)"
proof -
  have "show_nat n \<noteq> []" "hd (show_nat n) \<noteq> CHR ''-''"
    using show_nat_digits [of n] by (cases "show_nat n"; auto)+
  with assms show ?thesis
    by (simp add: redis_int_def show_int_def show_nat_digits)
qed

lemma int8_small: "n < 2 ^ 62 \<Longrightarrow> int8_ok (int n)"
  by (simp add: int8_ok_def)

lemma data_of_enc:
  assumes "as_requests d < 2 ^ 64"
  shows "data_of_hash (enc_session d) = abs_data d"
  using assms js_Number_show_nat [of "as_requests d"]
  by (simp add: data_of_hash_def enc_session_def abs_data_def js_Number_opt_def show_int_def)

lemma TOUCH_enc:
  assumes "as_requests d < 2 ^ 62" and "r_get now ks key = Some (enc_session d)"
    and "d' = d\<lparr>as_seen := seen, as_requests := as_requests d + 1\<rparr>"
  shows "TOUCH now key ttl seen ks = (Inr (Some (enc_session d')), r_put now key (enc_session d') ttl ks)"
proof -
  have "int8_ok (int (as_requests d) + 1)" using assms(1) by (simp add: int8_ok_def)
  then have "hincrby ''requests'' 1 (enc_session d) = Inr (enc_session (d\<lparr>as_requests := as_requests d + 1\<rparr>))"
    using redis_int_show [OF int8_small [OF assms(1)]]
    by (simp add: hincrby_def enc_session_def hset_def upsert_def add.commute)
  then show ?thesis
    using assms(2,3) by (simp add: TOUCH_def enc_session_def hset_def upsert_def Let_def)
qed

text \<open>\<open>HSET\<close> of all fields leaves the hash of the new session, whatever was there.\<close>

lemma new_fields_enc:
  "fold (\<lambda>(f, v). hset f v) (new_fields user seen) (case h of Some d0 \<Rightarrow> enc_session d0 | None \<Rightarrow> [])
     = enc_session \<lparr>as_user = user, as_created = seen, as_seen = seen, as_requests = 1\<rparr>"
  by (cases h) (simp_all add: new_fields_def enc_session_def hset_def upsert_def)

section \<open>Refinement\<close>

definition holds_sessions ::
  "(string \<Rightarrow> string) \<Rightarrow> string set \<Rightarrow> nat \<Rightarrow> int \<Rightarrow> hash keyspace \<Rightarrow> abs_store \<Rightarrow> bool" where
  "holds_sessions sha256 S m now ks A \<longleftrightarrow>
     (\<forall>sid\<in>S. (\<forall>now'\<ge>now. r_get now' ks (keyFor sha256 sid) = map_option enc_session (abs_get now' A sid))
        \<and> (\<forall>d t. A sid = Some (d, t) \<longrightarrow> as_requests d \<le> m))"

lemma keyFor_eq: "inj_on sha256 S \<Longrightarrow> a \<in> S \<Longrightarrow> b \<in> S \<Longrightarrow> keyFor sha256 a = keyFor sha256 b \<longleftrightarrow> a = b"
  by (auto simp: keyFor_def dest: inj_onD)

lemma holds_sessions_put:
  assumes "holds_sessions sha256 S m now0 ks A" and "inj_on sha256 S" and "sid \<in> S"
    and "now0 \<le> now" and "as_requests d \<le> Suc m"
  shows "holds_sessions sha256 S (Suc m) now (r_put now (keyFor sha256 sid) (enc_session d) ttl ks) (A(sid \<mapsto> (d, now + ttl)))"
  unfolding holds_sessions_def
proof (intro ballI conjI allI impI)
  fix s assume s: "s \<in> S"
  have k: "keyFor sha256 s = keyFor sha256 sid \<longleftrightarrow> s = sid" by (rule keyFor_eq [OF assms(2) s assms(3)])
  { fix now' assume "now \<le> now'"
    with assms(1,4) s k show "r_get now' (r_put now (keyFor sha256 sid) (enc_session d) ttl ks) (keyFor sha256 s)
        = map_option enc_session (abs_get now' (A(sid \<mapsto> (d, now + ttl))) s)"
      by (cases "s = sid") (simp_all add: holds_sessions_def abs_get_def) }
  { fix d' t assume "(A(sid \<mapsto> (d, now + ttl))) s = Some (d', t)"
    with assms(1,5) s show "as_requests d' \<le> Suc m"
      by (cases "s = sid") (fastforce simp: holds_sessions_def)+ }
qed

lemma holds_sessions_later:
  assumes "holds_sessions sha256 S m now0 ks A" and "now0 \<le> now"
  shows "holds_sessions sha256 S (Suc m) now ks A"
  using assms by (fastforce simp: holds_sessions_def)

lemma holds_sessions_del:
  assumes "holds_sessions sha256 S m now0 ks A" and "inj_on sha256 S" and "sid \<in> S" and "now0 \<le> now"
  shows "holds_sessions sha256 S (Suc m) now (r_del (keyFor sha256 sid) ks) (A(sid := None))"
  using holds_sessions_later [OF assms(1,4)] assms(3) keyFor_eq [OF assms(2) _ assms(3)]
  by (auto simp: holds_sessions_def abs_get_def)

lemma store_op_refines:
  assumes R: "holds_sessions sha256 S m now0 ks A" and inj: "inj_on sha256 S" and sid: "op_sid e \<in> S"
    and now: "now0 \<le> now" and m: "m < 2 ^ 62" and op: "abs_op ttl now date e A = (r, A')"
  shows "\<exists>ks'. store_op sha256 ttl now date e ks = (Inr r, ks') \<and> holds_sessions sha256 S (Suc m) now ks' A'"
proof -
  have get: "r_get now ks (keyFor sha256 (op_sid e)) = map_option enc_session (abs_get now A (op_sid e))"
    using R sid now by (simp add: holds_sessions_def)
  show ?thesis
  proof (cases e)
    case (OpCreate s user)
    let ?d = "\<lparr>as_user = user, as_created = js_toISOString date, as_seen = js_toISOString date, as_requests = 1\<rparr>"
    have f: "fold (\<lambda>(f, v). hset f v) (new_fields user (js_toISOString date))
        (case r_get now ks (keyFor sha256 s) of Some h \<Rightarrow> h | None \<Rightarrow> []) = enc_session ?d"
      using get OpCreate new_fields_enc [of user "js_toISOString date" "abs_get now A s"]
      by (cases "abs_get now A s") simp_all
    have "holds_sessions sha256 S (Suc m) now (r_put now (keyFor sha256 s) (enc_session ?d) ttl ks) (A(s \<mapsto> (?d, now + ttl)))"
      by (rule holds_sessions_put [OF R inj _ now]) (use sid OpCreate in simp_all)
    with op f OpCreate show ?thesis by (auto simp: session_create_def Let_def abs_data_def)
  next
    case (OpTouch s)
    show ?thesis
    proof (cases "abs_get now A s")
      case None
      with get op OpTouch holds_sessions_later [OF R now] show ?thesis
        by (auto simp: touch_def TOUCH_def)
    next
      case (Some d)
      let ?d = "d\<lparr>as_seen := js_toISOString date, as_requests := as_requests d + 1\<rparr>"
      obtain t where "A s = Some (d, t)" using Some by (auto simp: abs_get_def split: option.splits if_splits)
      then have dm: "as_requests d \<le> m" using R sid OpTouch by (auto simp: holds_sessions_def)
      then have d: "as_requests d < 2 ^ 62" using m by simp
      have "TOUCH now (keyFor sha256 s) ttl (js_toISOString date) ks
          = (Inr (Some (enc_session ?d)), r_put now (keyFor sha256 s) (enc_session ?d) ttl ks)"
        by (rule TOUCH_enc [OF d]) (use get OpTouch Some in simp_all)
      moreover have "data_of_hash (enc_session ?d) = abs_data ?d" using d by (intro data_of_enc) simp
      moreover have "holds_sessions sha256 S (Suc m) now (r_put now (keyFor sha256 s) (enc_session ?d) ttl ks) (A(s \<mapsto> (?d, now + ttl)))"
        by (rule holds_sessions_put [OF R inj _ now]) (use sid OpTouch dm in simp_all)
      ultimately show ?thesis using op OpTouch Some by (auto simp: touch_def Let_def)
    qed
  next
    case (OpDestroy s)
    with op sid holds_sessions_del [OF R inj _ now] show ?thesis by (auto simp: session_destroy_def)
  qed
qed

lemma run_store_refines:
  assumes "holds_sessions sha256 S m now ks A" and "inj_on sha256 S"
    and "\<forall>(_, _, e)\<in>set es. op_sid e \<in> S" and "sorted (now # map fst es)" and "m + length es < 2 ^ 62"
  shows "run_store sha256 ttl es ks = map Inr (abs_run ttl es A)"
  using assms
proof (induction es arbitrary: m now ks A)
  case Nil
  then show ?case by simp
next
  case (Cons e es)
  obtain t date p where e: "e = (t, date, p)" by (cases e)
  obtain r A' where op: "abs_op ttl t date p A = (r, A')" by (cases "abs_op ttl t date p A")
  have "\<exists>ks'. store_op sha256 ttl t date p ks = (Inr r, ks') \<and> holds_sessions sha256 S (Suc m) t ks' A'"
    by (rule store_op_refines [OF Cons.prems(1,2) _ _ _ op]) (use Cons.prems e in auto)
  then obtain ks' where "store_op sha256 ttl t date p ks = (Inr r, ks')" "holds_sessions sha256 S (Suc m) t ks' A'"
    by blast
  with Cons.IH [OF this(2) Cons.prems(2)] Cons.prems e op show ?case by simp
qed

text \<open>
  C32. The session store is a table of sessions with deadlines: over every sequence of creates,
  touches and destroys of any sessions, the hashes, the Lua script and the string counters answer
  like a typed table in which a touch counts the request and moves the deadline, and a session past
  its deadline or destroyed is not there.
\<close>

theorem session_store_refines:
  assumes "inj_on sha256 (op_sid ` (\<lambda>(_, _, e). e) ` set es)" and "sorted (map fst es)" and "length es < 2 ^ 62"
  shows "run_store sha256 ttl es empty_keyspace = map Inr (abs_run ttl es (\<lambda>_. None))"
proof (cases es)
  case (Cons e es')
  have "holds_sessions sha256 (op_sid ` (\<lambda>(_, _, e). e) ` set es) 0 (fst e) empty_keyspace (\<lambda>_. None)"
    by (simp add: holds_sessions_def abs_get_def)
  then show ?thesis
    by (rule run_store_refines [OF _ assms(1)]) (use assms(2,3) Cons in \<open>auto simp: image_iff split_beta\<close>)
qed simp

section \<open>A session ends for good\<close>

text \<open>The script of \<open>touch\<close> is a guarded renewal in the sense of the store's contract.\<close>

lemma TOUCH_renews: "\<exists>f. snd (TOUCH now key ttl seen ks) = ks
    \<or> snd (TOUCH now key ttl seen ks) = rk.renew now key f ttl ks"
proof (cases "r_get now ks key")
  case (Some h)
  then show ?thesis
    by (intro exI [of _ "\<lambda>h. case hincrby ''requests'' 1 h of Inr h1 \<Rightarrow> hset ''lastSeenAt'' seen h1 | Inl _ \<Rightarrow> h"])
      (simp add: TOUCH_def rk.renew_def Let_def split: sum.splits)
qed (simp add: TOUCH_def)

definition gone :: "int \<Rightarrow> string \<Rightarrow> hash keyspace \<Rightarrow> bool" where
  "gone now key ks \<longleftrightarrow> (\<forall>now'\<ge>now. r_get now' ks key = None)"

lemma gone_iff: "gone now key ks \<longleftrightarrow> r_get now ks key = None"
  by (auto simp: gone_def dest: r_get_fades)

lemma gone_later: "gone now key ks \<Longrightarrow> now \<le> now' \<Longrightarrow> gone now' key ks"
  by (simp add: gone_def)

lemma gone_TOUCH: "gone now key ks \<Longrightarrow> gone now key (snd (TOUCH now key' ttl seen ks))"
  using TOUCH_renews [of now key' ttl seen ks] rk.renew_not_resurrect [of now ks key now now]
  by (auto simp: gone_iff)

lemma gone_touch:
  assumes "gone now key ks" and "touch sha256 ttl w now date sid ks = (r, ks')"
  shows "gone now key ks'"
  using assms gone_TOUCH [OF assms(1), of "keyFor sha256 sid" ttl "js_toISOString date"]
  by (auto simp: touch_def command_def split: wire.splits sum.splits if_splits prod.splits)

lemma gone_destroy:
  assumes "gone now key ks" and "session_destroy sha256 w sid ks = (r, ks')"
  shows "gone now key ks'"
  using assms by (auto simp: session_destroy_def command_def gone_def split: wire.splits if_splits)

lemma gone_create:
  assumes "gone now key ks" and "keyFor sha256 sid \<noteq> key"
    and "session_create sha256 ttl w now date sid user ks = (r, ks')"
  shows "gone now key ks'"
  using assms by (auto simp: session_create_def Let_def command_def gone_def split: wire.splits if_splits)

lemma gone_use:
  assumes "gone now key ks" and "session_use sha256 decode ttl w now date req ks = (r, ks')"
  shows "gone now key ks'"
  using assms by (auto simp: session_use_def split: sum.splits option.splits prod.splits if_splits
      dest: gone_touch)

lemma gone_post:
  assumes "gone now key ks" and "keyFor sha256 sid \<noteq> key"
    and "post_session sha256 ttl w1 w2 now date sid user req ks = (r, ks')"
  shows "gone now key ks'"
  using assms by (auto simp: post_session_def split: sum.splits option.splits prod.splits
      dest: gone_destroy gone_create)

lemma gone_delete:
  assumes "gone now key ks" and "delete_session sha256 w req ks = (r, ks')"
  shows "gone now key ks'"
  using assms by (auto simp: delete_session_def split: sum.splits option.splits prod.splits dest: gone_destroy)

fun route_creates :: "(string \<Rightarrow> string) \<Rightarrow> string \<Rightarrow> session_route \<Rightarrow> bool" where
  "route_creates sha256 key (PostSession user sid) \<longleftrightarrow> keyFor sha256 sid = key"
| "route_creates sha256 key _ \<longleftrightarrow> False"

lemma gone_serve:
  assumes "gone (sv_now ev) key ks" and "\<not> route_creates sha256 key (sv_route ev)"
  shows "gone (sv_now ev) key (snd (serve_session sha256 decode ttl ev ks))"
proof -
  obtain w1 w2 w3 where w: "sv_wires ev = (w1, w2, w3)" by (cases "sv_wires ev")
  obtain r ks1 where u: "session_use sha256 decode ttl w1 (sv_now ev) (sv_date ev) (sv_request ev) ks = (r, ks1)"
    by (cases "session_use sha256 decode ttl w1 (sv_now ev) (sv_date ev) (sv_request ev) ks")
  have g: "gone (sv_now ev) key ks1" by (rule gone_use [OF assms(1) u])
  then show ?thesis
    using w u assms(2)
    by (cases "sv_route ev")
      (auto simp: serve_session_def split: sum.splits
        intro: gone_post [OF g _ surjective_pairing] gone_delete [OF g surjective_pairing])
qed

lemma gone_run:
  assumes "gone now key ks" and "sorted (now # map sv_now evs)"
    and "\<forall>ev\<in>set evs. \<not> route_creates sha256 key (sv_route ev)"
    and "\<forall>ev\<in>set evs. sv_now ev \<le> now'" and "now \<le> now'"
  shows "gone now' key (fold (\<lambda>ev s. snd (serve_session sha256 decode ttl ev s)) evs ks)"
  using assms
proof (induction evs arbitrary: now ks)
  case Nil
  then show ?case by (simp add: gone_later)
next
  case (Cons ev evs)
  have "gone (sv_now ev) key (snd (serve_session sha256 decode ttl ev ks))"
    by (rule gone_serve) (use Cons.prems gone_later [OF Cons.prems(1)] in auto)
  with Cons.IH [of "sv_now ev"] Cons.prems show ?case by auto
qed

text \<open>What a request that ends a session leaves behind: a logout, or a login with a session.\<close>

lemma ending_request:
  assumes "serve_session sha256 decode ttl ev ks = (Inr out, ks')"
    and "readCookie decode (sr_cookie (sv_request ev)) SESSION_COOKIE = Inr (Some sid)" and "sid \<noteq> []"
    and "sv_wires ev = (Answered, w2, w3)" and "r_get (sv_now ev) ks (keyFor sha256 sid) = Some (enc_session d)"
    and "as_requests d < 2 ^ 62"
    and "sv_route ev = DeleteSession
      \<or> (\<exists>user new. sv_route ev = PostSession user new \<and> keyFor sha256 new \<noteq> keyFor sha256 sid)"
  shows "gone (sv_now ev) (keyFor sha256 sid) ks'"
proof -
  let ?key = "keyFor sha256 sid"
  have destroyed: "gone (sv_now ev) ?key s'" if "session_destroy sha256 w sid s = (Inr u, s')" for w s u s'
    using that by (cases w) (auto simp: session_destroy_def command_def gone_def)
  obtain data ks1 where t: "touch sha256 ttl Answered (sv_now ev) (sv_date ev) sid ks = (Inr (Some data), ks1)"
    using TOUCH_enc [OF assms(6,5) refl, of ttl] by (simp add: touch_def)
  have u: "session_use sha256 decode ttl Answered (sv_now ev) (sv_date ev) (sv_request ev) ks
      = (Inr ((sv_request ev)\<lparr>sr_session := Some (sid, data)\<rparr>, None), ks1)"
    using assms(2,3) t by (simp add: session_use_def)
  from assms(7) show ?thesis
  proof (elim disjE exE conjE)
    assume "sv_route ev = DeleteSession"
    with assms(1,4) u show ?thesis
      by (auto simp: serve_session_def delete_session_def split: sum.splits prod.splits dest: destroyed)
  next
    fix user new
    assume r: "sv_route ev = PostSession user new" "keyFor sha256 new \<noteq> ?key"
    obtain s2 out' where "session_destroy sha256 w2 sid ks1 = (Inr (), s2)"
      and c: "session_create sha256 ttl w3 (sv_now ev) (sv_date ev) new user s2 = (Inr out', ks')"
      using assms(1,4) u r(1)
      by (auto simp: serve_session_def post_session_def split: sum.splits prod.splits)
    from gone_create [OF destroyed [OF this(1)] r(2) c] show ?thesis .
  qed
qed

text \<open>
  A session ends for good: once a logout, or a login of a client that had a session, was
  answered by a server whose Redis answered the first command, the old session id opens no session
  in any later request, whatever requests come between; the client is told to drop the cookie.
\<close>

theorem session_ends_for_good:
  assumes "serve_session sha256 decode ttl ev ks = (Inr out, ks')"
    and "readCookie decode (sr_cookie (sv_request ev)) SESSION_COOKIE = Inr (Some sid)" and "sid \<noteq> []"
    and "sv_wires ev = (Answered, w2, w3)"
    and "r_get (sv_now ev) ks (keyFor sha256 sid) = Some (enc_session d)" and "as_requests d < 2 ^ 62"
    and "sv_route ev = DeleteSession
      \<or> (\<exists>user new. sv_route ev = PostSession user new \<and> keyFor sha256 new \<noteq> keyFor sha256 sid)"
    and "\<forall>e\<in>set evs. \<not> route_creates sha256 (keyFor sha256 sid) (sv_route e)"
    and "sorted (map sv_now (ev # evs @ [late]))"
    and "readCookie decode (sr_cookie (sv_request late)) SESSION_COOKIE = Inr (Some sid)"
    and "sr_session (sv_request late) = None"
  shows "session_use sha256 decode ttl Answered (sv_now late) date (sv_request late)
      (fold (\<lambda>e s. snd (serve_session sha256 decode ttl e s)) evs ks')
    = (Inr (sv_request late, Some (clearSessionCookie (sv_request late))),
       fold (\<lambda>e s. snd (serve_session sha256 decode ttl e s)) evs ks')"
proof -
  have "gone (sv_now ev) (keyFor sha256 sid) ks'" by (rule ending_request [OF assms(1-7)])
  then have "gone (sv_now late) (keyFor sha256 sid)
      (fold (\<lambda>e s. snd (serve_session sha256 decode ttl e s)) evs ks')"
    by (rule gone_run) (use assms(8,9) in \<open>auto simp: sorted_append\<close>)
  then have "touch sha256 ttl Answered (sv_now late) date sid
      (fold (\<lambda>e s. snd (serve_session sha256 decode ttl e s)) evs ks')
    = (Inr None, fold (\<lambda>e s. snd (serve_session sha256 decode ttl e s)) evs ks')"
    by (simp add: gone_iff touch_def TOUCH_def)
  with assms(3,10) show ?thesis by (simp add: session_use_def)
qed

text \<open>
  When the command of the middleware is lost, the logout still answers 204 and clears the cookie,
  and the session lives on under its id.
\<close>

lemma lost_touch_keeps_session:
  assumes "readCookie decode (sr_cookie (sv_request ev)) SESSION_COOKIE = Inr (Some sid)" and "sid \<noteq> []"
    and "sv_wires ev = (Lost False, w2, w3)" and "sr_session (sv_request ev) = None"
    and "sv_route ev = DeleteSession"
  shows "serve_session sha256 decode ttl ev ks
    = (Inr (None, Some (clearSessionCookie (sv_request ev))), ks)"
  using assms by (simp add: serve_session_def session_use_def touch_def delete_session_def)

section \<open>Concrete sessions\<close>

definition demo_store_run :: "(int \<times> int \<times> session_op) list" where
  "demo_store_run = [(0, 1700000000000, OpCreate ''s'' ''7''), (10, 1700000000010, OpTouch ''s''),
     (20, 1700000000020, OpTouch ''t''), (1011, 1700000001011, OpTouch ''s'')]"

lemma session_store_refines_witness:
  "run_store (\<lambda>s. s) 1000 demo_store_run empty_keyspace = map Inr (abs_run 1000 demo_store_run (\<lambda>_. None))
   \<and> abs_run 1000 demo_store_run (\<lambda>_. None) ! 3 = None"
  using session_store_refines [of "\<lambda>s. s" demo_store_run 1000]
  by (simp add: demo_store_run_def inj_on_def abs_get_def Let_def)

definition demo_session :: abs_session where
  "demo_session = \<lparr>as_user = ''7'', as_created = ''c'', as_seen = ''c'', as_requests = 1\<rparr>"

definition demo_cookie_request :: session_request where
  "demo_cookie_request = \<lparr>sr_cookie = Some ''a=b; sid=s1'', sr_secure = True, sr_hostname = ''shop'', sr_session = None\<rparr>"

definition demo_logout :: session_event where
  "demo_logout = \<lparr>sv_now = 10, sv_date = 10, sv_wires = (Answered, Answered, Answered),
     sv_request = demo_cookie_request, sv_route = DeleteSession\<rparr>"

definition demo_sessions :: "hash keyspace" where
  "demo_sessions = r_put 0 (keyFor (\<lambda>s. s) ''s1'') (enc_session demo_session) 1000 empty_keyspace"

lemma demo_cookie_read: "readCookie Some (sr_cookie demo_cookie_request) SESSION_COOKIE = Inr (Some ''s1'')"
  by code_simp

lemma demo_logout_served:
  "\<exists>ks'. serve_session (\<lambda>s. s) Some 1000 demo_logout demo_sessions
     = (Inr (None, Some (clearSessionCookie demo_cookie_request)), ks')"
proof -
  have "r_get 10 demo_sessions (keyFor (\<lambda>s. s) ''s1'') = Some (enc_session demo_session)"
    by (simp add: demo_sessions_def)
  from TOUCH_enc [OF _ this refl] obtain data ks1 where
    "touch (\<lambda>s. s) 1000 Answered 10 10 ''s1'' demo_sessions = (Inr (Some data), ks1)"
    by (simp add: touch_def demo_session_def)
  then show ?thesis
    using demo_cookie_read
    by (simp add: serve_session_def demo_logout_def session_use_def delete_session_def session_destroy_def
        clearSessionCookie_def cookieAttributes_def)
qed

lemma session_ends_for_good_witness:
  "\<exists>ks'. session_use (\<lambda>s. s) Some 1000 Answered 10 20 demo_cookie_request ks'
     = (Inr (demo_cookie_request, Some (clearSessionCookie demo_cookie_request)), ks')"
proof -
  obtain ks' where s: "serve_session (\<lambda>s. s) Some 1000 demo_logout demo_sessions
      = (Inr (None, Some (clearSessionCookie demo_cookie_request)), ks')"
    using demo_logout_served by blast
  have "session_use (\<lambda>s. s) Some 1000 Answered 10 20 demo_cookie_request ks'
     = (Inr (demo_cookie_request, Some (clearSessionCookie demo_cookie_request)), ks')"
    using session_ends_for_good [OF s, of "''s1''" Answered Answered demo_session "[]" demo_logout 20] demo_cookie_read
    by (simp add: demo_logout_def demo_sessions_def demo_session_def demo_cookie_request_def)
  then show ?thesis by blast
qed

end
