(* ===== verification/Products.thy ===== *)
theory Products
  imports OrdersService SingleFlight RateLimit
begin

text \<open>
  The catalogue (\<open>src/products/*\<close>): listing by cursor, creating, reading one product, and the
  product card with its sales figures, read through the single-flight cache behind the rate limit.
\<close>

section \<open>The service\<close>

record product_item =
  pt_id :: int
  pt_name :: string
  pt_price_cents :: int

record product_page =
  pp_items :: "product_item list"
  pp_next_cursor :: "string option"

definition product_item_of :: "product_row \<Rightarrow> product_item" where
  "product_item_of p = \<lparr>pt_id = pr_id p, pt_name = pr_name p, pt_price_cents = pr_price_cents p\<rparr>"

definition product_cursor :: "string option \<Rightarrow> exn + int option" where
  "product_cursor cursor = (case cursor of
       None \<Rightarrow> Inr None
     | Some c \<Rightarrow> if c = [] then Inr None
                 else res_bind (bigint_of_number (js_Number c)) (\<lambda>i. Inr (Some i)))"

definition select_products :: "int option \<Rightarrow> nat \<Rightarrow> db \<Rightarrow> product_row list" where
  "select_products after n s = take n (sort_key pr_id (filter (\<lambda>p.
     pr_is_active p \<and> (case after of None \<Rightarrow> True | Some i \<Rightarrow> i < pr_id p)) (t_products s)))"

definition product_findAll :: "nat \<Rightarrow> string option \<Rightarrow> db \<Rightarrow> exn + product_page" where
  "product_findAll limit cursor s = res_bind (product_cursor cursor) (\<lambda>after.
     let products = select_products after (limit + 1) s;
         hasMore = limit < length products;
         items = map product_item_of (if hasMore then take limit products else products)
     in if \<not> hasMore then Inr \<lparr>pp_items = items, pp_next_cursor = None\<rparr>
        else if items = [] then Inl (JsError ''Cannot read properties of undefined'')
        else Inr \<lparr>pp_items = items, pp_next_cursor = Some (show_int (pt_id (last items)))\<rparr>)"

record create_product =
  cp_name :: string
  cp_price_cents :: int
  cp_stock :: "int option"

text \<open>The row is inserted with the next value of the sequence, which a failure does not give back.\<close>

definition product_create :: "int \<Rightarrow> create_product \<Rightarrow> product_item stmt" where
  "product_create now input s =
     (let stock = (case cp_stock input of Some n \<Rightarrow> n | None \<Rightarrow> 0)
      in if \<not> int4_ok (cp_price_cents input) \<or> \<not> int4_ok stock then (Inl numeric_out_of_range, s)
         else
          (let pid = sq_products (sequences s);
               s1 = s\<lparr>sequences := (sequences s)\<lparr>sq_products := pid + 1\<rparr>\<rparr>;
               row = \<lparr>pr_id = pid, pr_name = cp_name input, pr_price_cents = cp_price_cents input,
                      pr_stock = stock, pr_is_active = True, pr_created_at = now\<rparr>
           in if \<not> product_check row then (Inl check_violation, s1)
              else (Inr (product_item_of row), s1\<lparr>t_products := t_products s @ [row]\<rparr>)))"

definition product_not_found :: "int \<Rightarrow> exn" where
  "product_not_found i = NotFoundException (''Product '' @ show_int i @ '' not found'')"

definition product_findOne :: "int \<Rightarrow> db \<Rightarrow> exn + product_item" where
  "product_findOne i s = res_bind (bigint_of_number (Fin (of_int i))) (\<lambda>k.
     case filter (\<lambda>p. pr_id p = k) (t_products s) of
       [] \<Rightarrow> Inl (product_not_found i) | p # _ \<Rightarrow> Inr (product_item_of p))"

section \<open>The controller\<close>

text \<open>
  A value where a string is declared is converted to one before it is validated, arrays excepted;
  \<open>numstr\<close> is \<open>String\<close> of a number.
\<close>

definition dto_string :: "(jsnum \<Rightarrow> string) \<Rightarrow> jsval \<Rightarrow> string option" where
  "dto_string numstr v = (case v of
       JStr s \<Rightarrow> Some s
     | JNum n \<Rightarrow> Some (numstr n)
     | JBool b \<Rightarrow> Some (if b then ''true'' else ''false'')
     | JObj _ \<Rightarrow> Some ''[object Object]''
     | _ \<Rightarrow> None)"

definition CreateProductDto :: "(jsnum \<Rightarrow> string) \<Rightarrow> jsval \<Rightarrow> create_product option" where
  "CreateProductDto numstr body =
     (if \<not> set (js_keys body) \<subseteq> {''name'', ''price_cents'', ''stock''} then None
      else case (dto_string numstr (js_get ''name'' body), dto_number (js_get ''price_cents'' body)) of
          (Some name, Some price) \<Rightarrow>
            if 2 \<le> length name \<and> length name \<le> 200 \<and> js_isInteger price \<and> 0 \<le> js_int price
            then (case dto_number (js_get ''stock'' body) of
                    None \<Rightarrow> Some \<lparr>cp_name = name, cp_price_cents = js_int price, cp_stock = None\<rparr>
                  | Some n \<Rightarrow> if js_isInteger n \<and> 0 \<le> js_int n
                      then Some \<lparr>cp_name = name, cp_price_cents = js_int price, cp_stock = Some (js_int n)\<rparr>
                      else None)
            else None
        | _ \<Rightarrow> None)"

definition listProducts :: "nat option \<Rightarrow> string option \<Rightarrow> db \<Rightarrow> exn + product_page" where
  "listProducts limit cursor s = product_findAll (case limit of Some n \<Rightarrow> n | None \<Rightarrow> 20) cursor s"

text \<open>The guards, then the validation pipe, then the handler.\<close>

definition createProduct ::
  "'key auth_deps \<Rightarrow> (jsnum \<Rightarrow> string) \<Rightarrow> int \<Rightarrow> string option \<Rightarrow> jsval \<Rightarrow> product_item stmt" where
  "createProduct d numstr now authorization body s =
     (case res_bind (AuthGuard d now authorization s) (\<lambda>user.
             RolesGuard (Some [''seller'', ''admin'']) (Some user)) of
        Inl e \<Rightarrow> (Inl e, s)
      | Inr _ \<Rightarrow>
          (case CreateProductDto numstr body of
             None \<Rightarrow> (Inl (BadRequestException ''Bad Request''), s)
           | Some dto \<Rightarrow> product_create now dto s))"

definition getProduct :: "int \<Rightarrow> db \<Rightarrow> exn + product_item" where
  "getProduct i s = product_findOne i s"

section \<open>The product card\<close>

definition CARD_CACHE_OPTIONS :: single_flight_options where
  "CARD_CACHE_OPTIONS = \<lparr>sf_ttlBaseSec = 300, sf_ttlJitterSec = 60, sf_negativeTtlBaseSec = 30,
     sf_negativeTtlJitterSec = 15, sf_lockTtlMs = 5000, sf_pollMs = 25\<rparr>"

record product_card =
  pc_id :: int
  pc_name :: string
  pc_price_cents :: int
  pc_stock :: int
  pc_is_active :: bool
  pc_units_sold :: int
  pc_orders_count :: int
  pc_revenue_cents :: int
  pc_last_ordered_at :: "string option"

definition cardKey :: "int \<Rightarrow> string" where
  "cardKey productId = ''product:card:'' @ show_int productId"

text \<open>The joined rows of the card query that its aggregates count: lines with their orders.\<close>

definition counted :: "order_row \<Rightarrow> bool" where
  "counted ord \<longleftrightarrow> or_status ord = Pending \<or> or_status ord = Completed"

definition card_rows :: "int \<Rightarrow> db \<Rightarrow> (order_item_row \<times> order_row) list" where
  "card_rows p s = concat (map (\<lambda>oi. map (Pair oi)
       (filter (\<lambda>ord. or_id ord = oi_order_id oi \<and> counted ord) (t_orders s)))
     (filter (\<lambda>oi. oi_product_id oi = p) (t_order_items s)))"

definition max_time :: "int list \<Rightarrow> int option" where
  "max_time ts = (case ts of [] \<Rightarrow> None | t # ts' \<Rightarrow> Some (fold max ts' t))"

definition card_of :: "product_row \<Rightarrow> db \<Rightarrow> exn + product_card" where
  "card_of p s =
     (let rows = card_rows (pr_id p) s;
          units = sum_list (map (oi_quantity \<circ> fst) rows);
          orders = int (length (remdups (map (oi_order_id \<circ> fst) rows)));
          revenue = sum_list (map (oi_line_total_cents \<circ> fst) rows)
      in if \<not> int4_ok units \<or> \<not> int4_ok orders \<or> \<not> int8_ok revenue then Inl numeric_out_of_range
         else Inr \<lparr>pc_id = pr_id p, pc_name = pr_name p, pc_price_cents = pr_price_cents p,
           pc_stock = pr_stock p, pc_is_active = pr_is_active p, pc_units_sold = units,
           pc_orders_count = orders, pc_revenue_cents = revenue,
           pc_last_ordered_at = map_option js_toISOString (max_time (map (or_created_at \<circ> snd) rows))\<rparr>)"

definition card_load :: "int \<Rightarrow> db \<Rightarrow> exn + product_card option" where
  "card_load productId s = res_bind (bigint_of_number (Fin (of_int productId))) (\<lambda>k.
     case filter (\<lambda>p. pr_id p = k) (t_products s) of
       [] \<Rightarrow> Inr None
     | p # _ \<Rightarrow> res_bind (card_of p s) (\<lambda>c. Inr (Some c)))"

text \<open>\<open>ProductCardService.get\<close>: a caller of the cache whose load reads the database of the moment.\<close>

definition card_get_step ::
  "product_card codec \<Rightarrow> int \<Rightarrow> wire \<Rightarrow> int \<Rightarrow> string \<Rightarrow> nat \<Rightarrow> db
     \<Rightarrow> product_card pc \<Rightarrow> string keyspace \<Rightarrow> product_card pc \<times> string keyspace \<times> product_card option list" where
  "card_get_step codec productId w now token draw s pc ks =
     caller_step codec CARD_CACHE_OPTIONS (cardKey productId) w now token draw (card_load productId s) pc ks"

text \<open>The handler: refused by the rate limit, or what the finished caller gives.\<close>

definition getCard :: "exn + bool \<Rightarrow> int \<Rightarrow> exn + product_card option \<Rightarrow> exn + product_card" where
  "getCard guard i answer = (case guard of
       Inl e \<Rightarrow> Inl e
     | Inr _ \<Rightarrow> res_bind answer (\<lambda>card.
         case card of None \<Rightarrow> Inl (product_not_found i) | Some c \<Rightarrow> Inr c))"

end
