(* ===== verification/ProductsProps.thy ===== *)
theory ProductsProps
  imports Products Paging PlaceOrderProps
begin

text \<open>
  Properties of the catalogue: following the cursors lists every active product once, products are
  created only within the table's constraints, and the card's figures follow the orders.
\<close>

section \<open>Paging\<close>

definition active_products :: "db \<Rightarrow> product_row list" where
  "active_products s = sort_key pr_id (filter pr_is_active (t_products s))"

definition catalogue_ok :: "db \<Rightarrow> bool" where
  "catalogue_ok s \<longleftrightarrow> distinct (map pr_id (t_products s))
     \<and> (\<forall>p\<in>set (t_products s). 0 \<le> pr_id p \<and> pr_id p < 2 ^ 63)"

definition product_list_page :: "nat \<Rightarrow> db \<Rightarrow> string option \<Rightarrow> exn + product_item list \<times> string option" where
  "product_list_page limit s cursor = res_bind (product_findAll limit cursor s)
     (\<lambda>page. Inr (pp_items page, pp_next_cursor page))"

lemma select_products_active:
  "select_products after n s =
   take n (filter (\<lambda>p. case after of None \<Rightarrow> True | Some i \<Rightarrow> i < pr_id p) (active_products s))"
proof -
  have "sort_key pr_id (filter (\<lambda>p. pr_is_active p \<and> (case after of None \<Rightarrow> True | Some i \<Rightarrow> i < pr_id p)) (t_products s))
      = filter (\<lambda>p. case after of None \<Rightarrow> True | Some i \<Rightarrow> i < pr_id p) (active_products s)"
    unfolding active_products_def filter_sort filter_filter by (simp add: conj_commute)
  then show ?thesis by (simp add: select_products_def)
qed

lemma product_cursor_of_id:
  assumes "0 \<le> i" and "i < 2 ^ 63"
  shows "product_cursor (Some (show_int i)) = Inr (Some i)"
proof -
  have "js_Number (show_int i) = Fin (of_int i)"
    using js_Number_show_nat [of "nat i"] assms by (simp add: show_int_def)
  then show ?thesis
    using assms by (simp add: product_cursor_def bigint_of_number_def int8_ok_def show_int_def)
qed

lemma product_page_read:
  assumes "0 < limit" and "product_cursor cursor = Inr after"
    and "rest = filter (\<lambda>p. case after of None \<Rightarrow> True | Some i \<Rightarrow> i < pr_id p) (active_products s)"
  shows "product_list_page limit s cursor = Inr (keyset_page limit pr_id product_item_of rest)"
proof -
  let ?got = "select_products after (limit + 1) s"
  have "?got = take (limit + 1) rest" unfolding select_products_active assms(3) ..
  from keyset_page_read [OF assms(1) this, of product_item_of pr_id]
  show ?thesis
    using assms(1,2)
    by (auto simp: product_list_page_def product_findAll_def Let_def last_map product_item_of_def split: if_splits)
qed

interpretation product_list: keyset_paging catalogue_ok active_products pr_id "\<lambda>_. product_item_of" product_list_page
proof unfold_locales
  fix s assume s: "catalogue_ok s"
  then show "sorted (map pr_id (active_products s))" "distinct (map pr_id (active_products s))"
    by (simp_all add: catalogue_ok_def active_products_def distinct_map inj_on_def)
  fix limit :: nat assume limit: "0 < limit"
  show "product_list_page limit s None = Inr (keyset_page limit pr_id product_item_of (active_products s))"
    using product_page_read [OF limit, of None None] by (simp add: product_cursor_def)
  fix r assume "r \<in> set (active_products s)"
  with s have "product_cursor (Some (show_int (pr_id r))) = Inr (Some (pr_id r))"
    by (intro product_cursor_of_id) (auto simp: catalogue_ok_def active_products_def)
  then show "product_list_page limit s (Some (show_int (pr_id r)))
      = Inr (keyset_page limit pr_id product_item_of (filter (\<lambda>x. pr_id r < pr_id x) (active_products s)))"
    by (rule product_page_read [OF limit]) simp
qed

text \<open>
  Following the cursors of the catalogue lists every active product exactly once, in
  ascending id, for every page size from 1, and it ends.
\<close>

theorem catalogue_is_complete:
  assumes "catalogue_ok s" and "0 < limit"
  shows "walk_pages (Suc (length (active_products s))) (product_list_page limit s) None
      = Inr (map product_item_of (active_products s))
    \<and> set (active_products s) = {p \<in> set (t_products s). pr_is_active p}
    \<and> sorted (map pr_id (active_products s)) \<and> distinct (map pr_id (active_products s))"
  using product_list.walk_complete [OF assms] product_list.rows_sorted [OF assms(1)]
    product_list.rows_distinct [OF assms(1)]
  by (auto simp: active_products_def simp del: walk_pages.simps)

section \<open>The card follows the orders\<close>

lemma counted_join:
  assumes "distinct (map or_id ords)" and "ord \<in> set ords" and "or_id ord = i"
  shows "filter (\<lambda>x. or_id x = i \<and> counted x) ords = (if counted ord then [ord] else [])"
proof -
  have "filter (\<lambda>x. or_id x = i \<and> counted x) ords = filter counted (filter (\<lambda>x. or_id x = i) ords)"
    by (simp add: conj_commute)
  also have "filter (\<lambda>x. or_id x = i) ords = [ord]" using filter_key_single [OF assms(1,2)] assms(3) by simp
  finally show ?thesis by simp
qed

text \<open>What an accepted order adds to the rows behind a card: its lines of the product.\<close>

lemma card_rows_snoc:
  assumes fresh: "or_id new \<notin> or_id ` set (t_orders s)"
    and old: "\<forall>oi\<in>set (t_order_items s). oi_order_id oi \<in> or_id ` set (t_orders s)"
    and items: "\<forall>oi\<in>set items. oi_order_id oi = or_id new" and "counted new"
    and s': "t_orders s' = t_orders s @ [new]" "t_order_items s' = t_order_items s @ items"
  shows "card_rows p s' = card_rows p s @ map (\<lambda>oi. (oi, new)) (filter (\<lambda>oi. oi_product_id oi = p) items)"
proof -
  let ?join = "\<lambda>ords oi. map (Pair oi) (filter (\<lambda>ord. or_id ord = oi_order_id oi \<and> counted ord) ords)"
  have "map (?join (t_orders s')) (filter (\<lambda>oi. oi_product_id oi = p) (t_order_items s))
      = map (?join (t_orders s)) (filter (\<lambda>oi. oi_product_id oi = p) (t_order_items s))"
    using old fresh by (intro map_cong) (fastforce simp: s'(1))+
  moreover have "filter (\<lambda>ord. or_id ord = or_id new \<and> counted ord) (t_orders s) = []"
  proof -
    have "\<forall>ord\<in>set (t_orders s). or_id ord \<noteq> or_id new" using fresh by (metis image_eqI)
    then show ?thesis by (simp add: filter_empty_conv)
  qed
  then have "map (?join (t_orders s')) (filter (\<lambda>oi. oi_product_id oi = p) items)
      = map (\<lambda>oi. [(oi, new)]) (filter (\<lambda>oi. oi_product_id oi = p) items)"
    using items s'(1) assms(4) by (intro map_cong) auto
  ultimately show ?thesis
    unfolding card_rows_def s'(2) filter_append map_append concat_append by (simp only: concat_map_singleton)
qed

definition card_units :: "int \<Rightarrow> db \<Rightarrow> int" where
  "card_units p s = sum_list (map (oi_quantity \<circ> fst) (card_rows p s))"

definition card_orders :: "int \<Rightarrow> db \<Rightarrow> int" where
  "card_orders p s = int (length (remdups (map (oi_order_id \<circ> fst) (card_rows p s))))"

lemma card_load_figures:
  assumes "card_load p s = Inr (Some c)"
  shows "pc_units_sold c = card_units p s" "pc_orders_count c = card_orders p s"
    "\<exists>r. r \<in> set (t_products s) \<and> pr_id r = p \<and> pc_stock c = pr_stock r"
proof -
  from assms obtain k where k: "bigint_of_number (Fin (of_int p)) = Inr k"
    and f: "(case filter (\<lambda>r. pr_id r = k) (t_products s) of [] \<Rightarrow> Inr None
       | r # _ \<Rightarrow> res_bind (card_of r s) (\<lambda>c. Inr (Some c))) = Inr (Some c)"
    unfolding card_load_def res_bind_Inr_iff by auto
  from k have "k = p" by (simp add: bigint_of_number_def split: if_splits)
  with f obtain r rs where r: "filter (\<lambda>r. pr_id r = p) (t_products s) = r # rs" and c: "card_of r s = Inr c"
    by (auto simp: res_bind_Inr_iff split: list.splits)
  from r have mem: "r \<in> set (t_products s)" "pr_id r = p"
    using filter_eq_ConsD [OF r] by auto
  with c show "pc_units_sold c = card_units p s" "pc_orders_count c = card_orders p s"
    "\<exists>r. r \<in> set (t_products s) \<and> pr_id r = p \<and> pc_stock c = pr_stock r"
    by (auto simp: card_of_def Let_def card_units_def card_orders_def split: if_splits)
qed

lemma item_rows_of_product:
  "filter (\<lambda>oi. oi_product_id oi = p) (item_rows i o' ls) = [] \<longleftrightarrow> p \<notin> pl_product_id ` set ls"
  "\<forall>oi\<in>set (item_rows i o' ls). oi_order_id oi = o'"
  by (induction ls arbitrary: i) auto

lemma placed_db_card:
  assumes "shop_ok s"
  shows "card_units p (placed_db now eid h input s) = card_units p s + ordered_qty (pi_items input) p"
    and "card_orders p (placed_db now eid h input s)
      = card_orders p s + (if p \<in> it_product_id ` set (pi_items input) then 1 else 0)"
proof -
  let ?s' = "placed_db now eid h input s"
  let ?new = "order_row_of now input s"
  let ?lines = "map (line_of (t_products s)) (sort_items (pi_items input))"
  let ?items = "item_rows (sq_order_items (sequences s)) (sq_orders (sequences s)) ?lines"
  have n: "or_id ?new = sq_orders (sequences s)" by (simp add: order_row_of_def)
  have fresh: "or_id ?new \<notin> or_id ` set (t_orders s)"
    using assms unfolding n by (fastforce simp: shop_ok_defs)
  have rows: "card_rows p ?s' = card_rows p s
      @ map (\<lambda>oi. (oi, ?new)) (filter (\<lambda>oi. oi_product_id oi = p) ?items)"
  proof (rule card_rows_snoc [OF fresh])
    show "\<forall>oi\<in>set (t_order_items s). oi_order_id oi \<in> or_id ` set (t_orders s)"
      using assms by (auto simp: shop_ok_defs)
    show "\<forall>oi\<in>set ?items. oi_order_id oi = or_id ?new" unfolding n by (rule item_rows_of_product)
  qed (simp_all add: counted_def order_row_of_def placed_db_def placed_order_of_def Let_def)
  have "sum_list (map oi_quantity (filter (\<lambda>oi. oi_product_id oi = p) ?items)) = ordered_qty (pi_items input) p"
    unfolding sold_item_rows sold_lines by simp
  then show "card_units p ?s' = card_units p s + ordered_qty (pi_items input) p"
    by (simp add: card_units_def rows comp_def)
  let ?ids = "set (map (oi_order_id \<circ> fst) (card_rows p s))"
  have "?ids \<subseteq> or_id ` set (t_orders s)" by (force simp: card_rows_def)
  with fresh have "or_id ?new \<notin> ?ids" by blast
  moreover have new: "set (map (oi_order_id \<circ> fst) (map (\<lambda>oi. (oi, ?new)) (filter (\<lambda>oi. oi_product_id oi = p) ?items)))
      = (if p \<in> it_product_id ` set (pi_items input) then {or_id ?new} else {})"
  proof (cases "filter (\<lambda>oi. oi_product_id oi = p) ?items = []")
    case True
    then have "p \<notin> it_product_id ` set (pi_items input)"
      unfolding item_rows_of_product by (simp add: image_image line_of_def)
    with True show ?thesis by simp
  next
    case False
    have "\<forall>oi\<in>set ?items. oi_order_id oi = or_id ?new" unfolding n by (rule item_rows_of_product)
    moreover from False have "p \<in> it_product_id ` set (pi_items input)"
      unfolding item_rows_of_product by (simp add: image_image line_of_def)
    ultimately show ?thesis using False by (force simp: filter_empty_conv)
  qed
  ultimately show "card_orders p ?s' = card_orders p s + (if p \<in> it_product_id ` set (pi_items input) then 1 else 0)"
    unfolding card_orders_def length_remdups_card_conv rows map_append set_append new by simp
qed

text \<open>
  The card follows the orders: after an accepted order the card of every product, freshly
  loaded, shows the ordered quantity less in stock and more in units sold, and one order more if
  the product was in it.
\<close>

theorem card_follows_orders:
  assumes ok: "shop_ok s" and placed: "placeOrder_alone digest now eid input s = (Inr r, s')" and "\<not> pos_replayed r"
    and c: "card_load p s = Inr (Some c)" and c': "card_load p s' = Inr (Some c')"
  shows "pc_stock c' = pc_stock c - ordered_qty (pi_items input) p
    \<and> pc_units_sold c' = pc_units_sold c + ordered_qty (pi_items input) p
    \<and> pc_orders_count c' = pc_orders_count c + (if p \<in> it_product_id ` set (pi_items input) then 1 else 0)"
proof -
  have "transaction (placeOrder_tx now eid no_hook (hashRequest digest input) input) s = (Inr r, s')"
    using placed assms(3) unfolding placeOrder_alone_def by (auto dest: placeOrder_fresh)
  then have s': "s' = placed_db now eid (hashRequest digest input) input s"
    using placeOrder_tx_iff [OF ok] by (blast dest: transaction_InrD)
  obtain r0 r1 where r0: "r0 \<in> set (t_products s)" "pr_id r0 = p" "pc_stock c = pr_stock r0"
    and r1: "r1 \<in> set (t_products s')" "pr_id r1 = p" "pc_stock c' = pr_stock r1"
    using card_load_figures(3) [OF c] card_load_figures(3) [OF c'] by blast
  from r1(1) obtain r2 where r2: "r2 \<in> set (t_products s)" "r1 = debit (pi_items input) r2"
    by (auto simp: s' placed_db_def Let_def)
  have "distinct (map pr_id (t_products s))" using ok by (simp add: shop_ok_defs)
  then have "r2 = r0" by (rule distinct_map_unique) (use r0 r1 r2 in \<open>auto simp: debit_def\<close>)
  then have "pc_stock c' = pc_stock c - ordered_qty (pi_items input) p"
    using r0 r1 r2 by (simp add: debit_def)
  then show ?thesis
    unfolding card_load_figures(1,2) [OF c] card_load_figures(1,2) [OF c'] unfolding s'
    by (simp add: placed_db_card [OF ok])
qed

section \<open>A concrete catalogue\<close>

lemma demo_catalogue: "catalogue_ok demo_db"
  by (simp add: catalogue_ok_def demo_db_def empty_db_def)

lemma catalogue_is_complete_witness:
  "walk_pages 3 (product_list_page 1 demo_db) None
     = Inr [\<lparr>pt_id = 1, pt_name = ''Lamp'', pt_price_cents = 2500\<rparr>,
            \<lparr>pt_id = 2, pt_name = ''Desk'', pt_price_cents = 9900\<rparr>]"
proof -
  have "active_products demo_db = t_products demo_db"
    by (simp add: active_products_def demo_db_def empty_db_def)
  moreover have "Suc (length (t_products demo_db)) = 3"
      "map product_item_of (t_products demo_db) = [\<lparr>pt_id = 1, pt_name = ''Lamp'', pt_price_cents = 2500\<rparr>,
        \<lparr>pt_id = 2, pt_name = ''Desk'', pt_price_cents = 9900\<rparr>]"
    by (simp_all add: demo_db_def product_item_of_def)
  ultimately show ?thesis
    using conjunct1 [OF catalogue_is_complete [OF demo_catalogue, of 1]] by (simp only: zero_less_one simp_thms)
qed

lemma demo_cards:
  "card_load 1 demo_db = Inr (Some \<lparr>pc_id = 1, pc_name = ''Lamp'', pc_price_cents = 2500, pc_stock = 3,
     pc_is_active = True, pc_units_sold = 0, pc_orders_count = 0, pc_revenue_cents = 0,
     pc_last_ordered_at = None\<rparr>)"
  "card_load 1 (demo_after lamp) = Inr (Some \<lparr>pc_id = 1, pc_name = ''Lamp'', pc_price_cents = 2500,
     pc_stock = 2, pc_is_active = True, pc_units_sold = 1, pc_orders_count = 1, pc_revenue_cents = 2500,
     pc_last_ordered_at = Some ''1970-01-01T00:00:00.000Z''\<rparr>)"
  by code_simp+

lemma card_follows_orders_witness:
  "ordered_qty (pi_items lamp) 1 = (1 :: int)"
  using card_follows_orders [OF demo_ok demo_placed(1) _ demo_cards] by simp

end
