(* ===== verification/Settings.thy ===== *)
theory Settings
  imports AuthTokens OutboxEvent
begin

text \<open>
  Configuration read from the environment: storage (\<open>src/storage/config.ts\<close>), PostgreSQL
  (\<open>outbox/pg.ts\<close>, \<open>data-source.ts\<close>), the broker (\<open>broker/connection.ts\<close>), Redis
  (\<open>redis/clients.ts\<close>), the proxy setting (\<open>configure-app.ts\<close>), the pod's lifecycle settings
  (\<open>k8s/lifecycle.ts\<close>), and what \<open>main.ts\<close> and \<open>app.module.ts\<close> do with it.
\<close>

section \<open>Storage\<close>

definition STORAGE_SECRET_VARS :: "string list" where
  "STORAGE_SECRET_VARS = [''STORAGE_ACCESS_KEY'', ''STORAGE_SECRET_KEY'']"

definition STORAGE_REQUIRED_VARS :: "string list" where
  "STORAGE_REQUIRED_VARS = STORAGE_SECRET_VARS @ [''STORAGE_BUCKET'']"

record storage_config =
  sc_endpoint :: "string option"
  sc_region :: string
  sc_bucket :: string
  sc_accessKeyId :: string
  sc_secretAccessKey :: string

definition missingStorageVars :: "env \<Rightarrow> string list" where
  "missingStorageVars env = filter (\<lambda>name. env_trimmed env name = None) STORAGE_REQUIRED_VARS"

definition storageConfigured :: "env \<Rightarrow> bool" where
  "storageConfigured env \<longleftrightarrow> length (missingStorageVars env) = 0"

definition trimmed_value :: "env \<Rightarrow> string \<Rightarrow> string" where
  "trimmed_value env name = js_trim (env_value env name)"

definition loadStorageConfig :: "env \<Rightarrow> exn + storage_config" where
  "loadStorageConfig env =
     (let missing = missingStorageVars env in
      if missing \<noteq> [] then Inl (JsError (''missing required secret: '' @ js_join '', '' missing))
      else Inr \<lparr>sc_endpoint = env_trimmed env ''STORAGE_ENDPOINT'',
        sc_region = (case env_trimmed env ''STORAGE_REGION'' of Some r \<Rightarrow> r | None \<Rightarrow> ''us-east-1''),
        sc_bucket = trimmed_value env ''STORAGE_BUCKET'',
        sc_accessKeyId = trimmed_value env ''STORAGE_ACCESS_KEY'',
        sc_secretAccessKey = trimmed_value env ''STORAGE_SECRET_KEY''\<rparr>)"

section \<open>PostgreSQL\<close>

text \<open>\<open>a ?? b\<close> on optional strings.\<close>

definition coalesce :: "'a option \<Rightarrow> 'a option \<Rightarrow> 'a option" where
  "coalesce a b = (case a of Some x \<Rightarrow> Some x | None \<Rightarrow> b)"

definition set_and_nonempty :: "string option \<Rightarrow> bool" where
  "set_and_nonempty v = (case v of Some s \<Rightarrow> s \<noteq> [] | None \<Rightarrow> False)"

record pg_options =
  pg_url :: "string option"
  pg_host :: "string option"
  pg_port :: "jsnum option"
  pg_user :: "string option"
  pg_password :: "string option"
  pg_database :: "string option"
  pg_max :: "nat option"

definition pg_from_parts :: "env \<Rightarrow> nat option \<Rightarrow> pg_options" where
  "pg_from_parts env m = \<lparr>pg_url = None, pg_host = env ''DB_HOST'',
     pg_port = Some (case env ''DB_PORT'' of Some p \<Rightarrow> js_Number p | None \<Rightarrow> Fin 5432),
     pg_user = env ''DB_USER'', pg_password = env ''DB_PASSWORD'', pg_database = env ''DB_NAME'',
     pg_max = m\<rparr>"

definition pg_from_url :: "string option \<Rightarrow> nat option \<Rightarrow> pg_options" where
  "pg_from_url url m = \<lparr>pg_url = url, pg_host = None, pg_port = None, pg_user = None,
     pg_password = None, pg_database = None, pg_max = m\<rparr>"

definition createPool :: "env \<Rightarrow> exn + pg_options" where
  "createPool env =
     (let url = coalesce (env ''DB_URL'') (env ''DATABASE_URL'') in
      if set_and_nonempty url then Inr (pg_from_url url (Some 5))
      else if \<not> set_and_nonempty (env ''DB_HOST'') then Inl (JsError ''DATABASE_URL: unbound variable'')
      else Inr (pg_from_parts env (Some 5)))"

definition postgresConnection :: "env \<Rightarrow> pg_options" where
  "postgresConnection env =
     (if set_and_nonempty (env ''DB_URL'') \<or> set_and_nonempty (env ''DATABASE_URL'')
      then pg_from_url (coalesce (env ''DB_URL'') (env ''DATABASE_URL'')) None
      else pg_from_parts env None)"

section \<open>Broker and Redis\<close>

definition brokerUrl :: "env \<Rightarrow> exn + string" where
  "brokerUrl env = (case coalesce (env ''BROKER_URL'') (env ''RABBITMQ_URL'') of
       Some url \<Rightarrow> if url = [] then Inl (JsError ''BROKER_URL: unbound variable'') else Inr url
     | None \<Rightarrow> Inl (JsError ''BROKER_URL: unbound variable''))"

definition requireEnv :: "env \<Rightarrow> string \<Rightarrow> exn + string" where
  "requireEnv env name = (case env name of
       Some v \<Rightarrow> if v = [] then Inl (JsError (name @ '': unbound variable'')) else Inr v
     | None \<Rightarrow> Inl (JsError (name @ '': unbound variable'')))"

definition cacheRedisUrl :: "env \<Rightarrow> exn + string" where "cacheRedisUrl env = requireEnv env ''REDIS_URL''"
definition queueRedisUrl :: "env \<Rightarrow> exn + string" where "queueRedisUrl env = requireEnv env ''REDIS_QUEUE_URL''"

definition redisConfigured :: "env \<Rightarrow> bool" where
  "redisConfigured env \<longleftrightarrow> set_and_nonempty (env ''REDIS_URL'') \<and> set_and_nonempty (env ''REDIS_QUEUE_URL'')"

text \<open>The options of a client; \<open>None\<close> leaves the library's default, \<open>Some None\<close> is \<open>null\<close>.\<close>

record redis_options =
  ro_lazyConnect :: bool
  ro_maxRetriesPerRequest :: "nat option option"
  ro_enableOfflineQueue :: "bool option"
  ro_connectTimeout :: "int option"
  ro_commandTimeout :: "int option"

definition redis_defaults :: redis_options where
  "redis_defaults = \<lparr>ro_lazyConnect = True, ro_maxRetriesPerRequest = None, ro_enableOfflineQueue = None,
     ro_connectTimeout = None, ro_commandTimeout = None\<rparr>"

definition FAIL_FAST :: redis_options where
  "FAIL_FAST = redis_defaults\<lparr>ro_maxRetriesPerRequest := Some (Some 1), ro_enableOfflineQueue := Some False,
     ro_connectTimeout := Some 2000, ro_commandTimeout := Some 1000\<rparr>"

record redis_client =
  rc_name :: string
  rc_url :: string
  rc_options :: redis_options

definition connect_as :: "string \<Rightarrow> exn + string \<Rightarrow> redis_options \<Rightarrow> exn + redis_client" where
  "connect_as name url opts = res_bind url (\<lambda>u. Inr \<lparr>rc_name = name, rc_url = u, rc_options = opts\<rparr>)"

definition connectCacheRedis :: "env \<Rightarrow> exn + redis_client" where
  "connectCacheRedis env = connect_as ''cache'' (cacheRedisUrl env) FAIL_FAST"

definition connectStateRedis :: "env \<Rightarrow> exn + redis_client" where
  "connectStateRedis env = connect_as ''state'' (queueRedisUrl env) FAIL_FAST"

definition connectQueueProducerRedis :: "env \<Rightarrow> exn + redis_client" where
  "connectQueueProducerRedis env =
     connect_as ''queue'' (queueRedisUrl env) (redis_defaults\<lparr>ro_enableOfflineQueue := Some False\<rparr>)"

definition connectQueueWorkerRedis :: "env \<Rightarrow> exn + redis_client" where
  "connectQueueWorkerRedis env =
     connect_as ''queue-worker'' (queueRedisUrl env) (redis_defaults\<lparr>ro_maxRetriesPerRequest := Some None\<rparr>)"

text \<open>A client logs an error at most every five seconds: the warning and the new \<open>lastLogged\<close>.\<close>

definition on_redis_error :: "string \<Rightarrow> int \<Rightarrow> string \<Rightarrow> int \<Rightarrow> string option \<times> int" where
  "on_redis_error name now msg lastLogged =
     (if 5000 < now - lastLogged then (Some (''[redis:'' @ name @ ''] '' @ msg), now) else (None, lastLogged))"

definition configGet :: "string list \<Rightarrow> string option" where
  "configGet res = (case res of _ # v # _ \<Rightarrow> Some v | _ \<Rightarrow> None)"

section \<open>The web application\<close>

datatype trust_proxy = TrustBool bool | TrustHops jsnum | TrustList string

definition DEFAULT_TRUST_PROXY :: string where
  "DEFAULT_TRUST_PROXY = ''loopback, linklocal, uniquelocal''"

definition trustProxySetting :: "string option \<Rightarrow> trust_proxy" where
  "trustProxySetting raw =
     (let v = (case raw of Some r \<Rightarrow> js_trim r | None \<Rightarrow> []);
          value = (if v = [] then DEFAULT_TRUST_PROXY else v)
      in if value = ''true'' then TrustBool True
         else if value = ''false'' then TrustBool False
         else if list_all is_digit value then TrustHops (js_Number value)
         else TrustList value)"

text \<open>The feature modules an \<open>AppModule\<close> is made of.\<close>

datatype app_part = AuthModule | ProductsModule | OrdersModule | RedisFeaturesModule | FilesModule

definition app_parts :: "env \<Rightarrow> app_part list" where
  "app_parts env = [AuthModule, ProductsModule, OrdersModule]
     @ (if redisConfigured env then [RedisFeaturesModule] else [])
     @ (if storageConfigured env then [FilesModule] else [])"

section \<open>\<open>main.ts\<close>\<close>

text \<open>The process ends with a line on stderr, or boots with its configuration and port.\<close>

datatype 'key boot = ExitWith nat string | Boot "'key auth_config" "app_part list" trust_proxy string

definition missing_boot_vars :: "env \<Rightarrow> string list" where
  "missing_boot_vars env = missing_secrets env @ missingStorageVars env"

definition bootstrap :: "'key crypto \<Rightarrow> 'key auth_config option \<Rightarrow> env \<Rightarrow> 'key boot" where
  "bootstrap cr cached env =
     (let missing = missing_boot_vars env in
      if missing \<noteq> [] then ExitWith 1 (''missing required secret: '' @ js_join '', '' missing)
      else case fst (loadAuthConfig cr env cached) of
          Inl e \<Rightarrow> ExitWith 1 (exn_message e)
        | Inr auth \<Rightarrow>
            (case loadStorageConfig env of
               Inl e \<Rightarrow> ExitWith 1 (exn_message e)
             | Inr _ \<Rightarrow> Boot auth (app_parts env) (trustProxySetting (env ''TRUST_PROXY''))
                 (case env ''PORT'' of Some p \<Rightarrow> p | None \<Rightarrow> ''3000'')))"

section \<open>Lifecycle settings of a pod\<close>

record lifecycle_settings =
  ls_warmupMs :: int
  ls_drainMs :: int
  ls_closeTimeoutMs :: int

definition nonNegativeInt :: "env \<Rightarrow> string \<Rightarrow> int \<Rightarrow> exn + int" where
  "nonNegativeInt env name fallback = (case env_trimmed env name of
       None \<Rightarrow> Inr fallback
     | Some raw \<Rightarrow>
         (let value = js_Number raw in
          if \<not> js_isInteger value \<or> js_int value < 0
          then Inl (JsError (name @ '' must be a non-negative integer, got \"'' @ raw @ ''\"''))
          else Inr (js_int value)))"

definition readLifecycleSettings :: "env \<Rightarrow> exn + lifecycle_settings" where
  "readLifecycleSettings env =
     res_bind (nonNegativeInt env ''WARMUP_MS'' 4000) (\<lambda>w.
     res_bind (nonNegativeInt env ''DRAIN_MS'' 5000) (\<lambda>d.
     res_bind (nonNegativeInt env ''CLOSE_TIMEOUT_MS'' 10000) (\<lambda>c.
     Inr \<lparr>ls_warmupMs = w, ls_drainMs = d, ls_closeTimeoutMs = c\<rparr>)))"

lemma nonNegativeInt_show:
  assumes "env_trimmed env name = Some (show_nat n)" and "n < 2 ^ 64"
  shows "nonNegativeInt env name fallback = Inr (int n)"
  using assms by (simp add: nonNegativeInt_def js_Number_show_nat Let_def)

text \<open>
  With an empty \<open>DB_URL\<close> and a set \<open>DATABASE_URL\<close> the pool refuses to start or takes the parts, while
  the data source is given the empty URL.
\<close>

lemma empty_db_url:
  assumes "env ''DB_URL'' = Some []" and "env ''DATABASE_URL'' = Some u" and "u \<noteq> []"
  shows "pg_url (postgresConnection env) = Some []"
    and "createPool env = Inr p \<Longrightarrow> pg_url p = None"
  using assms by (auto simp: postgresConnection_def createPool_def set_and_nonempty_def coalesce_def
      pg_from_url_def pg_from_parts_def Let_def split: if_splits)

section \<open>Starting\<close>

text \<open>The variables that are not set, or set to white space.\<close>

lemma missing_boot_vars_unset:
  "filter (\<lambda>name. case env name of None \<Rightarrow> True | Some v \<Rightarrow> js_trim v = [])
     [''JWT_PRIVATE_KEY'', ''JWT_PUBLIC_KEY'', ''JWT_KID'', ''REFRESH_TOKEN_PEPPER'',
      ''STORAGE_ACCESS_KEY'', ''STORAGE_SECRET_KEY'', ''STORAGE_BUCKET''] = missing_boot_vars env"
proof -
  have "(\<lambda>name. case env name of None \<Rightarrow> True | Some v \<Rightarrow> js_trim v = []) = (\<lambda>name. env_trimmed env name = None)"
    by (auto simp: env_trimmed_def Let_def split: option.splits)
  moreover have "[''JWT_PRIVATE_KEY'', ''JWT_PUBLIC_KEY'', ''JWT_KID'', ''REFRESH_TOKEN_PEPPER'',
      ''STORAGE_ACCESS_KEY'', ''STORAGE_SECRET_KEY'', ''STORAGE_BUCKET''] =
      AUTH_SECRET_VARS @ STORAGE_REQUIRED_VARS"
    by (simp add: AUTH_SECRET_VARS_def STORAGE_REQUIRED_VARS_def STORAGE_SECRET_VARS_def)
  ultimately show ?thesis
    by (simp only: missing_boot_vars_def missing_secrets_def missingStorageVars_def filter_append)
qed

lemma loadStorageConfig_complete:
  assumes "missing_boot_vars env = []"
  shows "\<exists>cfg. loadStorageConfig env = Inr cfg \<and> sc_bucket cfg \<noteq> [] \<and> sc_accessKeyId cfg \<noteq> []
    \<and> sc_secretAccessKey cfg \<noteq> []"
proof -
  have "missingStorageVars env = []" using assms by (simp add: missing_boot_vars_def)
  moreover from this have "trimmed_value env name \<noteq> []" if "name \<in> set STORAGE_REQUIRED_VARS" for name
    using that by (force simp: missingStorageVars_def filter_empty_conv trimmed_value_def env_value_def
        env_trimmed_def split: option.splits if_splits)
  ultimately show ?thesis
    by (simp add: loadStorageConfig_def Let_def STORAGE_REQUIRED_VARS_def STORAGE_SECRET_VARS_def)
qed

text \<open>
  C33. The server starts only with its configuration complete. Of the seven variables it needs
  (four of the token signer, three of the storage) take those that are unset or blank, in this order:
  when there are any, the process ends with status 1 and a message naming these and no others; when
  there are none, it ends with status 1 and the signer's error if the keys cannot be loaded, and
  otherwise boots with that key configuration and readable storage settings, serving the file
  endpoints, and the Redis features exactly when Redis is configured.
\<close>

theorem boot_needs_configuration:
  fixes env :: env and cr :: "'key crypto" and cached :: "'key auth_config option"
  shows "case filter (\<lambda>name. case env name of None \<Rightarrow> True | Some v \<Rightarrow> js_trim v = [])
      [''JWT_PRIVATE_KEY'', ''JWT_PUBLIC_KEY'', ''JWT_KID'', ''REFRESH_TOKEN_PEPPER'',
       ''STORAGE_ACCESS_KEY'', ''STORAGE_SECRET_KEY'', ''STORAGE_BUCKET''] of
      name # names \<Rightarrow> bootstrap cr cached env =
        ExitWith 1 (''missing required secret: '' @ js_join '', '' (name # names))
    | [] \<Rightarrow> (case fst (loadAuthConfig cr env cached) of
        Inl e \<Rightarrow> bootstrap cr cached env = ExitWith 1 (exn_message e)
      | Inr auth \<Rightarrow> (\<exists>parts proxy port cfg. bootstrap cr cached env = Boot auth parts proxy port
          \<and> FilesModule \<in> set parts \<and> (RedisFeaturesModule \<in> set parts \<longleftrightarrow> redisConfigured env)
          \<and> loadStorageConfig env = Inr cfg \<and> sc_bucket cfg \<noteq> [] \<and> sc_accessKeyId cfg \<noteq> []
          \<and> sc_secretAccessKey cfg \<noteq> []))"
proof (cases "missing_boot_vars env")
  case Nil
  obtain cfg where cfg: "loadStorageConfig env = Inr cfg" "sc_bucket cfg \<noteq> []" "sc_accessKeyId cfg \<noteq> []"
      "sc_secretAccessKey cfg \<noteq> []"
    using loadStorageConfig_complete [OF Nil] by blast
  have "storageConfigured env" using Nil by (simp add: missing_boot_vars_def storageConfigured_def)
  with Nil cfg show ?thesis
    unfolding missing_boot_vars_unset by (simp add: bootstrap_def Let_def app_parts_def split: sum.splits)
next
  case (Cons name names)
  then show ?thesis unfolding missing_boot_vars_unset by (simp add: bootstrap_def Let_def)
qed

definition demo_crypto :: "unit crypto" where
  "demo_crypto = \<lparr>cr_decode64 = (\<lambda>s. s), cr_create = (\<lambda>_ _. Some ()), cr_type = (\<lambda>_. ''ec''),
     cr_curve = (\<lambda>_. Some ''prime256v1''), cr_sign = (\<lambda>_ s. s), cr_verify = (\<lambda>_ s t. s = t),
     cr_json = (\<lambda>_. None), cr_spki_sha256 = (\<lambda>_. ''0123456789abcdef0123'')\<rparr>"

definition demo_env :: env where
  "demo_env name = (if name \<in> {''JWT_PRIVATE_KEY'', ''JWT_PUBLIC_KEY''} then Some ''-----BEGIN KEY''
     else if name \<in> {''JWT_KID'', ''REFRESH_TOKEN_PEPPER'', ''STORAGE_ACCESS_KEY'', ''STORAGE_SECRET_KEY'',
         ''STORAGE_BUCKET''} then Some '' x ''
     else None)"

lemma demo_boots:
  "bootstrap demo_crypto None demo_env = Boot \<lparr>cfg_kid = ''x'', cfg_private_key = (), cfg_public_keys = [(''x'', ())],
     cfg_pepper = ''x'', cfg_fingerprint = ''0123456789abcdef''\<rparr>
     [AuthModule, ProductsModule, OrdersModule, FilesModule] (TrustList DEFAULT_TRUST_PROXY) ''3000''"
  by code_simp

text \<open>Only the bucket is forgotten.\<close>

definition no_bucket_env :: env where
  "no_bucket_env = demo_env (''STORAGE_BUCKET'' := Some '' '')"

lemma boot_needs_configuration_witness:
  "bootstrap demo_crypto None no_bucket_env = ExitWith 1 ''missing required secret: STORAGE_BUCKET''
   \<and> (\<exists>auth parts proxy port. bootstrap demo_crypto None demo_env = Boot auth parts proxy port)"
proof -
  have f: "filter (\<lambda>name. case no_bucket_env name of None \<Rightarrow> True | Some v \<Rightarrow> js_trim v = [])
      [''JWT_PRIVATE_KEY'', ''JWT_PUBLIC_KEY'', ''JWT_KID'', ''REFRESH_TOKEN_PEPPER'',
       ''STORAGE_ACCESS_KEY'', ''STORAGE_SECRET_KEY'', ''STORAGE_BUCKET''] = [''STORAGE_BUCKET'']"
    by code_simp
  have "bootstrap demo_crypto None no_bucket_env =
      ExitWith 1 (''missing required secret: '' @ js_join '', '' [''STORAGE_BUCKET''])"
    using boot_needs_configuration [where env = no_bucket_env and cr = demo_crypto and cached = None] unfolding f list.case by blast
  moreover have "js_join '', '' [''STORAGE_BUCKET''] = ''STORAGE_BUCKET''" by code_simp
  ultimately show ?thesis using demo_boots by simp
qed

end
