(* ===== verification/Lifecycle.thy ===== *)
theory Lifecycle
  imports Settings
begin

text \<open>
  A pod (\<open>src/k8s/lifecycle.ts\<close>, \<open>serve-main.ts\<close>): the probes' middleware, the start from the
  environment to the first ready answer, and the shutdown after SIGTERM, as a timed step relation.
  Migrating, booting Nest and closing the connections take the time they take; a timer may fire
  late but not early.
\<close>

section \<open>The middleware\<close>

definition LIVENESS_PATH :: string where "LIVENESS_PATH = ''/healthz''"
definition READINESS_PATH :: string where "READINESS_PATH = ''/readyz''"

record lifecycle =
  lc_ready :: bool
  lc_draining :: bool

text \<open>The answer of a probe, or the request passed on, with or without \<open>connection: close\<close>.\<close>

datatype probe_answer = LiveAnswer nat | ReadyAnswer nat bool bool | PassOn bool

definition lifecycle_middleware :: "lifecycle \<Rightarrow> string \<Rightarrow> probe_answer" where
  "lifecycle_middleware lc path =
     (if path = LIVENESS_PATH then LiveAnswer 200
      else if path = READINESS_PATH
      then (let ok = lc_ready lc \<and> \<not> lc_draining lc
            in ReadyAnswer (if ok then 200 else 503) ok (lc_draining lc))
      else PassOn (lc_draining lc))"

section \<open>Starting\<close>

definition REQUIRED_VARS :: "string list" where
  "REQUIRED_VARS = [''DB_HOST'', ''DB_USER'', ''DB_NAME'', ''DB_PASSWORD''] @ AUTH_SECRET_VARS"

definition MIGRATION_LOCK :: nat where "MIGRATION_LOCK = 2028"
definition DB_WAIT_MS :: int where "DB_WAIT_MS = 60000"

definition serve_missing :: "env \<Rightarrow> string list" where
  "serve_missing env = filter (\<lambda>name. env_trimmed env name = None) REQUIRED_VARS"

text \<open>What \<open>main\<close> decides before it touches the database: exit with a message, or settings and keys.\<close>

definition serve_checks ::
  "'key crypto \<Rightarrow> 'key auth_config option \<Rightarrow> env \<Rightarrow> (nat \<times> string) + lifecycle_settings \<times> 'key auth_config" where
  "serve_checks cr cached env =
     (let missing = serve_missing env in
      if missing \<noteq> [] then Inl (1, ''missing required env: '' @ js_join '', '' missing)
      else case readLifecycleSettings env of
          Inl e \<Rightarrow> Inl (1, exn_message e)
        | Inr settings \<Rightarrow>
            (case fst (loadAuthConfig cr env cached) of
               Inl e \<Rightarrow> Inl (1, exn_message e)
             | Inr auth \<Rightarrow> Inr (settings, auth)))"

text \<open>
  Waiting for the database: the times of the attempts and whether each succeeded. After an attempt
  that failed past the deadline the error goes up; before, the next attempt follows.
\<close>

fun wait_for_db :: "int \<Rightarrow> (int \<times> bool) list \<Rightarrow> (exn + unit) option" where
  "wait_for_db deadline [] = None"
| "wait_for_db deadline ((now, ok) # rest) =
     (if ok then Some (Inr ())
      else if deadline < now then Some (Inl (JsError ''connect ECONNREFUSED''))
      else wait_for_db deadline rest)"

text \<open>
  The migration step under the advisory lock: the lock is asked for, the migrations run, and the
  lock is given back whatever happened; the result is that of the migrations.
\<close>

datatype migrate_call = TakeLock nat | RunMigrations | ReleaseLock nat | ReleaseRunner | DestroySource

definition migrate_calls :: "exn + unit \<Rightarrow> exn + nat \<Rightarrow> (exn + nat) \<times> migrate_call list" where
  "migrate_calls lock run =
     (case lock of
        Inl e \<Rightarrow> (Inl e, [TakeLock MIGRATION_LOCK, ReleaseLock MIGRATION_LOCK, ReleaseRunner, DestroySource])
      | Inr _ \<Rightarrow> (run, [TakeLock MIGRATION_LOCK, RunMigrations, ReleaseLock MIGRATION_LOCK, ReleaseRunner,
          DestroySource]))"

section \<open>The pod\<close>

text \<open>
  Where \<open>main\<close> stands, where \<open>shutdown\<close> stands with the times its timers run out, whether the socket
  accepts connections, and whether the process has ended.
\<close>

datatype main_at = Migrating | Booting | WarmingUp | Opening | Up | Abandoned

datatype shutdown_at = NoSignal | Draining int | ClosingSocket int | Gone

record pod =
  pd_now :: int
  pd_main :: main_at
  pd_shutdown :: shutdown_at
  pd_lifecycle :: lifecycle
  pd_socket :: bool
  pd_server_set :: bool
  pd_cut :: bool
  pd_log :: "string list"

definition started_pod :: "int \<Rightarrow> pod" where
  "started_pod t = \<lparr>pd_now = t, pd_main = Migrating, pd_shutdown = NoSignal,
     pd_lifecycle = \<lparr>lc_ready = False, lc_draining = False\<rparr>, pd_socket = False, pd_server_set = False,
     pd_cut = False, pd_log = []\<rparr>"

definition say :: "string \<Rightarrow> pod \<Rightarrow> pod" where
  "say msg p = p\<lparr>pd_log := pd_log p @ [msg]\<rparr>"

text \<open>\<open>shutdown\<close> up to its first await: without a server the process exits at once.\<close>

definition on_sigterm :: "lifecycle_settings \<Rightarrow> pod \<Rightarrow> pod" where
  "on_sigterm st p =
     (let p1 = p\<lparr>pd_lifecycle := (pd_lifecycle p)\<lparr>lc_draining := True\<rparr>\<rparr> in
      if \<not> pd_server_set p
      then (say ''sigterm before listen, exiting'' p1)\<lparr>pd_shutdown := Gone, pd_socket := False\<rparr>
      else (say ''sigterm: readiness off, draining'' p1)\<lparr>pd_shutdown := Draining (pd_now p + ls_drainMs st)\<rparr>)"

text \<open>
  One step: time passes, the signal comes (once), \<open>main\<close> or \<open>shutdown\<close> goes on, the close timer cuts
  the connections that are left, or the server reports that it has closed.
\<close>

inductive pod_step :: "lifecycle_settings \<Rightarrow> int \<Rightarrow> pod \<Rightarrow> pod \<Rightarrow> bool" for st startedAt where
  tick: "pd_shutdown p \<noteq> Gone \<Longrightarrow> pd_now p \<le> t \<Longrightarrow> pod_step st startedAt p (p\<lparr>pd_now := t\<rparr>)"
| sigterm: "pd_shutdown p = NoSignal \<Longrightarrow> pod_step st startedAt p (on_sigterm st p)"
| migrated: "pd_shutdown p \<noteq> Gone \<Longrightarrow> pd_main p = Migrating \<Longrightarrow>
    pod_step st startedAt p (p\<lparr>pd_main := Booting\<rparr>)"
| booted: "pd_shutdown p \<noteq> Gone \<Longrightarrow> pd_main p = Booting \<Longrightarrow>
    pod_step st startedAt p (p\<lparr>pd_main := WarmingUp\<rparr>)"
| warm: "pd_shutdown p \<noteq> Gone \<Longrightarrow> pd_main p = WarmingUp \<Longrightarrow> startedAt + ls_warmupMs st \<le> pd_now p \<Longrightarrow>
    pod_step st startedAt p
      (p\<lparr>pd_main := (if lc_draining (pd_lifecycle p) then Abandoned else Opening)\<rparr>)"
| bound: "pd_shutdown p \<noteq> Gone \<Longrightarrow> pd_main p = Opening \<Longrightarrow>
    pod_step st startedAt p (p\<lparr>pd_socket := True\<rparr>)"
| listening: "pd_shutdown p \<noteq> Gone \<Longrightarrow> pd_main p = Opening \<Longrightarrow> pd_socket p \<Longrightarrow>
    pod_step st startedAt p (say ''ready'' (p\<lparr>pd_main := Up, pd_server_set := True,
      pd_lifecycle := (pd_lifecycle p)\<lparr>lc_ready := True\<rparr>\<rparr>))"
| drained: "pd_shutdown p = Draining t \<Longrightarrow> t \<le> pd_now p \<Longrightarrow>
    pod_step st startedAt p (p\<lparr>pd_shutdown := ClosingSocket (pd_now p + ls_closeTimeoutMs st)\<rparr>)"
| unbound: "pd_shutdown p = ClosingSocket t \<Longrightarrow> pod_step st startedAt p (p\<lparr>pd_socket := False\<rparr>)"
| cut: "pd_shutdown p = ClosingSocket t \<Longrightarrow> t \<le> pd_now p \<Longrightarrow>
    pod_step st startedAt p (p\<lparr>pd_cut := True\<rparr>)"
| closed: "pd_shutdown p = ClosingSocket t \<Longrightarrow> \<not> pd_socket p \<Longrightarrow>
    pod_step st startedAt p ((say ''socket closed, exiting'' p)\<lparr>pd_shutdown := Gone\<rparr>)"

code_pred pod_step .

inductive pod_run :: "lifecycle_settings \<Rightarrow> int \<Rightarrow> pod \<Rightarrow> pod \<Rightarrow> bool" for st startedAt p where
  start: "pod_run st startedAt p p"
| next_step: "pod_run st startedAt p q \<Longrightarrow> pod_step st startedAt q r \<Longrightarrow> pod_run st startedAt p r"

section \<open>Readiness and draining\<close>

inductive_cases pod_stepE: "pod_step st startedAt p q"

lemmas pod_step_defs = on_sigterm_def say_def Let_def

definition pod_ok :: "lifecycle_settings \<Rightarrow> int \<Rightarrow> pod \<Rightarrow> bool" where
  "pod_ok st startedAt p \<longleftrightarrow>
     (pd_shutdown p = NoSignal \<longleftrightarrow> \<not> lc_draining (pd_lifecycle p))
     \<and> (lc_ready (pd_lifecycle p) \<longleftrightarrow> pd_server_set p)
     \<and> (pd_server_set p \<longleftrightarrow> pd_main p = Up)
     \<and> (pd_server_set p \<longrightarrow> startedAt + ls_warmupMs st \<le> pd_now p)
     \<and> (pd_main p = Opening \<longrightarrow> startedAt + ls_warmupMs st \<le> pd_now p)
     \<and> (pd_server_set p \<and> pd_shutdown p = NoSignal \<longrightarrow> pd_socket p)
     \<and> (\<forall>t. pd_shutdown p = Draining t \<longrightarrow> pd_server_set p \<and> pd_socket p)
     \<and> (\<forall>t. pd_shutdown p = ClosingSocket t \<longrightarrow> pd_server_set p)
     \<and> (pd_cut p \<longrightarrow> pd_shutdown p \<noteq> NoSignal)"

lemma pod_ok_started: "pod_ok st t (started_pod t)"
  by (simp add: pod_ok_def started_pod_def)

lemma pod_ok_step:
  assumes "pod_step st startedAt p q" and "pod_ok st startedAt p"
  shows "pod_ok st startedAt q"
  using assms(1)
proof (cases rule: pod_step.cases)
  case migrated
  then show ?thesis using assms(2) by (auto simp: pod_ok_def)
next
  case booted
  then show ?thesis using assms(2) by (auto simp: pod_ok_def)
qed (use assms(2) in \<open>auto simp: pod_ok_def pod_step_defs\<close>)

lemma pod_ok_run:
  assumes "pod_run st startedAt p q" and "pod_ok st startedAt p"
  shows "pod_ok st startedAt q"
  using assms by (induction rule: pod_run.induct) (auto intro: pod_ok_step)

lemma pod_time_step: "pod_step st startedAt p q \<Longrightarrow> pd_now p \<le> pd_now q"
  by (cases rule: pod_stepE) (auto simp: pod_step_defs)

lemma draining_step:
  "pod_step st startedAt p q \<Longrightarrow> lc_draining (pd_lifecycle p) \<Longrightarrow> lc_draining (pd_lifecycle q)"
  by (cases rule: pod_stepE) (auto simp: pod_step_defs)

lemma draining_run:
  assumes "pod_run st startedAt p q" and "lc_draining (pd_lifecycle p)"
  shows "lc_draining (pd_lifecycle q)"
  using assms by (induction rule: pod_run.induct) (auto intro: draining_step)

lemma ready_answer:
  "lifecycle_middleware lc READINESS_PATH = ReadyAnswer 200 ok d \<longleftrightarrow> lc_ready lc \<and> \<not> lc_draining lc \<and> ok \<and> \<not> d"
  by (auto simp: lifecycle_middleware_def READINESS_PATH_def LIVENESS_PATH_def Let_def)

text \<open>
  C34. Ready means serving: whenever the readiness probe answers 200 the warm-up has passed, the
  server listens and accepts connections and no SIGTERM has come; once SIGTERM has come it never
  answers 200 again, while liveness answers 200 as long as the process runs.
\<close>

theorem ready_means_serving:
  assumes "pod_run st startedAt (started_pod startedAt) p"
  shows "(lifecycle_middleware (pd_lifecycle p) READINESS_PATH = ReadyAnswer 200 ok d \<longrightarrow>
      startedAt + ls_warmupMs st \<le> pd_now p \<and> pd_main p = Up \<and> pd_socket p \<and> pd_shutdown p = NoSignal)
    \<and> (pd_shutdown p \<noteq> NoSignal \<and> pod_run st startedAt p q \<longrightarrow>
      lifecycle_middleware (pd_lifecycle q) READINESS_PATH = ReadyAnswer 503 False True)
    \<and> lifecycle_middleware (pd_lifecycle p) LIVENESS_PATH = LiveAnswer 200"
proof -
  have ok: "pod_ok st startedAt p" by (rule pod_ok_run [OF assms pod_ok_started])
  have "lc_draining (pd_lifecycle q)" if "pd_shutdown p \<noteq> NoSignal" "pod_run st startedAt p q"
    by (rule draining_run [OF that(2)]) (use ok that(1) in \<open>simp add: pod_ok_def\<close>)
  then have "pd_shutdown p \<noteq> NoSignal \<and> pod_run st startedAt p q \<longrightarrow>
      lifecycle_middleware (pd_lifecycle q) READINESS_PATH = ReadyAnswer 503 False True"
    by (auto simp: lifecycle_middleware_def READINESS_PATH_def LIVENESS_PATH_def Let_def)
  moreover have "lifecycle_middleware (pd_lifecycle p) LIVENESS_PATH = LiveAnswer 200"
    by (simp add: lifecycle_middleware_def)
  ultimately show ?thesis using ok unfolding ready_answer pod_ok_def by blast
qed

text \<open>A pod whose drain runs out at \<open>T\<close> and whose connections are cut no earlier than \<open>C\<close>.\<close>

definition drains_until :: "int \<Rightarrow> int \<Rightarrow> pod \<Rightarrow> bool" where
  "drains_until T C q \<longleftrightarrow>
     (case pd_shutdown q of NoSignal \<Rightarrow> False | Draining t \<Rightarrow> t = T \<and> \<not> pd_cut q
        | ClosingSocket t \<Rightarrow> C \<le> t \<and> T \<le> pd_now q \<and> (pd_cut q \<longrightarrow> C \<le> pd_now q)
        | Gone \<Rightarrow> T \<le> pd_now q \<and> (pd_cut q \<longrightarrow> C \<le> pd_now q))"

lemma drains_until_step:
  assumes "pod_step st startedAt p q" and "drains_until T (T + ls_closeTimeoutMs st) p"
    and "pod_ok st startedAt p"
  shows "drains_until T (T + ls_closeTimeoutMs st) q"
  using assms(1)
  by (cases rule: pod_step.cases) (use assms(2,3) in
      \<open>auto simp: drains_until_def pod_step_defs pod_ok_def split: shutdown_at.splits\<close>)

text \<open>
  A drain is graceful: after SIGTERM on a serving pod, for the whole of \<open>drainMs\<close> the
  readiness probe is red and the socket still accepts connections whose answers carry
  \<open>connection: close\<close>; the connections are cut no earlier than the close timeout after that.
\<close>

theorem drain_is_graceful:
  assumes "pod_run st startedAt (started_pod startedAt) p"
    and "pd_server_set p" and "pd_shutdown p = NoSignal"
    and "pod_run st startedAt (on_sigterm st p) q" and "0 \<le> ls_closeTimeoutMs st"
  shows "(pd_now q < pd_now p + ls_drainMs st \<longrightarrow> pd_socket q
      \<and> lifecycle_middleware (pd_lifecycle q) READINESS_PATH = ReadyAnswer 503 False True
      \<and> (\<forall>path. path \<noteq> LIVENESS_PATH \<and> path \<noteq> READINESS_PATH \<longrightarrow>
            lifecycle_middleware (pd_lifecycle q) path = PassOn True))
    \<and> (pd_cut q \<longrightarrow> pd_now p + ls_drainMs st + ls_closeTimeoutMs st \<le> pd_now q)"
proof -
  let ?t = "pd_now p + ls_drainMs st"
  have ok: "pod_ok st startedAt p" by (rule pod_ok_run [OF assms(1) pod_ok_started])
  then have sig: "pod_ok st startedAt (on_sigterm st p)" "pd_shutdown (on_sigterm st p) = Draining ?t"
    using assms(2,3) by (auto simp: pod_ok_def pod_step_defs)
  have uncut: "\<not> pd_cut p" using ok assms(3) by (auto simp: pod_ok_def)
  let ?C = "?t + ls_closeTimeoutMs st"
  have "pod_ok st startedAt q \<and> lc_draining (pd_lifecycle q) \<and> drains_until ?t ?C q"
    using assms(4)
  proof (induction rule: pod_run.induct)
    case start
    from sig uncut show ?case using assms(2) by (auto simp: on_sigterm_def say_def Let_def drains_until_def)
  next
    case (next_step q r)
    then show ?case by (blast intro: pod_ok_step drains_until_step draining_step)
  qed
  then show ?thesis
    by (auto simp: lifecycle_middleware_def READINESS_PATH_def LIVENESS_PATH_def Let_def pod_ok_def
        drains_until_def split: shutdown_at.splits)
qed

section \<open>A pod's life\<close>

definition demo_settings :: lifecycle_settings where
  "demo_settings = \<lparr>ls_warmupMs = 4000, ls_drainMs = 5000, ls_closeTimeoutMs = 10000\<rparr>"

definition ready_pod :: pod where
  "ready_pod = \<lparr>pd_now = 4000, pd_main = Up, pd_shutdown = NoSignal,
     pd_lifecycle = \<lparr>lc_ready = True, lc_draining = False\<rparr>, pd_socket = True, pd_server_set = True,
     pd_cut = False, pd_log = [''ready'']\<rparr>"

lemma ready_pod_reached: "pod_run demo_settings 0 (started_pod 0) ready_pod"
proof -
  let ?p = "started_pod 0"
  let ?w = "?p\<lparr>pd_main := Booting, pd_main := WarmingUp, pd_now := 4000\<rparr>"
  have "pod_run demo_settings 0 ?p (?p\<lparr>pd_main := Booting\<rparr>)"
    by (intro next_step [OF start] migrated) (simp_all add: started_pod_def)
  then have "pod_run demo_settings 0 ?p (?p\<lparr>pd_main := Booting, pd_main := WarmingUp\<rparr>)"
    by (rule next_step) (rule booted; simp add: started_pod_def)
  then have "pod_run demo_settings 0 ?p ?w"
    by (rule next_step) (rule tick; simp add: started_pod_def)
  then have "pod_run demo_settings 0 ?p (?w\<lparr>pd_main := (if lc_draining (pd_lifecycle ?w) then Abandoned else Opening)\<rparr>)"
    by (rule next_step) (rule warm; simp add: started_pod_def demo_settings_def)
  then have "pod_run demo_settings 0 ?p (?w\<lparr>pd_main := Opening\<rparr>)" by (simp add: started_pod_def)
  then have "pod_run demo_settings 0 ?p (?w\<lparr>pd_main := Opening, pd_socket := True\<rparr>)"
    by (rule next_step) (rule bound; simp add: started_pod_def)
  then have "pod_run demo_settings 0 ?p (say ''ready'' (?w\<lparr>pd_main := Opening, pd_socket := True,
      pd_main := Up, pd_server_set := True, pd_lifecycle := (pd_lifecycle ?w)\<lparr>lc_ready := True\<rparr>\<rparr>))"
    by (rule next_step) (use listening [of "?w\<lparr>pd_main := Opening, pd_socket := True\<rparr>"] in \<open>simp add: started_pod_def\<close>)
  then show ?thesis by (simp add: started_pod_def say_def ready_pod_def)
qed

lemma ready_means_serving_witness:
  "pd_socket ready_pod \<and> lifecycle_middleware (pd_lifecycle (on_sigterm demo_settings ready_pod)) READINESS_PATH
     = ReadyAnswer 503 False True"
proof -
  have s: "pod_run demo_settings 0 (started_pod 0) (on_sigterm demo_settings ready_pod)"
    by (rule next_step [OF ready_pod_reached]) (rule sigterm, simp add: ready_pod_def)
  have "pd_shutdown (on_sigterm demo_settings ready_pod) \<noteq> NoSignal"
    by (simp add: on_sigterm_def ready_pod_def say_def Let_def)
  with ready_means_serving [OF ready_pod_reached, of True False] ready_means_serving [OF s] start
  show ?thesis by (auto simp: lifecycle_middleware_def ready_pod_def READINESS_PATH_def LIVENESS_PATH_def)
qed

lemma drain_is_graceful_witness: "pd_socket (on_sigterm demo_settings ready_pod)"
  using drain_is_graceful [OF ready_pod_reached, of "on_sigterm demo_settings ready_pod"] start
  by (simp add: ready_pod_def demo_settings_def on_sigterm_def say_def Let_def)

end
