(* ===== verification/Infra.thy ===== *)
theory Infra
  imports Lifecycle
begin

text \<open>
  The stack (\<open>src/infra/config.ts\<close>, \<open>index.ts\<close>): the vault values, the rollout profiles, and the
  Kubernetes resources as the JSON they are. The cluster is not modelled but for what it does with a
  container's environment: a plain value is passed on, a \<open>secretKeyRef\<close> is looked up in the named
  Secret and base64-decoded. Base64 is a pair of functions.
\<close>

section \<open>Configuration\<close>

definition VAULT_VARS :: "(string \<times> string) list" where
  "VAULT_VARS = [(''APP_DB_PASSWORD'', ''DB_PASSWORD''), (''JWT_PRIVATE_KEY'', ''JWT_PRIVATE_KEY''),
     (''JWT_PUBLIC_KEY'', ''JWT_PUBLIC_KEY''), (''JWT_KID'', ''JWT_KID''),
     (''REFRESH_TOKEN_PEPPER'', ''REFRESH_TOKEN_PEPPER'')]"

definition loadVaultSecrets :: "env \<Rightarrow> exn + (string \<times> string) list" where
  "loadVaultSecrets env =
     (let missing = filter (\<lambda>name. env_trimmed env name = None) (map fst VAULT_VARS) in
      if missing \<noteq> []
      then Inl (JsError (''missing required secret: '' @ js_join '', '' missing
                  @ '' (vault, via scripts/with-secrets.sh)''))
      else Inr (map (\<lambda>(name, key). (key, trimmed_value env name)) VAULT_VARS))"

record infra_names =
  nm_cluster :: string
  nm_context :: string
  nm_namespace :: string
  nm_app :: string
  nm_image :: string
  nm_postgresImage :: string
  nm_nodePort :: int
  nm_hostPort :: int

record profile =
  pf_id :: nat
  pf_maxSurge :: nat
  pf_maxUnavailable :: nat
  pf_probes :: bool
  pf_drainMs :: nat

definition PROFILES :: "(string \<times> profile) list" where
  "PROFILES = [
     (''hardened'', \<lparr>pf_id = 1, pf_maxSurge = 1, pf_maxUnavailable = 0, pf_probes = True, pf_drainMs = 5000\<rparr>),
     (''broken'', \<lparr>pf_id = 0, pf_maxSurge = 1, pf_maxUnavailable = 1, pf_probes = False, pf_drainMs = 0\<rparr>)]"

definition parseProfile :: "string \<Rightarrow> exn + profile" where
  "parseProfile raw = (case map_of PROFILES raw of
       Some p \<Rightarrow> Inr p
     | None \<Rightarrow> Inl (JsError (''config profile must be \"hardened\" or \"broken\", got \"'' @ raw @ ''\"'')))"

definition APP_PORT :: int where "APP_PORT = 3000"
definition STACK_DB_USER :: string where "STACK_DB_USER = ''app''"
definition STACK_DB_NAME :: string where "STACK_DB_NAME = ''marketplace''"
definition NONROOT_UID :: int where "NONROOT_UID = 65532"
definition CLOSE_TIMEOUT_MS :: nat where "CLOSE_TIMEOUT_MS = 10000"
definition GRACE_SECONDS :: nat where "GRACE_SECONDS = 30"

text \<open>The stack's settings, and the two conditions under which the program refuses to go on.\<close>

record stack_config =
  st_profile :: profile
  st_rev :: string
  st_replicas :: int
  st_names :: infra_names
  st_secrets :: "(string \<times> string) list"

definition stack_config_of ::
  "env \<Rightarrow> (string \<Rightarrow> string option) \<Rightarrow> int option \<Rightarrow> infra_names \<Rightarrow> exn + stack_config" where
  "stack_config_of env config replicas names =
     res_bind (loadVaultSecrets env) (\<lambda>secrets.
     res_bind (parseProfile (case config ''profile'' of Some p \<Rightarrow> p | None \<Rightarrow> ''hardened'')) (\<lambda>profile.
     (let n = (case replicas of Some n \<Rightarrow> n | None \<Rightarrow> 3) in
      if GRACE_SECONDS * 1000 \<le> pf_drainMs profile + CLOSE_TIMEOUT_MS
      then Inl (JsError ''terminationGracePeriodSeconds must exceed drain + close timeout'')
      else if pf_probes profile \<and> n < 2
      then Inl (JsError ''replicas must be >= 2: a PDB over one replica protects nothing'')
      else Inr \<lparr>st_profile = profile, st_rev = (case config ''rev'' of Some r \<Rightarrow> r | None \<Rightarrow> ''1''),
             st_replicas = n, st_names = names, st_secrets = secrets\<rparr>)))"

section \<open>Resources\<close>

abbreviation Jt :: "string \<Rightarrow> jsval" where "Jt s \<equiv> JStr s"
abbreviation Jn :: "int \<Rightarrow> jsval" where "Jn i \<equiv> JNum (Fin (of_int i))"
abbreviation Jo :: "(string \<times> jsval) list \<Rightarrow> jsval" where "Jo kvs \<equiv> JObj kvs"
abbreviation Ja :: "jsval list \<Rightarrow> jsval" where "Ja xs \<equiv> JArr xs"

definition k8s_namespace :: "stack_config \<Rightarrow> jsval" where
  "k8s_namespace c = Jo [(''metadata'', Jo [(''name'', Jt (nm_namespace (st_names c)))])]"

definition app_labels :: "stack_config \<Rightarrow> jsval" where
  "app_labels c = Jo [(''app'', Jt (nm_app (st_names c)))]"

definition pg_labels :: jsval where
  "pg_labels = Jo [(''app'', Jt ''postgres'')]"

definition secret_name :: "stack_config \<Rightarrow> string" where
  "secret_name c = nm_app (st_names c) @ ''-secrets''"

definition app_secret :: "(string \<Rightarrow> string) \<Rightarrow> stack_config \<Rightarrow> jsval" where
  "app_secret b64 c = Jo [
     (''metadata'', Jo [(''name'', Jt (secret_name c)), (''namespace'', Jt (nm_namespace (st_names c)))]),
     (''type'', Jt ''Opaque''),
     (''data'', Jo (map (\<lambda>(key, v). (key, Jt (b64 v))) (st_secrets c)))]"

definition fromSecret :: "stack_config \<Rightarrow> string \<Rightarrow> string \<Rightarrow> jsval" where
  "fromSecret c envName key = Jo [(''name'', Jt envName),
     (''valueFrom'', Jo [(''secretKeyRef'', Jo [(''name'', Jt (secret_name c)), (''key'', Jt key)])])]"

definition env_entry :: "string \<Rightarrow> string \<Rightarrow> jsval" where
  "env_entry name v = Jo [(''name'', Jt name), (''value'', Jt v)]"

definition postgres_deployment :: "stack_config \<Rightarrow> jsval" where
  "postgres_deployment c = Jo [
     (''metadata'', Jo [(''name'', Jt ''postgres''), (''namespace'', Jt (nm_namespace (st_names c)))]),
     (''spec'', Jo [
       (''replicas'', Jn 1),
       (''strategy'', Jo [(''type'', Jt ''Recreate'')]),
       (''selector'', Jo [(''matchLabels'', pg_labels)]),
       (''template'', Jo [
         (''metadata'', Jo [(''labels'', pg_labels)]),
         (''spec'', Jo [
           (''containers'', Ja [Jo [
             (''name'', Jt ''postgres''),
             (''image'', Jt (nm_postgresImage (st_names c))),
             (''imagePullPolicy'', Jt ''IfNotPresent''),
             (''ports'', Ja [Jo [(''containerPort'', Jn 5432)]]),
             (''env'', Ja [
               env_entry ''POSTGRES_USER'' STACK_DB_USER,
               env_entry ''POSTGRES_DB'' STACK_DB_NAME,
               fromSecret c ''POSTGRES_PASSWORD'' ''DB_PASSWORD'',
               env_entry ''PGDATA'' ''/var/lib/postgresql/data/pgdata'']),
             (''readinessProbe'', Jo [
               (''exec'', Jo [(''command'', Ja [Jt ''pg_isready'', Jt ''-U'', Jt STACK_DB_USER, Jt ''-d'', Jt STACK_DB_NAME])]),
               (''periodSeconds'', Jn 2)]),
             (''resources'', Jo [
               (''requests'', Jo [(''cpu'', Jt ''100m''), (''memory'', Jt ''128Mi'')]),
               (''limits'', Jo [(''memory'', Jt ''256Mi'')])]),
             (''volumeMounts'', Ja [Jo [(''name'', Jt ''data''), (''mountPath'', Jt ''/var/lib/postgresql/data'')]])]]),
           (''volumes'', Ja [Jo [(''name'', Jt ''data''), (''emptyDir'', Jo [])]])])])])]"

definition postgres_service :: "stack_config \<Rightarrow> jsval" where
  "postgres_service c = Jo [
     (''metadata'', Jo [(''name'', Jt ''postgres''), (''namespace'', Jt (nm_namespace (st_names c)))]),
     (''spec'', Jo [(''selector'', pg_labels),
       (''ports'', Ja [Jo [(''port'', Jn 5432), (''targetPort'', Jn 5432)]])])]"

definition k8s_probes :: "stack_config \<Rightarrow> (string \<times> jsval) list" where
  "k8s_probes c = (if pf_probes (st_profile c) then [
     (''readinessProbe'', Jo [(''httpGet'', Jo [(''path'', Jt READINESS_PATH), (''port'', Jn APP_PORT)]),
       (''periodSeconds'', Jn 1), (''failureThreshold'', Jn 1), (''timeoutSeconds'', Jn 1)]),
     (''livenessProbe'', Jo [(''httpGet'', Jo [(''path'', Jt LIVENESS_PATH), (''port'', Jn APP_PORT)]),
       (''periodSeconds'', Jn 10), (''failureThreshold'', Jn 3), (''timeoutSeconds'', Jn 2)]),
     (''startupProbe'', Jo [(''httpGet'', Jo [(''path'', Jt LIVENESS_PATH), (''port'', Jn APP_PORT)]),
       (''periodSeconds'', Jn 1), (''failureThreshold'', Jn 60)])]
   else [])"

definition api_env :: "stack_config \<Rightarrow> jsval list" where
  "api_env c = [
     env_entry ''PORT'' (show_int APP_PORT),
     env_entry ''REV'' (st_rev c),
     env_entry ''DRAIN_MS'' (show_int (int (pf_drainMs (st_profile c)))),
     env_entry ''CLOSE_TIMEOUT_MS'' (show_int (int CLOSE_TIMEOUT_MS)),
     env_entry ''WARMUP_MS'' ''4000'',
     env_entry ''DB_HOST'' ''postgres'',
     env_entry ''DB_PORT'' ''5432'',
     env_entry ''DB_USER'' STACK_DB_USER,
     env_entry ''DB_NAME'' STACK_DB_NAME,
     fromSecret c ''DB_PASSWORD'' ''DB_PASSWORD'',
     fromSecret c ''JWT_PRIVATE_KEY'' ''JWT_PRIVATE_KEY'',
     fromSecret c ''JWT_PUBLIC_KEY'' ''JWT_PUBLIC_KEY'',
     fromSecret c ''JWT_KID'' ''JWT_KID'',
     fromSecret c ''REFRESH_TOKEN_PEPPER'' ''REFRESH_TOKEN_PEPPER'']"

definition api_container :: "stack_config \<Rightarrow> jsval" where
  "api_container c = Jo ([
     (''name'', Jt (nm_app (st_names c))),
     (''image'', Jt (nm_image (st_names c))),
     (''imagePullPolicy'', Jt ''IfNotPresent''),
     (''ports'', Ja [Jo [(''name'', Jt ''http''), (''containerPort'', Jn APP_PORT)]]),
     (''env'', Ja (api_env c))]
   @ k8s_probes c
   @ [(''resources'', Jo [
        (''requests'', Jo [(''cpu'', Jt ''100m''), (''memory'', Jt ''160Mi'')]),
        (''limits'', Jo [(''memory'', Jt ''320Mi'')])]),
      (''securityContext'', Jo [
        (''allowPrivilegeEscalation'', JBool False),
        (''readOnlyRootFilesystem'', JBool True),
        (''capabilities'', Jo [(''drop'', Ja [Jt ''ALL''])])])])"

definition api_deployment :: "stack_config \<Rightarrow> jsval" where
  "api_deployment c = Jo [
     (''metadata'', Jo [(''name'', Jt (nm_app (st_names c))), (''namespace'', Jt (nm_namespace (st_names c))),
        (''labels'', app_labels c)]),
     (''spec'', Jo [
       (''replicas'', Jn (st_replicas c)),
       (''selector'', Jo [(''matchLabels'', app_labels c)]),
       (''strategy'', Jo [(''type'', Jt ''RollingUpdate''),
         (''rollingUpdate'', Jo [(''maxSurge'', Jn (int (pf_maxSurge (st_profile c)))),
            (''maxUnavailable'', Jn (int (pf_maxUnavailable (st_profile c))))])]),
       (''template'', Jo [
         (''metadata'', Jo [(''labels'', app_labels c)]),
         (''spec'', Jo [
           (''terminationGracePeriodSeconds'', Jn (int GRACE_SECONDS)),
           (''securityContext'', Jo [(''runAsNonRoot'', JBool True), (''runAsUser'', Jn NONROOT_UID),
              (''runAsGroup'', Jn NONROOT_UID), (''seccompProfile'', Jo [(''type'', Jt ''RuntimeDefault'')])]),
           (''containers'', Ja [api_container c])])])])]"

definition api_service :: "stack_config \<Rightarrow> jsval" where
  "api_service c = Jo [
     (''metadata'', Jo [(''name'', Jt (nm_app (st_names c))), (''namespace'', Jt (nm_namespace (st_names c))),
        (''labels'', app_labels c)]),
     (''spec'', Jo [(''type'', Jt ''NodePort''), (''selector'', app_labels c),
       (''ports'', Ja [Jo [(''name'', Jt ''http''), (''port'', Jn 80), (''targetPort'', Jn APP_PORT),
          (''nodePort'', Jn (nm_nodePort (st_names c)))]])])]"

definition pod_disruption_budget :: "stack_config \<Rightarrow> jsval" where
  "pod_disruption_budget c = Jo [
     (''metadata'', Jo [(''name'', Jt (nm_app (st_names c))), (''namespace'', Jt (nm_namespace (st_names c)))]),
     (''spec'', Jo [(''minAvailable'', Jn (st_replicas c - 1)),
       (''selector'', Jo [(''matchLabels'', app_labels c)])])]"

definition autoscaler :: "stack_config \<Rightarrow> jsval" where
  "autoscaler c = Jo [
     (''metadata'', Jo [(''name'', Jt (nm_app (st_names c))), (''namespace'', Jt (nm_namespace (st_names c)))]),
     (''spec'', Jo [
       (''scaleTargetRef'', Jo [(''apiVersion'', Jt ''apps/v1''), (''kind'', Jt ''Deployment''),
          (''name'', Jt (nm_app (st_names c)))]),
       (''minReplicas'', Jn 2), (''maxReplicas'', Jn 6),
       (''metrics'', Ja [Jo [(''type'', Jt ''Resource''),
          (''resource'', Jo [(''name'', Jt ''cpu''),
             (''target'', Jo [(''type'', Jt ''Utilization''), (''averageUtilization'', Jn 70)])])]])])]"

definition stack_url :: "stack_config \<Rightarrow> string" where
  "stack_url c = ''http://127.0.0.1:'' @ show_int (nm_hostPort (st_names c))"

definition profile_name :: "stack_config \<Rightarrow> string" where
  "profile_name c = (if pf_id (st_profile c) = 1 then ''hardened'' else ''broken'')"

text \<open>The resources by the name they are registered under, in the order of the program.\<close>

definition stack_resources :: "(string \<Rightarrow> string) \<Rightarrow> stack_config \<Rightarrow> (string \<times> string \<times> jsval) list" where
  "stack_resources b64 c = [
     (''Namespace'', ''ns'', k8s_namespace c),
     (''Secret'', ''app-secrets'', app_secret b64 c),
     (''Deployment'', ''postgres'', postgres_deployment c),
     (''Service'', ''postgres'', postgres_service c),
     (''Deployment'', ''api'', api_deployment c),
     (''Service'', ''api'', api_service c),
     (''PodDisruptionBudget'', ''api'', pod_disruption_budget c),
     (''HorizontalPodAutoscaler'', ''api'', autoscaler c)]"

section \<open>What the cluster gives the container\<close>

definition secret_lookup :: "(string \<Rightarrow> string) \<Rightarrow> jsval \<Rightarrow> string \<Rightarrow> string \<Rightarrow> string option" where
  "secret_lookup unb64 secret name key =
     (if js_get ''name'' (js_get ''metadata'' secret) = JStr name
      then (case js_get key (js_get ''data'' secret) of JStr v \<Rightarrow> Some (unb64 v) | _ \<Rightarrow> None)
      else None)"

definition entry_value :: "(string \<Rightarrow> string) \<Rightarrow> jsval \<Rightarrow> jsval \<Rightarrow> string option" where
  "entry_value unb64 secret e = (case js_get ''value'' e of
       JStr v \<Rightarrow> Some v
     | _ \<Rightarrow> (let r = js_get ''secretKeyRef'' (js_get ''valueFrom'' e) in
             case (js_get ''name'' r, js_get ''key'' r) of
               (JStr n, JStr k) \<Rightarrow> secret_lookup unb64 secret n k
             | _ \<Rightarrow> None))"

definition containers_of :: "jsval \<Rightarrow> jsval list" where
  "containers_of deployment =
     (case js_get ''containers'' (js_get ''spec'' (js_get ''template'' (js_get ''spec'' deployment))) of
        JArr xs \<Rightarrow> xs | _ \<Rightarrow> [])"

definition container_env :: "(string \<Rightarrow> string) \<Rightarrow> jsval \<Rightarrow> jsval \<Rightarrow> env" where
  "container_env unb64 secret container name =
     (case js_get ''env'' container of
        JArr es \<Rightarrow>
          (case List.find (\<lambda>e. js_get ''name'' e = JStr name) es of
             Some e \<Rightarrow> entry_value unb64 secret e
           | None \<Rightarrow> None)
      | _ \<Rightarrow> None)"

definition deployed_env :: "(string \<Rightarrow> string) \<Rightarrow> (string \<Rightarrow> string) \<Rightarrow> stack_config \<Rightarrow> env" where
  "deployed_env b64 unb64 c = container_env unb64 (app_secret b64 c) (hd (containers_of (api_deployment c)))"

lemma js_trim_idem [simp]: "js_trim (js_trim s) = js_trim s"
proof -
  have edge: "dropWhile is_ws (rev (dropWhile is_ws (rev xs))) = rev (dropWhile is_ws (rev xs))"
    if "dropWhile is_ws xs = xs" for xs
  proof (cases "dropWhile is_ws (rev xs)")
    case Nil
    then show ?thesis by (simp only: rev.simps dropWhile.simps)
  next
    case (Cons y ys)
    have "rev xs = takeWhile is_ws (rev xs) @ y # ys" using Cons by (metis takeWhile_dropWhile_id)
    then have xs: "xs = rev (y # ys) @ rev (takeWhile is_ws (rev xs))" by (metis rev_append rev_rev_ident)
    have "rev (y # ys) \<noteq> []" by simp
    then have "hd (rev (y # ys)) = hd xs" using xs by (metis hd_append2)
    moreover have "\<not> is_ws (hd xs)" using that xs
      by (metis Nil_is_append_conv \<open>rev (y # ys) \<noteq> []\<close> dropWhile_eq_self_iff)
    ultimately show ?thesis using Cons \<open>rev (y # ys) \<noteq> []\<close> by (simp add: dropWhile_eq_self_iff)
  qed
  have idem: "dropWhile is_ws (dropWhile is_ws xs) = dropWhile is_ws xs" for xs
    by (rule dropWhile_idem)
  show ?thesis
    unfolding js_trim_def using edge [OF idem, of s] by (simp add: idem)
qed

lemma stack_config_secrets:
  assumes "stack_config_of env config replicas names = Inr c"
  shows "st_secrets c = map (\<lambda>(name, key). (key, trimmed_value env name)) VAULT_VARS"
    and "\<forall>name\<in>set (map fst VAULT_VARS). trimmed_value env name \<noteq> []"
proof -
  from assms have l: "loadVaultSecrets env = Inr (st_secrets c)"
    by (auto simp: stack_config_of_def res_bind_Inr_iff Let_def split: if_splits)
  then show "st_secrets c = map (\<lambda>(name, key). (key, trimmed_value env name)) VAULT_VARS"
    by (auto simp: loadVaultSecrets_def Let_def split: if_splits)
  from l have "filter (\<lambda>name. env_trimmed env name = None) (map fst VAULT_VARS) = []"
    by (auto simp: loadVaultSecrets_def Let_def simp del: filter_map split: if_splits)
  then have "\<forall>name\<in>set (map fst VAULT_VARS). env_trimmed env name \<noteq> None"
    unfolding filter_empty_conv .
  then show "\<forall>name\<in>set (map fst VAULT_VARS). trimmed_value env name \<noteq> []"
    by (auto simp: trimmed_value_def env_value_def env_trimmed_def split: option.splits if_splits)
qed

lemma stack_config_profile:
  assumes "stack_config_of env config replicas names = Inr c"
  shows "pf_drainMs (st_profile c) + CLOSE_TIMEOUT_MS < GRACE_SECONDS * 1000"
    and "pf_probes (st_profile c) \<longrightarrow> 2 \<le> st_replicas c"
    and "pf_drainMs (st_profile c) \<le> 5000"
  using assms
  by (auto simp: stack_config_of_def res_bind_Inr_iff Let_def parseProfile_def PROFILES_def
      split: if_splits option.splits)

lemma js_get_JObj_cons:
  "js_get k (JObj ((k', v) # kvs)) = (if k \<in> fst ` set kvs then js_get k (JObj kvs)
     else if k = k' then v else JUndefined)"
proof -
  have "map_of (rev kvs) k = None \<longleftrightarrow> k \<notin> fst ` set kvs"
    by (metis map_of_eq_None_iff set_rev)
  then show ?thesis by (auto simp: js_get_def map_add_def split: option.splits)
qed

lemma containers_of_api: "containers_of (api_deployment c) = [api_container c]"
  by (simp add: containers_of_def api_deployment_def js_get_JObj_cons)

lemma js_get_env: "js_get ''env'' (api_container c) = JArr (api_env c)"
  by (cases "pf_probes (st_profile c)") (simp_all add: api_container_def k8s_probes_def js_get_JObj_cons)

lemma entry_names [simp]:
  "js_get ''name'' (env_entry n v) = JStr n" "js_get ''name'' (fromSecret c n k) = JStr n"
  by (simp_all add: env_entry_def fromSecret_def js_get_JObj_cons)

lemma entry_values [simp]:
  "entry_value unb64 secret (env_entry n v) = Some v"
  "entry_value unb64 secret (fromSecret c n k) = secret_lookup unb64 secret (secret_name c) k"
  by (simp_all add: entry_value_def env_entry_def fromSecret_def js_get_JObj_cons js_get_def Let_def)

lemma secret_lookup_app:
  assumes "\<forall>s. unb64 (b64 s) = s"
  shows "secret_lookup unb64 (app_secret b64 c) (secret_name c) k = map_of (rev (st_secrets c)) k"
proof -
  have "map_of (rev (map (\<lambda>(key, v). (key, JStr (b64 v))) kvs)) k = map_option (\<lambda>v. JStr (b64 v)) (map_of (rev kvs) k)"
    for kvs
  proof -
    have "rev (map (\<lambda>(key, v). (key, JStr (b64 v))) kvs) = map (\<lambda>(key, v). (key, JStr (b64 v))) (rev kvs)"
      by (rule rev_map)
    then show ?thesis by (simp only: map_of_map) (simp add: comp_def)
  qed
  moreover have "js_get ''name'' (js_get ''metadata'' (app_secret b64 c)) = JStr (secret_name c)"
    "js_get ''data'' (app_secret b64 c) = JObj (map (\<lambda>(key, v). (key, JStr (b64 v))) (st_secrets c))"
    by (simp_all add: app_secret_def js_get_JObj_cons)
  ultimately show ?thesis
    using assms by (simp add: secret_lookup_def js_get_def split: option.splits)
qed

text \<open>The environment of the deployed container, variable by variable.\<close>

lemma deployed_env_find:
  "deployed_env b64 unb64 c name = (case List.find (\<lambda>e. js_get ''name'' e = JStr name) (api_env c) of
     Some e \<Rightarrow> entry_value unb64 (app_secret b64 c) e | None \<Rightarrow> None)"
  by (simp add: deployed_env_def containers_of_api container_env_def js_get_env)

lemma deployed_env_plain:
  "deployed_env b64 unb64 c ''DRAIN_MS'' = Some (show_int (int (pf_drainMs (st_profile c))))"
  "deployed_env b64 unb64 c ''CLOSE_TIMEOUT_MS'' = Some (show_int (int CLOSE_TIMEOUT_MS))"
  "deployed_env b64 unb64 c ''WARMUP_MS'' = Some ''4000''"
  "deployed_env b64 unb64 c ''DB_HOST'' = Some ''postgres''"
  "deployed_env b64 unb64 c ''DB_USER'' = Some STACK_DB_USER"
  "deployed_env b64 unb64 c ''DB_NAME'' = Some STACK_DB_NAME"
  by (simp_all add: deployed_env_find api_env_def)

lemma deployed_env_secret:
  assumes "\<forall>s. unb64 (b64 s) = s" and "(name, key) \<in> set VAULT_VARS"
    and "st_secrets c = map (\<lambda>(name, key). (key, trimmed_value env name)) VAULT_VARS"
  shows "deployed_env b64 unb64 c key = Some (trimmed_value env name)"
proof -
  have "key \<in> {''DB_PASSWORD'', ''JWT_PRIVATE_KEY'', ''JWT_PUBLIC_KEY'', ''JWT_KID'', ''REFRESH_TOKEN_PEPPER''}"
    using assms(2) by (auto simp: VAULT_VARS_def)
  then have "List.find (\<lambda>e. js_get ''name'' e = JStr key) (api_env c) = Some (fromSecret c key key)"
    by (elim insertE emptyE; simp only:) (simp_all add: api_env_def)
  then have "deployed_env b64 unb64 c key = map_of (rev (st_secrets c)) key"
    by (simp add: deployed_env_find secret_lookup_app [of unb64 b64, OF assms(1)])
  moreover have "map_of (rev (st_secrets c)) key = Some (trimmed_value env name)"
  proof -
    have "distinct (map fst (rev (st_secrets c)))" by (simp add: assms(3) VAULT_VARS_def)
    moreover have "(key, trimmed_value env name) \<in> set (rev (st_secrets c))"
      using assms(2) by (auto simp: assms(3))
    ultimately show ?thesis by (rule map_of_is_SomeI)
  qed
  ultimately show ?thesis by simp
qed

lemma env_trimmed_show_nat: "env name = Some (show_nat n) \<Longrightarrow> env_trimmed env name = Some (show_nat n)"
  by (simp add: env_trimmed_def js_trim_digits show_nat_digits)

text \<open>
  What the stack deploys is what the server asks for: the container of the API deployment
  finds every variable it requires, each secret with the vault's trimmed value, reads the drain and
  close timeouts the profile and the stack chose, and these fit into the grace period before
  SIGKILL; a profile with probes has at least two replicas, so that the disruption budget leaves
  one.
\<close>

theorem deployed_pod_starts:
  assumes "stack_config_of env config replicas names = Inr c" and "\<forall>s. unb64 (b64 s) = s"
  shows "serve_missing (deployed_env b64 unb64 c) = []
    \<and> (\<forall>(name, key)\<in>set VAULT_VARS. deployed_env b64 unb64 c key = Some (trimmed_value env name))
    \<and> (\<exists>settings. readLifecycleSettings (deployed_env b64 unb64 c) = Inr settings
        \<and> ls_drainMs settings = int (pf_drainMs (st_profile c))
        \<and> ls_drainMs settings + ls_closeTimeoutMs settings < int GRACE_SECONDS * 1000)
    \<and> (pf_probes (st_profile c) \<longrightarrow> 1 \<le> st_replicas c - 1)"
proof -
  let ?e = "deployed_env b64 unb64 c"
  note secrets = stack_config_secrets [OF assms(1)]
  have sec: "?e key = Some (trimmed_value env name)" if "(name, key) \<in> set VAULT_VARS" for name key
    by (rule deployed_env_secret [of unb64 b64, OF assms(2) that secrets(1)])
  have trimmed: "env_trimmed ?e key \<noteq> None" if "(name, key) \<in> set VAULT_VARS" for name key
  proof -
    have "trimmed_value env name \<noteq> []" using secrets(2) that by force
    with sec [OF that] show ?thesis by (simp add: env_trimmed_def trimmed_value_def)
  qed
  have "env_trimmed ?e ''DB_HOST'' \<noteq> None" "env_trimmed ?e ''DB_USER'' \<noteq> None" "env_trimmed ?e ''DB_NAME'' \<noteq> None"
    using deployed_env_plain [of b64 unb64 c]
    by (simp_all add: env_trimmed_def STACK_DB_USER_def STACK_DB_NAME_def js_trim_def is_ws_def)
  moreover have "env_trimmed ?e ''DB_PASSWORD'' \<noteq> None" "env_trimmed ?e ''JWT_PRIVATE_KEY'' \<noteq> None"
    "env_trimmed ?e ''JWT_PUBLIC_KEY'' \<noteq> None" "env_trimmed ?e ''JWT_KID'' \<noteq> None"
    "env_trimmed ?e ''REFRESH_TOKEN_PEPPER'' \<noteq> None"
    by (rule trimmed; simp add: VAULT_VARS_def)+
  ultimately have missing: "serve_missing ?e = []"
    by (simp add: serve_missing_def REQUIRED_VARS_def AUTH_SECRET_VARS_def)
  have d: "nonNegativeInt ?e ''DRAIN_MS'' 5000 = Inr (int (pf_drainMs (st_profile c)))"
    by (rule nonNegativeInt_show [OF env_trimmed_show_nat])
      (use stack_config_profile(3) [OF assms(1)] in \<open>simp_all add: deployed_env_plain show_int_def\<close>)
  have t: "nonNegativeInt ?e ''CLOSE_TIMEOUT_MS'' 10000 = Inr (int CLOSE_TIMEOUT_MS)"
    by (rule nonNegativeInt_show [OF env_trimmed_show_nat])
      (simp_all add: deployed_env_plain show_int_def CLOSE_TIMEOUT_MS_def)
  have w: "nonNegativeInt ?e ''WARMUP_MS'' 4000 = Inr (int 4000)"
  proof (rule nonNegativeInt_show [OF env_trimmed_show_nat])
    have "show_nat 4000 = ''4000''" by code_simp
    then show "?e ''WARMUP_MS'' = Some (show_nat 4000)" by (simp add: deployed_env_plain)
  qed simp
  have "int (pf_drainMs (st_profile c) + CLOSE_TIMEOUT_MS) < int (GRACE_SECONDS * 1000)"
    using stack_config_profile(1) [OF assms(1)] by (simp only: of_nat_less_iff)
  with d t w have "\<exists>settings. readLifecycleSettings ?e = Inr settings
        \<and> ls_drainMs settings = int (pf_drainMs (st_profile c))
        \<and> ls_drainMs settings + ls_closeTimeoutMs settings < int GRACE_SECONDS * 1000"
    by (simp add: readLifecycleSettings_def)
  with missing sec stack_config_profile(2) [OF assms(1)] show ?thesis by auto
qed

section \<open>A concrete stack\<close>

definition demo_names :: infra_names where
  "demo_names = \<lparr>nm_cluster = ''kind'', nm_context = ''kind-kind'', nm_namespace = ''shop'', nm_app = ''api'',
     nm_image = ''api:1'', nm_postgresImage = ''postgres:17'', nm_nodePort = 30080, nm_hostPort = 8080\<rparr>"

definition vault_env :: env where
  "vault_env name = (if name \<in> fst ` set VAULT_VARS then Some '' s3cret '' else None)"

definition demo_stack :: stack_config where
  "demo_stack = \<lparr>st_profile = the (map_of PROFILES ''hardened''), st_rev = ''1'', st_replicas = 3,
     st_names = demo_names, st_secrets = map (\<lambda>(name, key). (key, trimmed_value vault_env name)) VAULT_VARS\<rparr>"

lemma demo_stack_config: "stack_config_of vault_env (\<lambda>_. None) None demo_names = Inr demo_stack"
  by code_simp

lemma deployed_pod_starts_witness:
  "serve_missing (deployed_env (\<lambda>s. s) (\<lambda>s. s) demo_stack) = [] \<and> 1 \<le> st_replicas demo_stack - 1"
  using deployed_pod_starts [OF demo_stack_config, of "\<lambda>s. s" "\<lambda>s. s"]
  by (simp add: demo_stack_def PROFILES_def)

end
