(* ===== verification/Jobs.thy ===== *)
theory Jobs
  imports Orphans Retention Consumer Settings
begin

text \<open>
  The BullMQ side (\<open>src/queue/receipts.queue.ts\<close>, \<open>worker-main.ts\<close>, \<open>outbox/consumer-main.ts\<close>):
  what is enqueued with which options, the processor of the jobs, and the hook by which the
  consumer of order events enqueues a receipt. The queue itself is a parameter, of which the code
  uses that a job id is taken once.
\<close>

section \<open>Names and options\<close>

definition RECEIPTS_QUEUE :: string where "RECEIPTS_QUEUE = ''receipts''"
definition JOB_SEND_RECEIPT :: string where "JOB_SEND_RECEIPT = ''send-receipt''"
definition JOB_OUTBOX_PURGE :: string where "JOB_OUTBOX_PURGE = ''outbox-purge''"
definition OUTBOX_PURGE_SCHEDULER :: string where "OUTBOX_PURGE_SCHEDULER = ''outbox-purge''"
definition JOB_FILES_ORPHAN_SWEEP :: string where "JOB_FILES_ORPHAN_SWEEP = ''files-orphan-sweep''"
definition FILES_ORPHAN_SCHEDULER :: string where "FILES_ORPHAN_SCHEDULER = ''files-orphan-sweep''"

text \<open>A retention rule by age in seconds and by count; \<open>jo_jitter\<close> is in tenths.\<close>

record keep_rule =
  kr_age :: "int option"
  kr_count :: "int option"

record job_options =
  jo_attempts :: nat
  jo_delay :: int
  jo_jitter :: rat
  jo_removeOnComplete :: keep_rule
  jo_removeOnFail :: keep_rule
  jo_jobId :: "string option"

definition DEFAULT_JOB_OPTIONS :: job_options where
  "DEFAULT_JOB_OPTIONS = \<lparr>jo_attempts = 5, jo_delay = 1000, jo_jitter = 1 / 2,
     jo_removeOnComplete = \<lparr>kr_age = Some (24 * 60 * 60), kr_count = Some 10000\<rparr>,
     jo_removeOnFail = \<lparr>kr_age = Some (7 * 24 * 60 * 60), kr_count = None\<rparr>, jo_jobId = None\<rparr>"

record send_receipt_data =
  sd_orderId :: string
  sd_userId :: string
  sd_totalCents :: jsnum
  sd_failTimes :: "nat option"

definition receiptJobId :: "string \<Rightarrow> string" where
  "receiptJobId orderId = ''receipt-'' @ orderId"

record receipts_queue =
  rq_name :: string
  rq_defaults :: job_options

definition createReceiptsQueue :: "string option \<Rightarrow> receipts_queue" where
  "createReceiptsQueue name = \<lparr>rq_name = (case name of Some n \<Rightarrow> n | None \<Rightarrow> RECEIPTS_QUEUE),
     rq_defaults = DEFAULT_JOB_OPTIONS\<rparr>"

section \<open>Enqueueing\<close>

text \<open>\<open>queue.add\<close>: the name, the data and the job id of the options; it may throw.\<close>

type_synonym 'q queue_add = "string \<Rightarrow> send_receipt_data \<Rightarrow> string \<Rightarrow> 'q \<Rightarrow> (exn + unit) \<times> 'q"

definition enqueueReceipt :: "'q queue_add \<Rightarrow> send_receipt_data \<Rightarrow> 'q \<Rightarrow> (exn + unit) \<times> 'q" where
  "enqueueReceipt add data q = add JOB_SEND_RECEIPT data (receiptJobId (sd_orderId data)) q"

text \<open>The schedulers: the id, the interval, the job's name and its options.\<close>

record scheduler =
  sh_id :: string
  sh_every :: int
  sh_name :: string
  sh_options :: job_options

definition sweep_options :: job_options where
  "sweep_options = \<lparr>jo_attempts = 3, jo_delay = 5000, jo_jitter = 1 / 2,
     jo_removeOnComplete = \<lparr>kr_age = None, kr_count = Some 100\<rparr>,
     jo_removeOnFail = \<lparr>kr_age = None, kr_count = Some 100\<rparr>, jo_jobId = None\<rparr>"

definition upsertOutboxPurgeScheduler :: "int option \<Rightarrow> scheduler list \<Rightarrow> scheduler list" where
  "upsertOutboxPurgeScheduler everyMs q = upsert sh_id \<lparr>sh_id = OUTBOX_PURGE_SCHEDULER,
     sh_every = (case everyMs of Some n \<Rightarrow> n | None \<Rightarrow> PURGE_INTERVAL_MS),
     sh_name = JOB_OUTBOX_PURGE, sh_options = sweep_options\<rparr> q"

definition upsertFilesOrphanScheduler :: "int option \<Rightarrow> scheduler list \<Rightarrow> scheduler list" where
  "upsertFilesOrphanScheduler everyMs q = upsert sh_id \<lparr>sh_id = FILES_ORPHAN_SCHEDULER,
     sh_every = (case everyMs of Some n \<Rightarrow> n | None \<Rightarrow> ORPHAN_SWEEP_INTERVAL_MS),
     sh_name = JOB_FILES_ORPHAN_SWEEP, sh_options = sweep_options\<rparr> q"

text \<open>What the worker process sets up: its pool, its connections, the schedulers.\<close>

definition worker_setup :: "env \<Rightarrow> exn + pg_options \<times> redis_client \<times> redis_client \<times> scheduler list" where
  "worker_setup env =
     res_bind (createPool env) (\<lambda>pool.
     res_bind (connectQueueProducerRedis env) (\<lambda>producer.
     res_bind (connectQueueWorkerRedis env) (\<lambda>consumer.
     Inr (pool, producer, consumer,
       (if storageConfigured env then upsertFilesOrphanScheduler None else id)
         (upsertOutboxPurgeScheduler None [])))))"

section \<open>Processing\<close>

record bull_job =
  bj_name :: string
  bj_data :: send_receipt_data
  bj_attemptsMade :: nat
  bj_id :: "string option"

record receipt =
  rp_orderId :: string
  rp_sentTo :: string
  rp_idempotencyKey :: "string option"

datatype job_result = ReceiptSent receipt | OutboxPurged purge_result | FilesSwept nat

definition send_receipt :: "bull_job \<Rightarrow> exn + receipt" where
  "send_receipt job =
     (let data = bj_data job;
          failTimes = (case sd_failTimes data of Some n \<Rightarrow> n | None \<Rightarrow> 0)
      in if failTimes \<noteq> 0 \<and> bj_attemptsMade job < failTimes
         then Inl (JsError (''receipt provider unavailable (attempt '' @ show_nat (bj_attemptsMade job + 1) @ '')''))
         else Inr \<lparr>rp_orderId = sd_orderId data, rp_sentTo = sd_userId data, rp_idempotencyKey = bj_id job\<rparr>)"

record 's processor_env =
  pe_now :: int
  pe_storage :: "'s s3 option"
  pe_pick_outbox :: "outbox_row chooser"
  pe_pick_marks :: "processed_message_row chooser"
  pe_locked :: "string \<Rightarrow> bool"
  pe_sweep_fault :: "exn option"

definition createReceiptsProcessor :: "'s processor_env \<Rightarrow> bull_job \<Rightarrow> ('s world, job_result) io" where
  "createReceiptsProcessor env job w =
     (if bj_name job = JOB_SEND_RECEIPT
      then Some (case send_receipt job of Inl e \<Rightarrow> Inl e | Inr r \<Rightarrow> Inr (ReceiptSent r), w)
      else if bj_name job = JOB_OUTBOX_PURGE
      then (case purgeOutbox (pe_pick_outbox env) (pe_pick_marks env) (pe_now env)
                  \<lparr>pg_outbox_retention = None, pg_inbox_retention = None, pg_batch_size = None\<rparr> (w_db w) of
              None \<Rightarrow> None
            | Some (r, s') \<Rightarrow> Some (Inr (OutboxPurged r), w\<lparr>w_db := s'\<rparr>))
      else if bj_name job = JOB_FILES_ORPHAN_SWEEP
      then (case pe_storage env of
              None \<Rightarrow> Some (Inl (UnrecoverableError ''files sweep needs storage''), w)
            | Some send \<Rightarrow> io_bind (sweepOrphanFiles send (pe_locked env) (pe_sweep_fault env) (pe_now env)
                  ORPHAN_AGE_HOURS) (\<lambda>n. io_return (FilesSwept n)) w)
      else Some (Inl (UnrecoverableError (''unknown job '' @ bj_name job)), w))"

section \<open>The consumer's hook\<close>

definition receipt_data_of :: "order_placed_event \<Rightarrow> send_receipt_data" where
  "receipt_data_of event = \<lparr>sd_orderId = ev_order_id event, sd_userId = ev_user_id event,
     sd_totalCents = ev_total_cents event, sd_failTimes = None\<rparr>"

text \<open>With a queue Redis configured, every applied event enqueues its receipt; otherwise there is no hook.\<close>

definition after_effect_hook ::
  "env \<Rightarrow> 'q queue_add \<Rightarrow> (order_placed_event \<Rightarrow> 'q \<Rightarrow> (exn + unit) \<times> 'q) option" where
  "after_effect_hook env add =
     (if set_and_nonempty (env ''REDIS_QUEUE_URL'')
      then Some (\<lambda>event. enqueueReceipt add (receipt_data_of event)) else None)"

text \<open>Deliveries of events, one after the other, each enqueueing its receipt unless that throws.\<close>

definition enqueue_all :: "'q queue_add \<Rightarrow> order_placed_event list \<Rightarrow> 'q \<Rightarrow> 'q" where
  "enqueue_all add events q = fold (\<lambda>ev q. snd (enqueueReceipt add (receipt_data_of ev) q)) events q"

section \<open>One receipt per order\<close>

text \<open>
  What the code relies on in BullMQ: adding an id that is in the queue changes nothing, adding
  another id either throws and changes nothing or adds that one job.
\<close>

definition dedups :: "'q queue_add \<Rightarrow> ('q \<Rightarrow> (string \<times> string \<times> send_receipt_data) list) \<Rightarrow> bool" where
  "dedups add jobs \<longleftrightarrow> (\<forall>name data jid q.
     jobs (snd (add name data jid q)) =
       (if jid \<in> fst ` set (jobs q) \<or> \<not> is_ok (fst (add name data jid q)) then jobs q
        else jobs q @ [(jid, name, data)]))"

lemma receiptJobId_inject [simp]: "receiptJobId a = receiptJobId b \<longleftrightarrow> a = b"
  by (simp add: receiptJobId_def)

text \<open>
  One receipt per order: however often the events of however many orders are delivered and
  whichever calls of the queue fail, the queue holds at most one receipt job per order, each is for
  an event that was delivered and carries that event's order, user and total, and the order of
  every event whose enqueueing returned has its job; processing it names the job id as
  idempotency key. (What BullMQ removes after a day is not looked at.)
\<close>

theorem one_receipt_per_order:
  assumes "dedups add jobs" and "jobs q = []"
  shows "distinct (map fst (jobs (enqueue_all add events q)))
    \<and> (\<forall>(jid, name, data)\<in>set (jobs (enqueue_all add events q)).
        name = JOB_SEND_RECEIPT \<and> jid = receiptJobId (sd_orderId data)
        \<and> (\<exists>ev\<in>set events. data = receipt_data_of ev)
        \<and> (\<forall>n. send_receipt \<lparr>bj_name = name, bj_data = data, bj_attemptsMade = n, bj_id = Some jid\<rparr>
            = Inr \<lparr>rp_orderId = sd_orderId data, rp_sentTo = sd_userId data, rp_idempotencyKey = Some jid\<rparr>))
    \<and> (is_ok (fst (enqueueReceipt add (receipt_data_of ev) (enqueue_all add events q))) \<longrightarrow>
        receiptJobId (ev_order_id ev) \<in> fst ` set (jobs (enqueue_all add (events @ [ev]) q)))"
proof -
  have step: "jobs (snd (enqueueReceipt add d p)) =
      (if receiptJobId (sd_orderId d) \<in> fst ` set (jobs p) \<or> \<not> is_ok (fst (enqueueReceipt add d p)) then jobs p
       else jobs p @ [(receiptJobId (sd_orderId d), JOB_SEND_RECEIPT, d)])" for d p
    using assms(1) unfolding dedups_def enqueueReceipt_def by blast
  have more: "enqueue_all add (evs @ [x]) q = snd (enqueueReceipt add (receipt_data_of x) (enqueue_all add evs q))" for evs x
    by (simp add: enqueue_all_def)
  have data: "receiptJobId (sd_orderId (receipt_data_of x)) = receiptJobId (ev_order_id x)
      \<and> sd_failTimes (receipt_data_of x) = None" for x
    by (simp add: receipt_data_of_def)
  have ids: "distinct (map fst (jobs (enqueue_all add events q)))"
  proof (induction events rule: rev_induct)
    case Nil
    show ?case by (simp add: enqueue_all_def assms(2))
  next
    case (snoc x evs)
    then show ?case
      using step [of "receipt_data_of x" "enqueue_all add evs q"]
      by (simp add: more)
  qed
  have entries: "set (jobs (enqueue_all add events q))
      \<subseteq> (\<lambda>x. (receiptJobId (ev_order_id x), JOB_SEND_RECEIPT, receipt_data_of x)) ` set events"
  proof (induction events rule: rev_induct)
    case Nil
    show ?case by (simp add: enqueue_all_def assms(2))
  next
    case (snoc x evs)
    then show ?case
      using step [of "receipt_data_of x" "enqueue_all add evs q"]
      by (simp add: more data subset_insertI2)
  qed
  have sent: "send_receipt \<lparr>bj_name = m, bj_data = receipt_data_of x, bj_attemptsMade = n, bj_id = Some j\<rparr>
      = Inr \<lparr>rp_orderId = sd_orderId (receipt_data_of x), rp_sentTo = sd_userId (receipt_data_of x),
             rp_idempotencyKey = Some j\<rparr>" for m x n j
    by (simp add: send_receipt_def data Let_def)
  have good: "case entry of (jid, name, data) \<Rightarrow>
        name = JOB_SEND_RECEIPT \<and> jid = receiptJobId (sd_orderId data)
        \<and> (\<exists>ev\<in>set events. data = receipt_data_of ev)
        \<and> (\<forall>n. send_receipt \<lparr>bj_name = name, bj_data = data, bj_attemptsMade = n, bj_id = Some jid\<rparr>
            = Inr \<lparr>rp_orderId = sd_orderId data, rp_sentTo = sd_userId data, rp_idempotencyKey = Some jid\<rparr>)"
    if mem: "entry \<in> set (jobs (enqueue_all add events q))" for entry
  proof -
    obtain x where "x \<in> set events" and "entry = (receiptJobId (ev_order_id x), JOB_SEND_RECEIPT, receipt_data_of x)"
      using entries mem by blast
    then show ?thesis by (simp only: prod.case sent data) blast
  qed
  have last: "receiptJobId (ev_order_id ev) \<in> fst ` set (jobs (enqueue_all add (events @ [ev]) q))"
    if "is_ok (fst (enqueueReceipt add (receipt_data_of ev) (enqueue_all add events q)))"
    using that step [of "receipt_data_of ev" "enqueue_all add events q"] by (simp add: more data)
  show ?thesis using ids good last by (intro conjI ballI impI)
qed

definition list_queue_add :: "(string \<times> string \<times> send_receipt_data) list queue_add" where
  "list_queue_add name data jid q = (Inr (), if jid \<in> fst ` set q then q else q @ [(jid, name, data)])"

lemma list_queue_dedups: "dedups list_queue_add (\<lambda>q. q)"
  by (simp add: dedups_def list_queue_add_def)

definition demo_event :: order_placed_event where
  "demo_event = \<lparr>ev_event_id = ''e'', ev_order_id = ''7'', ev_user_id = ''1'', ev_total_cents = Fin 5, ev_body = JNull\<rparr>"

lemma one_receipt_per_order_witness:
  "distinct (map fst (enqueue_all list_queue_add [demo_event, demo_event] []))
   \<and> receiptJobId ''7'' \<in> fst ` set (enqueue_all list_queue_add [demo_event, demo_event] [])"
  using one_receipt_per_order [OF list_queue_dedups, of "[]" "[demo_event]" demo_event]
    one_receipt_per_order [OF list_queue_dedups, of "[]" "[demo_event, demo_event]" demo_event]
  by (simp add: enqueueReceipt_def list_queue_add_def demo_event_def)

end
