(* ===== verification/Ddl.thy ===== *)
theory Ddl
  imports Schema
begin

text \<open>
  The part of SQL's data definition the migrations use, and the two TypeORM commands that run
  them: a catalog of tables and indexes, statements as transformers of the catalog that fail with
  an SQLSTATE, and constraints with their meaning on a row. A catalog describes tables; the rows in
  them, and their migration by a default, are not part of it.
\<close>

section \<open>Values, expressions and conditions\<close>

datatype sql_type = BigInt | Integer | TextType | CharType nat | Timestamptz | Boolean | Jsonb | Uuid

datatype sql_val = VNull | VInt int | VText string | VBool bool | VJson jsval

type_synonym sql_row = "string \<Rightarrow> sql_val"

datatype sexpr = Col string | IntLit int | LengthOf sexpr | TrimOf sexpr | Times sexpr sexpr

fun sexpr_val :: "sql_row \<Rightarrow> sexpr \<Rightarrow> sql_val" where
  "sexpr_val r (Col c) = r c"
| "sexpr_val r (IntLit n) = VInt n"
| "sexpr_val r (LengthOf e) = (case sexpr_val r e of VText s \<Rightarrow> VInt (int (length s)) | _ \<Rightarrow> VNull)"
| "sexpr_val r (TrimOf e) = (case sexpr_val r e of VText s \<Rightarrow> VText (sql_trim s) | _ \<Rightarrow> VNull)"
| "sexpr_val r (Times a b) =
     (case (sexpr_val r a, sexpr_val r b) of (VInt m, VInt n) \<Rightarrow> VInt (m * n) | _ \<Rightarrow> VNull)"

text \<open>\<open>UpperLetters c n\<close> is \<open>c ~ '^[A-Z]{n}$'\<close>.\<close>

datatype scond =
    AtLeast sexpr int
  | MoreThan sexpr int
  | Between sexpr int int
  | EqualTo sexpr sexpr
  | OneOf string "string list"
  | UpperLetters string nat
  | IsNull string
  | IsNotNull string
  | Both scond scond
  | Either scond scond

text \<open>Conditions are three-valued; a null operand makes a comparison unknown.\<close>

fun int_cond :: "(int \<Rightarrow> bool) \<Rightarrow> sql_val \<Rightarrow> bool option" where
  "int_cond p (VInt n) = Some (p n)"
| "int_cond p _ = None"

fun text_cond :: "(string \<Rightarrow> bool) \<Rightarrow> sql_val \<Rightarrow> bool option" where
  "text_cond p (VText s) = Some (p s)"
| "text_cond p _ = None"

fun and3 :: "bool option \<Rightarrow> bool option \<Rightarrow> bool option" where
  "and3 (Some False) b = Some False"
| "and3 a (Some False) = Some False"
| "and3 (Some True) (Some True) = Some True"
| "and3 a b = None"

fun not3 :: "bool option \<Rightarrow> bool option" where
  "not3 a = map_option Not a"

fun scond_val :: "sql_row \<Rightarrow> scond \<Rightarrow> bool option" where
  "scond_val r (AtLeast e n) = int_cond (\<lambda>v. n \<le> v) (sexpr_val r e)"
| "scond_val r (MoreThan e n) = int_cond (\<lambda>v. n < v) (sexpr_val r e)"
| "scond_val r (Between e a b) = int_cond (\<lambda>v. a \<le> v \<and> v \<le> b) (sexpr_val r e)"
| "scond_val r (EqualTo e f) =
     (case sexpr_val r f of VInt n \<Rightarrow> int_cond (\<lambda>v. v = n) (sexpr_val r e) | _ \<Rightarrow> None)"
| "scond_val r (OneOf c ss) = text_cond (\<lambda>s. s \<in> set ss) (r c)"
| "scond_val r (UpperLetters c n) = text_cond (\<lambda>s. length s = n \<and> list_all is_upper s) (r c)"
| "scond_val r (IsNull c) = Some (r c = VNull)"
| "scond_val r (IsNotNull c) = Some (r c \<noteq> VNull)"
| "scond_val r (Both a b) = and3 (scond_val r a) (scond_val r b)"
| "scond_val r (Either a b) = not3 (and3 (not3 (scond_val r a)) (not3 (scond_val r b)))"

fun sexpr_cols :: "sexpr \<Rightarrow> string list" where
  "sexpr_cols (Col c) = [c]"
| "sexpr_cols (IntLit n) = []"
| "sexpr_cols (LengthOf e) = sexpr_cols e"
| "sexpr_cols (TrimOf e) = sexpr_cols e"
| "sexpr_cols (Times a b) = sexpr_cols a @ sexpr_cols b"

fun scond_cols :: "scond \<Rightarrow> string list" where
  "scond_cols (AtLeast e n) = sexpr_cols e"
| "scond_cols (MoreThan e n) = sexpr_cols e"
| "scond_cols (Between e a b) = sexpr_cols e"
| "scond_cols (EqualTo e f) = sexpr_cols e @ sexpr_cols f"
| "scond_cols (OneOf c ss) = [c]"
| "scond_cols (UpperLetters c n) = [c]"
| "scond_cols (IsNull c) = [c]"
| "scond_cols (IsNotNull c) = [c]"
| "scond_cols (Both a b) = scond_cols a @ scond_cols b"
| "scond_cols (Either a b) = scond_cols a @ scond_cols b"

section \<open>Tables and indexes\<close>

text \<open>The default of a column is its expression as text; \<open>''identity''\<close> stands for an identity column.\<close>

record column =
  co_name :: string
  co_type :: sql_type
  co_not_null :: bool
  co_default :: "string option"

datatype on_delete = NoAction | Restrict | Cascade

datatype rule =
    PrimaryKey "string list"
  | UniqueKey "string list"
  | Check scond
  | References string string string on_delete

text \<open>A constraint has the name it was given; one without a name is named by PostgreSQL.\<close>

record table_def =
  tb_name :: string
  tb_columns :: "column list"
  tb_rules :: "(string option \<times> rule) list"

record index_def =
  ix_name :: string
  ix_table :: string
  ix_unique :: bool
  ix_columns :: "(string \<times> bool) list"
  ix_include :: "string list"
  ix_where :: "scond option"

record catalog =
  ct_tables :: "table_def list"
  ct_indexes :: "index_def list"

definition empty_catalog :: catalog where
  "empty_catalog = \<lparr>ct_tables = [], ct_indexes = []\<rparr>"

fun rule_cols :: "rule \<Rightarrow> string list" where
  "rule_cols (PrimaryKey cs) = cs"
| "rule_cols (UniqueKey cs) = cs"
| "rule_cols (Check cond) = scond_cols cond"
| "rule_cols (References c t tc od) = [c]"

fun refers_to :: "string \<Rightarrow> rule \<Rightarrow> bool" where
  "refers_to t (References c t' tc od) = (t = t')"
| "refers_to t _ = False"

fun refers_to_column :: "string \<Rightarrow> string \<Rightarrow> rule \<Rightarrow> bool" where
  "refers_to_column t col (References c t' tc od) = (t = t' \<and> col = tc)"
| "refers_to_column t col _ = False"

definition index_cols :: "index_def \<Rightarrow> string list" where
  "index_cols ix = map fst (ix_columns ix) @ ix_include ix
     @ (case ix_where ix of None \<Rightarrow> [] | Some cond \<Rightarrow> scond_cols cond)"

definition relation_names :: "catalog \<Rightarrow> string list" where
  "relation_names c = map tb_name (ct_tables c) @ map ix_name (ct_indexes c)"

definition find_table :: "string \<Rightarrow> catalog \<Rightarrow> table_def option" where
  "find_table t c = List.find (\<lambda>d. tb_name d = t) (ct_tables c)"

definition column_names :: "table_def \<Rightarrow> string list" where
  "column_names d = map co_name (tb_columns d)"

definition on_table :: "string \<Rightarrow> (table_def \<Rightarrow> table_def) \<Rightarrow> catalog \<Rightarrow> catalog" where
  "on_table t f c = c\<lparr>ct_tables := map (\<lambda>d. if tb_name d = t then f d else d) (ct_tables c)\<rparr>"

section \<open>Statements\<close>

text \<open>
  \<open>CreateTable True\<close> is \<open>CREATE TABLE IF NOT EXISTS\<close>. Tables, indexes, columns and constraints are
  dropped with \<open>IF EXISTS\<close>.
\<close>

datatype ddl =
    CreateTable bool table_def
  | AddColumns string "column list"
  | AddConstraint string string rule
  | CreateIndex index_def
  | DropTable string
  | DropIndex string
  | DropConstraint string string
  | DropColumn string string

abbreviation duplicate_table :: exn where "duplicate_table \<equiv> pg_error ''42P07''"
abbreviation undefined_table :: exn where "undefined_table \<equiv> pg_error ''42P01''"
abbreviation duplicate_column :: exn where "duplicate_column \<equiv> pg_error ''42701''"
abbreviation undefined_column :: exn where "undefined_column \<equiv> pg_error ''42703''"
abbreviation duplicate_object :: exn where "duplicate_object \<equiv> pg_error ''42710''"
abbreviation dependent_objects :: exn where "dependent_objects \<equiv> pg_error ''2BP01''"

text \<open>The columns and tables a rule of a table names exist.\<close>

definition rule_error :: "catalog \<Rightarrow> table_def \<Rightarrow> rule \<Rightarrow> exn option" where
  "rule_error c d ru =
     (if \<not> set (rule_cols ru) \<subseteq> set (column_names d) then Some undefined_column
      else (case ru of
          References col t tc od \<Rightarrow>
            (case (if t = tb_name d then Some d else find_table t c) of
               None \<Rightarrow> Some undefined_table
             | Some target \<Rightarrow> if tc \<in> set (column_names target) then None else Some undefined_column)
        | _ \<Rightarrow> None))"

definition references_table :: "string \<Rightarrow> table_def \<Rightarrow> bool" where
  "references_table t d \<longleftrightarrow> tb_name d \<noteq> t \<and> list_ex (refers_to t \<circ> snd) (tb_rules d)"

fun run_ddl :: "ddl \<Rightarrow> catalog \<Rightarrow> exn + catalog" where
  "run_ddl (CreateTable lenient d) c =
     (if tb_name d \<in> set (relation_names c) then (if lenient then Inr c else Inl duplicate_table)
      else if \<not> distinct (column_names d) then Inl duplicate_column
      else (case List.map_filter (rule_error c d \<circ> snd) (tb_rules d) of
          e # _ \<Rightarrow> Inl e
        | [] \<Rightarrow> Inr (c\<lparr>ct_tables := ct_tables c @ [d]\<rparr>)))"
| "run_ddl (AddColumns t cs) c =
     (case find_table t c of
        None \<Rightarrow> Inl undefined_table
      | Some d \<Rightarrow>
          if distinct (column_names d @ map co_name cs)
          then Inr (on_table t (\<lambda>d. d\<lparr>tb_columns := tb_columns d @ cs\<rparr>) c)
          else Inl duplicate_column)"
| "run_ddl (AddConstraint t n ru) c =
     (case find_table t c of
        None \<Rightarrow> Inl undefined_table
      | Some d \<Rightarrow>
          if Some n \<in> fst ` set (tb_rules d) then Inl duplicate_object
          else (case rule_error c d ru of
              Some e \<Rightarrow> Inl e
            | None \<Rightarrow> Inr (on_table t (\<lambda>d. d\<lparr>tb_rules := tb_rules d @ [(Some n, ru)]\<rparr>) c)))"
| "run_ddl (CreateIndex ix) c =
     (if ix_name ix \<in> set (relation_names c) then Inl duplicate_table
      else (case find_table (ix_table ix) c of
          None \<Rightarrow> Inl undefined_table
        | Some d \<Rightarrow>
            if set (index_cols ix) \<subseteq> set (column_names d)
            then Inr (c\<lparr>ct_indexes := ct_indexes c @ [ix]\<rparr>) else Inl undefined_column))"
| "run_ddl (DropTable t) c =
     (if list_ex (references_table t) (ct_tables c) then Inl dependent_objects
      else Inr \<lparr>ct_tables = filter (\<lambda>d. tb_name d \<noteq> t) (ct_tables c),
                ct_indexes = filter (\<lambda>ix. ix_table ix \<noteq> t) (ct_indexes c)\<rparr>)"
| "run_ddl (DropIndex n) c = Inr (c\<lparr>ct_indexes := filter (\<lambda>ix. ix_name ix \<noteq> n) (ct_indexes c)\<rparr>)"
| "run_ddl (DropConstraint t n) c =
     (case find_table t c of
        None \<Rightarrow> Inl undefined_table
      | Some _ \<Rightarrow> Inr (on_table t (\<lambda>d. d\<lparr>tb_rules := filter (\<lambda>r. fst r \<noteq> Some n) (tb_rules d)\<rparr>) c))"
| "run_ddl (DropColumn t col) c =
     (case find_table t c of
        None \<Rightarrow> Inl undefined_table
      | Some _ \<Rightarrow>
          if list_ex (\<lambda>d. list_ex (refers_to_column t col \<circ> snd) (tb_rules d)) (ct_tables c)
          then Inl dependent_objects
          else Inr ((on_table t (\<lambda>d. d\<lparr>tb_columns := filter (\<lambda>x. co_name x \<noteq> col) (tb_columns d),
                   tb_rules := filter (\<lambda>r. col \<notin> set (rule_cols (snd r))) (tb_rules d)\<rparr>) c)
                 \<lparr>ct_indexes := filter (\<lambda>ix. \<not> (ix_table ix = t \<and> col \<in> set (index_cols ix))) (ct_indexes c)\<rparr>))"

fun run_script :: "ddl list \<Rightarrow> catalog \<Rightarrow> exn + catalog" where
  "run_script [] c = Inr c"
| "run_script (q # qs) c = res_bind (run_ddl q c) (run_script qs)"

lemma run_script_append: "run_script (xs @ ys) c = res_bind (run_script xs c) (run_script ys)"
  by (induction xs arbitrary: c) (simp_all split: sum.splits, metis res_bind.simps sum.exhaust)

section \<open>Running and reverting migrations\<close>

record migration =
  mg_name :: string
  mg_up :: "ddl list"
  mg_down :: "ddl list"

text \<open>A database: its catalog and the names in TypeORM's table of executed migrations, oldest first.\<close>

type_synonym migrated = "catalog \<times> string list"

text \<open>
  \<open>runMigrations({ transaction: 'all' })\<close>: the migrations not executed yet, in their order, all in
  one transaction; it answers with the names applied.
\<close>

fun run_pending :: "migration list \<Rightarrow> migrated \<Rightarrow> exn + migrated" where
  "run_pending [] s = Inr s"
| "run_pending (m # ms) (c, names) = res_bind (run_script (mg_up m) c) (\<lambda>c'. run_pending ms (c', names @ [mg_name m]))"

definition pending :: "migration list \<Rightarrow> migrated \<Rightarrow> migration list" where
  "pending ms s = filter (\<lambda>m. mg_name m \<notin> set (snd s)) ms"

definition runMigrations :: "migration list \<Rightarrow> migrated \<Rightarrow> (exn + string list) \<times> migrated" where
  "runMigrations ms s = (case run_pending (pending ms s) s of
       Inl e \<Rightarrow> (Inl e, s)
     | Inr s' \<Rightarrow> (Inr (map mg_name (pending ms s)), s'))"

text \<open>\<open>undoLastMigration\<close>: the \<open>down\<close> of the last one executed, in a transaction.\<close>

definition undoLastMigration :: "migration list \<Rightarrow> migrated \<Rightarrow> (exn + unit) \<times> migrated" where
  "undoLastMigration ms s = (case rev (snd s) of
       [] \<Rightarrow> (Inr (), s)
     | n # ns \<Rightarrow>
         (case List.find (\<lambda>m. mg_name m = n) ms of
            None \<Rightarrow> (Inl (JsError (''No migration '' @ n @ '' was found in the source code'')), s)
          | Some m \<Rightarrow>
              (case run_script (mg_down m) (fst s) of
                 Inl e \<Rightarrow> (Inl e, s)
               | Inr c \<Rightarrow> (Inr (), (c, rev ns)))))"

section \<open>What a table accepts\<close>

text \<open>A value fits a column's type; an integer is in the type's range, a \<open>char(n)\<close> has its length.\<close>

fun fits :: "sql_type \<Rightarrow> sql_val \<Rightarrow> bool" where
  "fits BigInt (VInt n) = int8_ok n"
| "fits Integer (VInt n) = int4_ok n"
| "fits Timestamptz (VInt n) = True"
| "fits TextType (VText s) = True"
| "fits (CharType n) (VText s) = (length s = n)"
| "fits Uuid (VText s) = True"
| "fits Boolean (VBool b) = True"
| "fits Jsonb (VJson v) = True"
| "fits t v = False"

definition column_accepts :: "column \<Rightarrow> sql_val \<Rightarrow> bool" where
  "column_accepts co v \<longleftrightarrow> (if v = VNull then \<not> co_not_null co else fits (co_type co) v)"

fun rule_accepts :: "sql_row \<Rightarrow> rule \<Rightarrow> bool" where
  "rule_accepts r (Check cond) = (scond_val r cond \<noteq> Some False)"
| "rule_accepts r _ = True"

text \<open>The row passes the types, the \<open>NOT NULL\<close>s and the checks; keys look at other rows.\<close>

definition accepts :: "table_def \<Rightarrow> sql_row \<Rightarrow> bool" where
  "accepts d r \<longleftrightarrow> list_all (\<lambda>co. column_accepts co (r (co_name co))) (tb_columns d)
     \<and> list_all (rule_accepts r \<circ> snd) (tb_rules d)"

end
