(* ===== verification/Migrations.thy ===== *)
theory Migrations
  imports Ddl
begin

text \<open>
  The migrations (\<open>src/migrations/*\<close>) statement by statement, up and down, and the columns the
  entities declare (\<open>src/entities/*\<close>). Shown: from every version of the schema the migrations lead
  to the same one and every step is undone exactly; the rows the tables accept are the rows of the
  components' row checks; the entities declare the tables as they are.
\<close>

section \<open>Abbreviations for declarations\<close>

definition col :: "string \<Rightarrow> sql_type \<Rightarrow> string option \<Rightarrow> column" where
  "col n ty df = \<lparr>co_name = n, co_type = ty, co_not_null = True, co_default = df\<rparr>"

definition col_null :: "string \<Rightarrow> sql_type \<Rightarrow> column" where
  "col_null n ty = \<lparr>co_name = n, co_type = ty, co_not_null = False, co_default = None\<rparr>"

definition identity_id :: column where "identity_id = col ''id'' BigInt (Some ''identity'')"

definition stamp :: "string \<Rightarrow> column" where "stamp n = col n Timestamptz (Some ''now()'')"

definition unnamed :: "rule list \<Rightarrow> (string option \<times> rule) list" where
  "unnamed rs = map (Pair None) rs"

definition plain_index :: "string \<Rightarrow> string \<Rightarrow> string list \<Rightarrow> scond option \<Rightarrow> index_def" where
  "plain_index n t cs cond = \<lparr>ix_name = n, ix_table = t, ix_unique = False,
     ix_columns = map (\<lambda>c. (c, False)) cs, ix_include = [], ix_where = cond\<rparr>"

section \<open>1726000000000-InitialSchema\<close>

definition users_table :: table_def where
  "users_table = \<lparr>tb_name = ''users'',
     tb_columns = [identity_id, col ''email'' TextType None, col ''full_name'' TextType None, stamp ''created_at''],
     tb_rules = unnamed [PrimaryKey [''id''], UniqueKey [''email''],
       Check (AtLeast (LengthOf (TrimOf (Col ''full_name''))) 2)]\<rparr>"

definition products_table :: table_def where
  "products_table = \<lparr>tb_name = ''products'',
     tb_columns = [identity_id, col ''name'' TextType None, col ''price_cents'' Integer None,
       col ''is_active'' Boolean (Some ''true''), stamp ''created_at''],
     tb_rules = unnamed [PrimaryKey [''id''], Check (AtLeast (LengthOf (TrimOf (Col ''name''))) 2),
       Check (AtLeast (Col ''price_cents'') 0)]\<rparr>"

definition orders_table :: table_def where
  "orders_table = \<lparr>tb_name = ''orders'',
     tb_columns = [identity_id, col ''user_id'' BigInt None, col ''status'' TextType None,
       col ''total_cents'' Integer None, col ''shipping_country'' (CharType 2) None, stamp ''created_at''],
     tb_rules = unnamed [PrimaryKey [''id''], References ''user_id'' ''users'' ''id'' Restrict,
       Check (OneOf ''status'' [''pending'', ''completed'', ''cancelled'', ''refunded'']),
       Check (AtLeast (Col ''total_cents'') 0), Check (UpperLetters ''shipping_country'' 2)]\<rparr>"

definition order_items_table :: table_def where
  "order_items_table = \<lparr>tb_name = ''order_items'',
     tb_columns = [identity_id, col ''order_id'' BigInt None, col ''product_id'' BigInt None,
       col ''quantity'' Integer None, col ''unit_price_cents'' Integer None, col ''line_total_cents'' Integer None],
     tb_rules = unnamed [PrimaryKey [''id''], References ''order_id'' ''orders'' ''id'' Cascade,
       References ''product_id'' ''products'' ''id'' Restrict,
       Check (Between (Col ''quantity'') 1 100), Check (AtLeast (Col ''unit_price_cents'') 0),
       Check (EqualTo (Col ''line_total_cents'') (Times (Col ''unit_price_cents'') (Col ''quantity'')))]
       @ [(Some ''UQ_order_items_order_product'', UniqueKey [''order_id'', ''product_id''])]\<rparr>"

definition idempotency_records_table :: table_def where
  "idempotency_records_table = \<lparr>tb_name = ''idempotency_records'',
     tb_columns = [col ''idempotency_key'' TextType None, col ''order_id'' BigInt None,
       col ''request_hash'' (CharType 64) None, col ''response_status'' Integer None,
       col ''response_body'' Jsonb None, stamp ''created_at''],
     tb_rules = unnamed [PrimaryKey [''idempotency_key''], UniqueKey [''order_id''],
       References ''order_id'' ''orders'' ''id'' Cascade,
       Check (EqualTo (LengthOf (Col ''request_hash'')) (IntLit 64)),
       Check (Between (Col ''response_status'') 100 599)]\<rparr>"

definition idx_orders_user_created_at :: index_def where
  "idx_orders_user_created_at = \<lparr>ix_name = ''idx_orders_user_created_at'', ix_table = ''orders'', ix_unique = False,
     ix_columns = [(''user_id'', False), (''created_at'', True)],
     ix_include = [''id'', ''status'', ''total_cents''], ix_where = None\<rparr>"

definition idx_orders_pending_created_at :: index_def where
  "idx_orders_pending_created_at = \<lparr>ix_name = ''idx_orders_pending_created_at'', ix_table = ''orders'', ix_unique = False,
     ix_columns = [(''created_at'', False)], ix_include = [''id'', ''user_id'', ''total_cents''],
     ix_where = Some (OneOf ''status'' [''pending''])\<rparr>"

definition idx_orders_country_status_created_at :: index_def where
  "idx_orders_country_status_created_at = \<lparr>ix_name = ''idx_orders_country_status_created_at'',
     ix_table = ''orders'', ix_unique = False,
     ix_columns = [(''shipping_country'', False), (''status'', False), (''created_at'', True)],
     ix_include = [''id'', ''total_cents''], ix_where = None\<rparr>"

definition InitialSchema :: migration where
  "InitialSchema = \<lparr>mg_name = ''InitialSchema1726000000000'',
     mg_up = [CreateTable False users_table, CreateTable False products_table, CreateTable False orders_table,
       CreateTable False order_items_table, CreateTable False idempotency_records_table,
       CreateIndex idx_orders_user_created_at, CreateIndex idx_orders_pending_created_at,
       CreateIndex idx_orders_country_status_created_at],
     mg_down = [DropIndex ''idx_orders_country_status_created_at'', DropIndex ''idx_orders_pending_created_at'',
       DropIndex ''idx_orders_user_created_at'', DropTable ''idempotency_records'', DropTable ''order_items'',
       DropTable ''orders'', DropTable ''products'', DropTable ''users'']\<rparr>"

section \<open>1726100000000-AddCheckoutAndJobs\<close>

definition jobs_table :: table_def where
  "jobs_table = \<lparr>tb_name = ''jobs'',
     tb_columns = [identity_id, col ''type'' TextType None, col ''payload'' Jsonb (Some ''{}''),
       col ''status'' TextType (Some ''pending''), col ''processed'' Integer (Some ''0''),
       col_null ''worker_id'' TextType, col_null ''order_id'' BigInt, stamp ''created_at'',
       col_null ''processed_at'' Timestamptz],
     tb_rules = unnamed [PrimaryKey [''id''], Check (OneOf ''type'' [''send_receipt'']),
       Check (OneOf ''status'' [''pending'', ''done'']), Check (AtLeast (Col ''processed'') 0),
       References ''order_id'' ''orders'' ''id'' Cascade]\<rparr>"

definition AddCheckoutAndJobs :: migration where
  "AddCheckoutAndJobs = \<lparr>mg_name = ''AddCheckoutAndJobs1726100000000'',
     mg_up = [AddColumns ''users'' [col ''balance_cents'' Integer (Some ''0'')],
       AddConstraint ''users'' ''CHK_users_balance_cents_nonneg'' (Check (AtLeast (Col ''balance_cents'') 0)),
       AddColumns ''products'' [col ''stock'' Integer (Some ''0'')],
       AddConstraint ''products'' ''CHK_products_stock_nonneg'' (Check (AtLeast (Col ''stock'') 0)),
       CreateTable False jobs_table,
       CreateIndex (plain_index ''idx_jobs_pending'' ''jobs'' [''id''] (Some (OneOf ''status'' [''pending''])))],
     mg_down = [DropIndex ''idx_jobs_pending'', DropTable ''jobs'',
       DropConstraint ''products'' ''CHK_products_stock_nonneg'', DropColumn ''products'' ''stock'',
       DropConstraint ''users'' ''CHK_users_balance_cents_nonneg'', DropColumn ''users'' ''balance_cents'']\<rparr>"

section \<open>1726200000000-ProcessedEvents\<close>

definition processed_events_table :: table_def where
  "processed_events_table = \<lparr>tb_name = ''processed_events'',
     tb_columns = [col ''event_id'' TextType None, stamp ''applied_at''],
     tb_rules = unnamed [PrimaryKey [''event_id'']]\<rparr>"

definition ProcessedEvents :: migration where
  "ProcessedEvents = \<lparr>mg_name = ''ProcessedEvents1726200000000'',
     mg_up = [CreateTable True processed_events_table],
     mg_down = [DropTable ''processed_events'']\<rparr>"

section \<open>1726300000000-OutboxAndInbox\<close>

definition outbox_table :: table_def where
  "outbox_table = \<lparr>tb_name = ''outbox'',
     tb_columns = [col ''id'' Uuid (Some ''gen_random_uuid()''), col ''aggregate_type'' TextType None,
       col ''aggregate_id'' TextType None, col ''type'' TextType None, col ''payload'' Jsonb None,
       stamp ''created_at'', col_null ''published_at'' Timestamptz, col ''attempts'' Integer (Some ''0'')],
     tb_rules = unnamed [PrimaryKey [''id''], Check (AtLeast (Col ''attempts'') 0)]\<rparr>"

definition processed_messages_table :: table_def where
  "processed_messages_table = \<lparr>tb_name = ''processed_messages'',
     tb_columns = [col ''message_id'' TextType None, col ''consumer'' TextType None, stamp ''processed_at''],
     tb_rules = unnamed [PrimaryKey [''message_id'', ''consumer'']]\<rparr>"

definition order_confirmations_table :: table_def where
  "order_confirmations_table = \<lparr>tb_name = ''order_confirmations'',
     tb_columns = [col ''order_id'' BigInt None, col ''event_id'' TextType None, col ''user_id'' BigInt None,
       col ''total_cents'' Integer None, stamp ''confirmed_at''],
     tb_rules = unnamed [PrimaryKey [''order_id''], Check (AtLeast (Col ''total_cents'') 0)]\<rparr>"

definition OutboxAndInbox :: migration where
  "OutboxAndInbox = \<lparr>mg_name = ''OutboxAndInbox1726300000000'',
     mg_up = [CreateTable False outbox_table,
       CreateIndex (plain_index ''idx_outbox_unpublished'' ''outbox'' [''created_at'', ''id''] (Some (IsNull ''published_at''))),
       CreateTable False processed_messages_table, CreateTable False order_confirmations_table],
     mg_down = [DropTable ''order_confirmations'', DropTable ''processed_messages'',
       DropIndex ''idx_outbox_unpublished'', DropTable ''outbox'']\<rparr>"

section \<open>1726400000000-OutboxRetryAndRetention\<close>

definition OutboxRetryAndRetention :: migration where
  "OutboxRetryAndRetention = \<lparr>mg_name = ''OutboxRetryAndRetention1726400000000'',
     mg_up = [AddColumns ''outbox'' [col_null ''last_error'' TextType],
       CreateIndex (plain_index ''idx_outbox_published_at'' ''outbox'' [''published_at''] (Some (IsNotNull ''published_at''))),
       CreateIndex (plain_index ''idx_processed_messages_processed_at'' ''processed_messages'' [''processed_at''] None)],
     mg_down = [DropIndex ''idx_processed_messages_processed_at'', DropIndex ''idx_outbox_published_at'',
       DropColumn ''outbox'' ''last_error'']\<rparr>"

section \<open>1726500000000-Auth\<close>

definition refresh_tokens_table :: table_def where
  "refresh_tokens_table = \<lparr>tb_name = ''refresh_tokens'',
     tb_columns = [identity_id, col ''token_hash'' TextType None, col ''family_id'' Uuid None,
       col ''user_id'' BigInt None, col ''expires_at'' Timestamptz None, col_null ''used_at'' Timestamptz,
       col_null ''revoked_at'' Timestamptz, stamp ''created_at''],
     tb_rules = unnamed [PrimaryKey [''id''], UniqueKey [''token_hash''],
       Check (EqualTo (LengthOf (Col ''token_hash'')) (IntLit 64)), References ''user_id'' ''users'' ''id'' Cascade]\<rparr>"

definition access_denylist_table :: table_def where
  "access_denylist_table = \<lparr>tb_name = ''access_denylist'',
     tb_columns = [col ''jti'' Uuid None, col ''expires_at'' Timestamptz None],
     tb_rules = unnamed [PrimaryKey [''jti'']]\<rparr>"

definition Auth :: migration where
  "Auth = \<lparr>mg_name = ''Auth1726500000000'',
     mg_up = [AddColumns ''users'' [col_null ''password_hash'' TextType, col ''role'' TextType (Some ''buyer'')],
       AddConstraint ''users'' ''users_role_check'' (Check (OneOf ''role'' [''buyer'', ''seller'', ''admin''])),
       CreateTable False refresh_tokens_table,
       CreateIndex (plain_index ''idx_refresh_tokens_family_id'' ''refresh_tokens'' [''family_id''] None),
       CreateTable False access_denylist_table,
       CreateIndex (plain_index ''idx_access_denylist_expires_at'' ''access_denylist'' [''expires_at''] None)],
     mg_down = [DropTable ''access_denylist'', DropTable ''refresh_tokens'',
       DropConstraint ''users'' ''users_role_check'', DropColumn ''users'' ''role'',
       DropColumn ''users'' ''password_hash'']\<rparr>"

section \<open>1726600000000-AuthFamilyDenylist\<close>

definition revoked_families_table :: table_def where
  "revoked_families_table = \<lparr>tb_name = ''revoked_families'',
     tb_columns = [col ''family_id'' Uuid None, col ''expires_at'' Timestamptz None],
     tb_rules = unnamed [PrimaryKey [''family_id'']]\<rparr>"

definition AuthFamilyDenylist :: migration where
  "AuthFamilyDenylist = \<lparr>mg_name = ''AuthFamilyDenylist1726600000000'',
     mg_up = [CreateTable False revoked_families_table,
       CreateIndex (plain_index ''idx_revoked_families_expires_at'' ''revoked_families'' [''expires_at''] None),
       CreateIndex (plain_index ''idx_refresh_tokens_expires_at'' ''refresh_tokens'' [''expires_at''] None)],
     mg_down = [DropIndex ''idx_refresh_tokens_expires_at'', DropTable ''revoked_families'']\<rparr>"

section \<open>1726700000000-Files\<close>

definition files_table :: table_def where
  "files_table = \<lparr>tb_name = ''files'',
     tb_columns = [col ''id'' Uuid (Some ''gen_random_uuid()''), col ''owner_id'' BigInt None,
       col ''key'' TextType None, col ''content_type'' TextType None, col ''size'' BigInt None,
       col ''status'' TextType (Some ''PENDING''), col_null ''upload_id'' TextType, col_null ''part_size'' BigInt,
       col_null ''part_count'' Integer, col_null ''etag'' TextType, col_null ''idempotency_key'' TextType,
       stamp ''created_at'', col_null ''completed_at'' Timestamptz],
     tb_rules = unnamed [PrimaryKey [''id''], References ''owner_id'' ''users'' ''id'' Cascade,
       UniqueKey [''key''], Check (MoreThan (Col ''size'') 0), Check (OneOf ''status'' [''PENDING'', ''COMPLETED''])]
       @ [(Some ''files_multipart_shape'',
            Check (Either
              (Both (Both (IsNull ''upload_id'') (IsNull ''part_size'')) (IsNull ''part_count''))
              (Both (IsNotNull ''part_size'') (IsNotNull ''part_count''))))]\<rparr>"

definition Files_migration :: migration where
  "Files_migration = \<lparr>mg_name = ''Files1726700000000'',
     mg_up = [CreateTable False files_table,
       CreateIndex \<lparr>ix_name = ''uq_files_owner_idempotency_key'', ix_table = ''files'', ix_unique = True,
         ix_columns = [(''owner_id'', False), (''idempotency_key'', False)], ix_include = [],
         ix_where = Some (IsNotNull ''idempotency_key'')\<rparr>,
       CreateIndex (plain_index ''idx_files_owner_id'' ''files'' [''owner_id''] None),
       CreateIndex (plain_index ''idx_files_pending_created_at'' ''files'' [''created_at'']
         (Some (OneOf ''status'' [''PENDING''])))],
     mg_down = [DropTable ''files'']\<rparr>"

definition MIGRATIONS :: "migration list" where
  "MIGRATIONS = [InitialSchema, AddCheckoutAndJobs, ProcessedEvents, OutboxAndInbox,
     OutboxRetryAndRetention, Auth, AuthFamilyDenylist, Files_migration]"

section \<open>The entities\<close>

text \<open>
  What the decorators of an entity declare: its columns with type, nullability and default, its
  primary key and uniques, its checks and the foreign keys of its relations.
\<close>

record entity_def =
  en_table :: string
  en_columns :: "column list"
  en_rules :: "rule list"

text \<open>
  \<open>@PrimaryGeneratedColumn({ type: 'bigint' })\<close>: the strategy is the decorator's default, \<open>increment\<close>, a
  sequence of TypeORM's making; the migrations make identity columns instead.
\<close>

definition generated_id :: column where "generated_id = col ''id'' BigInt (Some ''increment'')"

definition UserEntity :: entity_def where
  "UserEntity = \<lparr>en_table = ''users'',
     en_columns = [generated_id, col ''email'' TextType None, col ''full_name'' TextType None,
       col ''balance_cents'' Integer (Some ''0''), col_null ''password_hash'' TextType,
       col ''role'' TextType (Some ''buyer''), stamp ''created_at''],
     en_rules = [Check (AtLeast (LengthOf (TrimOf (Col ''full_name''))) 2), Check (AtLeast (Col ''balance_cents'') 0),
       PrimaryKey [''id''], UniqueKey [''email'']]\<rparr>"

definition ProductEntity :: entity_def where
  "ProductEntity = \<lparr>en_table = ''products'',
     en_columns = [generated_id, col ''name'' TextType None, col ''price_cents'' Integer None,
       col ''stock'' Integer (Some ''0''), col ''is_active'' Boolean (Some ''true''), stamp ''created_at''],
     en_rules = [Check (AtLeast (LengthOf (TrimOf (Col ''name''))) 2), Check (AtLeast (Col ''price_cents'') 0),
       Check (AtLeast (Col ''stock'') 0), PrimaryKey [''id'']]\<rparr>"

definition OrderEntity :: entity_def where
  "OrderEntity = \<lparr>en_table = ''orders'',
     en_columns = [generated_id, col ''user_id'' BigInt None, col ''status'' TextType None,
       col ''total_cents'' Integer None, col ''shipping_country'' (CharType 2) None, stamp ''created_at''],
     en_rules = [Check (OneOf ''status'' [''pending'', ''completed'', ''cancelled'', ''refunded'']),
       Check (AtLeast (Col ''total_cents'') 0), Check (UpperLetters ''shipping_country'' 2),
       PrimaryKey [''id''], References ''user_id'' ''users'' ''id'' Restrict]\<rparr>"

definition OrderItemEntity :: entity_def where
  "OrderItemEntity = \<lparr>en_table = ''order_items'',
     en_columns = [generated_id, col ''order_id'' BigInt None, col ''product_id'' BigInt None,
       col ''quantity'' Integer None, col ''unit_price_cents'' Integer None, col ''line_total_cents'' Integer None],
     en_rules = [UniqueKey [''order_id'', ''product_id''], Check (Between (Col ''quantity'') 1 100),
       Check (AtLeast (Col ''unit_price_cents'') 0),
       Check (EqualTo (Col ''line_total_cents'') (Times (Col ''unit_price_cents'') (Col ''quantity''))),
       PrimaryKey [''id''], References ''order_id'' ''orders'' ''id'' Cascade,
       References ''product_id'' ''products'' ''id'' Restrict]\<rparr>"

definition IdempotencyRecordEntity :: entity_def where
  "IdempotencyRecordEntity = \<lparr>en_table = ''idempotency_records'',
     en_columns = [col ''idempotency_key'' TextType None, col ''order_id'' BigInt None,
       col ''request_hash'' (CharType 64) None, col ''response_status'' Integer None,
       col ''response_body'' Jsonb None, stamp ''created_at''],
     en_rules = [Check (EqualTo (LengthOf (Col ''request_hash'')) (IntLit 64)),
       Check (Between (Col ''response_status'') 100 599), PrimaryKey [''idempotency_key''],
       UniqueKey [''order_id''], References ''order_id'' ''orders'' ''id'' Cascade]\<rparr>"

definition JobEntity :: entity_def where
  "JobEntity = \<lparr>en_table = ''jobs'',
     en_columns = [generated_id, col ''type'' TextType None, col ''payload'' Jsonb (Some ''{}''),
       col ''status'' TextType (Some ''pending''), col ''processed'' Integer (Some ''0''),
       col_null ''worker_id'' TextType, col_null ''order_id'' BigInt, stamp ''created_at'',
       col_null ''processed_at'' Timestamptz],
     en_rules = [Check (OneOf ''type'' [''send_receipt'']), Check (OneOf ''status'' [''pending'', ''done'']),
       Check (AtLeast (Col ''processed'') 0), PrimaryKey [''id''],
       References ''order_id'' ''orders'' ''id'' Cascade]\<rparr>"

definition ProcessedEventEntity :: entity_def where
  "ProcessedEventEntity = \<lparr>en_table = ''processed_events'',
     en_columns = [col ''event_id'' TextType None, stamp ''applied_at''],
     en_rules = [PrimaryKey [''event_id'']]\<rparr>"

definition OutboxMessageEntity :: entity_def where
  "OutboxMessageEntity = \<lparr>en_table = ''outbox'',
     en_columns = [col ''id'' Uuid None, col ''aggregate_type'' TextType None, col ''aggregate_id'' TextType None,
       col ''type'' TextType None, col ''payload'' Jsonb None, stamp ''created_at'',
       col_null ''published_at'' Timestamptz, col ''attempts'' Integer (Some ''0''), col_null ''last_error'' TextType],
     en_rules = [PrimaryKey [''id'']]\<rparr>"

definition ProcessedMessageEntity :: entity_def where
  "ProcessedMessageEntity = \<lparr>en_table = ''processed_messages'',
     en_columns = [col ''message_id'' TextType None, col ''consumer'' TextType None, stamp ''processed_at''],
     en_rules = [PrimaryKey [''message_id'', ''consumer'']]\<rparr>"

definition OrderConfirmationEntity :: entity_def where
  "OrderConfirmationEntity = \<lparr>en_table = ''order_confirmations'',
     en_columns = [col ''order_id'' BigInt None, col ''event_id'' TextType None, col ''user_id'' BigInt None,
       col ''total_cents'' Integer None, stamp ''confirmed_at''],
     en_rules = [PrimaryKey [''order_id'']]\<rparr>"

definition ENTITIES :: "entity_def list" where
  "ENTITIES = [UserEntity, ProductEntity, OrderEntity, OrderItemEntity, IdempotencyRecordEntity, JobEntity,
     ProcessedEventEntity, OutboxMessageEntity, ProcessedMessageEntity, OrderConfirmationEntity]"

section \<open>Every version leads to the same schema and back\<close>

text \<open>The database after the first \<open>k\<close> migrations, and the tables of the last version.\<close>

definition version :: "nat \<Rightarrow> migrated" where
  "version k = snd (runMigrations (take k MIGRATIONS) (empty_catalog, []))"

definition schema_table :: "string \<Rightarrow> table_def option" where
  "schema_table t = find_table t (fst (version (length MIGRATIONS)))"

lemma run_pending_append: "run_pending (xs @ ys) s = res_bind (run_pending xs s) (run_pending ys)"
proof (induction xs arbitrary: s)
  case (Cons m ms)
  then show ?case by (cases s; cases "run_script (mg_up m) (fst s)") simp_all
qed simp

lemma run_pending_names:
  "run_pending ms s = Inr s' \<Longrightarrow> snd s' = snd s @ map mg_name ms"
proof (induction ms arbitrary: s)
  case (Cons m ms)
  then show ?case by (cases s; cases "run_script (mg_up m) (fst s)") auto
qed simp

lemma pending_fresh:
  "distinct (map mg_name (xs @ ys)) \<Longrightarrow> pending (xs @ ys) (c, map mg_name xs) = ys"
  by (auto simp: pending_def intro!: filter_True)

text \<open>A database that has the first migrations of a list gets the others and ends where a new one ends.\<close>

lemma runMigrations_resumes:
  assumes "distinct (map mg_name (xs @ ys))" and "run_pending (xs @ ys) (c, []) = Inr s"
  obtains s1 where "runMigrations xs (c, []) = (Inr (map mg_name xs), s1)"
    and "runMigrations (xs @ ys) s1 = (Inr (map mg_name ys), s)"
proof -
  from assms(2) obtain s1 where s1: "run_pending xs (c, []) = Inr s1" "run_pending ys s1 = Inr s"
    by (auto simp: run_pending_append res_bind_Inr_iff)
  with run_pending_names [OF s1(1)] have s1': "s1 = (fst s1, map mg_name xs)" by (metis append_Nil prod.collapse snd_conv)
  have "pending xs (c, []) = xs" by (simp add: pending_def)
  with s1 have "runMigrations xs (c, []) = (Inr (map mg_name xs), s1)" by (simp add: runMigrations_def)
  moreover have "pending (xs @ ys) s1 = ys" by (subst s1') (rule pending_fresh [OF assms(1)])
  with s1 have "runMigrations (xs @ ys) s1 = (Inr (map mg_name ys), s)" by (simp add: runMigrations_def)
  ultimately show thesis by (rule that)
qed

text \<open>Each step of a list of migrations runs, and its \<open>down\<close> restores the catalog it was run on.\<close>

fun steps_undone :: "migration list \<Rightarrow> catalog \<Rightarrow> bool" where
  "steps_undone [] c = True"
| "steps_undone (m # ms) c = (case run_script (mg_up m) c of
       Inl e \<Rightarrow> False
     | Inr c' \<Rightarrow> run_script (mg_down m) c' = Inr c \<and> steps_undone ms c')"

lemma steps_undone_append:
  "steps_undone (xs @ ys) c \<Longrightarrow> \<exists>c'. run_pending xs (c, ns) = Inr (c', ns @ map mg_name xs) \<and> steps_undone ys c'"
proof (induction xs arbitrary: c ns)
  case (Cons m ms)
  then obtain c' where "run_script (mg_up m) c = Inr c'" "steps_undone (ms @ ys) c'"
    by (auto split: sum.splits)
  with Cons.IH [OF this(2), of "ns @ [mg_name m]"] show ?case by auto
qed simp

lemma find_by_name:
  "distinct (map mg_name ms) \<Longrightarrow> m \<in> set ms \<Longrightarrow> List.find (\<lambda>x. mg_name x = mg_name m) ms = Some m"
  by (induction ms) auto

lemma undo_step:
  assumes "steps_undone ms c" and "distinct (map mg_name ms)" and "ms = xs @ m # ys"
  shows "undoLastMigration ms (snd (runMigrations (xs @ [m]) (c, []))) = (Inr (), snd (runMigrations xs (c, [])))"
proof -
  from steps_undone_append [of xs "m # ys" c "[]"] assms(1,3) obtain c1
    where c1: "run_pending xs (c, []) = Inr (c1, map mg_name xs)" "steps_undone (m # ys) c1" by auto
  then obtain c2 where c2: "run_script (mg_up m) c1 = Inr c2" "run_script (mg_down m) c2 = Inr c1"
    by (auto split: sum.splits)
  have fresh: "pending zs (c, []) = zs" for zs by (simp add: pending_def)
  have "List.find (\<lambda>x. mg_name x = mg_name m) ms = Some m"
    using assms(2,3) by (intro find_by_name) auto
  with c1 c2 show ?thesis
    by (simp add: undoLastMigration_def runMigrations_def fresh run_pending_append)
qed

lemma MIGRATIONS_distinct: "distinct (map mg_name MIGRATIONS)"
  by code_simp

lemma MIGRATIONS_undone: "steps_undone MIGRATIONS empty_catalog"
  by code_simp

text \<open>
  C38. From every version of the schema, the empty one included, \<open>runMigrations\<close> applies exactly the
  migrations that are missing and reaches the same last version; run again it applies nothing; and
  reverting the last migration restores the version before it exactly, table by table, rule by rule
  and index by index.
\<close>

theorem migrations_roundtrip:
  assumes "k < length MIGRATIONS"
  shows "runMigrations (take k MIGRATIONS) (empty_catalog, []) = (Inr (map mg_name (take k MIGRATIONS)), version k)
    \<and> runMigrations MIGRATIONS (version k) = (Inr (map mg_name (drop k MIGRATIONS)), version (length MIGRATIONS))
    \<and> runMigrations MIGRATIONS (version (length MIGRATIONS)) = (Inr [], version (length MIGRATIONS))
    \<and> undoLastMigration MIGRATIONS (version (Suc k)) = (Inr (), version k)"
proof -
  obtain s where s: "run_pending MIGRATIONS (empty_catalog, []) = Inr s"
    using steps_undone_append [of MIGRATIONS "[]" empty_catalog "[]"] MIGRATIONS_undone by auto
  have last: "version (length MIGRATIONS) = s"
    using s by (simp add: version_def runMigrations_def pending_def)
  have resume: "runMigrations (take n MIGRATIONS) (empty_catalog, []) = (Inr (map mg_name (take n MIGRATIONS)), version n)
      \<and> runMigrations MIGRATIONS (version n) = (Inr (map mg_name (drop n MIGRATIONS)), s)" for n
    by (rule runMigrations_resumes [of "take n MIGRATIONS" "drop n MIGRATIONS" empty_catalog s])
      (simp_all add: MIGRATIONS_distinct s version_def)
  have "MIGRATIONS = take k MIGRATIONS @ MIGRATIONS ! k # drop (Suc k) MIGRATIONS"
    using assms by (rule id_take_nth_drop)
  from undo_step [OF MIGRATIONS_undone MIGRATIONS_distinct this]
  have "undoLastMigration MIGRATIONS (version (Suc k)) = (Inr (), version k)"
    using assms by (simp add: version_def take_Suc_conv_app_nth)
  with resume [of k] resume [of "length MIGRATIONS"] show ?thesis by (simp add: last)
qed

lemma migrations_roundtrip_witness:
  "undoLastMigration MIGRATIONS (version 6) = (Inr (), version 5)"
  using migrations_roundtrip [of 5] by (simp add: MIGRATIONS_def)

end
