(* ===== verification/SchemaMatch.thy ===== *)
theory SchemaMatch
  imports Migrations
begin

text \<open>
  The migrated tables against the rest of the program: the rows they accept are the rows that pass
  the row checks of the components, and they are the tables the entities declare.
\<close>

section \<open>The last version\<close>

definition users_now :: table_def where
  "users_now = \<lparr>tb_name = ''users'',
     tb_columns = tb_columns users_table @ [col ''balance_cents'' Integer (Some ''0''),
       col_null ''password_hash'' TextType, col ''role'' TextType (Some ''buyer'')],
     tb_rules = tb_rules users_table @ [(Some ''CHK_users_balance_cents_nonneg'', Check (AtLeast (Col ''balance_cents'') 0)),
       (Some ''users_role_check'', Check (OneOf ''role'' [''buyer'', ''seller'', ''admin'']))]\<rparr>"

definition products_now :: table_def where
  "products_now = \<lparr>tb_name = ''products'',
     tb_columns = tb_columns products_table @ [col ''stock'' Integer (Some ''0'')],
     tb_rules = tb_rules products_table @ [(Some ''CHK_products_stock_nonneg'', Check (AtLeast (Col ''stock'') 0))]\<rparr>"

definition outbox_now :: table_def where
  "outbox_now = outbox_table\<lparr>tb_columns := tb_columns outbox_table @ [col_null ''last_error'' TextType]\<rparr>"

lemma last_tables:
  "ct_tables (fst (version (length MIGRATIONS))) =
     [users_now, products_now, orders_table, order_items_table, idempotency_records_table, jobs_table,
      processed_events_table, outbox_now, processed_messages_table, order_confirmations_table,
      refresh_tokens_table, access_denylist_table, revoked_families_table, files_table]"
  by code_simp

lemma schema_tables [simp]:
  "schema_table ''users'' = Some users_now" "schema_table ''products'' = Some products_now"
  "schema_table ''orders'' = Some orders_table" "schema_table ''order_items'' = Some order_items_table"
  "schema_table ''idempotency_records'' = Some idempotency_records_table" "schema_table ''jobs'' = Some jobs_table"
  "schema_table ''files'' = Some files_table"
  unfolding schema_table_def find_table_def last_tables by code_simp+

section \<open>Rows as SQL sees them\<close>

definition row_of :: "(string \<times> sql_val) list \<Rightarrow> sql_row" where
  "row_of kvs c = (case map_of kvs c of Some v \<Rightarrow> v | None \<Rightarrow> VNull)"

definition or_null :: "('a \<Rightarrow> sql_val) \<Rightarrow> 'a option \<Rightarrow> sql_val" where
  "or_null f x = (case x of Some v \<Rightarrow> f v | None \<Rightarrow> VNull)"

lemma or_null_simps [simp]: "or_null f None = VNull" "or_null f (Some x) = f x"
  by (simp_all add: or_null_def)

definition user_values :: "user_row \<Rightarrow> sql_row" where
  "user_values u = row_of [(''id'', VInt (us_id u)), (''email'', VText (us_email u)),
     (''full_name'', VText (us_full_name u)), (''balance_cents'', VInt (us_balance_cents u)),
     (''password_hash'', or_null VText (us_password_hash u)), (''role'', VText (us_role u)),
     (''created_at'', VInt (us_created_at u))]"

definition product_values :: "product_row \<Rightarrow> sql_row" where
  "product_values p = row_of [(''id'', VInt (pr_id p)), (''name'', VText (pr_name p)),
     (''price_cents'', VInt (pr_price_cents p)), (''stock'', VInt (pr_stock p)),
     (''is_active'', VBool (pr_is_active p)), (''created_at'', VInt (pr_created_at p))]"

definition order_values :: "order_row \<Rightarrow> sql_row" where
  "order_values r = row_of [(''id'', VInt (or_id r)), (''user_id'', VInt (or_user_id r)),
     (''status'', VText (order_status_text (or_status r))), (''total_cents'', VInt (or_total_cents r)),
     (''shipping_country'', VText (or_shipping_country r)), (''created_at'', VInt (or_created_at r))]"

definition order_item_values :: "order_item_row \<Rightarrow> sql_row" where
  "order_item_values r = row_of [(''id'', VInt (oi_id r)), (''order_id'', VInt (oi_order_id r)),
     (''product_id'', VInt (oi_product_id r)), (''quantity'', VInt (oi_quantity r)),
     (''unit_price_cents'', VInt (oi_unit_price_cents r)), (''line_total_cents'', VInt (oi_line_total_cents r))]"

definition idempotency_values :: "(order_response \<Rightarrow> jsval) \<Rightarrow> idempotency_row \<Rightarrow> sql_row" where
  "idempotency_values json r = row_of [(''idempotency_key'', VText (ik_key r)), (''order_id'', VInt (ik_order_id r)),
     (''request_hash'', VText (ik_request_hash r)), (''response_status'', VInt (int (ik_response_status r))),
     (''response_body'', VJson (json (ik_response_body r))), (''created_at'', VInt (ik_created_at r))]"

definition job_status_text :: "job_status \<Rightarrow> string" where
  "job_status_text s = (case s of JobPending \<Rightarrow> ''pending'' | JobDone \<Rightarrow> ''done'')"

definition job_values :: "job_row \<Rightarrow> sql_row" where
  "job_values r = row_of [(''id'', VInt (jb_id r)), (''type'', VText (jb_type r)), (''payload'', VJson (jb_payload r)),
     (''status'', VText (job_status_text (jb_status r))), (''processed'', VInt (int (jb_processed r))),
     (''worker_id'', or_null VText (jb_worker_id r)), (''order_id'', or_null VInt (jb_order_id r)),
     (''created_at'', VInt (jb_created_at r)), (''processed_at'', or_null VInt (jb_processed_at r))]"

definition file_status_text :: "file_status \<Rightarrow> string" where
  "file_status_text s = (case s of FilePending \<Rightarrow> ''PENDING'' | FileCompleted \<Rightarrow> ''COMPLETED'')"

definition file_values :: "file_row \<Rightarrow> sql_row" where
  "file_values r = row_of [(''id'', VText (fl_id r)), (''owner_id'', VInt (fl_owner_id r)), (''key'', VText (fl_key r)),
     (''content_type'', VText (fl_content_type r)), (''size'', VInt (fl_size r)),
     (''status'', VText (file_status_text (fl_status r))), (''upload_id'', or_null VText (fl_upload_id r)),
     (''part_size'', or_null VInt (fl_part_size r)), (''part_count'', or_null VInt (fl_part_count r)),
     (''etag'', or_null VText (fl_etag r)), (''idempotency_key'', or_null VText (fl_idempotency_key r)),
     (''created_at'', VInt (fl_created_at r)), (''completed_at'', or_null VInt (fl_completed_at r))]"

definition table_accepts :: "string \<Rightarrow> sql_row \<Rightarrow> bool" where
  "table_accepts t r \<longleftrightarrow> (case schema_table t of Some d \<Rightarrow> accepts d r | None \<Rightarrow> False)"

lemmas declaration_defs = identity_id_def col_def col_null_def stamp_def unnamed_def

lemmas acceptance_defs = table_accepts_def accepts_def row_of_def declaration_defs

lemma or_null_VNull [simp]: "or_null VText x = VNull \<longleftrightarrow> x = None" "or_null VInt y = VNull \<longleftrightarrow> y = None"
  by (cases x; cases y; simp)+

lemma column_accepts_simps [simp]:
  "column_accepts \<lparr>co_name = n, co_type = ty, co_not_null = True, co_default = df\<rparr> v \<longleftrightarrow> v \<noteq> VNull \<and> fits ty v"
  "column_accepts \<lparr>co_name = n, co_type = TextType, co_not_null = False, co_default = df\<rparr> (or_null VText x)"
  "column_accepts \<lparr>co_name = n, co_type = Timestamptz, co_not_null = False, co_default = df\<rparr> (or_null VInt y)"
  "column_accepts \<lparr>co_name = n, co_type = BigInt, co_not_null = False, co_default = df\<rparr> (or_null VInt y)
     \<longleftrightarrow> (\<forall>i. y = Some i \<longrightarrow> int8_ok i)"
  "column_accepts \<lparr>co_name = n, co_type = Integer, co_not_null = False, co_default = df\<rparr> (or_null VInt y)
     \<longleftrightarrow> (\<forall>i. y = Some i \<longrightarrow> int4_ok i)"
  by (cases x; cases y; simp add: column_accepts_def)+

lemma fits_values [simp]: "fits ty v \<Longrightarrow> v \<noteq> VNull"
  by (cases ty) auto

section \<open>The rows the tables accept\<close>

lemma users_accept: "table_accepts ''users'' (user_values u) \<longleftrightarrow> user_check u \<and> int8_ok (us_id u)"
  by (auto simp: acceptance_defs users_now_def users_table_def user_values_def user_check_def)

lemma products_accept: "table_accepts ''products'' (product_values p) \<longleftrightarrow> product_check p \<and> int8_ok (pr_id p)"
  by (auto simp: acceptance_defs products_now_def products_table_def product_values_def product_check_def)

lemma orders_accept:
  "table_accepts ''orders'' (order_values r) \<longleftrightarrow> order_check r \<and> int8_ok (or_id r) \<and> int8_ok (or_user_id r)"
  by (cases "or_status r") (auto simp: acceptance_defs orders_table_def order_values_def order_check_def country_ok_def)

lemma line_total_bounds_price:
  assumes "1 \<le> q" and "0 \<le> p" and "int4_ok (p * q)"
  shows "int4_ok p"
proof -
  have "p * 1 \<le> p * q" by (rule mult_left_mono) (use assms in simp_all)
  with assms(2,3) show ?thesis by (simp add: int4_ok_def)
qed

lemma order_items_accept:
  "table_accepts ''order_items'' (order_item_values r) \<longleftrightarrow>
     order_item_check r \<and> int8_ok (oi_id r) \<and> int8_ok (oi_order_id r) \<and> int8_ok (oi_product_id r)"
proof -
  have "table_accepts ''order_items'' (order_item_values r) \<longleftrightarrow>
      int8_ok (oi_id r) \<and> int8_ok (oi_order_id r) \<and> int8_ok (oi_product_id r) \<and> int4_ok (oi_quantity r)
      \<and> int4_ok (oi_unit_price_cents r) \<and> int4_ok (oi_line_total_cents r)
      \<and> 1 \<le> oi_quantity r \<and> oi_quantity r \<le> 100 \<and> 0 \<le> oi_unit_price_cents r
      \<and> oi_line_total_cents r = oi_unit_price_cents r * oi_quantity r"
    by (auto simp: acceptance_defs order_items_table_def order_item_values_def)
  moreover have "int4_ok (oi_quantity r)" if "1 \<le> oi_quantity r" "oi_quantity r \<le> 100"
    using that by (simp add: int4_ok_def)
  ultimately show ?thesis
    using line_total_bounds_price [of "oi_quantity r" "oi_unit_price_cents r"]
    by (auto simp: order_item_check_def)
qed

lemma idempotency_accept:
  "table_accepts ''idempotency_records'' (idempotency_values json r) \<longleftrightarrow> idempotency_check r \<and> int8_ok (ik_order_id r)"
  by (auto simp: acceptance_defs idempotency_records_table_def idempotency_values_def idempotency_check_def int4_ok_def)

lemma jobs_accept:
  "table_accepts ''jobs'' (job_values r) \<longleftrightarrow>
     job_check r \<and> int8_ok (jb_id r) \<and> int4_ok (int (jb_processed r)) \<and> (\<forall>x. jb_order_id r = Some x \<longrightarrow> int8_ok x)"
  by (cases "jb_status r") (auto simp: acceptance_defs jobs_table_def job_values_def job_check_def job_status_text_def)

lemma files_accept:
  "table_accepts ''files'' (file_values r) \<longleftrightarrow>
     file_check r \<and> int8_ok (fl_owner_id r) \<and> int8_ok (fl_size r)
     \<and> (\<forall>x. fl_part_size r = Some x \<longrightarrow> int8_ok x) \<and> (\<forall>x. fl_part_count r = Some x \<longrightarrow> int4_ok x)"
proof -
  have status: "file_status_text (fl_status r) \<in> set [''PENDING'', ''COMPLETED'']"
    by (cases "fl_status r") (simp_all add: file_status_text_def)
  show ?thesis
    using status
    by (cases "fl_upload_id r"; cases "fl_part_size r"; cases "fl_part_count r")
      (auto simp: acceptance_defs files_table_def file_values_def file_check_def column_accepts_def)
qed

lemma pred_option_iff: "pred_option P x \<longleftrightarrow> (\<forall>y. x = Some y \<longrightarrow> P y)"
  by (cases x) simp_all

text \<open>
  The row checks the components keep are those of the database: for every table of the shop
  the migrated columns and constraints accept a row exactly when it passes the check of its
  component and its identifiers fit their columns.
\<close>

theorem rows_fit_the_schema:
  shows "(table_accepts ''users'' (user_values u) \<longleftrightarrow> user_check u \<and> int8_ok (us_id u))
    \<and> (table_accepts ''products'' (product_values p) \<longleftrightarrow> product_check p \<and> int8_ok (pr_id p))
    \<and> (table_accepts ''orders'' (order_values r) \<longleftrightarrow> order_check r \<and> int8_ok (or_id r) \<and> int8_ok (or_user_id r))
    \<and> (table_accepts ''order_items'' (order_item_values i) \<longleftrightarrow>
        order_item_check i \<and> int8_ok (oi_id i) \<and> int8_ok (oi_order_id i) \<and> int8_ok (oi_product_id i))
    \<and> (table_accepts ''idempotency_records'' (idempotency_values json k) \<longleftrightarrow>
        idempotency_check k \<and> int8_ok (ik_order_id k))
    \<and> (table_accepts ''jobs'' (job_values j) \<longleftrightarrow>
        job_check j \<and> int8_ok (jb_id j) \<and> int4_ok (int (jb_processed j)) \<and> pred_option int8_ok (jb_order_id j))
    \<and> (table_accepts ''files'' (file_values f) \<longleftrightarrow>
        file_check f \<and> int8_ok (fl_owner_id f) \<and> int8_ok (fl_size f)
        \<and> pred_option int8_ok (fl_part_size f) \<and> pred_option int4_ok (fl_part_count f))"
  by (simp add: users_accept products_accept orders_accept order_items_accept idempotency_accept
      jobs_accept files_accept pred_option_iff)

section \<open>The entities declare the tables\<close>

definition shape :: "column \<Rightarrow> string \<times> sql_type \<times> bool" where
  "shape co = (co_name co, co_type co, co_not_null co)"

text \<open>
  An entity and its table have the same columns with the same types and nullability, a default the
  entity declares is the table's, except that an id the entity has generated by increment is an
  identity column of the table, and every rule the entity declares is in the table.
\<close>

definition entity_matches :: "entity_def \<Rightarrow> bool" where
  "entity_matches e \<longleftrightarrow> (case schema_table (en_table e) of
       None \<Rightarrow> False
     | Some d \<Rightarrow>
         set (map shape (en_columns e)) = set (map shape (tb_columns d))
         \<and> list_all (\<lambda>co. co_default co = None \<or> co \<in> set (tb_columns d)
              \<or> co = generated_id \<and> identity_id \<in> set (tb_columns d)) (en_columns e)
         \<and> list_all (\<lambda>ru. ru \<in> set (map snd (tb_rules d))) (en_rules e))"

text \<open>The entities whose id is declared otherwise than the table makes it.\<close>

definition increment_ids :: "string list" where
  "increment_ids = map en_table (filter (\<lambda>e. generated_id \<in> set (en_columns e)) ENTITIES)"

text \<open>The rules of the tables that no entity declares, and the tables without an entity.\<close>

definition undeclared_rules :: "(string \<times> rule) list" where
  "undeclared_rules = concat (map (\<lambda>e. case schema_table (en_table e) of
       None \<Rightarrow> []
     | Some d \<Rightarrow> map (Pair (en_table e)) (filter (\<lambda>ru. ru \<notin> set (en_rules e)) (map snd (tb_rules d)))) ENTITIES)"

definition tables_without_entity :: "string list" where
  "tables_without_entity = filter (\<lambda>t. t \<notin> set (map en_table ENTITIES))
     (map tb_name (ct_tables (fst (version (length MIGRATIONS)))))"

text \<open>
  What the entities say of the database against the migrated one: every entity has its table,
  with the same columns, types and nullability, and with every key, foreign key and check it declares;
  five ids are declared as increments where the migrations make identity columns; the only rules no
  entity declares are the three checks named here, and the tables the services reach by SQL alone are
  the four of the tokens and the files.
\<close>

lemma entities_declare_the_tables:
  shows "list_all entity_matches ENTITIES
    \<and> increment_ids = [''users'', ''products'', ''orders'', ''order_items'', ''jobs'']
    \<and> undeclared_rules =
        [(''users'', Check (OneOf ''role'' [''buyer'', ''seller'', ''admin''])),
         (''outbox'', Check (AtLeast (Col ''attempts'') 0)),
         (''order_confirmations'', Check (AtLeast (Col ''total_cents'') 0))]
    \<and> tables_without_entity = [''refresh_tokens'', ''access_denylist'', ''revoked_families'', ''files'']"
proof (intro conjI)
  show "list_all entity_matches ENTITIES"
    unfolding entity_matches_def schema_table_def find_table_def last_tables by code_simp
  show "increment_ids = [''users'', ''products'', ''orders'', ''order_items'', ''jobs'']" by code_simp
  show "undeclared_rules = [(''users'', Check (OneOf ''role'' [''buyer'', ''seller'', ''admin''])),
         (''outbox'', Check (AtLeast (Col ''attempts'') 0)),
         (''order_confirmations'', Check (AtLeast (Col ''total_cents'') 0))]"
    unfolding undeclared_rules_def schema_table_def find_table_def last_tables by code_simp
  show "tables_without_entity = [''refresh_tokens'', ''access_denylist'', ''revoked_families'', ''files'']"
    unfolding tables_without_entity_def last_tables by code_simp
qed

end
