(* ===== verification/Broker.thy ===== *)
theory Broker
  imports Relay Consumer
begin

text \<open>
  The broker's topology (\<open>src/broker/constants.ts\<close>, \<open>topology.ts\<close>): the exchanges, queues and
  bindings the consumer declares, as calls on a channel, and where a message goes in the topology
  they leave. What a topic pattern matches is a parameter.
\<close>

section \<open>Names\<close>

definition BROKER_PREFETCH :: nat where "BROKER_PREFETCH = 32"
definition EXCHANGE_DLX :: string where "EXCHANGE_DLX = ''shop.dlx''"
definition EXCHANGE_UNROUTABLE :: string where "EXCHANGE_UNROUTABLE = ''shop.unroutable''"
definition QUEUE_ORDER_PLACED :: string where "QUEUE_ORDER_PLACED = ''shop.order.placed''"
definition QUEUE_ORDER_PLACED_DLQ :: string where "QUEUE_ORDER_PLACED_DLQ = ''shop.order.placed.dlq''"
definition QUEUE_UNROUTABLE :: string where "QUEUE_UNROUTABLE = ''shop.unroutable.q''"
definition ROUTING_ORDER_PLACED :: string where "ROUTING_ORDER_PLACED = ''order.placed''"

section \<open>Declarations\<close>

datatype exchange_kind = Fanout | Topic

text \<open>
  Exchanges with their kind and alternate exchange, queues with their dead-letter exchange and the
  contents waiting in them, and bindings of an exchange to a queue with a pattern.
\<close>

record topology =
  tp_exchanges :: "(string \<times> exchange_kind \<times> string option) list"
  tp_queues :: "(string \<times> string option \<times> broker_message list) list"
  tp_bindings :: "(string \<times> string \<times> string) list"

definition empty_topology :: topology where
  "empty_topology = \<lparr>tp_exchanges = [], tp_queues = [], tp_bindings = []\<rparr>"

text \<open>An equal declaration is a no-op; one that differs closes the channel with 406.\<close>

definition precondition_failed :: exn where
  "precondition_failed = DriverError (Some ''406'') None ''PRECONDITION_FAILED''"

definition not_found :: exn where
  "not_found = DriverError (Some ''404'') None ''NOT_FOUND''"

definition assertExchange :: "string \<Rightarrow> exchange_kind \<Rightarrow> string option \<Rightarrow> topology \<Rightarrow> exn + topology" where
  "assertExchange name kind alternate t = (case map_of (tp_exchanges t) name of
       None \<Rightarrow> Inr (t\<lparr>tp_exchanges := tp_exchanges t @ [(name, kind, alternate)]\<rparr>)
     | Some d \<Rightarrow> if d = (kind, alternate) then Inr t else Inl precondition_failed)"

definition assertQueue :: "string \<Rightarrow> string option \<Rightarrow> topology \<Rightarrow> exn + topology" where
  "assertQueue name dlx t = (case map_of (tp_queues t) name of
       None \<Rightarrow> Inr (t\<lparr>tp_queues := tp_queues t @ [(name, dlx, [])]\<rparr>)
     | Some (d, _) \<Rightarrow> if d = dlx then Inr t else Inl precondition_failed)"

definition bindQueue :: "string \<Rightarrow> string \<Rightarrow> string \<Rightarrow> topology \<Rightarrow> exn + topology" where
  "bindQueue queue exchange pattern t =
     (if map_of (tp_exchanges t) exchange = None \<or> map_of (tp_queues t) queue = None then Inl not_found
      else if (exchange, queue, pattern) \<in> set (tp_bindings t) then Inr t
      else Inr (t\<lparr>tp_bindings := tp_bindings t @ [(exchange, queue, pattern)]\<rparr>))"

definition assertTopology :: "topology \<Rightarrow> exn + topology" where
  "assertTopology t =
     res_bind (assertExchange EXCHANGE_UNROUTABLE Fanout None t) (\<lambda>t.
     res_bind (assertQueue QUEUE_UNROUTABLE None t) (\<lambda>t.
     res_bind (bindQueue QUEUE_UNROUTABLE EXCHANGE_UNROUTABLE [] t) (\<lambda>t.
     res_bind (assertExchange EXCHANGE_EVENTS Topic (Some EXCHANGE_UNROUTABLE) t) (\<lambda>t.
     res_bind (assertExchange EXCHANGE_DLX Fanout None t) (\<lambda>t.
     res_bind (assertQueue QUEUE_ORDER_PLACED_DLQ None t) (\<lambda>t.
     res_bind (bindQueue QUEUE_ORDER_PLACED_DLQ EXCHANGE_DLX [] t) (\<lambda>t.
     res_bind (assertQueue QUEUE_ORDER_PLACED (Some EXCHANGE_DLX) t) (\<lambda>t.
     bindQueue QUEUE_ORDER_PLACED EXCHANGE_EVENTS ROUTING_ORDER_PLACED t))))))))"

definition deleteQueue :: "string \<Rightarrow> topology \<Rightarrow> topology" where
  "deleteQueue q t = t\<lparr>tp_queues := filter (\<lambda>x. fst x \<noteq> q) (tp_queues t),
     tp_bindings := filter (\<lambda>b. fst (snd b) \<noteq> q) (tp_bindings t)\<rparr>"

definition resetWorkQueues :: "topology \<Rightarrow> topology" where
  "resetWorkQueues t = fold deleteQueue [QUEUE_ORDER_PLACED, QUEUE_ORDER_PLACED_DLQ, QUEUE_UNROUTABLE] t"

definition purgeQueue :: "string \<Rightarrow> topology \<Rightarrow> exn + topology" where
  "purgeQueue q t = (if map_of (tp_queues t) q = None then Inl not_found
     else Inr (t\<lparr>tp_queues := map (\<lambda>(n, d, ms). if n = q then (n, d, []) else (n, d, ms)) (tp_queues t)\<rparr>))"

definition purgeWorkAndDlq :: "topology \<Rightarrow> exn + topology" where
  "purgeWorkAndDlq t = res_bind (purgeQueue QUEUE_ORDER_PLACED t) (purgeQueue QUEUE_ORDER_PLACED_DLQ)"

definition queueDepth :: "string \<Rightarrow> topology \<Rightarrow> exn + nat" where
  "queueDepth q t = (case map_of (tp_queues t) q of
       None \<Rightarrow> Inl not_found | Some (_, ms) \<Rightarrow> Inr (length ms))"

section \<open>Routing\<close>

type_synonym pattern_match = "string \<Rightarrow> string \<Rightarrow> bool"

text \<open>A pattern without the wildcard characters matches itself only.\<close>

definition plain_patterns :: "pattern_match \<Rightarrow> bool" where
  "plain_patterns matches \<longleftrightarrow>
     (\<forall>p k. CHR ''*'' \<notin> set p \<and> CHR ''#'' \<notin> set p \<longrightarrow> (matches p k \<longleftrightarrow> p = k))"

definition bound_queues :: "pattern_match \<Rightarrow> topology \<Rightarrow> string \<Rightarrow> string \<Rightarrow> string list" where
  "bound_queues matches t exchange key = (case map_of (tp_exchanges t) exchange of
       None \<Rightarrow> []
     | Some (kind, _) \<Rightarrow> map (\<lambda>b. fst (snd b)) (filter (\<lambda>b. fst b = exchange
         \<and> (case kind of Fanout \<Rightarrow> True | Topic \<Rightarrow> matches (snd (snd b)) key)) (tp_bindings t)))"

text \<open>The queues of a message; the alternate exchange takes what matches no binding.\<close>

definition routed :: "pattern_match \<Rightarrow> topology \<Rightarrow> string \<Rightarrow> string \<Rightarrow> string list" where
  "routed matches t exchange key =
     (let qs = bound_queues matches t exchange key in
      if qs \<noteq> [] then qs
      else case map_of (tp_exchanges t) exchange of
          Some (_, Some alternate) \<Rightarrow> bound_queues matches t alternate key
        | _ \<Rightarrow> [])"

text \<open>Where a message refused by a consumer of the queue goes.\<close>

definition dead_lettered :: "pattern_match \<Rightarrow> topology \<Rightarrow> string \<Rightarrow> string \<Rightarrow> string list" where
  "dead_lettered matches t queue key = (case map_of (tp_queues t) queue of
       Some (Some dlx, _) \<Rightarrow> routed matches t dlx key
     | _ \<Rightarrow> [])"

definition shop_topology :: topology where
  "shop_topology = \<lparr>tp_exchanges = [(EXCHANGE_UNROUTABLE, Fanout, None),
       (EXCHANGE_EVENTS, Topic, Some EXCHANGE_UNROUTABLE), (EXCHANGE_DLX, Fanout, None)],
     tp_queues = [(QUEUE_UNROUTABLE, None, []), (QUEUE_ORDER_PLACED_DLQ, None, []),
       (QUEUE_ORDER_PLACED, Some EXCHANGE_DLX, [])],
     tp_bindings = [(EXCHANGE_UNROUTABLE, QUEUE_UNROUTABLE, []), (EXCHANGE_DLX, QUEUE_ORDER_PLACED_DLQ, []),
       (EXCHANGE_EVENTS, QUEUE_ORDER_PLACED, ROUTING_ORDER_PLACED)]\<rparr>"

lemmas broker_names = EXCHANGE_EVENTS_def EXCHANGE_DLX_def EXCHANGE_UNROUTABLE_def QUEUE_ORDER_PLACED_def
  QUEUE_ORDER_PLACED_DLQ_def QUEUE_UNROUTABLE_def ROUTING_ORDER_PLACED_def

lemma topology_declared: "assertTopology empty_topology = Inr shop_topology"
  by code_simp

lemma topology_redeclared: "assertTopology shop_topology = Inr shop_topology"
  by code_simp

lemma published_row_routed:
  assumes "plain_patterns matches"
  shows "routed matches shop_topology (bm_exchange (publishRow row)) (bm_routing_key (publishRow row))
      = (if ob_type row = ORDER_PLACED then [QUEUE_ORDER_PLACED] else [QUEUE_UNROUTABLE])"
proof -
  have "matches ROUTING_ORDER_PLACED k \<longleftrightarrow> k = ORDER_PLACED" for k
    using assms by (auto simp: plain_patterns_def ROUTING_ORDER_PLACED_def ORDER_PLACED_def)
  then show ?thesis
    by (simp add: routed_def bound_queues_def shop_topology_def publishRow_def Let_def) (simp add: broker_names)
qed

text \<open>
  No message is lost in the routing: in the topology the consumer declares, and declares again
  at every start, whatever the relay publishes has exactly one queue, the work queue when it is an
  order.placed event and the queue for the unroutable otherwise, and what the consumer refuses for
  good goes to the dead-letter queue.
\<close>

theorem every_message_has_a_queue:
  assumes "plain_patterns matches"
  shows "assertTopology empty_topology = Inr shop_topology \<and> assertTopology shop_topology = Inr shop_topology
    \<and> routed matches shop_topology (bm_exchange (publishRow row)) (bm_routing_key (publishRow row))
        = (if ob_type row = ORDER_PLACED then [QUEUE_ORDER_PLACED] else [QUEUE_UNROUTABLE])
    \<and> dead_lettered matches shop_topology QUEUE_ORDER_PLACED key = [QUEUE_ORDER_PLACED_DLQ]"
proof -
  have "dead_lettered matches shop_topology QUEUE_ORDER_PLACED key = [QUEUE_ORDER_PLACED_DLQ]"
    by (simp add: dead_lettered_def routed_def bound_queues_def shop_topology_def Let_def broker_names)
  then show ?thesis using topology_declared topology_redeclared published_row_routed [OF assms] by blast
qed

lemma plain_patterns_equal: "plain_patterns (=)"
  by (simp add: plain_patterns_def)

lemma every_message_has_a_queue_witness:
  "dead_lettered (=) shop_topology QUEUE_ORDER_PLACED ''k'' = [QUEUE_ORDER_PLACED_DLQ]"
  using every_message_has_a_queue [OF plain_patterns_equal] by blast

end
