(* ===== verification/Pipeline.thy ===== *)
theory Pipeline
  imports PlaceOrderProps RelayProps ConsumerProps Broker
begin

text \<open>
  An order on its way through the system: the transaction that places it, the relay that publishes
  its outbox row, the topology that routes the message, and the consumer that confirms it. The
  components share the database; the work queue receives what the relay's broker holds and the
  topology routes to it. Shown: what is confirmed was ordered, with its own user and total, once;
  and when nothing is under way any more every order is confirmed.
\<close>

section \<open>The system\<close>

datatype shop_event =
    PlaceRequest int string place_order_input
  | RelayRun relay_env
  | Deliver handle_env

text \<open>The messages the broker puts into the work queue, as contents never requeued yet.\<close>

definition to_work_queue :: "pattern_match \<Rightarrow> broker_message list \<Rightarrow> (jsval option \<times> nat) list" where
  "to_work_queue matches ms = map (\<lambda>m. (Some (bm_content m), 0))
     (filter (\<lambda>m. QUEUE_ORDER_PLACED \<in> set (routed matches shop_topology (bm_exchange m) (bm_routing_key m))) ms)"

fun shop_step :: "pattern_match \<Rightarrow> (jsval \<Rightarrow> string) \<Rightarrow> shop_event \<Rightarrow> queue_state \<Rightarrow> queue_state" where
  "shop_step matches digest (PlaceRequest now eid input) q =
     q\<lparr>qs_db := snd (placeOrder_alone digest now eid input (qs_db q))\<rparr>"
| "shop_step matches digest (RelayRun env) q = (case relayBatch env (qs_db q) of
       (_, s', held) \<Rightarrow> q\<lparr>qs_db := s', qs_ready := qs_ready q @ to_work_queue matches held\<rparr>)"
| "shop_step matches digest (Deliver env) q = deliver env q"

section \<open>Orders and their rows in the outbox\<close>

definition event_of :: "outbox_row \<Rightarrow> order_placed_event option" where
  "event_of row = parseOrderPlacedEvent (Some (ob_payload row))"

text \<open>The row tells the order: its type, its id, and what the consumer reads out of its payload.\<close>

definition tells :: "order_row \<Rightarrow> outbox_row \<Rightarrow> bool" where
  "tells ord row \<longleftrightarrow> ob_type row = ORDER_PLACED \<and> (\<exists>ev. event_of row = Some ev
     \<and> ev_event_id ev = ob_id row \<and> ev_order_id ev = show_int (or_id ord)
     \<and> bigint_in (ev_user_id ev) = Inr (or_user_id ord)
     \<and> ev_total_cents ev = Fin (of_int (or_total_cents ord)))"

definition confirms :: "order_row \<Rightarrow> confirmation_row \<Rightarrow> bool" where
  "confirms ord c \<longleftrightarrow> cf_order_id c = or_id ord \<and> cf_user_id c = or_user_id ord
     \<and> cf_total_cents c = or_total_cents ord"

lemma placed_row_tells:
  assumes "orderable eid hash input s" and "eid \<noteq> []"
  shows "tells (order_row_of now input s) (outbox_row_of now eid (placed_order_of now input s))"
  using assms parse_toOrderPlacedEvent [OF assms(2), of "placed_order_of now input s"]
  by (auto simp: tells_def event_of_def outbox_row_of_def order_row_of_def placed_order_of_def
      orderable_def Let_def split: sum.splits)

lemma tells_same_row:
  "tells ord row \<Longrightarrow> publishRow row' = publishRow row \<Longrightarrow> tells ord row'"
  by (simp add: tells_def event_of_def publishRow_def)

text \<open>A request adds one order and the row that tells it, or neither.\<close>

lemma request_tells:
  assumes "shop_ok s" and "list_all2 tells (t_orders s) (t_outbox s)" and "eid \<noteq> []"
    and "placeOrder_alone digest now eid input s = (r, s')"
  shows "\<exists>os rs. t_orders s' = t_orders s @ os \<and> t_outbox s' = t_outbox s @ rs \<and> list_all2 tells os rs
    \<and> (\<forall>x\<in>set rs. ob_published_at x = None)
    \<and> t_confirmations s' = t_confirmations s \<and> t_processed_messages s' = t_processed_messages s"
  using assms(4) [unfolded placeOrder_alone_def]
proof (cases rule: placeOrder_cases)
  case before
  then show ?thesis by auto
next
  case committed
  then obtain x where "placeOrder_tx now eid no_hook (hashRequest digest input) input s = (Inr x, s')"
    by (cases r) (auto dest: transaction_InrD)
  with placeOrder_tx_iff [OF assms(1)]
  have o: "orderable eid (hashRequest digest input) input s"
    and s': "s' = placed_db now eid (hashRequest digest input) input s" by blast+
  show ?thesis
    using placed_row_tells [OF o assms(3)]
    by (intro exI [of _ "[order_row_of now input s]"]
        exI [of _ "[outbox_row_of now eid (placed_order_of now input s)]"])
      (simp add: s' placed_db_def Let_def outbox_row_of_def)
next
  case (rolled_back e)
  then have "same_tables s s'" by (auto dest: transaction_Inl)
  from same_tablesD [OF this] show ?thesis by simp
next
  case (replayed t)
  then have "same_tables s s'" by (auto dest: transaction_Inl)
  from same_tablesD [OF this] show ?thesis by simp
qed

section \<open>The consumer confirms what the event says\<close>

lemma bigint_in_show_int: "bigint_in (show_int i) = Inr n \<Longrightarrow> n = i"
proof (cases "i < 0")
  case True
  have "js_trim (CHR ''-'' # show_nat (nat (- i))) = CHR ''-'' # show_nat (nat (- i))"
    using show_nat_digits [of "nat (- i)"]
    by (intro js_trim_id) (auto simp: list_all_iff is_ws_def [of "CHR ''-''"] dest!: digit_not_ws)
  with True show "bigint_in (show_int i) = Inr n \<Longrightarrow> n = i"
    by (auto simp: bigint_in_def show_int_def Let_def split: if_splits)
next
  case False
  have "hd (show_nat (nat i)) \<noteq> CHR ''-''" "hd (show_nat (nat i)) \<noteq> CHR ''+''"
    using show_nat_digits [of "nat i"] by (cases "show_nat (nat i)"; auto simp: is_digit_def)+
  with False show_nat_digits [of "nat i"] show "bigint_in (show_int i) = Inr n \<Longrightarrow> n = i"
    by (auto simp: bigint_in_def show_int_def js_trim_digits Let_def split: if_splits)
qed

lemma int4_in_int: "int4_in (Fin (of_int i)) = Inr n \<Longrightarrow> n = i"
  by (auto simp: int4_in_def split: if_splits)

text \<open>Every confirmation of the state satisfies \<open>T\<close>.\<close>

definition confirmed_are :: "(confirmation_row \<Rightarrow> bool) \<Rightarrow> db \<Rightarrow> bool" where
  "confirmed_are T s \<longleftrightarrow> list_all T (t_confirmations s)"

text \<open>The confirmations that say what an event says.\<close>

definition says :: "order_placed_event \<Rightarrow> confirmation_row \<Rightarrow> bool" where
  "says ev c \<longleftrightarrow> bigint_in (ev_order_id ev) = Inr (cf_order_id c) \<and> bigint_in (ev_user_id ev) = Inr (cf_user_id c)
     \<and> int4_in (ev_total_cents ev) = Inr (cf_total_cents c)"

lemma apply_confirms:
  assumes "confirmed_are T s" and "\<And>c. says ev c \<Longrightarrow> T c" and "applyOrderPlaced now fault ev s = (r, s')"
  shows "confirmed_are T s'"
proof -
  have tx: "confirmed_are T t" if "apply_tx now ev s = (q, t)" for q t
    using that assms(1,2)
    by (auto simp: apply_tx_def insert_confirmation_def confirmed_are_def says_def split: if_splits sum.splits prod.splits)
  show ?thesis
    using assms(1,3) tx
    by (cases fault; cases "apply_tx now ev s") (auto simp: applyOrderPlaced_def split: sum.splits)
qed

lemma handle_confirms:
  assumes "confirmed_are T s" and "handle env msg st s = (a, st', s')"
    and T: "\<And>ev c. parseOrderPlacedEvent (cm_content msg) = Some ev \<Longrightarrow> says ev c \<Longrightarrow> T c"
  shows "confirmed_are T s'"
proof (cases "parseOrderPlacedEvent (cm_content msg)")
  case None
  with assms(1,2) show ?thesis by (auto simp: handle_def Let_def)
next
  case (Some ev)
  let ?fn = "\<lambda>k. applyOrderPlaced (he_now env) (he_fault env k) ev"
  obtain r t where r: "withLocalRetry ?fn 1 s = (r, t)" by (cases "withLocalRetry ?fn 1 s")
  have "confirmed_are T t \<and> True \<and> (is_ok r \<longrightarrow> True)"
    using apply_confirms [OF _ T [OF Some]]
    by (intro withLocalRetry_keeps [where R = "\<lambda>_ _. True" and P = "confirmed_are T" and Q = "\<lambda>_. True",
          OF _ _ assms(1) r]) auto
  moreover have "s' = t"
    using assms(2) Some r by (auto simp: handle_def Let_def split: sum.splits option.splits prod.splits if_splits)
  ultimately show ?thesis by simp
qed

section \<open>The relay passes rows on\<close>

lemma relay_passes_on:
  assumes d: "distinct (map ob_id (t_outbox s))" and r: "relayBatch env s = (res, s', held)"
  shows "\<exists>f. s' = s\<lparr>t_outbox := map f (t_outbox s)\<rparr> \<and> (\<forall>x. publishRow (f x) = publishRow x)
    \<and> (\<forall>x\<in>set (t_outbox s). ob_published_at (f x) \<noteq> None \<longrightarrow>
          ob_published_at x \<noteq> None \<or> publishRow x \<in> set held)
    \<and> set held \<subseteq> publishRow ` set (t_outbox s)"
proof (cases res)
  case (Inl e)
  have "set held \<subseteq> publishRow ` set (t_outbox s)"
    using r select_pending_set [of _ env s] by (auto simp: relayBatch_def Let_def split: option.splits if_splits)
  with relayBatch_Inl [OF r [unfolded Inl]] show ?thesis by (intro exI [of _ "\<lambda>x. x"]) simp
next
  case (Inr x)
  note R = relayBatch_Inr [OF d r [unfolded Inr]]
  let ?f = "\<lambda>x. if x \<in> set (select_pending env s) then settle env x else x"
  have "ob_published_at y \<noteq> None \<or> publishRow y \<in> set held"
    if "y \<in> set (t_outbox s)" and "ob_published_at (?f y) \<noteq> None" for y
    using that by (auto simp: R(3) settle_published accepted_by_broker_def split: if_splits)
  moreover have "set held \<subseteq> publishRow ` set (t_outbox s)"
    using select_pending_set [of _ env s] by (auto simp: R(3))
  ultimately show ?thesis by (intro exI [of _ ?f]) (use R(1) in auto)
qed

section \<open>The invariant of the system\<close>

text \<open>The order an event id belongs to, as the text of its id.\<close>

definition order_text :: "db \<Rightarrow> string \<Rightarrow> string" where
  "order_text s eid = (case List.find (\<lambda>p. ob_id (snd p) = eid) (zip (t_orders s) (t_outbox s)) of
       Some p \<Rightarrow> show_int (or_id (fst p)) | None \<Rightarrow> [])"

definition under_way :: "queue_state \<Rightarrow> jsval option set" where
  "under_way q = fst ` set (qs_ready q) \<union> set (qs_acked q) \<union> set (qs_dlq q)"

definition pipe_inv :: "queue_state \<Rightarrow> bool" where
  "pipe_inv q \<longleftrightarrow> shop_ok (qs_db q) \<and> list_all2 tells (t_orders (qs_db q)) (t_outbox (qs_db q))
     \<and> inbox_inv (order_text (qs_db q)) (qs_db q)
     \<and> confirmed_are (\<lambda>c. \<exists>ord\<in>set (t_orders (qs_db q)). confirms ord c) (qs_db q)
     \<and> under_way q \<subseteq> (\<lambda>row. Some (ob_payload row)) ` set (t_outbox (qs_db q))
     \<and> (\<forall>row\<in>set (t_outbox (qs_db q)). ob_published_at row \<noteq> None \<longrightarrow> Some (ob_payload row) \<in> under_way q)
     \<and> (\<forall>c\<in>set (qs_acked q). \<exists>ev. parseOrderPlacedEvent c = Some ev \<and> marked (ev_event_id ev) (qs_db q))"

lemma bigint_in_Nil [simp]: "bigint_in [] \<noteq> Inr n"
  by (simp add: bigint_in_def js_trim_def)

lemma find_append_Some: "List.find P xs = Some x \<Longrightarrow> List.find P (xs @ ys) = Some x"
  by (induction xs) (auto split: if_splits)

lemma order_text_grows:
  assumes "length (t_orders s) = length (t_outbox s)" and "t_orders s' = t_orders s @ os"
    and "t_outbox s' = t_outbox s @ rs" and "order_text s eid \<noteq> []"
  shows "order_text s' eid = order_text s eid"
proof -
  obtain p where "List.find (\<lambda>p. ob_id (snd p) = eid) (zip (t_orders s) (t_outbox s)) = Some p"
    using assms(4) by (auto simp: order_text_def split: option.splits)
  with find_append_Some [OF this, of "zip os rs"] show ?thesis
    using assms(1-3) by (simp add: order_text_def)
qed

lemma find_zip_map:
  assumes "\<And>x. ob_id (f x) = ob_id x"
  shows "List.find (\<lambda>p. ob_id (snd p) = eid) (zip xs (map f ys)) =
    map_option (\<lambda>p. (fst p, f (snd p))) (List.find (\<lambda>p. ob_id (snd p) = eid) (zip xs ys))"
proof (induction xs arbitrary: ys)
  case (Cons x xs)
  then show ?case by (cases ys) (simp_all add: assms)
qed simp

lemma find_key: "distinct (map k xs) \<Longrightarrow> x \<in> set xs \<Longrightarrow> List.find (\<lambda>y. k y = k x) xs = Some x"
  by (induction xs) auto

lemma order_text_row:
  assumes "list_all2 tells (t_orders s) (t_outbox s)" and "distinct (map ob_id (t_outbox s))"
    and "row \<in> set (t_outbox s)"
  obtains ord where "ord \<in> set (t_orders s)" and "tells ord row"
    and "order_text s (ob_id row) = show_int (or_id ord)"
proof -
  have len: "length (t_orders s) = length (t_outbox s)" using assms(1) by (rule list_all2_lengthD)
  from assms(3) obtain i where i: "i < length (t_outbox s)" "t_outbox s ! i = row"
    by (auto simp: in_set_conv_nth)
  let ?ord = "t_orders s ! i"
  have "map (ob_id \<circ> snd) (zip (t_orders s) (t_outbox s)) = map ob_id (t_outbox s)"
    using len by (metis comp_def list.map_comp map_snd_zip)
  with assms(2) have "distinct (map (ob_id \<circ> snd) (zip (t_orders s) (t_outbox s)))" by simp
  moreover have mem: "(?ord, row) \<in> set (zip (t_orders s) (t_outbox s))"
    using i len by (auto simp: in_set_zip intro!: exI [of _ i])
  ultimately have "List.find (\<lambda>p. (ob_id \<circ> snd) p = (ob_id \<circ> snd) (?ord, row)) (zip (t_orders s) (t_outbox s)) = Some (?ord, row)"
    by (rule find_key)
  then have "order_text s (ob_id row) = show_int (or_id ?ord)" by (simp add: order_text_def)
  moreover have "tells ?ord row" using assms(1) i by (auto simp: list_all2_conv_all_nth)
  moreover have "?ord \<in> set (t_orders s)" using i len by simp
  ultimately show thesis by (intro that)
qed

lemma inbox_inv_transfer:
  assumes "inbox_inv ord s" and "t_confirmations s' = t_confirmations s"
    and "t_processed_messages s' = t_processed_messages s" and "\<And>e. ord e \<noteq> [] \<Longrightarrow> ord' e = ord e"
  shows "inbox_inv ord' s'"
proof -
  have m: "marked e s' = marked e s" for e using assms(3) by (simp add: marked_def)
  have same: "bigint_in (ord e) = Inr n \<Longrightarrow> bigint_in (ord' e) = Inr n" for e n
    using assms(4) [of e] by (cases "ord e = []") auto
  have "marks s' = marks s" using assms(3) by (simp add: marks_def)
  with assms(1) same show ?thesis unfolding inbox_inv_def assms(2) m by (metis (no_types, lifting))
qed

subsection \<open>A request\<close>

lemma pipe_inv_request:
  assumes inv: "pipe_inv q" and "eid \<noteq> []"
  shows "pipe_inv (shop_step matches digest (PlaceRequest now eid input) q)"
proof -
  let ?s = "qs_db q"
  obtain r s' where p: "placeOrder_alone digest now eid input ?s = (r, s')"
    by (cases "placeOrder_alone digest now eid input ?s")
  from inv have ok: "shop_ok ?s" and t: "list_all2 tells (t_orders ?s) (t_outbox ?s)"
    by (simp_all add: pipe_inv_def)
  from request_tells [OF ok t assms(2) p] obtain os rs where
    R: "t_orders s' = t_orders ?s @ os" "t_outbox s' = t_outbox ?s @ rs" "list_all2 tells os rs"
      "\<forall>x\<in>set rs. ob_published_at x = None" "t_confirmations s' = t_confirmations ?s"
      "t_processed_messages s' = t_processed_messages ?s" by blast
  have "order_text s' e = order_text ?s e" if "order_text ?s e \<noteq> []" for e
    using order_text_grows [OF list_all2_lengthD [OF t] R(1,2) that] .
  with inv R(5,6) have "inbox_inv (order_text s') s'"
    by (auto simp: pipe_inv_def intro: inbox_inv_transfer)
  moreover have "marked e s' = marked e ?s" for e using R(6) by (simp add: marked_def)
  moreover have "list_all2 tells (t_orders s') (t_outbox s')"
    using t R(3) unfolding R(1,2) by (rule list_all2_appendI)
  moreover have "shop_ok s'" using ok p by (rule placeOrder_alone_keeps)
  ultimately show ?thesis
    using inv R(4) by (auto simp: p pipe_inv_def R(1,2,5) confirmed_are_def list_all_iff under_way_def)
qed

subsection \<open>A pass of the relay\<close>

lemma to_work_queue_told:
  assumes "plain_patterns matches" and "\<And>m. m \<in> set ms \<Longrightarrow> \<exists>row. m = publishRow row \<and> ob_type row = ORDER_PLACED"
  shows "to_work_queue matches ms = map (\<lambda>m. (Some (bm_content m), 0)) ms"
proof -
  have "filter (\<lambda>m. QUEUE_ORDER_PLACED \<in> set (routed matches shop_topology (bm_exchange m) (bm_routing_key m))) ms = ms"
    using assms(2) published_row_routed [OF assms(1)] by (intro filter_True) fastforce
  then show ?thesis by (simp add: to_work_queue_def)
qed

lemma pipe_inv_relay:
  assumes inv: "pipe_inv q" and plain: "plain_patterns matches"
  shows "pipe_inv (shop_step matches digest (RelayRun env) q)"
proof -
  let ?s = "qs_db q"
  obtain res s' held where r: "relayBatch env ?s = (res, s', held)"
    by (cases "relayBatch env ?s")
  from inv have ok: "shop_ok ?s" and t: "list_all2 tells (t_orders ?s) (t_outbox ?s)"
    by (simp_all add: pipe_inv_def)
  then have d: "distinct (map ob_id (t_outbox ?s))" by (simp add: shop_ok_def outbox_ok_def)
  from relay_passes_on [OF d r] obtain f where
    R: "s' = ?s\<lparr>t_outbox := map f (t_outbox ?s)\<rparr>" "\<And>x. publishRow (f x) = publishRow x"
      "\<And>x. x \<in> set (t_outbox ?s) \<Longrightarrow> ob_published_at (f x) \<noteq> None \<Longrightarrow>
          ob_published_at x \<noteq> None \<or> publishRow x \<in> set held"
      "set held \<subseteq> publishRow ` set (t_outbox ?s)" by blast
  have f: "ob_id (f x) = ob_id x" "ob_payload (f x) = ob_payload x" for x
    using R(2) [of x] by (simp_all add: publishRow_def)
  have "ob_type row = ORDER_PLACED" if "row \<in> set (t_outbox ?s)" for row
    using t that by (auto simp: list_all2_conv_all_nth in_set_conv_nth tells_def)
  with R(4) have told: "\<exists>row. m = publishRow row \<and> ob_type row = ORDER_PLACED" if "m \<in> set held" for m
    using that by blast
  have queued: "fst ` set (to_work_queue matches held) = (\<lambda>m. Some (bm_content m)) ` set held"
    by (simp add: to_work_queue_told [OF plain told] image_image)
  have same: "order_text s' e = order_text ?s e" for e
    by (simp add: order_text_def R(1) find_zip_map f(1) split: option.split)
  have "inbox_inv (order_text ?s) ?s" using inv by (simp add: pipe_inv_def)
  then have "inbox_inv (order_text s') s'"
    by (rule inbox_inv_transfer) (simp add: R(1), simp add: R(1), rule same)
  moreover have "list_all2 tells (t_orders s') (t_outbox s')"
    using t tells_same_row [OF _ R(2)] by (auto simp: R(1) list_all2_conv_all_nth)
  moreover have "shop_ok s'"
    using ok d unfolding R(1) by (intro shop_ok_outbox) (simp_all add: comp_def f(1))
  moreover have ways: "under_way (shop_step matches digest (RelayRun env) q) =
      under_way q \<union> (\<lambda>m. Some (bm_content m)) ` set held"
    by (auto simp: r under_way_def image_Un queued)
  moreover have pays: "(\<lambda>row. Some (ob_payload row)) ` set (t_outbox s') = (\<lambda>row. Some (ob_payload row)) ` set (t_outbox ?s)"
    by (simp add: R(1) image_image f(2))
  moreover have "(\<lambda>m. Some (bm_content m)) ` set held \<subseteq> (\<lambda>row. Some (ob_payload row)) ` set (t_outbox ?s)"
    using R(4) by (fastforce simp: publishRow_def)
  moreover have "Some (ob_payload row) \<in> under_way q \<union> (\<lambda>m. Some (bm_content m)) ` set held"
    if "row \<in> set (t_outbox s')" and "ob_published_at row \<noteq> None" for row
  proof -
    from that(1) obtain x where x: "x \<in> set (t_outbox ?s)" "row = f x" by (auto simp: R(1))
    from R(3) [OF x(1)] that(2) x(2) have "ob_published_at x \<noteq> None \<or> publishRow x \<in> set held" by blast
    then show ?thesis
    proof
      assume "ob_published_at x \<noteq> None"
      with inv x f(2) show ?thesis by (simp add: pipe_inv_def)
    next
      assume "publishRow x \<in> set held"
      then have "Some (bm_content (publishRow x)) \<in> (\<lambda>m. Some (bm_content m)) ` set held" by (rule imageI)
      with x(2) f(2) show ?thesis by (simp add: publishRow_def)
    qed
  qed
  moreover have "marked e s' = marked e ?s" for e by (simp add: R(1) marked_def)
  moreover have "confirmed_are (\<lambda>c. \<exists>ord\<in>set (t_orders s'). confirms ord c) s'"
    using inv by (simp add: pipe_inv_def confirmed_are_def R(1))
  ultimately show ?thesis
    using inv unfolding pipe_inv_def [of "shop_step matches digest (RelayRun env) q"] ways
    by (simp add: r pays) (simp add: pipe_inv_def)
qed

subsection \<open>A delivery\<close>

text \<open>What comes out of a content under way is the event of its row, and says what its order says.\<close>

lemma under_way_event:
  assumes inv: "pipe_inv q" and "x \<in> under_way q" and "parseOrderPlacedEvent x = Some ev"
  shows "ev_order_id ev = order_text (qs_db q) (ev_event_id ev)"
    and "says ev c \<Longrightarrow> \<exists>ord\<in>set (t_orders (qs_db q)). confirms ord c"
proof -
  let ?s = "qs_db q"
  from inv assms(2) obtain row where row: "row \<in> set (t_outbox ?s)" "x = Some (ob_payload row)"
    by (auto simp: pipe_inv_def)
  have "list_all2 tells (t_orders ?s) (t_outbox ?s)" and "distinct (map ob_id (t_outbox ?s))"
    using inv by (simp_all add: pipe_inv_def shop_ok_def outbox_ok_def)
  then obtain ord where o: "ord \<in> set (t_orders ?s)" "tells ord row"
      "order_text ?s (ob_id row) = show_int (or_id ord)"
    using row(1) by (rule order_text_row)
  from o(2) row(2) assms(3) have ev: "ev_event_id ev = ob_id row" "ev_order_id ev = show_int (or_id ord)"
      "bigint_in (ev_user_id ev) = Inr (or_user_id ord)" "ev_total_cents ev = Fin (of_int (or_total_cents ord))"
    by (auto simp: tells_def event_of_def)
  then show "ev_order_id ev = order_text ?s (ev_event_id ev)" using o(3) by simp
  show "\<exists>ord\<in>set (t_orders ?s). confirms ord c" if "says ev c"
    using that o(1) ev by (auto simp: says_def confirms_def dest: bigint_in_show_int int4_in_int)
qed

lemma pipe_inv_deliver:
  assumes inv: "pipe_inv q"
  shows "pipe_inv (deliver env q)"
proof (cases "qs_ready q")
  case Nil
  with inv show ?thesis by (simp add: deliver_def)
next
  case (Cons m rest)
  let ?s = "qs_db q" and ?q = "deliver env q"
  obtain a st' s' where h: "handle env (delivery m) (qs_stats q) ?s = (a, st', s')"
    by (cases "handle env (delivery m) (qs_stats q) ?s")
  have m: "fst m \<in> under_way q" using Cons by (simp add: under_way_def)
  have db: "qs_db ?q = s'"
    using Cons h by (simp add: deliver_def Let_def split: option.split settlement.split)
  have "inbox_inv (order_text ?s) ?s" using inv by (simp add: pipe_inv_def)
  from handle_keeps [OF this _ h] under_way_event(1) [OF inv m]
  have K: "inbox_inv (order_text ?s) s'" "inbox_grows ?s s'"
      "a = Some Ack \<Longrightarrow> \<exists>ev. parseOrderPlacedEvent (fst m) = Some ev \<and> marked (ev_event_id ev) s'"
    by simp_all
  from K(2) have same: "t_orders s' = t_orders ?s" "t_outbox s' = t_outbox ?s" and "shop_ok ?s \<Longrightarrow> shop_ok s'"
    by (auto simp: inbox_grows_def shop_ok_defs)
  then have ok: "shop_ok s'" using inv by (simp add: pipe_inv_def)
  have ord: "order_text s' = order_text ?s" by (simp add: order_text_def same fun_eq_iff)
  have "confirmed_are (\<lambda>c. \<exists>ord\<in>set (t_orders ?s). confirms ord c) ?s" using inv by (simp add: pipe_inv_def)
  then have confs: "confirmed_are (\<lambda>c. \<exists>ord\<in>set (t_orders ?s). confirms ord c) s'"
    using h under_way_event(2) [OF inv m] by (rule handle_confirms) simp
  have ways: "under_way ?q = under_way q"
    using Cons h by (auto simp: deliver_def Let_def under_way_def split: option.split settlement.split)
  have acked: "\<exists>ev. parseOrderPlacedEvent c = Some ev \<and> marked (ev_event_id ev) s'" if "c \<in> set (qs_acked ?q)" for c
  proof -
    have "c \<in> set (qs_acked q) \<or> c = fst m \<and> a = Some Ack"
      using that Cons h by (auto simp: deliver_def Let_def split: option.splits settlement.splits if_splits)
    then show ?thesis
      using inv K(3) marked_grows [OF K(2)] by (auto simp: pipe_inv_def)
  qed
  have "list_all2 tells (t_orders ?s) (t_outbox ?s)"
    and "under_way q \<subseteq> (\<lambda>row. Some (ob_payload row)) ` set (t_outbox ?s)"
    and "\<forall>row\<in>set (t_outbox ?s). ob_published_at row \<noteq> None \<longrightarrow> Some (ob_payload row) \<in> under_way q"
    using inv by (simp_all add: pipe_inv_def)
  then show ?thesis
    unfolding pipe_inv_def db ways same ord using ok K(1) confs acked by blast
qed

section \<open>From order to confirmation\<close>

definition known_id :: "shop_event \<Rightarrow> bool" where
  "known_id e = (case e of PlaceRequest now eid input \<Rightarrow> eid \<noteq> [] | _ \<Rightarrow> True)"

lemma pipe_inv_step:
  assumes "pipe_inv q" and "plain_patterns matches" and "known_id e"
  shows "pipe_inv (shop_step matches digest e q)"
proof (cases e)
  case (PlaceRequest now eid input)
  with assms show ?thesis using pipe_inv_request by (simp add: known_id_def)
next
  case (RelayRun env)
  with assms show ?thesis using pipe_inv_relay by blast
next
  case (Deliver env)
  with assms show ?thesis using pipe_inv_deliver by simp
qed

lemma pipe_inv_run:
  assumes "plain_patterns matches" and "list_all known_id es" and "pipe_inv q"
  shows "pipe_inv (fold (shop_step matches digest) es q)"
  using assms(2,3)
  by (induction es arbitrary: q) (auto intro: pipe_inv_step [OF _ assms(1)])

definition new_shop :: "db \<Rightarrow> bool" where
  "new_shop s \<longleftrightarrow> shop_ok s \<and> t_orders s = [] \<and> t_outbox s = [] \<and> t_confirmations s = [] \<and> t_processed_messages s = []"

lemma pipe_inv_new: "new_shop s \<Longrightarrow> pipe_inv (fresh_queue s [])"
  by (auto simp: new_shop_def pipe_inv_def fresh_queue_def inbox_inv_def marked_def marks_def confirmed_are_def under_way_def)

text \<open>
  C2. An order on its way through the system: however requests, relay passes and deliveries are
  interleaved and whatever fails in them, every confirmation is of an order that was placed, with
  that order's user and total, and no order is confirmed twice; and once the outbox is published
  and the work queue empty with nothing dead-lettered, exactly the orders placed are confirmed.
\<close>

theorem orders_reach_their_confirmation:
  assumes "new_shop s0" and "plain_patterns matches" and "list_all known_id es"
    and "q = fold (shop_step matches digest) es (fresh_queue s0 [])"
  shows "distinct (map cf_order_id (t_confirmations (qs_db q)))
    \<and> (\<forall>c\<in>set (t_confirmations (qs_db q)). \<exists>ord\<in>set (t_orders (qs_db q)). confirms ord c)
    \<and> ((\<forall>row\<in>set (t_outbox (qs_db q)). ob_published_at row \<noteq> None) \<and> qs_ready q = [] \<and> qs_dlq q = [] \<longrightarrow>
        cf_order_id ` set (t_confirmations (qs_db q)) = or_id ` set (t_orders (qs_db q)))"
proof -
  let ?s = "qs_db q"
  have inv: "pipe_inv q"
    unfolding assms(4) using assms(2,3) pipe_inv_new [OF assms(1)] by (rule pipe_inv_run)
  then have one: "distinct (map cf_order_id (t_confirmations ?s))"
    and real: "\<forall>c\<in>set (t_confirmations ?s). \<exists>ord\<in>set (t_orders ?s). confirms ord c"
    and told: "list_all2 tells (t_orders ?s) (t_outbox ?s)" and ids: "distinct (map ob_id (t_outbox ?s))"
    by (simp_all add: pipe_inv_def inbox_inv_def confirmed_are_def list_all_iff shop_ok_def outbox_ok_def)
  have "or_id ord \<in> cf_order_id ` set (t_confirmations ?s)"
    if "\<forall>row\<in>set (t_outbox ?s). ob_published_at row \<noteq> None" "qs_ready q = []" "qs_dlq q = []"
      "ord \<in> set (t_orders ?s)" for ord
  proof -
    from that(4) obtain i where i: "i < length (t_orders ?s)" "t_orders ?s ! i = ord"
      by (auto simp: in_set_conv_nth)
    define row where "row = t_outbox ?s ! i"
    have row: "row \<in> set (t_outbox ?s)" "tells ord row"
      using told i by (auto simp: row_def list_all2_conv_all_nth)
    with that(1) inv have "Some (ob_payload row) \<in> under_way q" by (simp add: pipe_inv_def)
    with that(2,3) have "Some (ob_payload row) \<in> set (qs_acked q)" by (simp add: under_way_def)
    with inv obtain ev where ev: "event_of row = Some ev" "marked (ev_event_id ev) ?s"
      by (auto simp: pipe_inv_def event_of_def)
    from row(2) ev(1) have e: "ev_event_id ev = ob_id row" "ev_order_id ev = show_int (or_id ord)"
      by (auto simp: tells_def)
    have "Some (ob_payload row) \<in> under_way q" by fact
    from under_way_event(1) [OF inv this ev(1) [unfolded event_of_def]] e(2)
    have "order_text ?s (ev_event_id ev) = show_int (or_id ord)" by simp
    moreover obtain c where "c \<in> set (t_confirmations ?s)"
        "bigint_in (order_text ?s (ev_event_id ev)) = Inr (cf_order_id c)"
      using inv ev(2) by (auto simp: pipe_inv_def inbox_inv_def)
    ultimately show ?thesis using bigint_in_show_int by force
  qed
  with one real show ?thesis by (fastforce simp: confirms_def)
qed

text \<open>One order, published at the first pass and confirmed at the first delivery.\<close>

definition demo_run :: "shop_event list" where
  "demo_run = [PlaceRequest 0 ''e1'' lamp, RelayRun (demo_env 3 Confirmed),
     Deliver \<lparr>he_now = 4, he_fault = \<lambda>_. NoFault, he_after = \<lambda>_. None, he_open = True\<rparr>]"

lemma demo_run_done:
  "let q = fold (shop_step (=) demo_digest) demo_run (fresh_queue demo_db []) in
     map ob_published_at (t_outbox (qs_db q)) = [Some 3] \<and> qs_ready q = [] \<and> qs_dlq q = []
     \<and> map or_id (t_orders (qs_db q)) = [1]"
  by code_simp

lemma demo_new: "new_shop demo_db"
  using demo_ok by (simp add: new_shop_def demo_db_def empty_db_def)

lemma orders_reach_their_confirmation_witness:
  "cf_order_id ` set (t_confirmations (qs_db (fold (shop_step (=) demo_digest) demo_run (fresh_queue demo_db [])))) = {1}"
proof -
  define q where "q = fold (shop_step (=) demo_digest) demo_run (fresh_queue demo_db [])"
  have ended: "map ob_published_at (t_outbox (qs_db q)) = [Some 3]" "qs_ready q = []" "qs_dlq q = []"
      "map or_id (t_orders (qs_db q)) = [1]"
    using demo_run_done unfolding Let_def q_def by blast+
  then have published: "\<forall>row\<in>set (t_outbox (qs_db q)). ob_published_at row \<noteq> None" by auto
  have "list_all known_id demo_run" by (simp add: demo_run_def known_id_def)
  from orders_reach_their_confirmation [OF demo_new plain_patterns_equal this q_def] published ended(2,3)
  have "cf_order_id ` set (t_confirmations (qs_db q)) = or_id ` set (t_orders (qs_db q))" by blast
  also have "\<dots> = set (map or_id (t_orders (qs_db q)))" by (rule set_map [symmetric])
  finally have "cf_order_id ` set (t_confirmations (qs_db q)) = {1}" by (simp only: ended(4) list.set)
  then show ?thesis by (simp only: q_def)
qed

end
