(* ===== verification/RelayMain.thy ===== *)
theory RelayMain
  imports RelayProps
begin

text \<open>
  The relay's process (\<open>src/outbox/relay-main.ts\<close>): batch after batch until a signal has come, one
  batch with \<open>RELAY_ONCE\<close>, and the switch \<open>RELAY_CRASH_AFTER_PUBLISH\<close>, with which the process kills
  itself between the broker's confirms and the update. A killed process loses the transaction of
  its batch, as one that threw does. Connecting is left out.
\<close>

definition RELAY_POLL_MS :: nat where "RELAY_POLL_MS = 500"

text \<open>One round of the loop: its batch's environment, and whether a signal has come when it ends.\<close>

record relay_round =
  rn_env :: relay_env
  rn_signal :: bool

record relay_process =
  rq_db :: db
  rq_held :: "broker_message list"
  rq_out :: "string list"
  rq_idle_ms :: nat

datatype process_end = ExitZero | ExitOne exn | SelfKilled

definition KILLED :: exn where "KILLED = JsError ''SIGKILL''"

definition main_env :: "bool \<Rightarrow> relay_env \<Rightarrow> relay_env" where
  "main_env crashAfterPublish env = env\<lparr>re_batch := RELAY_BATCH_SIZE,
     re_after := (\<lambda>rows. if crashAfterPublish then Some KILLED else None)\<rparr>"

definition count_line :: "string \<Rightarrow> nat \<Rightarrow> string list" where
  "count_line label n = (if 0 < n then [label @ show_nat n] else [])"

definition after_batch :: "bool \<Rightarrow> relay_result \<Rightarrow> db \<Rightarrow> broker_message list \<Rightarrow> relay_process \<Rightarrow> relay_process" where
  "after_batch once r s new q = q\<lparr>rq_db := s, rq_held := rq_held q @ new,
     rq_out := rq_out q @ count_line ''relay-published='' (rl_published r) @ count_line ''relay-failed='' (rl_failed r),
     rq_idle_ms := rq_idle_ms q + (if \<not> once \<and> rl_published r + rl_failed r = 0 then RELAY_POLL_MS else 0)\<rparr>"

text \<open>\<open>None\<close>: the rounds given end while the process still runs.\<close>

fun relay_main :: "bool \<Rightarrow> bool \<Rightarrow> relay_round list \<Rightarrow> relay_process \<Rightarrow> (process_end \<times> relay_process) option" where
  "relay_main once crash [] q = None"
| "relay_main once crash (rn # rns) q = (case relayBatch (main_env crash (rn_env rn)) (rq_db q) of
       (Inl e, s, new) \<Rightarrow>
         Some (if e = KILLED then SelfKilled else ExitOne e,
           q\<lparr>rq_db := s, rq_held := rq_held q @ new,
             rq_out := rq_out q @ (if e = KILLED
               then [''relay-published='' @ show_nat (length (filter (\<lambda>r. re_outcome (rn_env rn) r = Confirmed)
                 (select_pending (main_env crash (rn_env rn)) (rq_db q))))]
               else [])\<rparr>)
     | (Inr r, s, new) \<Rightarrow>
         (let q' = after_batch once r s new q
          in if once \<or> rn_signal rn then Some (ExitZero, q') else relay_main once crash rns q'))"

section \<open>What the process leaves\<close>

definition tables :: "relay_process \<Rightarrow> db \<times> broker_message list" where
  "tables q = (rq_db q, rq_held q)"

definition rounds_run :: "bool \<Rightarrow> relay_round list \<Rightarrow> db \<times> broker_message list \<Rightarrow> db \<times> broker_message list" where
  "rounds_run crash rns = fold relay_step (map (\<lambda>rn. RelayPass (main_env crash (rn_env rn))) rns)"

lemma main_env_answers: "answers env \<Longrightarrow> answers (main_env False env)"
  by (auto simp: answers_def main_env_def RELAY_BATCH_SIZE_def)

lemma answers_Inr: "answers env \<Longrightarrow> \<exists>r s' new. relayBatch env s = (Inr r, s', new)"
  by (auto simp: relayBatch_def closed_error_None Let_def answers_def)

text \<open>
  A signal is obeyed after the batch it finds: the process ends with status 0 and the database is
  that of the batches until then, the last one whole.
\<close>

theorem signal_ends_after_batch:
  assumes "\<forall>rn\<in>set (before @ [rn]). answers (rn_env rn)" "\<forall>rn\<in>set before. \<not> rn_signal rn" "rn_signal rn"
  shows "\<exists>q'. relay_main False False (before @ rn # after) q = Some (ExitZero, q')
    \<and> tables q' = rounds_run False (before @ [rn]) (tables q)"
  using assms(1,2)
proof (induction before arbitrary: q)
  case Nil
  then obtain r s new where "relayBatch (main_env False (rn_env rn)) (rq_db q) = (Inr r, s, new)"
    using answers_Inr [OF main_env_answers] by fastforce
  then show ?case using assms(3)
    by (simp add: Let_def tables_def rounds_run_def after_batch_def)
next
  case (Cons b before)
  then obtain r s new where "relayBatch (main_env False (rn_env b)) (rq_db q) = (Inr r, s, new)"
    using answers_Inr [OF main_env_answers] by fastforce
  with Cons.prems Cons.IH [of "after_batch False r s new q"] show ?case
    by (simp add: Let_def tables_def rounds_run_def after_batch_def)
qed

theorem once_is_one_batch:
  assumes "answers (rn_env rn)"
  shows "\<exists>q'. relay_main True False (rn # after) q = Some (ExitZero, q')
    \<and> tables q' = rounds_run False [rn] (tables q) \<and> rq_idle_ms q' = rq_idle_ms q"
proof -
  obtain r s new where "relayBatch (main_env False (rn_env rn)) (rq_db q) = (Inr r, s, new)"
    using answers_Inr [OF main_env_answers [OF assms]] by blast
  then show ?thesis by (simp add: Let_def tables_def rounds_run_def after_batch_def)
qed

text \<open>
  The crash switch: when a row waits and the channel lives, the process dies after the broker took
  the messages of the batch, and every row is as it was, to be published again.
\<close>

theorem crash_repeats_the_batch:
  assumes env: "answers (rn_env rn)" and rows: "select_pending (main_env True (rn_env rn)) (rq_db q) \<noteq> []"
  shows "\<exists>q'. relay_main once True (rn # after) q = Some (SelfKilled, q') \<and> rq_db q' = rq_db q
    \<and> rq_held q' = rq_held q @ map publishRow (filter (accepted_by_broker (rn_env rn))
        (select_pending (main_env True (rn_env rn)) (rq_db q)))"
proof -
  have "re_outcome (main_env True (rn_env rn)) = re_outcome (rn_env rn)" by (simp add: main_env_def)
  then have "closed_error (main_env True (rn_env rn)) rs = closed_error (rn_env rn) rs"
    "accepted_by_broker (main_env True (rn_env rn)) = accepted_by_broker (rn_env rn)" for rs
    by (induction rs) (auto simp: accepted_by_broker_def fun_eq_iff split: publish_outcome.split)
  moreover have "re_after (main_env True (rn_env rn)) = (\<lambda>_. Some KILLED)" by (simp add: main_env_def)
  ultimately show ?thesis
    using rows closed_error_None [OF env] by (simp add: relayBatch_def Let_def)
qed

end
