(* ===== verification/RawHttp.thy ===== *)
theory RawHttp
  imports JsValues
begin

text \<open>
  The HTTP server over raw sockets (\<open>hw-03/src/*\<close>): the parser of a request, the builder of a
  response, the routes, and the handler that collects the chunks of a socket until a request is
  complete. Chunks are decoded as Latin-1, so a string is the bytes received. The clock of the log
  lines is left out.
\<close>

section \<open>Strings and objects\<close>

text \<open>The text before and after the first occurrence of a separator.\<close>

fun cut_at :: "string \<Rightarrow> string \<Rightarrow> (string \<times> string) option" where
  "cut_at sep [] = (if sep = [] then Some ([], []) else None)"
| "cut_at sep (c # cs) =
     (if js_startsWith sep (c # cs) then Some ([], drop (length sep) (c # cs))
      else map_option (\<lambda>(a, b). (c # a, b)) (cut_at sep cs))"

definition js_indexOf :: "string \<Rightarrow> string \<Rightarrow> nat option" where
  "js_indexOf sep s = map_option (\<lambda>(a, b). length a) (cut_at sep s)"

lemma cut_at_Some: "cut_at sep s = Some (a, b) \<Longrightarrow> s = a @ sep @ b"
proof (induction s arbitrary: a)
  case (Cons c cs)
  show ?case
  proof (cases "js_startsWith sep (c # cs)")
    case True
    with Cons.prems show ?thesis by (metis append_Nil append_take_drop_id cut_at.simps(2) js_startsWith_def option.inject prod.inject)
  next
    case False
    with Cons.prems obtain a' where "cut_at sep cs = Some (a', b)" "a = c # a'" by auto
    with Cons.IH show ?thesis by simp
  qed
qed (auto split: if_splits)

text \<open>\<open>s.split(sep)\<close> for a separator that is not empty.\<close>

function split_on :: "string \<Rightarrow> string \<Rightarrow> string list" where
  "split_on sep s = (case cut_at sep s of
       None \<Rightarrow> [s]
     | Some (a, b) \<Rightarrow> if sep = [] then [s] else a # split_on sep b)"
  by pat_completeness auto
termination
  by (relation "measure (\<lambda>(sep, s). length s)") (auto dest: cut_at_Some)

declare split_on.simps [simp del]

text \<open>\<open>toLowerCase\<close> on Latin-1: the letters from A-grave to Thorn, without the multiplication sign.\<close>

definition lower_latin1 :: "char \<Rightarrow> char" where
  "lower_latin1 c =
     (let n = of_char c :: nat in
      if 65 \<le> n \<and> n \<le> 90 \<or> 192 \<le> n \<and> n \<le> 222 \<and> n \<noteq> 215 then char_of (n + 32) else c)"

text \<open>
  An object used as a map: assigning a string to \<open>__proto__\<close> does nothing, and \<open>Object.entries\<close>
  lists the keys that are array indexes first, in ascending order.
\<close>

type_synonym js_map = "(string \<times> string) list"

definition obj_set :: "string \<Rightarrow> string \<Rightarrow> js_map \<Rightarrow> js_map" where
  "obj_set k v m = (if k = ''__proto__'' then m else upsert fst (k, v) m)"

definition is_index :: "string \<Rightarrow> bool" where
  "is_index k \<longleftrightarrow> k \<noteq> [] \<and> list_all is_digit k \<and> k = show_nat (digits_val k) \<and> digits_val k < 2 ^ 32 - 1"

definition obj_entries :: "js_map \<Rightarrow> js_map" where
  "obj_entries m = sort_key (\<lambda>kv. digits_val (fst kv)) (filter (\<lambda>kv. is_index (fst kv)) m)
     @ filter (\<lambda>kv. \<not> is_index (fst kv)) m"

section \<open>Parsing a request\<close>

definition CRLF :: string where "CRLF = [CHR 0x0D, CHR 0x0A]"

record http_request =
  hr_method :: string
  hr_path :: string
  hr_version :: string
  hr_headers :: js_map
  hr_body :: string

text \<open>One header line; \<open>''\<close>-valued keys are kept, a line without a colon is skipped.\<close>

definition parse_header :: "string \<Rightarrow> js_map \<Rightarrow> js_map" where
  "parse_header line headers =
     (if js_trim line = [] then headers
      else (case js_indexOf '':'' line of
          None \<Rightarrow> headers
        | Some i \<Rightarrow> obj_set (map lower_latin1 (js_trim (take i line))) (js_trim (drop (i + 1) line)) headers))"

definition parseHttpRequest :: "string \<Rightarrow> exn + http_request" where
  "parseHttpRequest rawData =
     (let parts = split_on (CRLF @ CRLF) rawData;
          headersPart = hd parts;
          body = js_join (CRLF @ CRLF) (tl parts);
          lines = split_on CRLF headersPart;
          requestLine = hd lines
      in if requestLine = [] then Inl (JsError ''Empty request line'')
         else (case js_split (CHR '' '') requestLine of
             m # p # v # _ \<Rightarrow>
               if m = [] \<or> p = [] \<or> v = []
               then Inl (JsError ''Invalid request line: expected METHOD PATH VERSION'')
               else Inr \<lparr>hr_method = m, hr_path = p, hr_version = v,
                      hr_headers = fold parse_header (tl lines) [], hr_body = body\<rparr>
           | _ \<Rightarrow> Inl (JsError ''Invalid request line: expected METHOD PATH VERSION'')))"

section \<open>Building a response\<close>

text \<open>\<open>Buffer.byteLength\<close>: a character of Latin-1 above 127 takes two bytes in UTF-8.\<close>

definition byte_length :: "string \<Rightarrow> nat" where
  "byte_length s = sum_list (map (\<lambda>c. if (of_char c :: nat) < 128 then 1 else 2) s)"

definition header_line :: "string \<times> string \<Rightarrow> string" where
  "header_line kv = fst kv @ '': '' @ snd kv"

definition buildHttpResponse :: "nat \<Rightarrow> string \<Rightarrow> js_map \<Rightarrow> string \<Rightarrow> string" where
  "buildHttpResponse statusCode statusText headers body =
     (let allHeaders = fold (\<lambda>(k, v). upsert fst (k, v)) headers
            [(''Content-Type'', ''text/plain''), (''Content-Length'', show_nat (byte_length body)),
             (''Connection'', ''close'')]
      in ''HTTP/1.1 '' @ show_nat statusCode @ '' '' @ statusText @ CRLF
         @ js_join CRLF (map header_line (obj_entries allHeaders)) @ CRLF @ CRLF @ body)"

section \<open>Routes\<close>

definition TEXT_PLAIN :: js_map where "TEXT_PLAIN = [(''Content-Type'', ''text/plain'')]"

definition handleRequest :: "http_request \<Rightarrow> string" where
  "handleRequest req =
     (if hr_path req = ''/'' \<and> hr_method req = ''GET''
      then buildHttpResponse 200 ''OK'' TEXT_PLAIN ''Hello from raw HTTP server!''
      else if hr_path req = ''/headers'' \<and> hr_method req = ''GET''
      then buildHttpResponse 200 ''OK'' TEXT_PLAIN
             (js_join [CHR 0x0A] (map header_line (obj_entries (hr_headers req))))
      else buildHttpResponse 404 ''Not Found'' TEXT_PLAIN ''404 Not Found'')"

section \<open>A socket\<close>

fun content_length_of :: "string list \<Rightarrow> rat" where
  "content_length_of [] = 0"
| "content_length_of (line # lines) = (case js_indexOf '':'' line of
       None \<Rightarrow> content_length_of lines
     | Some i \<Rightarrow>
         if map lower_latin1 (js_trim (take i line)) \<noteq> ''content-length'' then content_length_of lines
         else (case js_Number (js_trim (drop (i + 1) line)) of
             Fin q \<Rightarrow> if 0 \<le> q then q else 0
           | _ \<Rightarrow> 0))"

definition getContentLength :: "string \<Rightarrow> rat" where
  "getContentLength headersPart = content_length_of (tl (split_on CRLF headersPart))"

record socket =
  sk_buf :: string
  sk_done :: bool
  sk_written :: "string list"

definition fresh_socket :: socket where
  "fresh_socket = \<lparr>sk_buf = [], sk_done = False, sk_written = []\<rparr>"

definition respond :: "string \<Rightarrow> string" where
  "respond rawRequest = (case parseHttpRequest rawRequest of
       Inr req \<Rightarrow> handleRequest req
     | Inl err \<Rightarrow> buildHttpResponse 400 ''Bad Request'' TEXT_PLAIN ''Bad Request'')"

text \<open>\<open>on('data')\<close>; \<open>slice\<close> truncates its argument.\<close>

definition on_data :: "string \<Rightarrow> socket \<Rightarrow> socket" where
  "on_data chunk sk =
     (if sk_done sk then sk
      else let buf = sk_buf sk @ chunk in
        (case js_indexOf (CRLF @ CRLF) buf of
           None \<Rightarrow> sk\<lparr>sk_buf := buf\<rparr>
         | Some headerEnd \<Rightarrow>
             (let totalNeeded = of_nat (headerEnd + 4) + getContentLength (take headerEnd buf)
              in if of_nat (length buf) < totalNeeded then sk\<lparr>sk_buf := buf\<rparr>
                 else sk\<lparr>sk_buf := buf, sk_done := True,
                   sk_written := sk_written sk @ [respond (take (nat \<lfloor>totalNeeded\<rfloor>) buf)]\<rparr>)))"


section \<open>Searching and splitting\<close>

lemma cut_at_append:
  "cut_at sep s = Some (a, b) \<Longrightarrow> cut_at sep (s @ t) = Some (a, b @ t)"
proof (induction s arbitrary: a)
  case Nil
  then show ?case by (cases t) (auto simp: js_startsWith_def split: if_splits)
next
  case (Cons c cs)
  show ?case
  proof (cases "js_startsWith sep (c # cs)")
    case True
    then have len: "length sep \<le> length (c # cs)"
      unfolding js_startsWith_def by (metis length_take min.cobounded1)
    then have "take (length sep) ((c # cs) @ t) = take (length sep) (c # cs)"
      unfolding take_append by simp
    with True have "js_startsWith sep (c # cs @ t)" by (simp add: js_startsWith_def)
    moreover have "drop (length sep) (c # cs @ t) = drop (length sep) (c # cs) @ t"
      using len drop_append [of "length sep" "c # cs" t] by simp
    ultimately show ?thesis using True Cons.prems by simp
  next
    case False
    with Cons.prems obtain a' where cut: "cut_at sep cs = Some (a', b)" and a: "a = c # a'" by auto
    have "length sep \<le> length cs" using cut_at_Some [OF cut] by simp
    then have "take (length sep) (c # cs @ t) = take (length sep) (c # cs)" by (simp add: take_Cons')
    with False have "\<not> js_startsWith sep (c # cs @ t)" by (simp add: js_startsWith_def)
    with Cons.IH [OF cut] a show ?thesis by simp
  qed
qed

text \<open>A text without the first character of the separator is passed over.\<close>

lemma cut_at_skip:
  "x \<notin> set p \<Longrightarrow> cut_at (x # sep) (p @ s) = map_option (\<lambda>(a, b). (p @ a, b)) (cut_at (x # sep) s)"
  by (induction p) (auto simp: js_startsWith_def option.map_comp comp_def case_prod_beta' option.map_ident)

lemma cut_at_here: "sep \<noteq> [] \<Longrightarrow> cut_at sep (sep @ s) = Some ([], s)"
  by (cases sep) (auto simp: js_startsWith_def)

lemma cut_at_first: "x \<notin> set p \<Longrightarrow> cut_at (x # sep) (p @ x # sep @ s) = Some (p, s)"
  using cut_at_here [of "x # sep" s] by (simp add: cut_at_skip)

lemma cut_at_absent: "x \<notin> set s \<Longrightarrow> cut_at (x # sep) s = None"
  using cut_at_skip [of x s sep "[]"] by simp

lemma js_indexOf_first: "x \<notin> set p \<Longrightarrow> js_indexOf [x] (p @ x # s) = Some (length p)"
  using cut_at_first [of x p "[]" s] by (simp add: js_indexOf_def)

lemma split_on_cut: "cut_at sep s = Some (a, b) \<Longrightarrow> sep \<noteq> [] \<Longrightarrow> split_on sep s = a # split_on sep b"
  by (subst split_on.simps) simp

lemma split_on_nonempty [simp]: "split_on sep s \<noteq> []"
  by (subst split_on.simps) (simp split: option.splits prod.splits)

lemma js_join_Cons: "xs \<noteq> [] \<Longrightarrow> js_join sep (x # xs) = x @ sep @ js_join sep xs"
  by (cases xs) auto

lemma join_split_on: "js_join sep (split_on sep s) = s"
proof (induction sep s rule: split_on.induct)
  case (1 sep s)
  show ?case
  proof (cases "cut_at sep s = None \<or> sep = []")
    case True
    then show ?thesis by (subst split_on.simps) (auto split: option.splits)
  next
    case False
    then obtain a b where cut: "cut_at sep s = Some (a, b)" "sep \<noteq> []" by auto
    then have "js_join sep (split_on sep b) = b" using "1.IH" [of "(a, b)" a b] by simp
    with cut show ?thesis by (simp add: split_on_cut js_join_Cons cut_at_Some [symmetric])
  qed
qed

lemma split_on_join:
  "ls \<noteq> [] \<Longrightarrow> \<forall>l\<in>set ls. x \<notin> set l \<Longrightarrow> split_on (x # sep) (js_join (x # sep) ls) = ls"
proof (induction ls)
  case (Cons l ls)
  show ?case
  proof (cases "ls = []")
    case True
    with Cons.prems show ?thesis by (subst split_on.simps) (simp add: cut_at_absent)
  next
    case False
    with Cons.prems have "cut_at (x # sep) (js_join (x # sep) (l # ls)) = Some (l, js_join (x # sep) ls)"
      using cut_at_first [of x l sep "js_join (x # sep) ls"] by (simp add: js_join_Cons)
    with False Cons show ?thesis by (simp add: split_on_cut)
  qed
qed simp

section \<open>A request arrives in chunks\<close>

text \<open>The request a buffer starts with, once all of it is there.\<close>

definition frame :: "string \<Rightarrow> string option" where
  "frame buf = (case js_indexOf (CRLF @ CRLF) buf of
       None \<Rightarrow> None
     | Some h \<Rightarrow>
         (let needed = of_nat (h + 4) + getContentLength (take h buf)
          in if of_nat (length buf) < needed then None else Some (take (nat \<lfloor>needed\<rfloor>) buf)))"

lemma on_data_frame:
  "on_data chunk \<lparr>sk_buf = buf, sk_done = False, sk_written = w\<rparr> =
     (case frame (buf @ chunk) of
        None \<Rightarrow> \<lparr>sk_buf = buf @ chunk, sk_done = False, sk_written = w\<rparr>
      | Some raw \<Rightarrow> \<lparr>sk_buf = buf @ chunk, sk_done = True, sk_written = w @ [respond raw]\<rparr>)"
  by (simp add: on_data_def frame_def Let_def split: option.splits)

lemma frame_append:
  assumes "frame s = Some raw"
  shows "frame (s @ t) = Some raw"
proof -
  obtain a b where cut: "cut_at (CRLF @ CRLF) s = Some (a, b)"
    using assms by (auto simp: frame_def js_indexOf_def split: option.splits)
  let ?needed = "of_nat (length a + 4) + getContentLength a"
  have s: "s = a @ CRLF @ CRLF @ b" using cut_at_Some [OF cut] by simp
  then have a: "take (length a) s = a" "take (length a) (s @ t) = a" by simp_all
  have enough: "?needed \<le> of_nat (length s)" and raw: "raw = take (nat \<lfloor>?needed\<rfloor>) s"
    using assms a by (auto simp: frame_def js_indexOf_def cut Let_def split: if_splits)
  have "\<lfloor>?needed\<rfloor> \<le> int (length s)" using floor_mono [OF enough] by simp
  then have "take (nat \<lfloor>?needed\<rfloor>) (s @ t) = raw" using raw by simp
  moreover have "\<not> of_nat (length (s @ t)) < ?needed" using enough by simp
  ultimately show ?thesis
    using a by (simp add: frame_def js_indexOf_def cut_at_append [OF cut] Let_def del: take_append)
qed

lemma on_data_done: "sk_done sk \<Longrightarrow> fold on_data chunks sk = sk"
  by (induction chunks) (simp_all add: on_data_def)

lemma fold_on_data:
  assumes "frame buf = None"
  shows "let sk = fold on_data chunks \<lparr>sk_buf = buf, sk_done = False, sk_written = []\<rparr> in
    sk_done sk = (frame (buf @ concat chunks) \<noteq> None) \<and>
    sk_written sk = map respond (case frame (buf @ concat chunks) of None \<Rightarrow> [] | Some raw \<Rightarrow> [raw])"
  using assms
proof (induction chunks arbitrary: buf)
  case (Cons c chunks)
  show ?case
  proof (cases "frame (buf @ c)")
    case None
    with Cons.IH [OF None] show ?thesis by (simp add: on_data_frame)
  next
    case (Some raw)
    have "frame (buf @ c @ concat chunks) = Some raw"
      using frame_append [OF Some] by simp
    with Some show ?thesis by (simp add: on_data_frame on_data_done)
  qed
qed simp

lemma frame_empty: "frame [] = None"
  by (simp add: frame_def js_indexOf_def CRLF_def)

lemma socket_writes:
  "sk_done (fold on_data chunks fresh_socket) = (frame (concat chunks) \<noteq> None)"
  "sk_written (fold on_data chunks fresh_socket) =
     map respond (case frame (concat chunks) of None \<Rightarrow> [] | Some raw \<Rightarrow> [raw])"
  using fold_on_data [OF frame_empty, of chunks] by (simp_all add: fresh_socket_def Let_def)

text \<open>
  However the network cuts the bytes of a connection into chunks, the handler writes what it
  writes when they come in one piece: nothing while the request is incomplete, else one response.
\<close>
theorem chunking_does_not_matter:
  "let many = fold on_data chunks fresh_socket; one = on_data (concat chunks) fresh_socket in
   sk_done many = sk_done one \<and> sk_written many = sk_written one
   \<and> length (sk_written many) = (if sk_done many then 1 else 0)"
proof -
  have one: "on_data (concat chunks) fresh_socket = fold on_data [concat chunks] fresh_socket" by simp
  show ?thesis
    unfolding Let_def one socket_writes by (simp split: option.splits)
qed


section \<open>A client's request\<close>

text \<open>The bytes a client sends for a request, and the requests they can stand for.\<close>

definition request_lines :: "http_request \<Rightarrow> string list" where
  "request_lines req =
     (hr_method req @ '' '' @ hr_path req @ '' '' @ hr_version req) # map header_line (hr_headers req)"

definition wire_format :: "http_request \<Rightarrow> string" where
  "wire_format req = js_join CRLF (request_lines req) @ CRLF @ CRLF @ hr_body req"

definition wf_word :: "string \<Rightarrow> bool" where
  "wf_word s \<longleftrightarrow> s \<noteq> [] \<and> CHR '' '' \<notin> set s \<and> CHR 0x0D \<notin> set s"

definition wf_header :: "string \<times> string \<Rightarrow> bool" where
  "wf_header kv \<longleftrightarrow> fst kv \<noteq> ''__proto__'' \<and> CHR '':'' \<notin> set (fst kv) \<and> CHR 0x0D \<notin> set (fst kv)
     \<and> js_trim (fst kv) = fst kv \<and> map lower_latin1 (fst kv) = fst kv
     \<and> CHR 0x0D \<notin> set (snd kv) \<and> js_trim (snd kv) = snd kv"

definition wf_request :: "http_request \<Rightarrow> bool" where
  "wf_request req \<longleftrightarrow> wf_word (hr_method req) \<and> wf_word (hr_path req) \<and> wf_word (hr_version req)
     \<and> list_all wf_header (hr_headers req) \<and> distinct (map fst (hr_headers req))"

definition announces_body :: "http_request \<Rightarrow> bool" where
  "announces_body req \<longleftrightarrow> length (hr_body req) < 2 ^ 29
     \<and> (case map_of (hr_headers req) ''content-length'' of
          None \<Rightarrow> hr_body req = []
        | Some v \<Rightarrow> v = show_nat (length (hr_body req)))"

lemma header_index: "wf_header kv \<Longrightarrow> js_indexOf '':'' (header_line kv) = Some (length (fst kv))"
  by (simp add: header_line_def wf_header_def js_indexOf_first)

lemma header_line_ok: "wf_header kv \<Longrightarrow> CHR 0x0D \<notin> set (header_line kv) \<and> header_line kv \<noteq> []"
  by (auto simp: header_line_def wf_header_def)

lemma js_trim_space: "js_trim (CHR '' '' # s) = js_trim s"
  by (simp add: js_trim_def is_ws_def)

lemma header_parts:
  assumes "wf_header kv"
  shows "map lower_latin1 (js_trim (take (length (fst kv)) (header_line kv))) = fst kv"
    "js_trim (drop (Suc (length (fst kv))) (header_line kv)) = snd kv"
  using assms by (simp_all add: header_line_def wf_header_def js_trim_space)

lemma dropWhile_not_nil: "x \<in> set s \<Longrightarrow> \<not> P x \<Longrightarrow> dropWhile P s \<noteq> []"
  by auto

lemma js_trim_not_nil:
  assumes "x \<in> set s" "\<not> is_ws x"
  shows "js_trim s \<noteq> []"
proof -
  have "x \<in> set (dropWhile is_ws s)" using assms
    by (metis UnE set_append set_takeWhileD takeWhile_dropWhile_id)
  then show ?thesis using dropWhile_not_nil [of x "rev (dropWhile is_ws s)" is_ws] assms
    by (simp add: js_trim_def)
qed

lemma parse_header_line:
  assumes "wf_header kv"
  shows "parse_header (header_line kv) m = upsert fst kv m"
proof -
  have "js_trim (header_line kv) \<noteq> []"
    by (rule js_trim_not_nil [of "CHR '':''"]) (simp_all add: header_line_def is_ws_def)
  with assms show ?thesis
    by (simp add: parse_header_def header_index header_parts obj_set_def wf_header_def)
qed

lemma parse_headers:
  assumes "list_all wf_header hs" "distinct (map fst hs)"
  shows "fold parse_header (map header_line hs) [] = hs"
proof -
  have "fold parse_header (map header_line hs) acc = fold (upsert fst) hs acc" for acc
    using assms(1) by (induction hs arbitrary: acc) (simp_all add: parse_header_line)
  then show ?thesis using fold_upsert_distinct [of fst "[]" hs] assms(2) by simp
qed

lemma content_length_of_line:
  assumes "wf_header kv"
  shows "content_length_of (header_line kv # ls) =
    (if fst kv \<noteq> ''content-length'' then content_length_of ls
     else (case js_Number (snd kv) of Fin q \<Rightarrow> if 0 \<le> q then q else 0 | _ \<Rightarrow> 0))"
  unfolding content_length_of.simps header_index [OF assms] option.case add_0_right Suc_eq_plus1 [symmetric]
    header_parts [OF assms] by simp

lemma content_length_of_headers:
  assumes "list_all wf_header hs"
  shows "content_length_of (map header_line hs) =
    (case map_of hs ''content-length'' of
       None \<Rightarrow> 0
     | Some v \<Rightarrow> (case js_Number v of Fin q \<Rightarrow> if 0 \<le> q then q else 0 | _ \<Rightarrow> 0))"
  using assms
proof (induction hs)
  case (Cons kv hs)
  then show ?case
    by (cases kv) (simp add: content_length_of_line del: content_length_of.simps)
qed simp

lemma request_lines_ok:
  assumes "wf_request req"
  shows "\<forall>l\<in>set (request_lines req). CHR 0x0D \<notin> set l" "\<forall>l\<in>set (request_lines req). l \<noteq> []"
  using assms header_line_ok
  by (auto simp: request_lines_def wf_request_def wf_word_def list_all_iff)

lemma cut_at_line_end:
  "y \<noteq> CHR 0x0D \<Longrightarrow> cut_at (CRLF @ CRLF) (CRLF @ y # s) =
     map_option (\<lambda>(a, b). (CRLF @ a, b)) (cut_at (CRLF @ CRLF) (y # s))"
  by (simp add: CRLF_def js_startsWith_def option.map_comp comp_def case_prod_beta')

text \<open>The blank line is where the headers end, whatever the body holds.\<close>

lemma cut_at_blank_line:
  assumes "ls \<noteq> []" "\<forall>l\<in>set ls. CHR 0x0D \<notin> set l" "\<forall>l\<in>set ls. l \<noteq> []"
  shows "cut_at (CRLF @ CRLF) (js_join CRLF ls @ CRLF @ CRLF @ b) = Some (js_join CRLF ls, b)"
  using assms
proof (induction ls)
  case (Cons l ls)
  show ?case
  proof (cases ls)
    case Nil
    with Cons.prems show ?thesis
      using cut_at_first [of "CHR 0x0D" l "[CHR 0x0A, CHR 0x0D, CHR 0x0A]" b] by (simp add: CRLF_def)
  next
    case (Cons l2 ls2)
    let ?sep = "[CHR 0x0A, CHR 0x0D, CHR 0x0A]"
    let ?rest = "js_join CRLF ls @ CRLF @ CRLF @ b"
    have IH: "cut_at (CHR 0x0D # ?sep) ?rest = Some (js_join CRLF ls, b)"
      using Cons.IH Cons.prems Cons by (simp add: CRLF_def)
    obtain y ys where "l2 = y # ys" "y \<noteq> CHR 0x0D"
      using Cons.prems Cons by (cases l2) auto
    moreover from this obtain zs where "?rest = y # zs" using Cons by (cases ls2) auto
    ultimately have "cut_at (CHR 0x0D # ?sep) (CRLF @ ?rest) =
        map_option (\<lambda>(a, b). (CRLF @ a, b)) (cut_at (CHR 0x0D # ?sep) ?rest)"
      using cut_at_line_end [of y zs] by (simp add: CRLF_def)
    then have "cut_at (CHR 0x0D # ?sep) (l @ CRLF @ ?rest) = Some (l @ CRLF @ js_join CRLF ls, b)"
      using IH Cons.prems by (simp add: cut_at_skip)
    then show ?thesis using Cons by (simp add: CRLF_def)
  qed
qed simp

lemma wire_cut:
  "wf_request req \<Longrightarrow>
   cut_at (CRLF @ CRLF) (wire_format req @ rest) = Some (js_join CRLF (request_lines req), hr_body req @ rest)"
  using cut_at_blank_line [of "request_lines req" "hr_body req @ rest"] request_lines_ok [of req]
  by (simp add: wire_format_def request_lines_def)

lemma request_lines_split:
  "wf_request req \<Longrightarrow> split_on CRLF (js_join CRLF (request_lines req)) = request_lines req"
  using split_on_join [of "request_lines req" "CHR 0x0D" "[CHR 0x0A]"] request_lines_ok [of req]
  by (simp add: CRLF_def request_lines_def)

lemma parse_wire_format:
  assumes wf: "wf_request req"
  shows "parseHttpRequest (wire_format req) = Inr req"
proof -
  have parts: "split_on (CRLF @ CRLF) (wire_format req) =
      js_join CRLF (request_lines req) # split_on (CRLF @ CRLF) (hr_body req)"
    using wire_cut [OF wf, of "[]"] by (simp add: split_on_cut CRLF_def)
  have line: "js_split (CHR '' '') (hr_method req @ CHR '' '' # hr_path req @ CHR '' '' # hr_version req) =
      [hr_method req, hr_path req, hr_version req]"
    using wf by (simp add: wf_request_def wf_word_def js_split_append js_split_no_sep)
  have headers: "fold parse_header (map header_line (hr_headers req)) [] = hr_headers req"
    using parse_headers [of "hr_headers req"] wf by (simp add: wf_request_def)
  show ?thesis
    unfolding parseHttpRequest_def Let_def parts list.sel request_lines_split [OF wf] join_split_on
    using wf line headers by (simp add: request_lines_def wf_request_def wf_word_def)
qed

lemma frame_wire_format:
  assumes wf: "wf_request req" and body: "announces_body req"
  shows "frame (wire_format req @ rest) = Some (wire_format req)"
proof -
  let ?h = "js_join CRLF (request_lines req)"
  have idx: "js_indexOf (CRLF @ CRLF) (wire_format req @ rest) = Some (length ?h)"
    using wire_cut [OF wf] by (simp add: js_indexOf_def)
  have h: "take (length ?h) (wire_format req @ rest) = ?h" by (simp add: wire_format_def)
  have "content_length_of (map header_line (hr_headers req)) = of_nat (length (hr_body req))"
    using wf body js_Number_show_nat [of "length (hr_body req)"]
    by (cases "map_of (hr_headers req) ''content-length''")
      (simp_all add: content_length_of_headers wf_request_def announces_body_def del: map_of_eq_Some_iff)
  then have len: "getContentLength ?h = of_nat (length (hr_body req))"
    by (simp add: getContentLength_def request_lines_split [OF wf]) (simp add: request_lines_def)
  have needed: "of_nat (length ?h + 4) + getContentLength ?h = of_nat (length (wire_format req))"
    unfolding len by (simp add: wire_format_def CRLF_def)
  show ?thesis
    unfolding frame_def idx option.case h needed Let_def by simp
qed

text \<open>
  C37. The request a client formats comes back: whatever chunks the network cuts it into and
  whatever follows it, the handler parses exactly that request, its body included, and writes the
  answer of its route once.
\<close>
theorem sent_request_is_handled:
  assumes "wf_request req" "announces_body req" "concat chunks = wire_format req @ rest"
  shows "parseHttpRequest (wire_format req) = Inr req \<and>
    sk_written (fold on_data chunks fresh_socket) = [handleRequest req]"
  using assms by (simp add: socket_writes frame_wire_format parse_wire_format respond_def)

definition sample_request :: http_request where
  "sample_request = \<lparr>hr_method = ''GET'', hr_path = ''/headers'', hr_version = ''HTTP/1.1'',
     hr_headers = [(''host'', ''localhost:3000''), (''content-length'', ''5'')], hr_body = ''hello''\<rparr>"

definition sample_chunks :: "string list" where
  "sample_chunks = [take 7 (wire_format sample_request), take 40 (drop 7 (wire_format sample_request)),
     drop 47 (wire_format sample_request), ''GET / HTTP/1.1'']"

theorem sent_request_is_handled_witness:
  "parseHttpRequest (wire_format sample_request) = Inr sample_request \<and>
    sk_written (fold on_data sample_chunks fresh_socket) = [handleRequest sample_request]"
proof (rule sent_request_is_handled [of sample_request sample_chunks "''GET / HTTP/1.1''"])
  show "wf_request sample_request" by code_simp
  have "show_nat (Suc (Suc (Suc (Suc (Suc 0))))) = ''5''" by code_simp
  then show "announces_body sample_request" by (simp add: announces_body_def sample_request_def)
  show "concat sample_chunks = wire_format sample_request @ ''GET / HTTP/1.1''" by code_simp
qed

end
