(* ===== verification/StableJson.thy ===== *)
theory StableJson
  imports JsValues "HOL-Library.List_Lexorder" "HOL-Library.Char_ord"
begin

text \<open>
  The fingerprint of a request body (\<open>hw-09/src/app.js\<close>, \<open>stableStringify\<close>): a JSON text whose
  objects list their keys in order. The contract admits integers only (\<open>openapi.yaml\<close>), so a
  number is printed as one. The lemmas show that two bodies have one fingerprint exactly when they
  are the same JSON value up to the order of keys.
\<close>

section \<open>\<open>JSON.stringify\<close> of strings and integers\<close>

definition hex_digit :: "nat \<Rightarrow> char" where
  "hex_digit d = char_of (if d < 10 then d + 48 else d + 87)"

definition json_escape :: "char \<Rightarrow> string" where
  "json_escape c =
     (let n = of_char c :: nat in
      if n = 34 \<or> n = 92 then [CHR 0x5C, c]
      else if n = 8 then [CHR 0x5C, CHR ''b'']
      else if n = 9 then [CHR 0x5C, CHR ''t'']
      else if n = 10 then [CHR 0x5C, CHR ''n'']
      else if n = 12 then [CHR 0x5C, CHR ''f'']
      else if n = 13 then [CHR 0x5C, CHR ''r'']
      else if n < 32 then [CHR 0x5C, CHR ''u'', CHR ''0'', CHR ''0'', hex_digit (n div 16), hex_digit (n mod 16)]
      else [c])"

definition json_string :: "string \<Rightarrow> string" where
  "json_string s = [CHR 0x22] @ concat (map json_escape s) @ [CHR 0x22]"

fun json_number :: "jsnum \<Rightarrow> string" where
  "json_number (Fin q) = show_int \<lfloor>q\<rfloor>"
| "json_number _ = ''null''"

section \<open>\<open>stableStringify\<close>\<close>

text \<open>An object keeps the last value of a repeated key; \<open>sort\<close> compares code units.\<close>

fun stableStringify :: "jsval \<Rightarrow> string" where
  "stableStringify (JArr vs) = ''['' @ js_join '','' (map stableStringify vs) @ '']''"
| "stableStringify (JObj kvs) =
     (let props = fold (upsert fst) (map (\<lambda>(k, v). (k, stableStringify v)) kvs) []
      in ''{'' @ js_join '','' (map (\<lambda>(k, s). json_string k @ '':'' @ s) (sort_key fst props)) @ ''}'')"
| "stableStringify (JStr s) = json_string s"
| "stableStringify (JNum n) = json_number n"
| "stableStringify (JBool b) = (if b then ''true'' else ''false'')"
| "stableStringify JNull = ''null''"
| "stableStringify JUndefined = ''undefined''"

section \<open>Bodies\<close>

fun json_body :: "jsval \<Rightarrow> bool" where
  "json_body (JArr vs) = list_all json_body vs"
| "json_body (JObj kvs) = (distinct (map fst kvs) \<and> list_all (\<lambda>(k, v). json_body v) kvs)"
| "json_body (JNum n) = js_isInteger n"
| "json_body JUndefined = False"
| "json_body _ = True"

text \<open>Equality of JSON values, where the keys of an object have no order.\<close>

function json_equal :: "jsval \<Rightarrow> jsval \<Rightarrow> bool" where
  "json_equal (JArr vs) u = (case u of
       JArr ws \<Rightarrow> length vs = length ws \<and> list_all (\<lambda>(v, w). json_equal v w) (zip vs ws)
     | _ \<Rightarrow> False)"
| "json_equal (JObj as) u = (case u of
       JObj bs \<Rightarrow> length as = length bs \<and>
         list_all (\<lambda>(k, v). case map_of bs k of Some w \<Rightarrow> json_equal v w | None \<Rightarrow> False) as
     | _ \<Rightarrow> False)"
| "json_equal (JStr s) u = (u = JStr s)"
| "json_equal (JNum n) u = (u = JNum n)"
| "json_equal (JBool b) u = (u = JBool b)"
| "json_equal JNull u = (u = JNull)"
| "json_equal JUndefined u = (u = JUndefined)"
  by pat_completeness auto
termination
  by (relation "measure (\<lambda>(v, u). size v)")
    (auto dest!: set_zip_leftD simp: less_Suc_eq_le intro: size_list_estimation' trans_le_add1)

section \<open>Strings print injectively\<close>

definition hex_code :: "char \<Rightarrow> nat" where
  "hex_code c = (case hex_val c of Some d \<Rightarrow> d | None \<Rightarrow> 0)"

definition unescape :: "string \<Rightarrow> char \<times> string" where
  "unescape s =
     (if hd s \<noteq> CHR 0x5C then (hd s, tl s)
      else if s ! 1 = CHR ''b'' then (CHR 0x08, drop 2 s)
      else if s ! 1 = CHR ''t'' then (CHR 0x09, drop 2 s)
      else if s ! 1 = CHR ''n'' then (CHR 0x0A, drop 2 s)
      else if s ! 1 = CHR ''f'' then (CHR 0x0C, drop 2 s)
      else if s ! 1 = CHR ''r'' then (CHR 0x0D, drop 2 s)
      else if s ! 1 = CHR ''u'' then (char_of (16 * hex_code (s ! 4) + hex_code (s ! 5)), drop 6 s)
      else (s ! 1, drop 2 s))"

lemma hex_code_digit: "d < 16 \<Longrightarrow> hex_code (hex_digit d) = d"
  by (simp add: hex_code_def hex_digit_def hex_val_def)

lemma unescape_plain: "c \<noteq> CHR 0x5C \<Longrightarrow> unescape (c # s) = (c, s)"
  by (simp add: unescape_def)

lemma nth_simps:
  "(a # b # s) ! 1 = b" "(a # b # c # d # e # f # s) ! 4 = e" "(a # b # c # d # e # f # s) ! 5 = f"
  by (simp_all add: numeral_eq_Suc)

lemma drop_simps: "drop 6 (a # b # c # d # e # f # s) = s"
  by (simp add: numeral_eq_Suc)

lemma unescape_hex:
  assumes "n < 32"
  shows "unescape (CHR 0x5C # CHR ''u'' # CHR ''0'' # CHR ''0'' # hex_digit (n div 16) # hex_digit (n mod 16) # s)
    = (char_of n, s)"
proof -
  have "n div 16 < 16" "n mod 16 < 16" using assms by simp_all
  moreover have "16 * (n div 16) + n mod 16 = n" by simp
  ultimately show ?thesis by (simp only: unescape_def list.sel hex_code_digit nth_simps drop_simps) simp
qed

lemma code_is: "of_char c = (of_char d :: nat) \<Longrightarrow> c = d"
  by (metis char_of_char)

lemma special_codes:
  "of_char c = (34 :: nat) \<Longrightarrow> c = CHR 0x22" "of_char c = (92 :: nat) \<Longrightarrow> c = CHR 0x5C"
  "of_char c = (8 :: nat) \<Longrightarrow> c = CHR 0x08" "of_char c = (9 :: nat) \<Longrightarrow> c = CHR 0x09"
  "of_char c = (10 :: nat) \<Longrightarrow> c = CHR 0x0A" "of_char c = (12 :: nat) \<Longrightarrow> c = CHR 0x0C"
  "of_char c = (13 :: nat) \<Longrightarrow> c = CHR 0x0D"
  by (rule code_is, simp)+

lemma unescape_escape: "unescape (json_escape c @ s) = (c, s)"
proof -
  let ?n = "of_char c :: nat"
  consider "?n = 34" | "?n = 92" | "?n = 8" | "?n = 9" | "?n = 10" | "?n = 12" | "?n = 13"
    | (hex) "?n \<notin> {34, 92, 8, 9, 10, 12, 13}" "?n < 32" | (plain) "?n \<noteq> 34" "?n \<noteq> 92" "\<not> ?n < 32"
    by fastforce
  then show ?thesis
  proof cases
    case hex
    then show ?thesis by (simp add: json_escape_def Let_def unescape_hex)
  next
    case plain
    then have "c \<noteq> CHR 0x5C" by auto
    with plain show ?thesis by (simp add: json_escape_def Let_def unescape_plain)
  qed (auto simp: json_escape_def unescape_def dest!: special_codes)
qed

lemma escape_no_quote: "json_escape c \<noteq> [] \<and> hd (json_escape c) \<noteq> CHR 0x22"
  by (auto simp: json_escape_def Let_def)

lemma quoted_prefix:
  "concat (map json_escape s) @ CHR 0x22 # r = concat (map json_escape t) @ CHR 0x22 # r' \<Longrightarrow> s = t \<and> r = r'"
proof (induction s arbitrary: t)
  case Nil
  then show ?case
  proof (cases t)
    case (Cons d t')
    then show ?thesis using Nil escape_no_quote [of d] by (cases "json_escape d") auto
  qed simp
next
  case (Cons c s)
  show ?case
  proof (cases t)
    case Nil
    then show ?thesis using Cons.prems escape_no_quote [of c] by (cases "json_escape c") auto
  next
    case t: (Cons d t')
    let ?x = "concat (map json_escape s) @ CHR 0x22 # r" and ?y = "concat (map json_escape t') @ CHR 0x22 # r'"
    have "json_escape c @ ?x = json_escape d @ ?y" using Cons.prems t by simp
    then have "(c, ?x) = (d, ?y)" by (metis unescape_escape)
    with Cons.IH t show ?thesis by simp
  qed
qed

lemma json_string_prefix: "json_string s @ r = json_string t @ r' \<Longrightarrow> s = t \<and> r = r'"
  using quoted_prefix [of s r t r'] by (simp add: json_string_def)

section \<open>Values print injectively\<close>

text \<open>What may follow a value inside a text.\<close>

definition delim :: "string \<Rightarrow> bool" where
  "delim s \<longleftrightarrow> s = [] \<or> hd s \<in> {CHR '','', CHR '']'', CHR ''}''}"

lemma delim_Cons [simp]: "delim (c # s) \<longleftrightarrow> c \<in> {CHR '','', CHR '']'', CHR ''}''}"
  by (simp add: delim_def)

definition number_char :: "char \<Rightarrow> bool" where
  "number_char c \<longleftrightarrow> is_digit c \<or> c = CHR ''-''"

lemma delim_no_number: "delim s \<Longrightarrow> takeWhile number_char s = []"
  by (cases s) (auto simp: number_char_def is_digit_def)

lemma show_int_number: "\<forall>c\<in>set (show_int i). number_char c"
  using show_nat_digits [of "nat i"] show_nat_digits [of "nat (- i)"]
  by (auto simp: show_int_def number_char_def list_all_iff)

lemma show_int_head: "\<exists>c s. show_int i = c # s \<and> number_char c"
  using show_int_number [of i] by (cases "show_int i") (auto simp: show_int_def split: if_splits)

lemma show_int_prefix:
  assumes "show_int i @ r = show_int j @ s" "delim r" "delim s"
  shows "i = j \<and> r = s"
proof -
  have "takeWhile number_char (show_int k @ x) = show_int k" if "delim x" for k x
    using show_int_number [of k] delim_no_number [OF that] by (subst takeWhile_append2) auto
  then have "show_int i = show_int j" using assms by metis
  with assms show ?thesis by simp
qed

lemma join_prefix:
  assumes "\<And>x y r s. x \<in> set xs \<Longrightarrow> y \<in> set ys \<Longrightarrow> delim r \<Longrightarrow> delim s \<Longrightarrow> f x @ r = g y @ s \<Longrightarrow> P x y \<and> r = s"
    and "\<And>x. x \<in> set xs \<Longrightarrow> f x \<noteq> [] \<and> hd (f x) \<noteq> c" and "\<And>y. y \<in> set ys \<Longrightarrow> g y \<noteq> [] \<and> hd (g y) \<noteq> c"
    and "c \<in> {CHR '']'', CHR ''}''}"
    and "js_join '','' (map f xs) @ c # r = js_join '','' (map g ys) @ c # s"
  shows "list_all2 P xs ys \<and> r = s"
  using assms
proof (induction xs arbitrary: ys)
  case Nil
  then show ?case
  proof (cases ys)
    case (Cons y ys')
    then obtain d ds where g: "g y = d # ds" "d \<noteq> c" using Nil.prems(3) [of y] by (cases "g y") auto
    then have "hd (js_join '','' (map g ys) @ c # s) = d" using Cons by (cases ys') auto
    with g Nil.prems(5) show ?thesis by (metis append_Nil js_join.simps(1) list.map(1) list.sel(1))
  qed auto
next
  case (Cons x xs)
  then obtain d ds where f: "f x = d # ds" "d \<noteq> c" using Cons.prems(2) [of x] by (cases "f x") auto
  obtain y ys' where ys: "ys = y # ys'"
  proof (cases ys)
    case Nil
    moreover have "hd (js_join '','' (map f (x # xs)) @ c # r) = d" using f by (cases xs) auto
    ultimately show ?thesis using f Cons.prems(5) by (metis append_Nil js_join.simps(1) list.map(1) list.sel(1))
  qed
  let ?tail = "\<lambda>h zs u. if zs = [] then c # u else '','' @ js_join '','' (map h zs) @ c # u"
  have "f x @ ?tail f xs r = js_join '','' (map f (x # xs)) @ c # r" by (cases xs) auto
  moreover have "g y @ ?tail g ys' s = js_join '','' (map g (y # ys')) @ c # s" by (cases ys') auto
  moreover have "delim (?tail f xs r)" "delim (?tail g ys' s)" using Cons.prems(4) by auto
  ultimately have P: "P x y" and tail: "?tail f xs r = ?tail g ys' s"
    using Cons.prems(1) [of x y "?tail f xs r" "?tail g ys' s"] Cons.prems(5) ys by auto
  have c: "c \<noteq> CHR '',''" using Cons.prems(4) by auto
  show ?case
  proof (cases "xs = []")
    case True
    with tail c have "ys' = []" "r = s" by (auto split: if_splits)
    with True P ys show ?thesis by simp
  next
    case False
    with tail c have "js_join '','' (map f xs) @ c # r = js_join '','' (map g ys') @ c # s"
      by (auto split: if_splits)
    then have "list_all2 P xs ys' \<and> r = s"
      using Cons.prems(1-4) ys by (intro Cons.IH) auto
    with P ys show ?thesis by simp
  qed
qed


lemma stable_head:
  "json_body v \<Longrightarrow> stableStringify v \<noteq> [] \<and>
     (case v of
        JArr _ \<Rightarrow> hd (stableStringify v) = CHR ''[''
      | JObj _ \<Rightarrow> hd (stableStringify v) = CHR ''{''
      | JStr _ \<Rightarrow> hd (stableStringify v) = CHR 0x22
      | JNum _ \<Rightarrow> number_char (hd (stableStringify v))
      | JBool b \<Rightarrow> stableStringify v = (if b then ''true'' else ''false'')
      | JNull \<Rightarrow> stableStringify v = ''null''
      | JUndefined \<Rightarrow> False)"
proof (cases v)
  case (JNum n)
  moreover assume "json_body v"
  ultimately obtain q where "n = Fin q" by (cases n) auto
  with JNum show ?thesis using show_int_head [of "\<lfloor>q\<rfloor>"] by auto
qed (auto simp: json_string_def Let_def)

lemma heads_differ:
  "\<not> number_char (CHR ''['')" "\<not> number_char (CHR ''{'')" "\<not> number_char (CHR 0x22)"
  "\<not> number_char (CHR ''t'')" "\<not> number_char (CHR ''f'')" "\<not> number_char (CHR ''n'')"
  "\<not> number_char (CHR '']'')"
  by (simp_all add: number_char_def is_digit_def)

definition body_kind :: "jsval \<Rightarrow> nat" where
  "body_kind v = (case v of JUndefined \<Rightarrow> 0 | JNull \<Rightarrow> 1 | JBool _ \<Rightarrow> 2 | JNum _ \<Rightarrow> 3 | JStr _ \<Rightarrow> 4 | JArr _ \<Rightarrow> 5 | JObj _ \<Rightarrow> 6)"

lemma stable_kind:
  assumes "json_body v" "json_body w" "stableStringify v @ r = stableStringify w @ s"
  shows "body_kind v = body_kind w"
proof -
  have "hd (stableStringify v) = hd (stableStringify w)"
    using assms stable_head [of v] stable_head [of w] by (metis hd_append2)
  then show ?thesis
    using stable_head [OF assms(1)] stable_head [OF assms(2)] heads_differ
    by (cases v; cases w) (auto simp: body_kind_def simp del: stableStringify.simps json_body.simps split: if_splits)
qed

lemma sorted_props:
  assumes "distinct (map fst kvs)"
  shows "sort_key fst (fold (upsert fst) (map (\<lambda>(k, v). (k, f v)) kvs) []) = map (\<lambda>(k, v). (k, f v)) (sort_key fst kvs)"
proof -
  have "map fst (map (\<lambda>(k, v). (k, f v)) kvs) = map fst kvs" by (induction kvs) auto
  with assms have keys: "distinct (map fst (map (\<lambda>(k, v). (k, f v)) kvs))" by (simp only:)
  have "fold (upsert fst) (map (\<lambda>(k, v). (k, f v)) kvs) [] = map (\<lambda>(k, v). (k, f v)) kvs"
    using fold_upsert_distinct [of fst "[]", unfolded append_Nil, OF keys] .
  moreover have insort: "insort_key fst (k, f v) (map (\<lambda>(k, v). (k, f v)) xs) = map (\<lambda>(k, v). (k, f v)) (insort_key fst (k, v) xs)"
    for k v xs
    by (induction xs) auto
  have "sort_key fst (map (\<lambda>(k, v). (k, f v)) xs) = map (\<lambda>(k, v). (k, f v)) (sort_key fst xs)"
    for xs
    by (induction xs) (auto simp: insort)
  ultimately show ?thesis by simp
qed

lemma stable_object:
  "distinct (map fst kvs) \<Longrightarrow>
   stableStringify (JObj kvs) =
     ''{'' @ js_join '','' (map (\<lambda>(k, v). json_string k @ '':'' @ stableStringify v) (sort_key fst kvs)) @ ''}''"
  by (simp only: stableStringify.simps Let_def sorted_props map_map) (simp add: comp_def case_prod_beta')

text \<open>Pairing two objects in the order of their keys is looking each key up.\<close>

lemma sorted_pairs_iff:
  fixes as bs :: "(string \<times> 'a) list"
  assumes as: "distinct (map fst as)" and bs: "distinct (map fst bs)"
  shows "list_all2 (\<lambda>a b. fst a = fst b \<and> P (snd a) (snd b)) (sort_key fst as) (sort_key fst bs) \<longleftrightarrow>
    length as = length bs \<and> list_all (\<lambda>(k, v). case map_of bs k of Some w \<Rightarrow> P v w | None \<Rightarrow> False) as"
  (is "?L \<longleftrightarrow> ?R")
proof
  assume L: ?L
  have "case map_of bs k of Some w \<Rightarrow> P v w | None \<Rightarrow> False" if kv: "(k, v) \<in> set as" for k v
  proof -
    obtain i where i: "i < length (sort_key fst as)" "sort_key fst as ! i = (k, v)"
      using kv in_set_conv_nth [of "(k, v)" "sort_key fst as"] by auto
    have at: "fst (sort_key fst bs ! i) = k" "P v (snd (sort_key fst bs ! i))"
      using list_all2_nthD [OF L i(1)] i(2) by simp_all
    have "sort_key fst bs ! i \<in> set bs"
      using nth_mem [of i "sort_key fst bs"] i list_all2_lengthD [OF L] by simp
    with at have "map_of bs k = Some (snd (sort_key fst bs ! i))"
      using bs by (metis map_of_is_SomeI prod.collapse)
    with at show ?thesis by simp
  qed
  with L show ?R by (auto simp: list_all_iff dest: list_all2_lengthD)
next
  assume R: ?R
  have "set (map fst as) \<subseteq> set (map fst bs)"
    using R by (auto simp: list_all_iff map_of_eq_None_iff image_iff split: option.splits)
  moreover have "card (set (map fst as)) = card (set (map fst bs))"
    unfolding distinct_card [OF as] distinct_card [OF bs] using R by simp
  ultimately have keys: "set (map fst as) = set (map fst bs)" by (simp add: card_subset_eq)
  have sorted: "map fst (sort_key fst as) = map fst (sort_key fst bs)"
    by (rule sorted_distinct_set_unique) (use as bs keys in \<open>simp_all add: distinct_map\<close>)
  have fst: "fst (sort_key fst as ! i) = fst (sort_key fst bs ! i)" if "i < length as" for i
    using arg_cong [OF sorted, of "\<lambda>xs. xs ! i"] that R by simp
  have "P (snd (sort_key fst as ! i)) (snd (sort_key fst bs ! i))" if i: "i < length as" for i
  proof -
    obtain k v where kv: "sort_key fst as ! i = (k, v)" by fastforce
    have "(k, v) \<in> set as" using nth_mem [of i "sort_key fst as"] kv i by simp
    then obtain w where "map_of bs k = Some w" "P v w"
      using R by (auto simp: list_all_iff split: option.splits)
    moreover have "sort_key fst bs ! i \<in> set bs" using nth_mem [of i "sort_key fst bs"] i R by simp
    then have "map_of bs k = Some (snd (sort_key fst bs ! i))"
      using fst [OF i] kv bs by (metis fst_conv map_of_is_SomeI prod.collapse)
    ultimately show ?thesis using kv by simp
  qed
  with fst R show ?L by (simp add: list_all2_conv_all_nth)
qed


lemma stable_prefix:
  "json_body v \<Longrightarrow> json_body w \<Longrightarrow> delim r \<Longrightarrow> delim s \<Longrightarrow>
   stableStringify v @ r = stableStringify w @ s \<Longrightarrow> json_equal v w \<and> r = s"
proof (induction v arbitrary: w r s)
  case JUndefined
  then show ?case by simp
next
  case JNull
  with stable_kind [OF JNull.prems(1,2,5)] show ?case by (cases w) (auto simp: body_kind_def)
next
  case (JBool b)
  with stable_kind [OF JBool.prems(1,2,5)] show ?case by (cases w) (auto simp: body_kind_def split: if_splits)
next
  case (JNum n)
  with stable_kind [OF JNum.prems(1,2,5)] obtain m where w: "w = JNum m" by (cases w) (auto simp: body_kind_def)
  with JNum.prems obtain p q where n: "n = Fin p" "of_int \<lfloor>p\<rfloor> = p" and m: "m = Fin q" "of_int \<lfloor>q\<rfloor> = q"
    by (cases n; cases m) auto
  with JNum.prems w have "\<lfloor>p\<rfloor> = \<lfloor>q\<rfloor> \<and> r = s" by (intro show_int_prefix) simp_all
  with n m w show ?case by (metis json_equal.simps(4))
next
  case (JStr x)
  with stable_kind [OF JStr.prems(1,2,5)] obtain y where "w = JStr y" by (cases w) (auto simp: body_kind_def)
  with JStr.prems(5) json_string_prefix [of x r y s] show ?case by simp
next
  case (JArr vs)
  with stable_kind [OF JArr.prems(1,2,5)] obtain ws where w: "w = JArr ws" by (cases w) (auto simp: body_kind_def)
  have bodies: "\<forall>v\<in>set vs. json_body v" "\<forall>v\<in>set ws. json_body v"
    using JArr.prems w by (simp_all add: list_all_iff)
  have first: "stableStringify v \<noteq> [] \<and> hd (stableStringify v) \<noteq> CHR '']''" if "json_body v" for v
    using stable_head [OF that] heads_differ by (cases v) (auto simp del: stableStringify.simps split: if_splits)
  have "list_all2 json_equal vs ws \<and> r = s"
    by (rule join_prefix [where f = stableStringify and g = stableStringify and c = "CHR '']''"])
      (use JArr bodies first w in auto)
  with w show ?case by (auto simp: list_all2_iff list_all_iff)
next
  case (JObj as)
  with stable_kind [OF JObj.prems(1,2,5)] obtain bs where w: "w = JObj bs" by (cases w) (auto simp: body_kind_def)
  let ?f = "\<lambda>(k, v). json_string k @ '':'' @ stableStringify v"
  have dist: "distinct (map fst as)" "distinct (map fst bs)"
    and bodies: "\<forall>a\<in>set as. json_body (snd a)" "\<forall>b\<in>set bs. json_body (snd b)"
    using JObj.prems w by (auto simp: list_all_iff)
  have "list_all2 (\<lambda>a b. fst a = fst b \<and> json_equal (snd a) (snd b)) (sort_key fst as) (sort_key fst bs) \<and> r = s"
  proof (rule join_prefix [where f = ?f and g = ?f and c = "CHR ''}''"])
    fix a b r' s'
    assume ab: "a \<in> set (sort_key fst as)" "b \<in> set (sort_key fst bs)" "delim r'" "delim s'"
      and eq: "?f a @ r' = ?f b @ s'"
    have "fst a = fst b" and rest: "stableStringify (snd a) @ r' = stableStringify (snd b) @ s'"
      using json_string_prefix [of "fst a" "'':'' @ stableStringify (snd a) @ r'" "fst b" "'':'' @ stableStringify (snd b) @ s'"] eq
      by (auto simp: case_prod_beta')
    moreover have "json_equal (snd a) (snd b) \<and> r' = s'"
      using JObj.IH [of a "snd a" "snd b" r' s'] ab bodies rest by (cases a) auto
    ultimately show "(fst a = fst b \<and> json_equal (snd a) (snd b)) \<and> r' = s'" by simp
  qed (use JObj.prems w dist stable_object in \<open>auto simp: json_string_def\<close>)
  with w show ?case by (simp add: sorted_pairs_iff [OF dist])
qed

lemma json_equal_stable:
  "json_body v \<Longrightarrow> json_body w \<Longrightarrow> json_equal v w \<Longrightarrow> stableStringify v = stableStringify w"
proof (induction v arbitrary: w)
  case (JArr vs)
  then obtain ws where w: "w = JArr ws" and len: "length vs = length ws"
    and eq: "\<forall>(v, u)\<in>set (zip vs ws). json_equal v u" by (auto simp: list_all_iff split: jsval.splits)
  have "map stableStringify vs = map stableStringify ws"
  proof (rule nth_equalityI)
    fix i assume "i < length (map stableStringify vs)"
    then have i: "i < length vs" by simp
    then have "(vs ! i, ws ! i) \<in> set (zip vs ws)" using len by (auto simp: set_zip)
    then have "json_equal (vs ! i) (ws ! i)" using eq by auto
    with i len JArr.prems w show "map stableStringify vs ! i = map stableStringify ws ! i"
      by (simp add: JArr.IH list_all_length)
  qed (simp add: len)
  with w show ?case by simp
next
  case (JObj as)
  then obtain bs where w: "w = JObj bs" by (auto split: jsval.splits)
  have dist: "distinct (map fst as)" "distinct (map fst bs)"
    and bodies: "\<forall>a\<in>set as. json_body (snd a)" "\<forall>b\<in>set bs. json_body (snd b)"
    using JObj.prems w by (auto simp: list_all_iff)
  have "list_all2 (\<lambda>a b. fst a = fst b \<and> json_equal (snd a) (snd b)) (sort_key fst as) (sort_key fst bs)"
    using JObj.prems w by (simp add: sorted_pairs_iff [OF dist])
  then have "list_all2 (\<lambda>a b. (\<lambda>(k, v). json_string k @ '':'' @ stableStringify v) a = (\<lambda>(k, v). json_string k @ '':'' @ stableStringify v) b)
      (sort_key fst as) (sort_key fst bs)"
    by (rule list.rel_mono_strong) (use bodies JObj.IH in \<open>force simp: case_prod_beta'\<close>)
  then have "map (\<lambda>(k, v). json_string k @ '':'' @ stableStringify v) (sort_key fst as) =
      map (\<lambda>(k, v). json_string k @ '':'' @ stableStringify v) (sort_key fst bs)"
    by (simp only: list_all2_conv_all_nth list_eq_iff_nth_eq length_map nth_map) simp
  with w show ?case by (simp only: stable_object dist)
qed auto

lemma fingerprint_iff:
  "json_body v \<Longrightarrow> json_body w \<Longrightarrow> stableStringify v = stableStringify w \<longleftrightarrow> json_equal v w"
  using stable_prefix [of v w "[]" "[]"] json_equal_stable [of v w] by (auto simp: delim_def)

text \<open>
  C36. Two request bodies have one fingerprint exactly when they are the same JSON value up to the
  order of object keys.
\<close>
theorem fingerprint_iff_same_body:
  assumes "json_body v" "json_body w"
  shows "stableStringify v = stableStringify w \<longleftrightarrow> json_equal v w"
  using assms by (rule fingerprint_iff)

definition sample_body :: jsval where
  "sample_body = JObj [(''items'', JArr [JObj [(''quantity'', JNum (Fin 2)), (''product_id'', JNum (Fin 1))]])]"

definition sample_body_reordered :: jsval where
  "sample_body_reordered = JObj [(''items'', JArr [JObj [(''product_id'', JNum (Fin 1)), (''quantity'', JNum (Fin 2))]])]"

theorem fingerprint_iff_same_body_witness:
  "stableStringify sample_body = stableStringify sample_body_reordered \<and>
   sample_body \<noteq> sample_body_reordered"
proof -
  have "json_body sample_body" "json_body sample_body_reordered" "json_equal sample_body sample_body_reordered"
    by (simp_all add: sample_body_def sample_body_reordered_def)
  then have "stableStringify sample_body = stableStringify sample_body_reordered"
    by (simp only: fingerprint_iff_same_body)
  moreover have "sample_body \<noteq> sample_body_reordered"
    by (simp add: sample_body_def sample_body_reordered_def)
  ultimately show ?thesis by simp
qed

end
