(* ===== verification/ContractApi.thy ===== *)
theory ContractApi
  imports StableJson
begin

text \<open>
  The contract-first API (\<open>hw-09/src/app.js\<close>, \<open>hw-09/openapi/openapi.yaml\<close>): products and orders
  kept in memory, pages cut by an opaque cursor, and orders created under an idempotency key.
  The middleware that compares a request with the contract is a library; what it admits is
  \<open>contract_admits\<close>, from the schemas, and the text of its complaint is an argument. A handler's
  answer is its status, its body and the headers it sets.
\<close>

section \<open>\<open>base64url\<close>\<close>

definition b64_char :: "nat \<Rightarrow> char" where
  "b64_char i = ''ABCDEFGHIJKLMNOPQRSTUVWXYZabcdefghijklmnopqrstuvwxyz0123456789-_'' ! i"

text \<open>Decoding takes both alphabets and passes over every other character.\<close>

definition b64_index :: "char \<Rightarrow> nat option" where
  "b64_index c =
     (let n = of_char c :: nat in
      if 65 \<le> n \<and> n \<le> 90 then Some (n - 65)
      else if 97 \<le> n \<and> n \<le> 122 then Some (n - 71)
      else if 48 \<le> n \<and> n \<le> 57 then Some (n + 4)
      else if n = 45 \<or> n = 43 then Some 62
      else if n = 95 \<or> n = 47 then Some 63
      else None)"

fun byte_sextets :: "nat list \<Rightarrow> nat list" where
  "byte_sextets [] = []"
| "byte_sextets [a] = [a div 4, a mod 4 * 16]"
| "byte_sextets [a, b] = [a div 4, a mod 4 * 16 + b div 16, b mod 16 * 4]"
| "byte_sextets (a # b # c # s) =
     a div 4 # (a mod 4 * 16 + b div 16) # (b mod 16 * 4 + c div 64) # c mod 64 # byte_sextets s"

fun sextet_bytes :: "nat list \<Rightarrow> nat list" where
  "sextet_bytes (w # x # y # z # s) =
     (w * 4 + x div 16) # (x mod 16 * 16 + y div 4) # (y mod 4 * 64 + z) # sextet_bytes s"
| "sextet_bytes [w, x, y] = [w * 4 + x div 16, x mod 16 * 16 + y div 4]"
| "sextet_bytes [w, x] = [w * 4 + x div 16]"
| "sextet_bytes _ = []"

definition to_base64url :: "string \<Rightarrow> string" where
  "to_base64url s = map b64_char (byte_sextets (map of_char s))"

definition from_base64url :: "string \<Rightarrow> string" where
  "from_base64url s = map char_of (sextet_bytes (List.map_filter b64_index s))"

lemma b64_alphabet:
  "map b64_index ''ABCDEFGHIJKLMNOPQRSTUVWXYZabcdefghijklmnopqrstuvwxyz0123456789-_'' = map Some [0..<64]"
  by (simp add: b64_index_def upt_conv_Cons)

lemma b64_index_char:
  assumes "i < 64"
  shows "b64_index (b64_char i) = Some i"
  using arg_cong [OF b64_alphabet, of "\<lambda>xs. xs ! i"] assms
  by (subst (asm) nth_map) (simp_all add: b64_char_def)

lemma byte_sextets_bound: "\<forall>a\<in>set bs. a < 256 \<Longrightarrow> \<forall>x\<in>set (byte_sextets bs). x < 64"
  by (induction bs rule: byte_sextets.induct) auto

lemma sextets_roundtrip: "\<forall>a\<in>set bs. a < 256 \<Longrightarrow> sextet_bytes (byte_sextets bs) = bs"
  by (induction bs rule: byte_sextets.induct) auto

lemma base64url_roundtrip: "from_base64url (to_base64url s) = s"
proof -
  have bytes: "\<forall>a\<in>set (map of_char s). a < (256 :: nat)" by auto
  have "List.map_filter b64_index (map b64_char xs) = xs" if "\<forall>x\<in>set xs. x < 64" for xs
    using that by (induction xs) (simp_all add: List.map_filter_simps b64_index_char)
  then show ?thesis
    using byte_sextets_bound [OF bytes] sextets_roundtrip [OF bytes]
    by (simp add: to_base64url_def from_base64url_def)
qed

section \<open>Errors\<close>

record api_error =
  ae_status :: nat
  ae_title :: string
  ae_detail :: string
  ae_type :: string

record problem =
  pr_type :: string
  pr_title :: string
  pr_status :: nat
  pr_detail :: string
  pr_instance :: string

text \<open>An error of the handlers, and one of the middleware: status, message and type, without a title.\<close>

datatype failure = ApiError api_error | OtherError "nat option" "string option" "string option"

definition problemFrom :: "failure \<Rightarrow> string \<Rightarrow> nat \<times> problem" where
  "problemFrom err requestPath = (case err of
       ApiError e \<Rightarrow> (ae_status e, \<lparr>pr_type = ae_type e, pr_title = ae_title e, pr_status = ae_status e,
         pr_detail = ae_detail e, pr_instance = requestPath\<rparr>)
     | OtherError st msg type \<Rightarrow>
         (let status = (case st of None \<Rightarrow> 500 | Some s \<Rightarrow> s); isServerError = (500 \<le> status)
          in (status, \<lparr>
            pr_type = (case type of Some t \<Rightarrow> t
              | None \<Rightarrow> if isServerError then ''https://marketplace.example/problems/internal-server-error''
                  else ''https://marketplace.example/problems/invalid-request''),
            pr_title = (if isServerError then ''Internal Server Error'' else ''Bad Request''),
            pr_status = status,
            pr_detail = (case msg of None \<Rightarrow> ''An unexpected error occurred.'' | Some m \<Rightarrow> m),
            pr_instance = requestPath\<rparr>)))"

section \<open>Pages\<close>

definition encodeCursor :: "nat \<Rightarrow> string" where
  "encodeCursor offset = to_base64url (''offset:'' @ show_nat offset)"

definition invalid_cursor :: api_error where
  "invalid_cursor = \<lparr>ae_status = 400, ae_title = ''Bad Request'',
     ae_detail = ''The cursor is invalid or malformed.'',
     ae_type = ''https://marketplace.example/problems/invalid-cursor''\<rparr>"

text \<open>The digits of \<open>offset:(0|[1-9]\d*)\<close>.\<close>

definition match_offset :: "string \<Rightarrow> string option" where
  "match_offset s =
     (let ds = drop 7 s in
      if take 7 s = ''offset:'' \<and> ds \<noteq> [] \<and> list_all is_digit ds \<and> (ds = ''0'' \<or> hd ds \<noteq> CHR ''0'')
      then Some ds else None)"

definition decodeCursor :: "string option \<Rightarrow> api_error + nat" where
  "decodeCursor cursor = (case cursor of
       None \<Rightarrow> Inr 0
     | Some c \<Rightarrow> (case match_offset (from_base64url c) of
           None \<Rightarrow> Inl invalid_cursor
         | Some ds \<Rightarrow> (case js_Number ds of
               Fin q \<Rightarrow> if encodeCursor (nat \<lfloor>q\<rfloor>) \<noteq> c then Inl invalid_cursor else Inr (nat \<lfloor>q\<rfloor>)
             | _ \<Rightarrow> Inl invalid_cursor)))"

record page_query =
  pq_limit :: "nat option"
  pq_cursor :: "string option"

definition page :: "'a list \<Rightarrow> page_query \<Rightarrow> api_error + ('a list \<times> string option)" where
  "page collection query = (case decodeCursor (pq_cursor query) of
       Inl e \<Rightarrow> Inl e
     | Inr offset \<Rightarrow>
         (let limit = (case pq_limit query of None \<Rightarrow> 20 | Some l \<Rightarrow> l);
              items = take limit (drop offset collection);
              nextOffset = offset + length items
          in Inr (items, if nextOffset < length collection then Some (encodeCursor nextOffset) else None)))"

section \<open>Products and orders\<close>

record api_product =
  ap_id :: nat
  ap_name :: string
  ap_price_cents :: nat

definition products :: "api_product list" where
  "products =
     [\<lparr>ap_id = 1, ap_name = ''Mechanical Keyboard'', ap_price_cents = 12900\<rparr>,
      \<lparr>ap_id = 2, ap_name = ''Wireless Mouse'', ap_price_cents = 5900\<rparr>,
      \<lparr>ap_id = 3, ap_name = ''USB-C Hub'', ap_price_cents = 7900\<rparr>,
      \<lparr>ap_id = 4, ap_name = ''Laptop Stand'', ap_price_cents = 4500\<rparr>,
      \<lparr>ap_id = 5, ap_name = ''Web Camera'', ap_price_cents = 9900\<rparr>]"

record api_item =
  ai_product_id :: nat
  ai_quantity :: nat
  ai_unit_price_cents :: nat
  ai_line_total_cents :: nat

record api_order =
  ao_id :: nat
  ao_items :: "api_item list"
  ao_total_cents :: nat
  ao_created_at :: string

definition initialOrders :: "api_order list" where
  "initialOrders = [\<lparr>ao_id = 1,
     ao_items = [\<lparr>ai_product_id = 2, ai_quantity = 2, ai_unit_price_cents = 5900, ai_line_total_cents = 11800\<rparr>],
     ao_total_cents = 11800, ao_created_at = ''2026-08-01T10:00:00.000Z''\<rparr>]"

record api_state =
  as_orders :: "api_order list"
  as_idempotencyRecords :: "string \<rightharpoonup> string \<times> api_order"

definition createApp :: api_state where
  "createApp = \<lparr>as_orders = initialOrders, as_idempotencyRecords = Map.empty\<rparr>"

text \<open>The request bodies of the schema \<open>CreateOrderRequest\<close>, and the keys of \<open>Idempotency-Key\<close>.\<close>

fun integer_between :: "nat \<Rightarrow> nat option \<Rightarrow> jsval \<Rightarrow> bool" where
  "integer_between lo hi (JNum (Fin q)) =
     (of_int \<lfloor>q\<rfloor> = q \<and> of_nat lo \<le> q \<and> (case hi of None \<Rightarrow> True | Some h \<Rightarrow> q \<le> of_nat h))"
| "integer_between lo hi _ = False"

fun order_item_input :: "jsval \<Rightarrow> bool" where
  "order_item_input (JObj kvs) =
     (distinct (map fst kvs) \<and> set (map fst kvs) = {''product_id'', ''quantity''}
      \<and> integer_between 1 None (js_get ''product_id'' (JObj kvs))
      \<and> integer_between 1 (Some 100) (js_get ''quantity'' (JObj kvs)))"
| "order_item_input _ = False"

fun create_order_request :: "jsval \<Rightarrow> bool" where
  "create_order_request (JObj [(k, JArr items)]) =
     (k = ''items'' \<and> items \<noteq> [] \<and> length items \<le> 100 \<and> list_all order_item_input items)"
| "create_order_request _ = False"

definition contract_admits :: "string \<Rightarrow> jsval \<Rightarrow> bool" where
  "contract_admits key body \<longleftrightarrow> key \<noteq> [] \<and> length key \<le> 255 \<and> create_order_request body"

fun js_nat :: "jsval \<Rightarrow> nat" where
  "js_nat (JNum (Fin q)) = nat \<lfloor>q\<rfloor>"
| "js_nat _ = 0"

definition body_items :: "jsval \<Rightarrow> jsval list" where
  "body_items body = (case js_get ''items'' body of JArr items \<Rightarrow> items | _ \<Rightarrow> [])"

definition product_not_found :: "nat \<Rightarrow> api_error" where
  "product_not_found i = \<lparr>ae_status = 404, ae_title = ''Product Not Found'',
     ae_detail = ''Product '' @ show_nat i @ '' does not exist.'',
     ae_type = ''https://marketplace.example/problems/product-not-found''\<rparr>"

definition order_not_found :: "nat \<Rightarrow> api_error" where
  "order_not_found i = \<lparr>ae_status = 404, ae_title = ''Order Not Found'',
     ae_detail = ''Order '' @ show_nat i @ '' does not exist.'',
     ae_type = ''https://marketplace.example/problems/order-not-found''\<rparr>"

definition idempotency_conflict :: api_error where
  "idempotency_conflict = \<lparr>ae_status = 422, ae_title = ''Idempotency Conflict'',
     ae_detail = ''This Idempotency-Key was already used with a different request body.'',
     ae_type = ''https://marketplace.example/problems/idempotency-conflict''\<rparr>"

fun order_items :: "jsval list \<Rightarrow> api_error + api_item list" where
  "order_items [] = Inr []"
| "order_items (item # items) = (case find (\<lambda>p. ap_id p = js_nat (js_get ''product_id'' item)) products of
       None \<Rightarrow> Inl (product_not_found (js_nat (js_get ''product_id'' item)))
     | Some product \<Rightarrow> (case order_items items of
           Inl e \<Rightarrow> Inl e
         | Inr rest \<Rightarrow> Inr (\<lparr>ai_product_id = ap_id product,
             ai_quantity = js_nat (js_get ''quantity'' item),
             ai_unit_price_cents = ap_price_cents product,
             ai_line_total_cents = ap_price_cents product * js_nat (js_get ''quantity'' item)\<rparr> # rest)))"

record create_answer =
  ca_status :: nat
  ca_location :: string
  ca_replay :: bool
  ca_order :: api_order

definition post_order :: "string \<Rightarrow> string \<Rightarrow> jsval \<Rightarrow> api_state \<Rightarrow> (api_error + create_answer) \<times> api_state" where
  "post_order now key body st =
     (let requestFingerprint = stableStringify body in
      case as_idempotencyRecords st key of
        Some (fingerprint, order) \<Rightarrow>
          (if fingerprint \<noteq> requestFingerprint then (Inl idempotency_conflict, st)
           else (Inr \<lparr>ca_status = 201, ca_location = ''/orders/'' @ show_nat (ao_id order),
                   ca_replay = True, ca_order = order\<rparr>, st))
      | None \<Rightarrow> (case order_items (body_items body) of
            Inl e \<Rightarrow> (Inl e, st)
          | Inr items \<Rightarrow>
              (let order = \<lparr>ao_id = length (as_orders st) + 1, ao_items = items,
                     ao_total_cents = foldl (\<lambda>t i. t + ai_line_total_cents i) 0 items, ao_created_at = now\<rparr>
               in (Inr \<lparr>ca_status = 201, ca_location = ''/orders/'' @ show_nat (ao_id order),
                     ca_replay = False, ca_order = order\<rparr>,
                   st\<lparr>as_orders := as_orders st @ [order],
                      as_idempotencyRecords := (as_idempotencyRecords st)(key \<mapsto> (requestFingerprint, order))\<rparr>))))"

definition get_order :: "nat \<Rightarrow> api_state \<Rightarrow> api_error + api_order" where
  "get_order orderId st = (case find (\<lambda>o'. ao_id o' = orderId) (as_orders st) of
       None \<Rightarrow> Inl (order_not_found orderId) | Some order \<Rightarrow> Inr order)"

definition get_product :: "nat \<Rightarrow> api_error + api_product" where
  "get_product productId = (case find (\<lambda>p. ap_id p = productId) products of
       None \<Rightarrow> Inl (product_not_found productId) | Some product \<Rightarrow> Inr product)"

text \<open>A request as the middleware and the error handler around the route answer it.\<close>

definition serve_post :: "string \<Rightarrow> string \<Rightarrow> string \<Rightarrow> jsval \<Rightarrow> api_state \<Rightarrow> ((nat \<times> problem) + create_answer) \<times> api_state" where
  "serve_post complaint now key body st =
     (if \<not> contract_admits key body then (Inl (problemFrom (OtherError (Some 400) (Some complaint) None) ''/orders''), st)
      else (case post_order now key body st of
          (Inl e, st') \<Rightarrow> (Inl (problemFrom (ApiError e) ''/orders''), st')
        | (Inr a, st') \<Rightarrow> (Inr a, st')))"


section \<open>Pages cover a collection\<close>

lemma show_nat_head: "0 < n \<Longrightarrow> hd (show_nat n) \<noteq> CHR ''0''"
proof (induction n rule: show_nat.induct)
  case (1 n)
  show ?case
  proof (cases "n < 10")
    case True
    then have "of_char (digit_char n) = 48 + n" by (simp add: digit_char_def)
    then have "digit_char n \<noteq> CHR ''0''" using 1(2) by auto
    with True show ?thesis by (simp add: show_nat.simps [of n])
  next
    case False
    with 1 show ?thesis by (simp add: show_nat.simps [of n])
  qed
qed

lemma match_offset_cursor: "match_offset (''offset:'' @ show_nat n) = Some (show_nat n)"
proof -
  have "show_nat n = ''0'' \<or> hd (show_nat n) \<noteq> CHR ''0''"
    using show_nat_head [of n] by (cases "n = 0") (simp_all add: show_nat.simps [of 0] digit_char_def)
  then show ?thesis by (simp add: match_offset_def show_nat_digits)
qed

lemma decode_encode: "n < 2 ^ 64 \<Longrightarrow> decodeCursor (Some (encodeCursor n)) = Inr n"
  using match_offset_cursor [of n]
  by (simp add: decodeCursor_def encodeCursor_def base64url_roundtrip js_Number_show_nat)

lemma decodeCursor_only: "decodeCursor (Some c) = Inr n \<Longrightarrow> c = encodeCursor n"
  by (auto simp: decodeCursor_def split: option.splits jsnum.splits if_splits)

text \<open>The items a client collects that follows \<open>next_cursor\<close> for at most \<open>fuel\<close> pages.\<close>

fun follow :: "nat \<Rightarrow> 'a list \<Rightarrow> nat option \<Rightarrow> string option \<Rightarrow> 'a list option" where
  "follow 0 xs limit cursor = None"
| "follow (Suc fuel) xs limit cursor = (case page xs \<lparr>pq_limit = limit, pq_cursor = cursor\<rparr> of
       Inl _ \<Rightarrow> None
     | Inr (items, None) \<Rightarrow> Some items
     | Inr (items, Some c) \<Rightarrow> map_option (\<lambda>rest. items @ rest) (follow fuel xs limit (Some c)))"

lemma follow_from:
  assumes "length xs < 2 ^ 64" "limit \<noteq> Some 0"
  shows "decodeCursor cursor = Inr offset \<Longrightarrow> length xs - offset < fuel \<Longrightarrow>
    follow fuel xs limit cursor = Some (drop offset xs)"
proof (induction fuel arbitrary: cursor offset)
  case (Suc fuel)
  let ?l = "case limit of None \<Rightarrow> 20 | Some l \<Rightarrow> l"
  let ?items = "take ?l (drop offset xs)" and ?next = "offset + length (take ?l (drop offset xs))"
  have page: "page xs \<lparr>pq_limit = limit, pq_cursor = cursor\<rparr> =
      Inr (?items, if ?next < length xs then Some (encodeCursor ?next) else None)"
    using Suc.prems by (simp add: page_def Let_def)
  have l: "0 < ?l" using assms(2) by (cases limit) auto
  show ?case
  proof (cases "?next < length xs")
    case True
    then have there: "?next = offset + ?l" and "offset < length xs" by auto
    then have "length xs - ?next < fuel" using Suc.prems l by linarith
    moreover have "decodeCursor (Some (encodeCursor ?next)) = Inr ?next"
      using True assms(1) by (intro decode_encode) linarith
    ultimately have "follow fuel xs limit (Some (encodeCursor ?next)) = Some (drop ?next xs)"
      by (rule Suc.IH [rotated])
    moreover have "?items @ drop ?next xs = drop offset xs"
      unfolding there by (metis append_take_drop_id drop_drop add.commute)
    ultimately show ?thesis using True by (simp only: follow.simps page if_True sum.case prod.case option.case option.map)
  next
    case False
    then have "?items = drop offset xs" by auto
    with False show ?thesis by (simp only: follow.simps page if_False sum.case prod.case option.case)
  qed
qed simp

text \<open>Whatever the page size, following the cursors gives the collection, and no other text is a cursor.\<close>

theorem pages_cover_collection:
  assumes "length xs < 2 ^ 64" "limit \<noteq> Some 0"
  shows "follow (Suc (length xs)) xs limit None = Some xs"
  using follow_from [OF assms, of None 0 "Suc (length xs)"] by (simp add: decodeCursor_def)

section \<open>Orders\<close>

type_synonym post_request = "string \<times> string \<times> string \<times> jsval"

definition post_step :: "post_request \<Rightarrow> api_state \<Rightarrow> api_state" where
  "post_step r st = (case r of (complaint, now, key, body) \<Rightarrow> snd (serve_post complaint now key body st))"

definition item_ok :: "api_item \<Rightarrow> bool" where
  "item_ok i \<longleftrightarrow> (\<exists>p\<in>set products. ap_id p = ai_product_id i \<and> ap_price_cents p = ai_unit_price_cents i)
     \<and> 1 \<le> ai_quantity i \<and> ai_quantity i \<le> 100 \<and> ai_line_total_cents i = ai_unit_price_cents i * ai_quantity i"

definition order_ok :: "api_order \<Rightarrow> bool" where
  "order_ok ord \<longleftrightarrow> ao_items ord \<noteq> [] \<and> list_all item_ok (ao_items ord)
     \<and> ao_total_cents ord = sum_list (map ai_line_total_cents (ao_items ord))"

definition api_ok :: "api_state \<Rightarrow> bool" where
  "api_ok st \<longleftrightarrow> map ao_id (as_orders st) = [1..<Suc (length (as_orders st))]
     \<and> list_all order_ok (as_orders st)
     \<and> (\<forall>key r. as_idempotencyRecords st key = Some r \<longrightarrow> snd r \<in> set (as_orders st))
     \<and> (\<forall>key key' r r'. as_idempotencyRecords st key = Some r \<longrightarrow> as_idempotencyRecords st key' = Some r' \<longrightarrow>
          ao_id (snd r) = ao_id (snd r') \<longrightarrow> key = key')"


lemma integer_between_nat:
  "integer_between lo hi v \<Longrightarrow> lo \<le> js_nat v \<and> (case hi of None \<Rightarrow> True | Some h \<Rightarrow> js_nat v \<le> h)"
proof (cases v)
  case (JNum n)
  moreover assume "integer_between lo hi v"
  ultimately obtain q where n: "n = Fin q" "of_int \<lfloor>q\<rfloor> = q" "of_nat lo \<le> q" "case hi of None \<Rightarrow> True | Some h \<Rightarrow> q \<le> of_nat h"
    by (cases n) auto
  have "int lo \<le> \<lfloor>q\<rfloor>" using n(3) by (simp add: le_floor_iff)
  moreover have "\<lfloor>q\<rfloor> \<le> int h" if "q \<le> of_nat h" for h
    using floor_mono [OF that] by simp
  ultimately show ?thesis using JNum n by (auto split: option.splits)
qed auto

lemma order_items_ok:
  "list_all order_item_input items \<Longrightarrow> order_items items = Inr ais \<Longrightarrow>
   list_all item_ok ais \<and> length ais = length items"
proof (induction items arbitrary: ais)
  case (Cons item items)
  from Cons.prems obtain product rest where
    find: "find (\<lambda>p. ap_id p = js_nat (js_get ''product_id'' item)) products = Some product"
    and rest: "order_items items = Inr rest"
    and ais: "ais = \<lparr>ai_product_id = ap_id product, ai_quantity = js_nat (js_get ''quantity'' item),
       ai_unit_price_cents = ap_price_cents product,
       ai_line_total_cents = ap_price_cents product * js_nat (js_get ''quantity'' item)\<rparr> # rest"
    by (auto split: option.splits sum.splits)
  have "integer_between 1 (Some 100) (js_get ''quantity'' item)"
    using Cons.prems by (cases item) auto
  then have "1 \<le> js_nat (js_get ''quantity'' item)" "js_nat (js_get ''quantity'' item) \<le> 100"
    using integer_between_nat by fastforce+
  moreover have "product \<in> set products" using find by (metis find_Some_iff nth_mem)
  ultimately show ?case using Cons rest ais by (auto simp: item_ok_def)
qed simp

lemma admitted_items:
  assumes "create_order_request body"
  shows "body_items body \<noteq> [] \<and> list_all order_item_input (body_items body)"
  using assms by (cases body rule: create_order_request.cases) (simp_all add: body_items_def js_get_def)

lemma order_item_input_body: "order_item_input v \<Longrightarrow> json_body v"
proof (cases v)
  case (JObj kvs)
  moreover assume ok: "order_item_input v"
  moreover have "json_body x" if x: "(k, x) \<in> set kvs" for k x
  proof -
    have "js_get k v = x" using ok JObj x by (simp add: js_get_def map_of_is_SomeI rev_map [symmetric])
    moreover have "k = ''product_id'' \<or> k = ''quantity''"
    proof -
      have "k \<in> set (map fst kvs)" using x by force
      with ok JObj show ?thesis by simp
    qed
    ultimately have "\<exists>lo hi. integer_between lo hi x" using ok JObj by auto
    then show ?thesis by (cases x) (auto elim!: integer_between.elims)
  qed
  ultimately show ?thesis by (auto simp: list_all_iff)
qed auto

lemma admitted_body: "create_order_request body \<Longrightarrow> json_body body"
  by (cases body rule: create_order_request.cases) (auto simp: list_all_iff order_item_input_body)

definition placed_order :: "string \<Rightarrow> api_item list \<Rightarrow> api_state \<Rightarrow> api_order" where
  "placed_order now items st = \<lparr>ao_id = length (as_orders st) + 1, ao_items = items,
     ao_total_cents = foldl (\<lambda>t i. t + ai_line_total_cents i) 0 items, ao_created_at = now\<rparr>"

lemma post_step_eq:
  "post_step (complaint, now, key, body) st =
     (case order_items (body_items body) of
        Inr items \<Rightarrow>
          (if contract_admits key body \<and> as_idempotencyRecords st key = None
           then st\<lparr>as_orders := as_orders st @ [placed_order now items st],
             as_idempotencyRecords := (as_idempotencyRecords st)(key \<mapsto> (stableStringify body, placed_order now items st))\<rparr>
           else st)
      | Inl _ \<Rightarrow> st)"
  by (simp add: post_step_def serve_post_def post_order_def Let_def placed_order_def split: option.splits sum.splits)

lemma post_step_cases:
  obtains (same) "post_step (complaint, now, key, body) st = st"
  | (fresh) items where "contract_admits key body" "as_idempotencyRecords st key = None"
      "order_items (body_items body) = Inr items"
      "post_step (complaint, now, key, body) st =
         st\<lparr>as_orders := as_orders st @ [placed_order now items st],
           as_idempotencyRecords := (as_idempotencyRecords st)(key \<mapsto> (stableStringify body, placed_order now items st))\<rparr>"
proof (cases "order_items (body_items body)")
  case (Inr items)
  then show ?thesis
    using that post_step_eq [of complaint now key body st]
    by (cases "contract_admits key body \<and> as_idempotencyRecords st key = None") auto
qed (use that post_step_eq in auto)

lemma post_step_keeps: "api_ok st \<Longrightarrow> api_ok (post_step r st)"
proof -
  assume ok: "api_ok st"
  obtain complaint now key body where r: "r = (complaint, now, key, body)" by (cases r)
  show ?thesis
  proof (cases rule: post_step_cases [of complaint now key body st])
    case same
    with ok r show ?thesis by simp
  next
    case (fresh items)
    have "list_all item_ok items" "items \<noteq> []"
      using admitted_items [of body] order_items_ok [OF _ fresh(3)] fresh(1)
      by (auto simp: contract_admits_def)
    then have "order_ok (placed_order now items st)" "ao_id (placed_order now items st) = Suc (length (as_orders st))"
      by (simp_all add: order_ok_def foldl_total placed_order_def)
    moreover have small: "ao_id (snd x) \<le> length (as_orders st)" if "as_idempotencyRecords st k = Some x" for k x
    proof -
      have "snd x \<in> set (as_orders st)" using ok that by (cases x) (auto simp: api_ok_def)
      then have "ao_id (snd x) \<in> set [1..<Suc (length (as_orders st))]"
        using ok by (metis api_ok_def image_eqI set_map)
      then show ?thesis by (simp del: upt_Suc)
    qed
    ultimately show ?thesis
      using ok unfolding r fresh(4)
      by (auto simp: api_ok_def dest: small)
  qed
qed

interpretation api: step_machine post_step api_ok
  by unfold_locales (rule post_step_keeps)

lemma createApp_ok: "api_ok createApp"
  by (simp add: api_ok_def createApp_def initialOrders_def order_ok_def item_ok_def products_def)

theorem api_orders_ok: "api_ok (fold post_step rs createApp)"
  by (rule api.run_keeps) (rule createApp_ok)

section \<open>Idempotency\<close>

lemma record_kept:
  "as_idempotencyRecords st key = Some x \<Longrightarrow> as_idempotencyRecords (fold post_step rs st) key = Some x"
proof (induction rs arbitrary: st)
  case (Cons r rs)
  obtain complaint now key' body where r: "r = (complaint, now, key', body)" by (cases r)
  have "as_idempotencyRecords (post_step r st) key = Some x"
    unfolding r by (cases rule: post_step_cases [of complaint now key' body st])
      (use Cons.prems in auto)
  then show ?case using Cons.IH by simp
qed simp

lemma accepted_record:
  assumes "serve_post complaint now key body st = (Inr a, st')"
  shows "contract_admits key body" "ca_location a = ''/orders/'' @ show_nat (ao_id (ca_order a))" "ca_status a = 201"
    "as_idempotencyRecords st' key = Some (stableStringify body, ca_order a)"
  using assms by (auto simp: serve_post_def post_order_def Let_def split: option.splits sum.splits if_splits)

text \<open>
  C35. Once a key has been answered with an order, every later request with the key that the
  contract admits gets the same answer marked as a replay when its body is the same JSON value up
  to the order of keys, and 422 otherwise; neither changes the orders.
\<close>
theorem key_answers_once:
  assumes "serve_post complaint now key body st = (Inr a, st')" "contract_admits key body'"
  shows "serve_post complaint' now' key body' (fold post_step rs st') =
    (if json_equal body body' then Inr (a\<lparr>ca_replay := True\<rparr>)
     else Inl (problemFrom (ApiError idempotency_conflict) ''/orders''), fold post_step rs st')"
proof -
  note first = accepted_record [OF assms(1)]
  have "stableStringify body = stableStringify body' \<longleftrightarrow> json_equal body body'"
    using first(1) assms(2) by (intro fingerprint_iff) (auto simp: contract_admits_def admitted_body)
  then show ?thesis
    using first assms(2) record_kept [OF first(4), of rs]
    by (auto simp: serve_post_def post_order_def Let_def)
qed


definition sample_answer :: "bool \<Rightarrow> create_answer" where
  "sample_answer replay = \<lparr>ca_status = 201, ca_location = ''/orders/'' @ show_nat 2, ca_replay = replay,
     ca_order = \<lparr>ao_id = 2, ao_items = [\<lparr>ai_product_id = 1, ai_quantity = 2, ai_unit_price_cents = 12900,
       ai_line_total_cents = 25800\<rparr>], ao_total_cents = 25800, ao_created_at = ''2026-08-02T10:00:00.000Z''\<rparr>\<rparr>"

lemma sample_first:
  "fst (serve_post ''invalid'' ''2026-08-02T10:00:00.000Z'' ''k'' sample_body createApp) = Inr (sample_answer False)"
proof -
  have items: "order_items (body_items sample_body) = Inr [\<lparr>ai_product_id = 1, ai_quantity = 2,
      ai_unit_price_cents = 12900, ai_line_total_cents = 25800\<rparr>]"
    by (simp add: sample_body_def body_items_def js_get_def products_def)
  have "contract_admits ''k'' sample_body"
    by (auto simp: contract_admits_def sample_body_def js_get_def)
  then show ?thesis
    by (simp add: serve_post_def post_order_def items sample_answer_def createApp_def initialOrders_def
        numeral_2_eq_2 Let_def)
qed

theorem key_answers_once_witness:
  "serve_post ''invalid'' ''2026-08-02T11:00:00.000Z'' ''k'' sample_body_reordered
     (snd (serve_post ''invalid'' ''2026-08-02T10:00:00.000Z'' ''k'' sample_body createApp)) =
   (Inr (sample_answer True), snd (serve_post ''invalid'' ''2026-08-02T10:00:00.000Z'' ''k'' sample_body createApp))"
proof -
  obtain st where first: "serve_post ''invalid'' ''2026-08-02T10:00:00.000Z'' ''k'' sample_body createApp = (Inr (sample_answer False), st)"
    using sample_first by (metis prod.collapse)
  have "json_equal sample_body sample_body_reordered"
    by (simp add: sample_body_def sample_body_reordered_def)
  moreover have "contract_admits ''k'' sample_body_reordered"
    by (auto simp: contract_admits_def sample_body_reordered_def js_get_def)
  moreover have "(sample_answer False)\<lparr>ca_replay := True\<rparr> = sample_answer True"
    by (simp add: sample_answer_def)
  ultimately show ?thesis
    using key_answers_once [OF first, of sample_body_reordered "''invalid''" "''2026-08-02T11:00:00.000Z''" "[]"] first
    by simp
qed

end
