(* ===== verification/FirstConsumer.thy ===== *)
theory FirstConsumer
  imports JsValues
begin

text \<open>
  The first consumer of order events (\<open>hw-19/src/broker/consume.ts\<close>, \<open>effect.ts\<close>): a handler with hooks that says what becomes of a delivery, counts what
  it did, and applies an event once by a row in \<open>processed_events\<close>. \<open>JSON.parse\<close> is a parameter;
  the polling loop of \<open>consumeUntil\<close> and the channel's own failures are left out.
\<close>

section \<open>Effects\<close>

text \<open>The table \<open>processed_events\<close>, as its event ids in the order of insertion.\<close>

definition applyOrderPlacedEffect :: "string \<Rightarrow> string list \<Rightarrow> bool \<times> string list" where
  "applyOrderPlacedEffect eventId rows =
     (if eventId \<in> set rows then (False, rows) else (True, rows @ [eventId]))"

section \<open>Deliveries\<close>

record delivery_msg =
  dm_content :: string
  dm_redelivered :: bool

datatype poison_action = PoisonReject | PoisonRequeue | PoisonAck

datatype settlement = SettledAck | SettledRequeue | SettledDead

text \<open>
  An absent \<open>onPoison\<close> answers \<open>None\<close>; \<open>afterEffect\<close> says whether to requeue, an absent one no.
\<close>

record consume_hooks =
  ch_onPoison :: "delivery_msg \<Rightarrow> poison_action option"
  ch_afterEffect :: "delivery_msg \<Rightarrow> bool \<Rightarrow> bool \<Rightarrow> bool"

record consume_stats =
  cs_delivered :: nat
  cs_effect :: nat
  cs_acked :: nat
  cs_skipped :: nat
  cs_rejected :: nat

definition no_stats :: consume_stats where
  "no_stats = \<lparr>cs_delivered = 0, cs_effect = 0, cs_acked = 0, cs_skipped = 0, cs_rejected = 0\<rparr>"

text \<open>A body that is \<open>null\<close> makes the property access throw, which is caught as the parse error is.\<close>

definition parseEventId :: "(string \<Rightarrow> jsval option) \<Rightarrow> delivery_msg \<Rightarrow> string option" where
  "parseEventId parse msg = (case parse (dm_content msg) of
       None \<Rightarrow> None
     | Some body \<Rightarrow>
         (if js_truthy (js_get ''poison'' body) then None
          else (case js_get ''eventId'' body of
              JStr i \<Rightarrow> if 0 < length i then Some i else None
            | _ \<Rightarrow> None)))"

text \<open>\<open>handle\<close>; \<open>dbFails\<close> says that the insert throws, for which the delivery is dead-lettered.\<close>

definition handle_delivery ::
  "(string \<Rightarrow> jsval option) \<Rightarrow> consume_hooks \<Rightarrow> bool \<Rightarrow> delivery_msg \<Rightarrow> consume_stats \<times> string list
   \<Rightarrow> settlement \<times> consume_stats \<times> string list" where
  "handle_delivery parse opts dbFails msg st =
     (let stats = (fst st)\<lparr>cs_delivered := cs_delivered (fst st) + 1\<rparr>; rows = snd st in
      case parseEventId parse msg of
        None \<Rightarrow> (case ch_onPoison opts msg of
            Some PoisonAck \<Rightarrow> (SettledAck, stats\<lparr>cs_acked := cs_acked stats + 1\<rparr>, rows)
          | Some PoisonRequeue \<Rightarrow> (SettledRequeue, stats, rows)
          | _ \<Rightarrow> (SettledDead, stats\<lparr>cs_rejected := cs_rejected stats + 1\<rparr>, rows))
      | Some eventId \<Rightarrow>
          (if dbFails then (SettledDead, stats, rows)
           else (let (applied, rows') = applyOrderPlacedEffect eventId rows;
                     stats' = (if applied then stats\<lparr>cs_effect := cs_effect stats + 1\<rparr>
                       else stats\<lparr>cs_skipped := cs_skipped stats + 1\<rparr>)
                 in if ch_afterEffect opts msg applied (dm_redelivered msg)
                    then (SettledRequeue, stats', rows')
                    else (SettledAck, stats'\<lparr>cs_acked := cs_acked stats' + 1\<rparr>, rows'))))"

section \<open>Every event is applied once\<close>

definition deliver :: "(string \<Rightarrow> jsval option) \<Rightarrow> consume_hooks \<Rightarrow> bool \<times> delivery_msg
   \<Rightarrow> consume_stats \<times> string list \<Rightarrow> consume_stats \<times> string list" where
  "deliver parse opts d st = snd (handle_delivery parse opts (fst d) (snd d) st)"

definition stats_ok :: "consume_stats \<times> string list \<Rightarrow> bool" where
  "stats_ok st \<longleftrightarrow> distinct (snd st) \<and> cs_effect (fst st) = length (snd st)
     \<and> cs_acked (fst st) + cs_rejected (fst st) \<le> cs_delivered (fst st)
     \<and> cs_effect (fst st) + cs_skipped (fst st) + cs_rejected (fst st) \<le> cs_delivered (fst st)"

lemma deliver_keeps: "stats_ok st \<Longrightarrow> stats_ok (deliver parse opts d st)"
  by (auto simp: stats_ok_def deliver_def handle_delivery_def Let_def applyOrderPlacedEffect_def
      split: option.splits poison_action.splits)

interpretation first_consumer: step_machine "deliver parse opts" stats_ok
  by unfold_locales (rule deliver_keeps)

text \<open>The events a list of deliveries brings that the database took.\<close>

definition events_of :: "(string \<Rightarrow> jsval option) \<Rightarrow> (bool \<times> delivery_msg) list \<Rightarrow> string set" where
  "events_of parse ds = {i. \<exists>m. (False, m) \<in> set ds \<and> parseEventId parse m = Some i}"

lemma deliver_rows:
  "set (snd (deliver parse opts d st)) = set (snd st) \<union> events_of parse [d]"
  by (cases d) (auto simp: events_of_def deliver_def handle_delivery_def Let_def applyOrderPlacedEffect_def
      split: option.splits poison_action.splits)

lemma delivered_rows: "set (snd (fold (deliver parse opts) ds st)) = set (snd st) \<union> events_of parse ds"
proof (induction ds arbitrary: st)
  case (Cons d ds)
  have "events_of parse (d # ds) = events_of parse [d] \<union> events_of parse ds"
    by (auto simp: events_of_def)
  with Cons show ?case by (simp add: deliver_rows Un_assoc)
qed (simp add: events_of_def)

text \<open>
  Whatever is redelivered, whatever the hooks decide and whichever inserts fail: the table holds
  every event that came through once, and \<open>stats.effect\<close> counts exactly those.
\<close>

theorem each_event_applied_once:
  "let (stats, rows) = fold (deliver parse opts) ds (no_stats, []) in
     distinct rows \<and> set rows = events_of parse ds \<and> cs_effect stats = card (events_of parse ds)
     \<and> cs_acked stats + cs_rejected stats \<le> cs_delivered stats"
proof -
  obtain stats rows where run: "fold (deliver parse opts) ds (no_stats, []) = (stats, rows)"
    by (metis surj_pair)
  have "stats_ok (fold (deliver parse opts) ds (no_stats, []))"
    by (rule first_consumer.run_keeps) (simp add: stats_ok_def no_stats_def)
  moreover have "set rows = events_of parse ds"
    using delivered_rows [of parse opts ds "(no_stats, [])"] run by simp
  ultimately show ?thesis
    unfolding run by (simp add: stats_ok_def distinct_card [symmetric])
qed

end
