(* ===== verification/Api.thy ===== *)
theory Api
  imports PlaceOrderProps AuthRuns OrdersProps ProductsProps
begin

text \<open>
  The HTTP surface of the shop: one request goes through the guards, the validation pipes of
  \<open>configure-app.ts\<close> and its handler (\<open>auth/auth.controller.ts\<close>, \<open>auth.dto.ts\<close>,
  \<open>orders/orders.controller.ts\<close>, \<open>orders.gateway.ts\<close>, \<open>products/products.controller.ts\<close>). The handlers are those of
  \<open>AuthService\<close>, \<open>OrdersService\<close> and \<open>Products\<close>; here they are composed, and it is shown that no
  request reads or changes the order of another user. The pipe for path numbers and the test
  for e-mail addresses are library code and parameters.
\<close>

section \<open>Bodies of the identity routes\<close>

definition LoginDto :: "(string \<Rightarrow> bool) \<Rightarrow> (jsnum \<Rightarrow> string) \<Rightarrow> jsval \<Rightarrow> (string \<times> string) option" where
  "LoginDto isEmail numstr body =
     (if \<not> set (js_keys body) \<subseteq> {''email'', ''password''} then None
      else case (dto_string numstr (js_get ''email'' body), dto_string numstr (js_get ''password'' body)) of
          (Some email, Some password) \<Rightarrow>
            if isEmail email \<and> 1 \<le> length password \<and> length password \<le> 200
            then Some (email, password) else None
        | _ \<Rightarrow> None)"

definition RefreshDto :: "(jsnum \<Rightarrow> string) \<Rightarrow> jsval \<Rightarrow> string option" where
  "RefreshDto numstr body =
     (if \<not> set (js_keys body) \<subseteq> {''refresh_token''} then None
      else case dto_string numstr (js_get ''refresh_token'' body) of
          Some t \<Rightarrow> if 20 \<le> length t \<and> length t \<le> 200 then Some t else None
        | None \<Rightarrow> None)"

section \<open>Requests\<close>

datatype route =
    PostLogin jsval
  | PostRefresh jsval
  | PostLogout
  | GetMe
  | GetOrders "nat option" "string option"
  | GetOrder string
  | PatchOrderStatus string jsval
  | PostOrder jsval "string option"
  | GetProducts "nat option" "string option"
  | GetProduct string
  | PostProduct jsval
  | GetOrderEvents string jsval "string option"
  | JoinOrder jsval jsval

text \<open>A request with its time and the random values its handler draws.\<close>

record http_call =
  hc_call :: auth_call
  hc_event_id :: string
  hc_authorization :: "string option"
  hc_route :: route

record 'key api_deps =
  ap_auth :: "'key auth_deps"
  ap_digest :: "jsval \<Rightarrow> string"
  ap_parseInt :: "string \<Rightarrow> int option"
  ap_isEmail :: "string \<Rightarrow> bool"
  ap_numstr :: "jsnum \<Rightarrow> string"

datatype api_answer =
    Tokens token_pair
  | SignedOut
  | Claims string string
  | OrderPage order_page
  | OneOrder order_response
  | Placed create_response
  | ProductPage product_page
  | OneProduct product_item
  | NewProduct product_item
  | EventStream int "order_status_event list"
  | JoinRefused string
  | Room string

text \<open>The routes behind a guard; the event stream and the socket check their token themselves.\<close>

fun guarded :: "route \<Rightarrow> bool" where
  "guarded (PostLogin _) = False"
| "guarded (PostRefresh _) = False"
| "guarded (GetProducts _ _) = False"
| "guarded (GetProduct _) = False"
| "guarded (GetOrderEvents _ _ _) = False"
| "guarded (JoinOrder _ _) = False"
| "guarded _ = True"

definition invalid_body :: exn where "invalid_body = BadRequestException ''Bad Request''"

definition ParseIntPipe :: "'key api_deps \<Rightarrow> string \<Rightarrow> exn + int" where
  "ParseIntPipe d raw = (case ap_parseInt d raw of
       None \<Rightarrow> Inl (BadRequestException ''Validation failed (numeric string is expected)'')
     | Some i \<Rightarrow> Inr i)"

definition on_db :: "('a \<Rightarrow> api_answer) \<Rightarrow> (exn + 'a) \<times> db \<Rightarrow> order_events \<Rightarrow> (exn + api_answer) \<times> shop_state" where
  "on_db f r es = (map_sum id f (fst r), (snd r, es))"

section \<open>The handlers behind their pipes\<close>

definition login_route :: "'key api_deps \<Rightarrow> auth_call \<Rightarrow> jsval \<Rightarrow> shop_state \<Rightarrow> (exn + api_answer) \<times> shop_state" where
  "login_route d c body st = (case LoginDto (ap_isEmail d) (ap_numstr d) body of
       None \<Rightarrow> (Inl invalid_body, st)
     | Some (email, password) \<Rightarrow> on_db Tokens (login (ap_auth d) c email password (fst st)) (snd st))"

definition refresh_route :: "'key api_deps \<Rightarrow> auth_call \<Rightarrow> jsval \<Rightarrow> shop_state \<Rightarrow> (exn + api_answer) \<times> shop_state" where
  "refresh_route d c body st = (case RefreshDto (ap_numstr d) body of
       None \<Rightarrow> (Inl invalid_body, st)
     | Some t \<Rightarrow> on_db Tokens (refresh (ap_auth d) c t (fst st)) (snd st))"

definition logout_route :: "auth_call \<Rightarrow> access_claims \<Rightarrow> shop_state \<Rightarrow> (exn + api_answer) \<times> shop_state" where
  "logout_route c user st = on_db (\<lambda>_. SignedOut) (logout c user (fst st)) (snd st)"

definition me_route :: "access_claims \<Rightarrow> api_answer" where
  "me_route user = Claims (ac_sub user) (ac_role user)"

definition get_order_route :: "'key api_deps \<Rightarrow> string \<Rightarrow> access_claims \<Rightarrow> db \<Rightarrow> exn + api_answer" where
  "get_order_route d raw user s =
     res_bind (ParseIntPipe d raw) (\<lambda>i. map_sum id OneOrder (findOneForViewer i user s))"

definition patch_status_route ::
  "'key api_deps \<Rightarrow> int \<Rightarrow> string \<Rightarrow> jsval \<Rightarrow> access_claims \<Rightarrow> shop_state \<Rightarrow> (exn + api_answer) \<times> shop_state" where
  "patch_status_route d now raw body user st = (case ParseIntPipe d raw of
       Inl e \<Rightarrow> (Inl e, st)
     | Inr i \<Rightarrow> (case UpdateOrderStatusDto body of
         None \<Rightarrow> (Inl invalid_body, st)
       | Some status \<Rightarrow> (case updateStatus now i status user st of
           (r, st') \<Rightarrow> (map_sum id OneOrder r, st'))))"

definition post_order_route ::
  "'key api_deps \<Rightarrow> int \<Rightarrow> string \<Rightarrow> jsval \<Rightarrow> string option \<Rightarrow> access_claims \<Rightarrow> shop_state \<Rightarrow> (exn + api_answer) \<times> shop_state" where
  "post_order_route d now eventId body rawKey user st = (case CreateOrderDto body of
       None \<Rightarrow> (Inl invalid_body, st)
     | Some dto \<Rightarrow> on_db Placed (createOrder (ap_digest d) now eventId dto rawKey user (fst st)) (snd st))"

text \<open>
  The event stream answers with the events it replays, and then passes on those of its order; the
  join answers with the room the socket is in from then on.
\<close>

definition events_route ::
  "'key api_deps \<Rightarrow> int \<Rightarrow> string option \<Rightarrow> string \<Rightarrow> jsval \<Rightarrow> string option \<Rightarrow> shop_state \<Rightarrow> exn + api_answer" where
  "events_route d now authorization raw accessToken lastEventHeader st =
     res_bind (ParseIntPipe d raw) (\<lambda>i.
       case orderEventsStream (ap_auth d) now i authorization accessToken lastEventHeader st of
         Inl e \<Rightarrow> Inl e
       | Inr (SseRefused code msg) \<Rightarrow> Inl (HttpException code msg)
       | Inr (SseStream events) \<Rightarrow> Inr (EventStream i events))"

definition join_route :: "'key api_deps \<Rightarrow> int \<Rightarrow> jsval \<Rightarrow> jsval \<Rightarrow> db \<Rightarrow> exn + api_answer" where
  "join_route d now token body s = (case handleJoin (ap_auth d) now token body s of
       Inl e \<Rightarrow> Inl e
     | Inr (JoinError msg) \<Rightarrow> Inr (JoinRefused msg)
     | Inr (JoinRoom room) \<Rightarrow> Inr (Room room))"

text \<open>The routes behind \<open>AuthGuard\<close>, for the user it let in.\<close>

definition serve_user :: "'key api_deps \<Rightarrow> http_call \<Rightarrow> access_claims \<Rightarrow> shop_state \<Rightarrow> (exn + api_answer) \<times> shop_state" where
  "serve_user d c user st =
     (let now = cl_now (hc_call c) in case hc_route c of
        PostLogout \<Rightarrow> logout_route (hc_call c) user st
      | GetMe \<Rightarrow> (Inr (me_route user), st)
      | GetOrders limit cursor \<Rightarrow> (map_sum id OrderPage (listOrders user limit cursor (fst st)), st)
      | GetOrder raw \<Rightarrow> (get_order_route d raw user (fst st), st)
      | PatchOrderStatus raw body \<Rightarrow> patch_status_route d now raw body user st
      | PostOrder body rawKey \<Rightarrow> post_order_route d now (hc_event_id c) body rawKey user st
      | _ \<Rightarrow> (Inl invalid_body, st))"

definition serve :: "'key api_deps \<Rightarrow> http_call \<Rightarrow> shop_state \<Rightarrow> (exn + api_answer) \<times> shop_state" where
  "serve d c st =
     (let now = cl_now (hc_call c) in case hc_route c of
        PostLogin body \<Rightarrow> login_route d (hc_call c) body st
      | PostRefresh body \<Rightarrow> refresh_route d (hc_call c) body st
      | GetProducts limit cursor \<Rightarrow> (map_sum id ProductPage (listProducts limit cursor (fst st)), st)
      | GetProduct raw \<Rightarrow>
          (res_bind (ParseIntPipe d raw) (\<lambda>i. map_sum id OneProduct (getProduct i (fst st))), st)
      | PostProduct body \<Rightarrow>
          on_db NewProduct (createProduct (ap_auth d) (ap_numstr d) now (hc_authorization c) body (fst st)) (snd st)
      | GetOrderEvents raw accessToken lastEventHeader \<Rightarrow>
          (events_route d now (hc_authorization c) raw accessToken lastEventHeader st, st)
      | JoinOrder token body \<Rightarrow> (join_route d now token body (fst st), st)
      | _ \<Rightarrow> (case AuthGuard (ap_auth d) now (hc_authorization c) (fst st) of
            Inl e \<Rightarrow> (Inl e, st)
          | Inr user \<Rightarrow> serve_user d c user st))"

text \<open>A server working through its requests.\<close>

fun serve_all :: "'key api_deps \<Rightarrow> http_call list \<Rightarrow> shop_state \<Rightarrow> (exn + api_answer) list \<times> shop_state" where
  "serve_all d [] st = ([], st)"
| "serve_all d (c # cs) st =
     (let (a, st1) = serve d c st; (as, st2) = serve_all d cs st1 in (a # as, st2))"

section \<open>What a request leaves alone\<close>

text \<open>The tables of the shop, which the identity routes do not touch.\<close>

definition same_shop :: "db \<Rightarrow> db \<Rightarrow> bool" where
  "same_shop s s' \<longleftrightarrow> t_users s' = t_users s \<and> t_products s' = t_products s \<and> t_orders s' = t_orders s
     \<and> t_order_items s' = t_order_items s \<and> t_idempotency s' = t_idempotency s \<and> t_jobs s' = t_jobs s
     \<and> t_outbox s' = t_outbox s \<and> sequences s' = sequences s"

lemma same_shop_ok: "same_shop s s' \<Longrightarrow> shop_ok s \<Longrightarrow> shop_ok s'"
  by (simp add: same_shop_def shop_ok_defs)

lemma same_shop_refl [simp]: "same_shop s s"
  by (simp add: same_shop_def)

lemma same_shop_trans: "same_shop s t \<Longrightarrow> same_shop t u \<Longrightarrow> same_shop s u"
  by (simp add: same_shop_def)

lemma same_shop_sweep: "same_shop s (sweepExpired l now s)"
  by (simp add: same_shop_def sweepExpired_def)

lemma same_shop_revoke: "same_shop s (revokeFamily now fid s)"
  by (simp add: same_shop_def revokeFamily_def)

lemma same_shop_mark: "same_shop s (mark_used now h s)"
  by (simp add: same_shop_def mark_used_def)

lemma same_shop_deny: "same_shop s (snd (deny_jti claims s))"
  by (simp add: same_shop_def deny_jti_def split: sum.splits)

lemma same_shop_insert: "same_shop s (snd (insertPair d c uid role fid s))"
  by (cases "insertPair d c uid role fid s")
    (auto simp: same_shop_def insertPair_def db_bind_def insert_refresh_def db_return_def split: if_splits)

lemma same_shop_transaction:
  assumes "same_shop s (snd (body s))"
  shows "same_shop s (snd (transaction body s))"
  using assms by (auto simp: transaction_def same_shop_def rollback_def split: prod.splits sum.splits)

lemma same_shop_login: "same_shop s (snd (login d c email password s))"
proof -
  have "same_shop s (snd (issuePair d c uid role fid s))" for uid role fid
    unfolding issuePair_def
    by (rule same_shop_transaction) (rule same_shop_trans [OF same_shop_sweep same_shop_insert])
  then show ?thesis by (simp add: login_def Let_def split: list.splits sum.splits option.splits)
qed

lemma same_shop_refresh: "same_shop s (snd (refresh d c token s))"
proof -
  have pair: "same_shop s (snd (db_bind (insertPair d c uid role fid) (\<lambda>p. db_return (RefreshOk p)) (mark_used now h s)))"
    for uid role fid now h
    using same_shop_trans [OF same_shop_mark [of s now h] same_shop_insert [of _ d c uid role fid]]
    by (auto simp: db_bind_def db_return_def split: prod.splits sum.splits)
  have "same_shop s (snd (refresh_tx d c (token_hash d token) s))"
    using pair same_shop_revoke
    by (simp add: refresh_tx_def split: list.splits)
  then have "same_shop s (snd (transaction (refresh_tx d c (token_hash d token)) s))"
    by (rule same_shop_transaction)
  then show ?thesis by (auto simp: refresh_def split: prod.splits sum.splits refresh_outcome.splits)
qed

lemma same_shop_logout: "same_shop s (snd (logout c claims s))"
  unfolding logout_def
proof (rule same_shop_transaction)
  have "same_shop s (snd (deny_jti claims (revokeFamily (cl_now c) (ac_fid claims) s)))"
    by (rule same_shop_trans [OF same_shop_revoke same_shop_deny])
  then show "same_shop s (snd (db_bind (deny_jti claims) (\<lambda>_ s. (Inr (), sweepExpired (cl_locked c) (cl_now c) s))
      (revokeFamily (cl_now c) (ac_fid claims) s)))"
    by (auto simp: db_bind_def split: prod.splits sum.splits
        intro: same_shop_trans [OF _ same_shop_sweep])
qed

lemma map_sum_Inr: "map_sum f g r = Inr y \<Longrightarrow> \<exists>x. r = Inr x \<and> y = g x"
  by (cases r) auto

section \<open>The orders of a user\<close>

definition order_view :: "int \<Rightarrow> db \<Rightarrow> (order_row \<times> order_item_row list) list" where
  "order_view u s =
     map (\<lambda>ord. (ord, items_of_order s ord)) (filter (\<lambda>ord. or_user_id ord = u) (t_orders s))"

definition own :: "int \<Rightarrow> db \<Rightarrow> int set" where
  "own u s = or_id ` {ord \<in> set (t_orders s). or_user_id ord = u}"

lemma own_order_view: "own u s = (or_id \<circ> fst) ` set (order_view u s)"
  by (force simp: own_def order_view_def)

lemma order_view_same:
  "t_orders s' = t_orders s \<Longrightarrow> t_order_items s' = t_order_items s \<Longrightarrow> order_view u s' = order_view u s"
  by (simp add: order_view_def items_of_order_def)

text \<open>
  The orders an answer tells of: those in its body, and the order whose events a stream or a
  room passes on.
\<close>

fun shown :: "api_answer \<Rightarrow> int set" where
  "shown (OrderPage p) = rs_id ` set (op_items p)"
| "shown (OneOrder r) = {rs_id r}"
| "shown (Placed r) = {rs_id (cr_body r)}"
| "shown (EventStream i events) = insert i (oe_order_id ` set events)"
| "shown (Room room) = {i. room = ''orders:'' @ show_int i}"
| "shown _ = {}"

text \<open>
  What a record of an Idempotency-Key stands for: the request of the user whose order it names,
  with that order in its body.
\<close>

definition keys_ok :: "(jsval \<Rightarrow> string) \<Rightarrow> place_order_input set \<Rightarrow> db \<Rightarrow> bool" where
  "keys_ok digest R s \<longleftrightarrow> (\<forall>r\<in>set (t_idempotency s). \<exists>input\<in>R.
     ik_request_hash r = hashRequest digest input \<and> rs_id (ik_response_body r) = ik_order_id r
     \<and> (\<forall>ord\<in>set (t_orders s). or_id ord = ik_order_id r \<longrightarrow> bigint_in (pi_user_id input) = Inr (or_user_id ord)))"

lemma keys_ok_same:
  assumes "t_idempotency s' = t_idempotency s"
    and "\<forall>o'\<in>set (t_orders s'). \<exists>ord\<in>set (t_orders s). or_id ord = or_id o' \<and> or_user_id ord = or_user_id o'"
    and "keys_ok digest R s"
  shows "keys_ok digest R s'"
  unfolding keys_ok_def assms(1)
proof
  fix r assume "r \<in> set (t_idempotency s)"
  then obtain input where "input \<in> R" "ik_request_hash r = hashRequest digest input" "rs_id (ik_response_body r) = ik_order_id r"
    "\<forall>ord\<in>set (t_orders s). or_id ord = ik_order_id r \<longrightarrow> bigint_in (pi_user_id input) = Inr (or_user_id ord)"
    using assms(3) unfolding keys_ok_def by blast
  with assms(2) show "\<exists>input\<in>R. ik_request_hash r = hashRequest digest input \<and> rs_id (ik_response_body r) = ik_order_id r
    \<and> (\<forall>ord\<in>set (t_orders s'). or_id ord = ik_order_id r \<longrightarrow> bigint_in (pi_user_id input) = Inr (or_user_id ord))"
    by (metis (no_types))
qed

section \<open>Placing an order\<close>

lemma placeOrder_alone_cases:
  assumes ok: "shop_ok s" and p: "placeOrder_alone digest now eid input s = (r, s')"
  obtains (kept) "same_tables s s'"
      and "\<And>res. r = Inr res \<Longrightarrow> lookup_replay (given_key input) (hashRequest digest input) s = Inr (Some res)"
    | (placed) "s' = placed_db now eid (hashRequest digest input) input s"
      and "orderable eid (hashRequest digest input) input s"
      and "r = Inr \<lparr>pos_status = 201, pos_body = toResponseBody (placed_order_of now input s), pos_replayed = False\<rparr>"
  using p [unfolded placeOrder_alone_def]
proof (cases rule: placeOrder_cases)
  case before
  then show ?thesis using kept by (cases r) auto
next
  case committed
  then obtain res where r: "r = Inr res" by (cases r) auto
  with committed have "placeOrder_tx now eid no_hook (hashRequest digest input) input s = (Inr res, s')"
    by (auto dest: transaction_InrD)
  then show ?thesis using placed r by (simp add: placeOrder_tx_iff [OF ok])
next
  case (rolled_back e)
  then show ?thesis using kept by (auto dest: transaction_Inl)
next
  case (replayed t)
  then have same: "same_tables s s'" by (auto dest: transaction_Inl)
  then have "lookup_replay k h s' = lookup_replay k h s" for k h
    by (auto simp: lookup_replay_def findReplay_def split: option.splits)
  with replayed same show ?thesis using kept by (cases r) auto
qed

lemma placed_others:
  assumes ok: "shop_ok s" and user: "bigint_in (pi_user_id input) \<noteq> Inr u"
    and o: "orderable eid h input s"
  shows "order_view u (placed_db now eid h input s) = order_view u s"
proof -
  let ?s' = "placed_db now eid h input s"
  obtain v where v: "bigint_in (pi_user_id input) = Inr v" using o by (auto simp: orderable_iff)
  have orders: "filter (\<lambda>ord. or_user_id ord = u) (t_orders ?s') = filter (\<lambda>ord. or_user_id ord = u) (t_orders s)"
    using user v by (simp add: placed_db_def Let_def order_row_of_def)
  have "items_of_order ?s' ord = items_of_order s ord" if "ord \<in> set (t_orders s)" for ord
  proof -
    have "or_id ord < sq_orders (sequences s)" using ok that by (simp add: shop_ok_defs)
    then have "filter (\<lambda>i. oi_order_id i = or_id ord) (item_rows iid (sq_orders (sequences s)) ls) = []" for iid ls
      by (induction ls arbitrary: iid) auto
    then show ?thesis by (simp add: items_of_order_def placed_db_def Let_def)
  qed
  then show ?thesis unfolding order_view_def orders by simp
qed

lemma placed_keys:
  assumes ok: "shop_ok s" and keys: "keys_ok digest R s" and R: "input \<in> R" and o: "orderable eid (hashRequest digest input) input s"
  shows "keys_ok digest R (placed_db now eid (hashRequest digest input) input s)"
proof -
  have fresh: "ik_order_id r < sq_orders (sequences s)" if "r \<in> set (t_idempotency s)" for r
    using ok that by (auto simp: shop_ok_defs)
  have below: "or_id ord < sq_orders (sequences s)" if "ord \<in> set (t_orders s)" for ord
    using ok that by (simp add: shop_ok_defs)
  obtain v where v: "bigint_in (pi_user_id input) = Inr v" using o by (auto simp: orderable_iff)
  show ?thesis
    unfolding keys_ok_def
  proof
    fix r assume "r \<in> set (t_idempotency (placed_db now eid (hashRequest digest input) input s))"
    then consider (old) "r \<in> set (t_idempotency s)"
      | (new) k where "r = idempotency_row_of now k (hashRequest digest input) (placed_order_of now input s)"
      by (auto simp: placed_db_def Let_def split: option.splits)
    then show "\<exists>input'\<in>R. ik_request_hash r = hashRequest digest input' \<and> rs_id (ik_response_body r) = ik_order_id r
      \<and> (\<forall>ord\<in>set (t_orders (placed_db now eid (hashRequest digest input) input s)).
          or_id ord = ik_order_id r \<longrightarrow> bigint_in (pi_user_id input') = Inr (or_user_id ord))"
    proof cases
      case old
      then obtain input' where "input' \<in> R" "ik_request_hash r = hashRequest digest input'" "rs_id (ik_response_body r) = ik_order_id r"
        "\<forall>ord\<in>set (t_orders s). or_id ord = ik_order_id r \<longrightarrow> bigint_in (pi_user_id input') = Inr (or_user_id ord)"
        using keys unfolding keys_ok_def by blast
      with fresh [OF old] show ?thesis
        by (intro bexI [of _ input']) (simp_all add: placed_db_def Let_def order_row_of_def)
    next
      case (new k)
      then show ?thesis
        using v R
        by (intro bexI [of _ input])
          (auto dest!: below simp: placed_db_def Let_def order_row_of_def idempotency_row_of_def toResponseBody_def placed_order_of_def)
    qed
  qed
qed

text \<open>No two of the requests made by different users have one digest.\<close>

definition collision_free :: "(jsval \<Rightarrow> string) \<Rightarrow> place_order_input set \<Rightarrow> bool" where
  "collision_free digest R \<longleftrightarrow> (\<forall>a\<in>R. \<forall>b\<in>R. hashRequest digest a = hashRequest digest b \<longrightarrow> pi_user_id a = pi_user_id b)"

text \<open>A replay answers with an order of the user who asks.\<close>

lemma replay_is_own:
  assumes ok: "shop_ok s" and keys: "keys_ok digest R s" and inj: "collision_free digest R" and R: "input \<in> R"
    and user: "bigint_in (pi_user_id input) \<noteq> Inr u"
    and found: "lookup_replay (given_key input) (hashRequest digest input) s = Inr (Some res)"
  shows "rs_id (pos_body res) \<notin> own u s"
proof
  assume "rs_id (pos_body res) \<in> own u s"
  then obtain ord where ord: "ord \<in> set (t_orders s)" "or_user_id ord = u" "or_id ord = rs_id (pos_body res)"
    by (auto simp: own_def)
  from found obtain k r rest where "filter (\<lambda>r. ik_key r = k) (t_idempotency s) = r # rest"
    and r: "ik_request_hash r = hashRequest digest input" "pos_body res = ik_response_body r"
    by (auto simp: lookup_replay_def findReplay_def split: option.splits list.splits if_splits)
  then have "r \<in> set (t_idempotency s)" by (metis filter_is_subset list.set_intros(1) subsetD)
  then obtain input' where input': "input' \<in> R" "ik_request_hash r = hashRequest digest input'"
    "rs_id (ik_response_body r) = ik_order_id r"
    "\<forall>ord\<in>set (t_orders s). or_id ord = ik_order_id r \<longrightarrow> bigint_in (pi_user_id input') = Inr (or_user_id ord)"
    using keys unfolding keys_ok_def by blast
  with ord r have "bigint_in (pi_user_id input') = Inr u" by metis
  moreover have "pi_user_id input' = pi_user_id input"
    using inj R input'(1,2) r(1) unfolding collision_free_def by metis
  ultimately show False using user by simp
qed


section \<open>One request of another user\<close>

definition private_ok :: "(jsval \<Rightarrow> string) \<Rightarrow> place_order_input set \<Rightarrow> db \<Rightarrow> bool" where
  "private_ok digest R s \<longleftrightarrow> shop_ok s \<and> keys_ok digest R s"

text \<open>What holds of a request of which user \<open>u\<close> notices nothing.\<close>

definition unnoticed :: "(jsval \<Rightarrow> string) \<Rightarrow> place_order_input set \<Rightarrow> int \<Rightarrow> shop_state \<Rightarrow> (exn + api_answer) \<times> shop_state \<Rightarrow> bool" where
  "unnoticed digest R u st res \<longleftrightarrow> private_ok digest R (fst (snd res)) \<and> order_view u (fst (snd res)) = order_view u (fst st)
     \<and> (case fst res of Inl _ \<Rightarrow> True | Inr a \<Rightarrow> shown a \<inter> own u (fst st) = {})"

lemma unnoticed_refl:
  "private_ok digest R (fst st) \<Longrightarrow> (\<And>a. r = Inr a \<Longrightarrow> shown a \<inter> own u (fst st) = {}) \<Longrightarrow> unnoticed digest R u st (r, st)"
  by (simp add: unnoticed_def split: sum.split)

lemma unnoticed_error: "private_ok digest R (fst st) \<Longrightarrow> unnoticed digest R u st (Inl e, st)"
  by (simp add: unnoticed_def)

lemma keys_ok_cong: "t_idempotency s' = t_idempotency s \<Longrightarrow> t_orders s' = t_orders s \<Longrightarrow> keys_ok digest R s' = keys_ok digest R s"
  by (simp add: keys_ok_def)

lemma private_ok_same_shop:
  assumes "same_shop s s'" "private_ok digest R s"
  shows "private_ok digest R s'"
  using assms same_shop_ok [OF assms(1)] keys_ok_cong [of s' s digest R] by (simp add: private_ok_def same_shop_def)

lemma private_ok_distinct: "private_ok digest R s \<Longrightarrow> distinct (map or_id (t_orders s))"
  by (simp add: private_ok_def shop_ok_def orders_ok_def)

lemma unnoticed_on_db:
  assumes "private_ok digest R (fst st)" "same_shop (fst st) (snd r)" "\<And>x. shown (f x) = {}"
  shows "unnoticed digest R u st (on_db f r (snd st))"
proof -
  have "private_ok digest R (snd r)" by (rule private_ok_same_shop [OF assms(2,1)])
  moreover have "order_view u (snd r) = order_view u (fst st)"
    by (rule order_view_same) (use assms(2) in \<open>simp_all add: same_shop_def\<close>)
  ultimately show ?thesis
    using assms(3) by (cases "fst r") (simp_all add: unnoticed_def on_db_def)
qed

lemma private_ok_same_tables:
  assumes "same_tables s s'" "seqs_le (sequences s) (sequences s')" "private_ok digest R s"
  shows "private_ok digest R s'"
proof -
  have "s' = s\<lparr>sequences := sequences s'\<rparr>" using assms(1) by (simp add: same_tables_def)
  then have "shop_ok s'" using shop_ok_seqs [of s "sequences s'"] assms(2,3) by (simp add: private_ok_def)
  moreover have "keys_ok digest R s'"
    by (rule keys_ok_same [of s' s]) (use assms same_tablesD [OF assms(1)] in \<open>auto simp: private_ok_def\<close>)
  ultimately show ?thesis by (simp add: private_ok_def)
qed

lemma private_ok_new_product:
  assumes ok: "private_ok digest R s" and id: "pr_id row = sq_products (sequences s)" and "product_check row"
  shows "private_ok digest R (s\<lparr>sequences := (sequences s)\<lparr>sq_products := sq_products (sequences s) + 1\<rparr>,
    t_products := t_products s @ [row]\<rparr>)" (is "private_ok digest R ?s'")
proof -
  have "products_ok ?s'"
    using assms by (fastforce simp: private_ok_def shop_ok_def products_ok_def)
  moreover have "order_items_ok ?s'"
    using ok by (simp add: private_ok_def shop_ok_def order_items_ok_def)
  ultimately show ?thesis
    using ok by (simp add: private_ok_def shop_ok_def users_ok_def orders_ok_def idempotency_ok_def
        jobs_ok_def outbox_ok_def keys_ok_def)
qed

lemma product_create_shop:
  assumes ok: "private_ok digest R s"
  shows "private_ok digest R (snd (product_create now dto s))"
    "order_view u (snd (product_create now dto s)) = order_view u s"
proof -
  have "private_ok digest R (s\<lparr>sequences := (sequences s)\<lparr>sq_products := sq_products (sequences s) + 1\<rparr>\<rparr>)"
    by (rule private_ok_same_tables [OF _ _ ok]) (simp_all add: same_tables_def seqs_le_def)
  then show "private_ok digest R (snd (product_create now dto s))"
    using ok private_ok_new_product [OF ok] by (simp add: product_create_def Let_def)
  show "order_view u (snd (product_create now dto s)) = order_view u s"
    by (rule order_view_same) (simp_all add: product_create_def Let_def)
qed

lemma createProduct_shop:
  assumes ok: "private_ok digest R s"
  shows "private_ok digest R (snd (createProduct d numstr now authorization body s))"
    "order_view u (snd (createProduct d numstr now authorization body s)) = order_view u s"
  using ok product_create_shop [OF ok]
  by (simp_all add: createProduct_def split: sum.split option.split)

definition stranger :: "int \<Rightarrow> access_claims \<Rightarrow> bool" where
  "stranger u user \<longleftrightarrow> \<not> is_admin user \<and> ac_sub user \<noteq> show_int u \<and> bigint_in (ac_sub user) \<noteq> Inr u"

lemma own_member: "ord \<in> set (t_orders s) \<Longrightarrow> or_user_id ord \<noteq> u \<Longrightarrow> distinct (map or_id (t_orders s)) \<Longrightarrow> or_id ord \<notin> own u s"
  by (auto simp: own_def dest: distinct_map_unique)

lemma list_unnoticed:
  assumes ok: "private_ok digest R s" and user: "stranger u user" and a: "listOrders user limit cursor s = Inr p"
  shows "rs_id ` set (op_items p) \<inter> own u s = {}"
proof -
  let ?n = "case limit of Some n \<Rightarrow> n | None \<Rightarrow> 20"
  obtain owner after where o: "owner_filter user = Inr owner" and c: "cursor_filter cursor = Inr after"
    using a by (auto simp: listOrders_def findAllForViewer_def res_bind_Inr_iff)
  have p: "set (op_items p) \<subseteq> toResponse s ` set (select_orders owner after (Suc ?n) s)"
    using a by (auto simp: listOrders_def findAllForViewer_def o c Let_def split: if_splits dest!: in_set_takeD)
  obtain v where v: "owner = Some v" "bigint_in (ac_sub user) = Inr v"
    using o user by (auto simp: owner_filter_def stranger_def res_bind_Inr_iff)
  have "or_user_id ord = v \<and> ord \<in> set (t_orders s)" if "ord \<in> set (select_orders owner after n s)" for ord n
    using that v by (auto simp: select_orders_def dest: in_set_takeD)
  moreover have "v \<noteq> u" using v user by (auto simp: stranger_def)
  moreover note private_ok_distinct [OF ok]
  ultimately have "rs_id r \<notin> own u s" if "r \<in> set (op_items p)" for r
    using p that own_member by (fastforce simp: toResponse_def)
  then show ?thesis by auto
qed

lemma get_unnoticed:
  assumes ok: "private_ok digest R s" and user: "stranger u user" and a: "findOneForViewer i user s = Inr r"
  shows "rs_id r \<notin> own u s"
proof -
  obtain ord where ord: "find_order i s = Inr (Some ord)" "show_int (or_user_id ord) = ac_sub user" "r = toResponse s ord"
    using a user by (auto simp: findOneForViewer_def res_bind_Inr_iff stranger_def split: option.splits if_splits)
  have "or_user_id ord \<noteq> u" using ord user by (auto simp: stranger_def)
  with find_order_Some [OF ord(1)] have "or_id ord \<notin> own u s"
    using private_ok_distinct [OF ok] by (intro own_member) auto
  then show ?thesis by (simp add: ord(3) toResponse_def)
qed

lemma set_status_private_ok:
  assumes "private_ok digest R s"
  shows "private_ok digest R (set_status i status s)"
proof -
  have "shop_ok (set_status i status s)" unfolding set_status_def
    by (rule shop_ok_map_orders) (use assms in \<open>auto simp: private_ok_def order_check_def\<close>)
  moreover have "keys_ok digest R (set_status i status s)"
    by (rule keys_ok_same [of _ s]) (use assms in \<open>auto simp: private_ok_def set_status_def\<close>)
  ultimately show ?thesis by (simp add: private_ok_def)
qed

lemma updateStatus_private_ok:
  assumes "private_ok digest R (fst st)"
  shows "private_ok digest R (fst (snd (updateStatus now i status user st)))"
  using assms set_status_private_ok [OF assms]
  by (simp add: updateStatus_def Let_def split: sum.split prod.split)

lemma patch_unnoticed:
  assumes ok: "private_ok digest R (fst st)" and user: "stranger u user"
  shows "unnoticed digest R u st (case updateStatus now i status user st of (r, st') \<Rightarrow> (map_sum id OneOrder r, st'))"
proof (cases "fst (updateStatus now i status user st)")
  case (Inl e)
  then have "snd (updateStatus now i status user st) = st"
    by (auto simp: updateStatus_def Let_def split: sum.splits if_splits prod.splits)
  with Inl show ?thesis using ok by (auto simp: case_prod_beta' intro: unnoticed_refl)
next
  case (Inr r)
  then obtain ord where ord: "find_order i (fst st) = Inr (Some ord)" "show_int (or_user_id ord) = ac_sub user"
    using user by (auto simp: updateStatus_def findEntity_def res_bind_Inr_iff stranger_def Let_def
        split: sum.splits if_splits option.splits prod.splits)
  let ?s = "fst st" and ?s' = "set_status (or_id ord) status (fst st)"
  note found = find_order_Some [OF ord(1)]
  have other: "or_user_id ord \<noteq> u" using ord user by (auto simp: stranger_def)
  have d: "distinct (map or_id (t_orders ?s))" by (rule private_ok_distinct [OF ok])
  have run: "fst (snd (updateStatus now i status user st)) = ?s'" "rs_id r = or_id ord"
    using Inr ord
    by (auto simp: updateStatus_def findEntity_def Let_def toResponse_def dest!: filter_eq_ConsD
        split: sum.splits if_splits prod.splits list.splits)
  have "private_ok digest R ?s'" by (rule set_status_private_ok [OF ok])
  moreover have "order_view u ?s' = order_view u ?s"
  proof -
    let ?f = "\<lambda>x. if or_id x = or_id ord then x\<lparr>or_status := status\<rparr> else x"
    have "?f x = x" if "x \<in> set (t_orders ?s)" "or_user_id x = u" for x
      using that found other d by (auto dest: distinct_map_unique)
    moreover have "or_user_id (?f x) = or_user_id x" for x by simp
    ultimately have "filter (\<lambda>x. or_user_id x = u) (map ?f (t_orders ?s)) = filter (\<lambda>x. or_user_id x = u) (t_orders ?s)"
      by (induction "t_orders ?s" rule: list.induct) (auto simp: filter_map comp_def intro!: map_idI)
    then show ?thesis by (simp add: order_view_def set_status_def items_of_order_def)
  qed
  moreover have "or_id ord \<notin> own u ?s" using found other d by (intro own_member) auto
  ultimately show ?thesis using Inr run
    by (simp add: unnoticed_def case_prod_beta')
qed


lemma placeOrder_private_ok:
  assumes ok: "private_ok digest R s" and R: "input \<in> R" and p: "placeOrder_alone digest now eid input s = (r, s')"
  shows "private_ok digest R s'"
proof -
  have shop: "shop_ok s" and keys: "keys_ok digest R s" using ok by (simp_all add: private_ok_def)
  have "keys_ok digest R s'"
  proof (cases rule: placeOrder_alone_cases [OF shop p])
    case 1
    show ?thesis by (rule keys_ok_same [of s' s]) (use keys same_tablesD [OF 1(1)] in auto)
  next
    case 2
    with placed_keys [OF shop keys R 2(2)] show ?thesis by simp
  qed
  with placeOrder_alone_keeps [OF shop p] show ?thesis by (simp add: private_ok_def)
qed

lemma post_unnoticed:
  assumes ok: "private_ok (ap_digest d) R (fst st)" and inj: "collision_free (ap_digest d) R" and user: "stranger u user"
    and R: "\<And>dto. CreateOrderDto body = Some dto \<Longrightarrow> create_input dto (ac_sub user) (header_key rawKey) ''US'' \<in> R"
  shows "unnoticed (ap_digest d) R u st (post_order_route d now eid body rawKey user st)"
proof (cases "CreateOrderDto body")
  case None
  with ok show ?thesis by (auto simp: post_order_route_def intro: unnoticed_refl)
next
  case (Some dto)
  let ?digest = "ap_digest d" and ?s = "fst st" and ?key = "header_key rawKey"
  let ?input = "create_input dto (ac_sub user) ?key ''US''"
  have who: "bigint_in (pi_user_id ?input) \<noteq> Inr u" using user by (simp add: create_input_def stranger_def)
  show ?thesis
  proof (cases "?key \<noteq> None \<and> 255 < length (the ?key)")
    case True
    with Some ok have "post_order_route d now eid body rawKey user st =
        (Inl (BadRequestException ''Idempotency-Key must be at most 255 characters''), st)"
      by (auto simp: post_order_route_def createOrder_def on_db_def Let_def)
    with ok show ?thesis by (auto intro: unnoticed_refl)
  next
    case False
    obtain r s' where p: "placeOrder_alone ?digest now eid ?input ?s = (r, s')" by fastforce
    have res: "fst (snd (post_order_route d now eid body rawKey user st)) = s'"
      "fst (post_order_route d now eid body rawKey user st) = map_sum id (\<lambda>r. Placed \<lparr>cr_status = pos_status r,
         cr_location = ''/orders/'' @ show_int (rs_id (pos_body r)), cr_replayed = pos_replayed r, cr_body = pos_body r\<rparr>) r"
      using Some False p by (auto simp: post_order_route_def createOrder_def on_db_def Let_def split: sum.splits)
    have shop: "shop_ok ?s" and keys: "keys_ok ?digest R ?s" using ok by (simp_all add: private_ok_def)
    have input: "?input \<in> R" by (rule R [OF Some])
    note kept_ok = placeOrder_private_ok [OF ok input p]
    show ?thesis
    proof (cases rule: placeOrder_alone_cases [OF shop p])
      case 1: 1
      note kept = 1
      have "order_view u s' = order_view u ?s"
        using same_tablesD [OF kept(1)] by (intro order_view_same) auto
      then show ?thesis
        using res kept_ok replay_is_own [OF shop keys inj input who kept(2)]
        by (cases r) (simp_all add: unnoticed_def)
    next
      case 2: 2
      note placed = 2
      have "or_id ord < sq_orders (sequences ?s)" if "ord \<in> set (t_orders ?s)" for ord
        using shop that by (simp add: shop_ok_def orders_ok_def)
      then have "sq_orders (sequences ?s) \<notin> own u ?s" by (force simp: own_def)
      with placed res kept_ok placed_others [OF shop who placed(2)]
      show ?thesis
        by (simp add: unnoticed_def toResponseBody_def placed_order_of_def Let_def)
    qed
  qed
qed

text \<open>The order a request asks for.\<close>

definition order_inputs :: "http_call \<Rightarrow> access_claims \<Rightarrow> place_order_input set" where
  "order_inputs c user = (case hc_route c of
       PostOrder body rawKey \<Rightarrow> (case CreateOrderDto body of
           Some dto \<Rightarrow> {create_input dto (ac_sub user) (header_key rawKey) ''US''} | None \<Rightarrow> {})
     | _ \<Rightarrow> {})"

lemma serve_user_unnoticed:
  assumes ok: "private_ok (ap_digest d) R (fst st)" and inj: "collision_free (ap_digest d) R" and user: "stranger u user"
    and R: "order_inputs c user \<subseteq> R"
  shows "unnoticed (ap_digest d) R u st (serve_user d c user st)"
proof (cases "hc_route c")
  case PostLogout
  have "same_shop (fst st) (snd (logout (hc_call c) user (fst st)))" by (rule same_shop_logout)
  with ok show ?thesis unfolding serve_user_def Let_def PostLogout route.case logout_route_def
    by (rule unnoticed_on_db) simp
next
  case (GetOrders limit cursor)
  have "shown a \<inter> own u (fst st) = {}" if a: "map_sum id OrderPage (listOrders user limit cursor (fst st)) = Inr a" for a
  proof -
    obtain p where "listOrders user limit cursor (fst st) = Inr p" "a = OrderPage p"
      using map_sum_Inr [OF a] by blast
    with list_unnoticed [OF ok user] show ?thesis by simp
  qed
  with ok GetOrders show ?thesis by (simp add: serve_user_def unnoticed_refl)
next
  case (GetOrder raw)
  with ok get_unnoticed [OF ok user] show ?thesis
    by (auto simp: serve_user_def get_order_route_def res_bind_Inr_iff intro!: unnoticed_refl dest!: map_sum_Inr)
next
  case (PatchOrderStatus raw body)
  with ok patch_unnoticed [OF ok user] show ?thesis
    by (simp add: serve_user_def patch_status_route_def unnoticed_error [OF ok] split: sum.split option.split)
next
  case (PostOrder body rawKey)
  with R post_unnoticed [OF ok inj user, of body rawKey] show ?thesis
    by (simp add: serve_user_def Let_def order_inputs_def split: option.splits)
next
  case GetMe
  with ok show ?thesis by (auto simp: serve_user_def me_route_def intro: unnoticed_refl)
qed (use ok in \<open>simp_all add: serve_user_def unnoticed_error\<close>)

section \<open>The events of an order\<close>

text \<open>The buffer of an order holds events of that order.\<close>

definition buffers_ok :: "order_events \<Rightarrow> bool" where
  "buffers_ok es \<longleftrightarrow> (\<forall>i. \<forall>e\<in>set (buffer_of es i). oe_order_id e = i)"

lemma buffers_ok_publish: "buffers_ok es \<Longrightarrow> buffers_ok (snd (publish now i status es))"
proof -
  assume ok: "buffers_ok es"
  let ?es = "snd (publish now i status es)"
  let ?ev = "fst (publish now i status es)"
  have tl: "set (tl xs) \<subseteq> set xs" for xs :: "'a list" by (cases xs) auto
  have "set (buffer_of ?es x) \<subseteq> set (buffer_of es x) \<union> (if x = i then {?ev} else {})" for x
  proof (cases "x = i")
    case True
    define p where "p = buffer_of es i @ [?ev]"
    have "buffer_of ?es i = (if BUFFER_LIMIT < length p then tl p else p)"
      by (simp add: p_def publish_def Let_def buffer_of_def)
    then have "set (buffer_of ?es i) \<subseteq> set p" using tl [of p] by simp
    with True show ?thesis by (auto simp: p_def)
  next
    case False
    then show ?thesis by (simp add: publish_def Let_def buffer_of_def)
  qed
  moreover have "oe_order_id ?ev = i" by (simp add: publish_def Let_def)
  ultimately show ?thesis using ok by (fastforce simp: buffers_ok_def split: if_splits)
qed

lemma serve_buffers_ok:
  assumes "buffers_ok (snd st)"
  shows "buffers_ok (snd (snd (serve d c st)))"
proof -
  have up: "buffers_ok (snd (snd (updateStatus now i status user st)))" for now i status user
    using assms buffers_ok_publish [OF assms]
    by (simp add: updateStatus_def Let_def case_prod_beta' split: sum.split)
  show ?thesis
    using assms up
    by (cases "hc_route c")
      (simp_all add: serve_def serve_user_def login_route_def refresh_route_def logout_route_def on_db_def
        patch_status_route_def post_order_route_def Let_def case_prod_beta' split: sum.split option.split)
qed

lemma requireOwner_unnoticed:
  assumes ok: "private_ok digest R s" and user: "stranger u user"
    and o: "requireOwner i (Some (ac_sub user)) s = Inr ord"
  shows "i \<notin> own u s"
proof -
  have ord: "find_order i s = Inr (Some ord)" "show_int (or_user_id ord) = ac_sub user"
    using o by (auto simp: requireOwner_def findEntity_def res_bind_Inr_iff split: if_splits option.splits)
  have "or_user_id ord \<noteq> u" using ord user by (auto simp: stranger_def)
  with find_order_Some [OF ord(1)] private_ok_distinct [OF ok] show ?thesis
    using own_member by blast
qed

lemma events_unnoticed:
  assumes ok: "private_ok digest R (fst st)" and b: "buffers_ok (snd st)"
    and who: "\<And>user. authenticate (ap_auth d) now (sseToken authorization accessToken) (fst st) = Inr user
      \<Longrightarrow> stranger u user"
    and a: "events_route d now authorization raw accessToken lastEventHeader st = Inr a"
  shows "shown a \<inter> own u (fst st) = {}"
proof -
  obtain i where "(case orderEventsStream (ap_auth d) now i authorization accessToken lastEventHeader st of
       Inl e \<Rightarrow> Inl e | Inr (SseRefused code msg) \<Rightarrow> Inl (HttpException code msg)
     | Inr (SseStream events) \<Rightarrow> Inr (EventStream i events)) = Inr a"
    using a by (auto simp: events_route_def res_bind_Inr_iff)
  then obtain events where i: "orderEventsStream (ap_auth d) now i authorization accessToken lastEventHeader st
        = Inr (SseStream events)" "a = EventStream i events"
    by (auto split: sum.splits sse_answer.splits)
  then obtain user ord where "authenticate (ap_auth d) now (sseToken authorization accessToken) (fst st) = Inr user"
      "requireOwner i (Some (ac_sub user)) (fst st) = Inr ord"
      and ev: "events = replay_on_open lastEventHeader i (snd st)"
    by (auto simp: orderEventsStream_def res_bind_Inr_iff split: sum.splits exn.splits)
  with requireOwner_unnoticed [OF ok who] have "i \<notin> own u (fst st)" by blast
  moreover have "oe_order_id e = i" if "e \<in> set events" for e
    using that b by (auto simp: ev replay_on_open_def historyAfter_def buffers_ok_def Let_def
        split: option.splits if_splits)
  ultimately show ?thesis using i(2) by auto
qed

lemma join_unnoticed:
  assumes ok: "private_ok digest R s"
    and who: "\<And>user. authenticate (ap_auth d) now (case token of JStr t \<Rightarrow> Some t | _ \<Rightarrow> None) s = Inr user
      \<Longrightarrow> stranger u user"
    and a: "join_route d now token body s = Inr a"
  shows "shown a \<inter> own u s = {}"
proof (cases a)
  case (Room room)
  let ?i = "js_int (js_toNumber (js_get ''orderId'' body))"
  let ?auth = "authenticate (ap_auth d) now (case token of JStr t \<Rightarrow> Some t | _ \<Rightarrow> None) s"
  have j: "handleJoin (ap_auth d) now token body s = Inr (JoinRoom room)"
    using a Room by (auto simp: join_route_def split: sum.splits join_answer.splits)
  then obtain ord where "res_bind ?auth (\<lambda>user. requireOwner ?i (Some (ac_sub user)) s) = Inr ord"
      and room: "room = ''orders:'' @ show_int ?i"
    by (auto simp: handleJoin_def Let_def split: sum.splits exn.splits if_splits)
  then obtain user where "?auth = Inr user" "requireOwner ?i (Some (ac_sub user)) s = Inr ord"
    by (auto simp: res_bind_Inr_iff)
  with requireOwner_unnoticed [OF ok who] have "?i \<notin> own u s" by blast
  with room Room show ?thesis by simp
qed (use a in \<open>auto simp: join_route_def split: sum.splits join_answer.splits\<close>)

section \<open>The server\<close>

text \<open>
  Who a request is from, by the token the server takes of it (the bearer header, for the event
  stream also the query, for a join the handshake), in the state it finds.
\<close>

definition requester :: "'key api_deps \<Rightarrow> http_call \<Rightarrow> db \<Rightarrow> exn + access_claims" where
  "requester d c s = (let now = cl_now (hc_call c) in case hc_route c of
       GetOrderEvents raw accessToken lastEventHeader \<Rightarrow>
         authenticate (ap_auth d) now (sseToken (hc_authorization c) accessToken) s
     | JoinOrder token body \<Rightarrow>
         authenticate (ap_auth d) now (case token of JStr t \<Rightarrow> Some t | _ \<Rightarrow> None) s
     | _ \<Rightarrow> AuthGuard (ap_auth d) now (hc_authorization c) s)"

definition from_stranger :: "'key api_deps \<Rightarrow> place_order_input set \<Rightarrow> int \<Rightarrow> http_call \<Rightarrow> shop_state \<Rightarrow> bool" where
  "from_stranger d R u c st = (case requester d c (fst st) of
       Inl _ \<Rightarrow> True | Inr user \<Rightarrow> stranger u user \<and> order_inputs c user \<subseteq> R)"

fun from_strangers :: "'key api_deps \<Rightarrow> place_order_input set \<Rightarrow> int \<Rightarrow> http_call list \<Rightarrow> shop_state \<Rightarrow> bool" where
  "from_strangers d R u [] st = True"
| "from_strangers d R u (c # cs) st = (from_stranger d R u c st \<and> from_strangers d R u cs (snd (serve d c st)))"

lemma serve_unnoticed:
  assumes ok: "private_ok (ap_digest d) R (fst st)" and inj: "collision_free (ap_digest d) R" and c: "from_stranger d R u c st"
    and b: "buffers_ok (snd st)"
  shows "unnoticed (ap_digest d) R u st (serve d c st)"
proof (cases "hc_route c")
  case (PostLogin body)
  have "unnoticed (ap_digest d) R u st (on_db Tokens (login (ap_auth d) (hc_call c) e p (fst st)) (snd st))" for e p
    by (rule unnoticed_on_db [OF ok same_shop_login]) simp
  with PostLogin ok show ?thesis
    by (simp add: serve_def login_route_def unnoticed_error [OF ok] split: option.split prod.split)
next
  case (PostRefresh body)
  have "unnoticed (ap_digest d) R u st (on_db Tokens (refresh (ap_auth d) (hc_call c) t (fst st)) (snd st))" for t
    by (rule unnoticed_on_db [OF ok same_shop_refresh]) simp
  with PostRefresh ok show ?thesis
    by (simp add: serve_def refresh_route_def unnoticed_error [OF ok] split: option.split)
next
  case (GetProducts limit cursor)
  with ok show ?thesis
    by (auto simp: serve_def intro!: unnoticed_refl dest!: map_sum_Inr)
next
  case (GetProduct raw)
  with ok show ?thesis
    by (auto simp: serve_def res_bind_Inr_iff intro!: unnoticed_refl dest!: map_sum_Inr)
next
  case (PostProduct body)
  show ?thesis
    using PostProduct
    by (cases "fst (createProduct (ap_auth d) (ap_numstr d) (cl_now (hc_call c)) (hc_authorization c) body (fst st))")
      (simp_all add: serve_def unnoticed_def on_db_def Let_def createProduct_shop [OF ok])
next
  case (GetOrderEvents raw accessToken lastEventHeader)
  have "shown a \<inter> own u (fst st) = {}"
    if "events_route d (cl_now (hc_call c)) (hc_authorization c) raw accessToken lastEventHeader st = Inr a" for a
    by (rule events_unnoticed [OF ok b _ that]) (use c GetOrderEvents in \<open>simp add: from_stranger_def requester_def Let_def\<close>)
  with GetOrderEvents ok show ?thesis by (simp add: serve_def unnoticed_refl)
next
  case (JoinOrder token body)
  have "shown a \<inter> own u (fst st) = {}"
    if "join_route d (cl_now (hc_call c)) token body (fst st) = Inr a" for a
    by (rule join_unnoticed [OF ok _ that]) (use c JoinOrder in \<open>simp add: from_stranger_def requester_def Let_def\<close>)
  with JoinOrder ok show ?thesis by (simp add: serve_def unnoticed_refl)
qed (use ok c serve_user_unnoticed [OF ok inj] in
    \<open>auto simp: serve_def from_stranger_def requester_def intro!: unnoticed_refl split: sum.splits\<close>)

lemma serve_all_unnoticed:
  assumes "collision_free (ap_digest d) R"
  shows "private_ok (ap_digest d) R (fst st) \<Longrightarrow> from_strangers d R u cs st \<Longrightarrow> serve_all d cs st = (as, st') \<Longrightarrow>
    buffers_ok (snd st) \<Longrightarrow>
    order_view u (fst st') = order_view u (fst st)
    \<and> (\<forall>a\<in>set as. \<forall>x. a = Inr x \<longrightarrow> shown x \<inter> own u (fst st) = {})"
proof (induction cs arbitrary: st as)
  case (Cons c cs)
  obtain a st1 where one: "serve d c st = (a, st1)" by (rule prod.exhaust)
  obtain as1 where rest: "serve_all d cs st1 = (as1, st')" and as: "as = a # as1"
    using Cons.prems(3) one by (auto split: prod.splits)
  have step: "unnoticed (ap_digest d) R u st (a, st1)"
    using serve_unnoticed [OF Cons.prems(1) assms, of u c] Cons.prems(2,4) one by simp
  have "buffers_ok (snd st1)" using serve_buffers_ok [OF Cons.prems(4), of d c] one by simp
  with step have kept: "private_ok (ap_digest d) R (fst st1)" "buffers_ok (snd st1)"
    by (simp_all add: unnoticed_def)
  from step have "own u (fst st1) = own u (fst st)" by (simp add: unnoticed_def own_order_view)
  with step kept Cons.IH [of st1 as1] Cons.prems(2) one rest as show ?case
    by (auto simp: unnoticed_def)
qed simp


text \<open>
  The invariant the privacy of orders rests on is kept by every request, whoever makes it, whose
  order is among \<open>R\<close>.
\<close>

lemma serve_private_ok:
  assumes ok: "private_ok (ap_digest d) R (fst st)"
    and R: "\<And>user. AuthGuard (ap_auth d) (cl_now (hc_call c)) (hc_authorization c) (fst st) = Inr user \<Longrightarrow> order_inputs c user \<subseteq> R"
  shows "private_ok (ap_digest d) R (fst (snd (serve d c st)))"
proof (cases "hc_route c")
  case (PostLogin body)
  with ok show ?thesis
    by (simp add: private_ok_same_shop [OF same_shop_login ok] serve_def login_route_def on_db_def split: option.split prod.split)
next
  case (PostRefresh body)
  with ok show ?thesis
    by (simp add: private_ok_same_shop [OF same_shop_refresh ok] serve_def refresh_route_def on_db_def split: option.split)
next
  case PostLogout
  then show ?thesis using ok private_ok_same_shop [OF same_shop_logout ok]
    by (simp add: serve_def serve_user_def logout_route_def on_db_def Let_def split: sum.split)
next
  case (PatchOrderStatus raw body)
  then show ?thesis using ok updateStatus_private_ok [OF ok]
    by (simp add: serve_def serve_user_def patch_status_route_def Let_def case_prod_beta' split: sum.split option.split)
next
  case (PostOrder body rawKey)
  show ?thesis
  proof (cases "AuthGuard (ap_auth d) (cl_now (hc_call c)) (hc_authorization c) (fst st)")
    case (Inl e)
    with PostOrder ok show ?thesis by (simp add: serve_def)
  next
    case (Inr user)
    show ?thesis
    proof (cases "CreateOrderDto body")
      case None
      with PostOrder Inr ok show ?thesis
        by (simp add: serve_def serve_user_def post_order_route_def Let_def)
    next
      case (Some dto)
      let ?input = "create_input dto (ac_sub user) (header_key rawKey) ''US''"
      obtain r s' where p: "placeOrder_alone (ap_digest d) (cl_now (hc_call c)) (hc_event_id c) ?input (fst st) = (r, s')"
        by (rule prod.exhaust)
      have "?input \<in> R" using R [OF Inr] PostOrder Some by (simp add: order_inputs_def)
      from placeOrder_private_ok [OF ok this p] PostOrder Inr Some p ok show ?thesis
        by (simp add: serve_def serve_user_def post_order_route_def createOrder_def on_db_def Let_def split: sum.split)
    qed
  qed
next
  case (PostProduct body)
  then show ?thesis by (simp add: serve_def on_db_def Let_def createProduct_shop [OF ok])
qed (use ok in \<open>simp_all add: serve_def serve_user_def Let_def split: sum.split\<close>)

text \<open>
  C7. Orders are private on the identity, order and catalogue routes, the event stream and the
  socket. However long a server works through such requests that come without a valid token or from
  buyers and sellers other than \<open>u\<close>, the orders of \<open>u\<close> and their lines stay as they are, and no
  answer tells of one: neither a list, nor an order asked for by its number, nor a status change, nor
  the replay of an Idempotency-Key, nor the events a stream replays and passes on, nor the room a
  socket joins. It rests on the integrity of the tables, on every record of a key and every buffer of
  events standing for its own order, and on digests of requests of different users being different.
  The product card, session and file routes answer with no order and are not composed here.
\<close>

theorem orders_are_private:
  assumes "private_ok (ap_digest d) R (fst st)" and "buffers_ok (snd st)" and "collision_free (ap_digest d) R"
    and "from_strangers d R u cs st" and "serve_all d cs st = (as, st')"
  shows "order_view u (fst st') = order_view u (fst st)
    \<and> (\<forall>a\<in>set as. case a of Inl _ \<Rightarrow> True | Inr x \<Rightarrow> shown x \<inter> own u (fst st) = {})"
  using serve_all_unnoticed [OF assms(3,1,4,5,2)] by (auto split: sum.split)

text \<open>A guarded request whose token is not accepted is answered 401 and changes nothing.\<close>

theorem refused_token_does_nothing:
  assumes "guarded (hc_route c)" and "AuthGuard (ap_auth d) (cl_now (hc_call c)) (hc_authorization c) (fst st) = Inl e"
  shows "serve d c st = (Inl (UnauthorizedException ''unauthorized''), st)"
proof -
  have "e = UnauthorizedException ''unauthorized''"
    using assms(2) by (auto simp: AuthGuard_def authenticate_def split: option.splits if_splits sum.splits)
  with assms show ?thesis
    by (cases "hc_route c") (simp_all add: serve_def createProduct_def on_db_def prod_eq_iff)
qed


section \<open>A buyer at the orders of another\<close>

definition demo_api :: "unit api_deps" where
  "demo_api = \<lparr>ap_auth = demo_deps, ap_digest = (\<lambda>_. replicate 64 (CHR ''0'')),
     ap_parseInt = (\<lambda>raw. if raw = ''2'' then Some 2 else None), ap_isEmail = (\<lambda>_. True),
     ap_numstr = (\<lambda>_. [])\<rparr>"

definition demo_http :: "route \<Rightarrow> http_call" where
  "demo_http r = \<lparr>hc_call = \<lparr>cl_now = 9, cl_refresh_token = [], cl_jti = [], cl_family = [], cl_locked = (\<lambda>_. False)\<rparr>,
     hc_event_id = ''e1'', hc_authorization = Some ''Bearer a1'', hc_route = r\<rparr>"

definition demo_cancel :: jsval where
  "demo_cancel = JObj [(''status'', JStr ''cancelled'')]"

lemma demo_guard: "AuthGuard demo_deps 9 (Some ''Bearer a1'') three_orders = Inr demo_claims"
proof -
  have "bearerToken (Some ''Bearer a1'') = Some ''a1''" by code_simp
  then show ?thesis
    by (simp add: AuthGuard_def authenticate_def tokens_verify_def demo_deps_def readClaims_def isRole_def
        ROLES_def now_sec_def isAccessRevoked_def three_orders_def empty_db_def demo_claims_def)
qed

lemma demo_stranger: "stranger 2 demo_claims"
proof -
  have "show_int 2 = ''2''" by code_simp
  then show ?thesis by (simp add: stranger_def is_admin_def demo_claims_def demo_owner)
qed

lemma demo_forbidden:
  "findEntity 2 three_orders = Inr (demo_order_row 2 2)"
  "updateStatus 9 2 Cancelled demo_claims (three_orders, no_events) =
     (Inl (ForbiddenException ''forbidden''), (three_orders, no_events))"
proof -
  show f: "findEntity 2 three_orders = Inr (demo_order_row 2 2)"
    by (simp add: findEntity_def find_order_def bigint_of_number_def int8_ok_def three_orders_def demo_order_row_def)
  have "show_int 2 = ''2''" by code_simp
  with f show "updateStatus 9 2 Cancelled demo_claims (three_orders, no_events) =
      (Inl (ForbiddenException ''forbidden''), (three_orders, no_events))"
    by (simp add: updateStatus_def is_admin_def demo_claims_def demo_order_row_def)
qed

lemma demo_events_refused:
  "events_route demo_api 9 (Some ''Bearer a1'') ''2'' JUndefined None (three_orders, no_events) =
     Inl (ForbiddenException ''forbidden'')"
proof -
  have "bearerToken (Some ''Bearer a1'') = Some ''a1''" "show_int 2 = ''2''" by code_simp+
  moreover have "authenticate demo_deps 9 (Some ''a1'') three_orders = Inr demo_claims"
    using demo_guard by (simp add: AuthGuard_def calculation)
  ultimately show ?thesis
    by (simp add: events_route_def demo_api_def ParseIntPipe_def orderEventsStream_def sseToken_def
        requireOwner_def demo_forbidden(1) demo_claims_def demo_order_row_def)
qed

theorem orders_are_private_witness:
  "order_view 2 (fst (snd (serve_all demo_api
      [demo_http (PatchOrderStatus ''2'' demo_cancel), demo_http (GetOrderEvents ''2'' JUndefined None)]
      (three_orders, no_events)))) = [(demo_order_row 2 2, [])]"
proof -
  let ?cs = "[demo_http (PatchOrderStatus ''2'' demo_cancel), demo_http (GetOrderEvents ''2'' JUndefined None)]"
  let ?st = "(three_orders, no_events)"
  have "private_ok (ap_digest demo_api) {} (fst ?st)"
    using three_orders_ok by (simp add: private_ok_def keys_ok_def three_orders_def empty_db_def)
  moreover have "buffers_ok (snd ?st)" by (simp add: buffers_ok_def buffer_of_def no_events_def)
  moreover have "collision_free (ap_digest demo_api) {}" by (simp add: collision_free_def)
  moreover have "UpdateOrderStatusDto demo_cancel = Some Cancelled"
    by (simp add: UpdateOrderStatusDto_def demo_cancel_def js_keys_def js_get_def)
  then have "snd (serve demo_api (hd ?cs) ?st) = ?st"
    by (simp add: serve_def serve_user_def demo_http_def demo_api_def demo_guard patch_status_route_def
        ParseIntPipe_def demo_forbidden)
  moreover have "bearerToken (Some ''Bearer a1'') = Some ''a1''" by code_simp
  ultimately have "from_strangers demo_api {} 2 ?cs ?st"
    using demo_guard demo_stranger
    by (simp add: from_stranger_def requester_def demo_http_def demo_api_def order_inputs_def AuthGuard_def sseToken_def)
  moreover obtain as st' where "serve_all demo_api ?cs ?st = (as, st')" by (rule prod.exhaust)
  moreover note \<open>private_ok (ap_digest demo_api) {} (fst ?st)\<close> \<open>buffers_ok (snd ?st)\<close>
    \<open>collision_free (ap_digest demo_api) {}\<close>
  ultimately have "order_view 2 (fst (snd (serve_all demo_api ?cs ?st))) = order_view 2 (fst ?st)"
    using orders_are_private by (metis snd_conv)
  also have "\<dots> = [(demo_order_row 2 2, [])]"
    by (simp add: order_view_def three_orders_def demo_order_row_def items_of_order_def empty_db_def)
  finally show ?thesis .
qed

theorem refused_token_does_nothing_witness:
  "serve demo_api ((demo_http (PatchOrderStatus ''2'' demo_cancel))\<lparr>hc_authorization := None\<rparr>) (three_orders, no_events) =
    (Inl (UnauthorizedException ''unauthorized''), (three_orders, no_events))"
  by (rule refused_token_does_nothing [where e = "UnauthorizedException ''unauthorized''"])
    (simp_all add: demo_http_def AuthGuard_def bearerToken_def authenticate_def)

end
