(* ===== verification/Seed.thy ===== *)
theory Seed
  imports Schema
begin

text \<open>
  The seed script (\<open>src/seed.ts\<close>): the rows of users, products, orders, lines and idempotency
  records, written by \<open>INSERT ... ON CONFLICT DO UPDATE\<close> statement by statement, and the identity
  sequences moved behind the ids it wrote. The statements are not in one transaction. The stored
  bodies are \<open>{"orderId": n}\<close>, which is no order response; what a typed reader sees of one is an
  argument. The sequence of \<open>users\<close> is not kept by \<open>Schema\<close>, the program never draws from it.
\<close>

section \<open>Upserts\<close>

text \<open>
  \<open>ON CONFLICT (k) DO UPDATE\<close>: \<open>assign new old\<close> writes the columns of the statement's \<open>SET\<close> into the
  row that is there. A second unique key \<open>u\<close> is not covered by the clause.
\<close>

definition upsert_rows ::
  "('r \<Rightarrow> exn option) \<Rightarrow> ('r \<Rightarrow> 'k) \<Rightarrow> ('r \<Rightarrow> 'u) \<Rightarrow> ('r \<Rightarrow> 'r \<Rightarrow> 'r) \<Rightarrow> 'r \<Rightarrow> 'r list \<Rightarrow> exn + 'r list" where
  "upsert_rows chk k u assign new rows = (case chk new of
       Some e \<Rightarrow> Inl e
     | None \<Rightarrow>
         if \<exists>r\<in>set rows. k r \<noteq> k new \<and> u r = u new then Inl unique_violation
         else if k new \<in> k ` set rows then Inr (map (\<lambda>r. if k r = k new then assign new r else r) rows)
         else Inr (rows @ [new]))"

text \<open>The rows of one table, a statement each; the first that fails ends the script where it is.\<close>

fun upsert_each ::
  "('r \<Rightarrow> exn option) \<Rightarrow> ('r \<Rightarrow> 'k) \<Rightarrow> ('r \<Rightarrow> 'u) \<Rightarrow> ('r \<Rightarrow> 'r \<Rightarrow> 'r) \<Rightarrow> 'r list \<Rightarrow> 'r list \<Rightarrow> (exn + unit) \<times> 'r list" where
  "upsert_each chk k u assign [] rows = (Inr (), rows)"
| "upsert_each chk k u assign (new # news) rows = (case upsert_rows chk k u assign new rows of
       Inl e \<Rightarrow> (Inl e, rows)
     | Inr rows' \<Rightarrow> upsert_each chk k u assign news rows')"

lemma upsert_each_Inr:
  "upsert_each chk k u assign (new # news) rows = (Inr (), rows') \<longleftrightarrow>
   (\<exists>t. upsert_rows chk k u assign new rows = Inr t \<and> upsert_each chk k u assign news t = (Inr (), rows'))"
  by (auto split: sum.splits)

lemma list_all2_carry:
  assumes "list_all2 R xs ys" "\<And>x y. x \<in> set xs \<Longrightarrow> R x y \<Longrightarrow> Q y"
  shows "\<forall>y\<in>set ys. Q y"
  using assms by (induction rule: list_all2_induct) auto

text \<open>
  What the columns of a statement are to its table: the key and the second key are among them,
  and assigning twice is assigning once.
\<close>

locale seeded_table =
  fixes chk :: "'r \<Rightarrow> exn option" and k :: "'r \<Rightarrow> 'k" and u :: "'r \<Rightarrow> 'u" and assign :: "'r \<Rightarrow> 'r \<Rightarrow> 'r"
  assumes k_assign: "k r = k new \<Longrightarrow> k (assign new r) = k new"
    and u_assign: "k r = k new \<Longrightarrow> u (assign new r) = u new"
    and assign_twice: "assign new (assign new r) = assign new r"
    and assign_self: "assign new new = new"
begin

definition settled :: "'r \<Rightarrow> 'r list \<Rightarrow> bool" where
  "settled new rows \<longleftrightarrow> (\<exists>r\<in>set rows. k r = k new \<and> assign new r = r)"

definition keyed :: "'r list \<Rightarrow> bool" where
  "keyed rows \<longleftrightarrow> distinct (map k rows) \<and> distinct (map u rows)"

definition put_row :: "'r \<Rightarrow> 'r \<Rightarrow> 'r" where
  "put_row new r = (if k r = k new then assign new r else r)"

lemma put_row_simps: "k (put_row new r) = k r" "k r = k new \<Longrightarrow> put_row new r = assign new r" "k r \<noteq> k new \<Longrightarrow> put_row new r = r"
  by (simp_all add: put_row_def k_assign)

lemma upsert_rowsE:
  assumes "upsert_rows chk k u assign new rows = Inr rows'"
  obtains (changed) "\<forall>r\<in>set rows. k r \<noteq> k new \<longrightarrow> u r \<noteq> u new" "\<exists>r\<in>set rows. k r = k new" "rows' = map (put_row new) rows"
    | (added) "\<forall>r\<in>set rows. k r \<noteq> k new \<longrightarrow> u r \<noteq> u new" "\<forall>r\<in>set rows. k r \<noteq> k new" "rows' = rows @ [new]"
proof -
  have ok: "chk new = None" using assms by (auto simp: upsert_rows_def split: option.splits)
  have free: "\<forall>r\<in>set rows. k r \<noteq> k new \<longrightarrow> u r \<noteq> u new"
  proof (rule ccontr)
    assume "\<not> (\<forall>r\<in>set rows. k r \<noteq> k new \<longrightarrow> u r \<noteq> u new)"
    then have "\<exists>r\<in>set rows. k r \<noteq> k new \<and> u r = u new" by blast
    then have "upsert_rows chk k u assign new rows = Inl unique_violation"
      using ok unfolding upsert_rows_def option.case by (simp only: if_True option.case)
    with assms show False by simp
  qed
  then have "\<not> (\<exists>r\<in>set rows. k r \<noteq> k new \<and> u r = u new)" by blast
  then have rows: "Inr rows' = (if k new \<in> k ` set rows then Inr (map (put_row new) rows) else Inr (rows @ [new]) :: exn + 'r list)"
    using assms ok unfolding upsert_rows_def put_row_def [abs_def] by (simp only: if_False option.case)
  show thesis
  proof (cases "k new \<in> k ` set rows")
    case True
    then obtain r where "r \<in> set rows" "k r = k new" by (metis imageE)
    with True free rows changed show thesis by auto
  next
    case False
    then have "\<forall>r\<in>set rows. k r \<noteq> k new" by (metis image_eqI)
    with False free rows added show thesis by simp
  qed
qed

lemma keyed_eq: "keyed rows \<Longrightarrow> x \<in> set rows \<Longrightarrow> y \<in> set rows \<Longrightarrow> k x = k y \<Longrightarrow> x = y"
  "keyed rows \<Longrightarrow> x \<in> set rows \<Longrightarrow> y \<in> set rows \<Longrightarrow> u x = u y \<Longrightarrow> x = y"
  unfolding keyed_def distinct_map by (blast dest: inj_onD)+

lemma keyed_upsert:
  assumes rows: "keyed rows" and up: "upsert_rows chk k u assign new rows = Inr rows'"
  shows "keyed rows'"
  using up
proof (cases rule: upsert_rowsE)
  case changed
  have "map k rows' = map k rows" by (simp add: changed(3) put_row_simps(1))
  with rows have keys: "distinct (map k rows')" by (simp add: keyed_def)
  have "u x = u y \<longrightarrow> x = y" if xy: "x \<in> set rows'" "y \<in> set rows'" for x y
  proof -
    obtain x0 y0 where x: "x0 \<in> set rows" "x = put_row new x0" and y: "y0 \<in> set rows" "y = put_row new y0"
      using xy unfolding changed(3) set_map by blast
    have "u x = u y \<longrightarrow> x0 = y0"
      using changed(1) x y keyed_eq [OF rows x(1) y(1)]
      by (cases "k x0 = k new"; cases "k y0 = k new") (simp_all add: put_row_simps u_assign, metis)
    then show ?thesis using x y by blast
  qed
  then have "inj_on u (set rows')" by (blast intro: inj_onI)
  with keys show ?thesis by (simp add: keyed_def distinct_map)
next
  case added
  with rows show ?thesis by (auto simp: keyed_def)
qed

lemma settled_upsert: "upsert_rows chk k u assign new rows = Inr rows' \<Longrightarrow> settled new rows'"
  by (erule upsert_rowsE) (force simp: settled_def put_row_simps assign_twice assign_self k_assign)+

lemma settled_kept:
  assumes old: "settled old rows" "k old \<noteq> k new" and up: "upsert_rows chk k u assign new rows = Inr rows'"
  shows "settled old rows'"
proof -
  obtain r where r: "r \<in> set rows" "k r = k old" "assign old r = r" using old(1) by (auto simp: settled_def)
  have "r \<in> set rows'"
    using up
  proof (cases rule: upsert_rowsE)
    case changed
    then show ?thesis using r old(2) by (metis image_eqI list.set_map put_row_simps(3))
  qed (use r in simp)
  with r show ?thesis by (auto simp: settled_def)
qed

lemma settled_again:
  assumes rows: "keyed rows" and s: "settled new rows" and ok: "chk new = None"
  shows "upsert_rows chk k u assign new rows = Inr rows"
proof -
  obtain r where r: "r \<in> set rows" "k r = k new" "assign new r = r" using s by (auto simp: settled_def)
  have ur: "u r = u new" using u_assign [of r new] r(2,3) by simp
  have "put_row new x = x" if "x \<in> set rows" for x
  proof (cases "k x = k new")
    case True
    then have "x = r" using keyed_eq(1) [OF rows that r(1)] r(2) by simp
    then show ?thesis using r by (simp add: put_row_simps)
  qed (simp add: put_row_simps)
  then have "map (put_row new) rows = rows" by (rule map_idI)
  moreover have "\<not> (\<exists>x\<in>set rows. k x \<noteq> k new \<and> u x = u new)"
    using keyed_eq(2) [OF rows _ r(1)] r(2) ur by metis
  moreover have "k new \<in> k ` set rows" using r by (metis image_eqI)
  ultimately show ?thesis using ok by (simp add: upsert_rows_def put_row_def [abs_def])
qed

lemma upsert_all_settles:
  "keyed rows \<Longrightarrow> distinct (map k news) \<Longrightarrow> upsert_each chk k u assign news rows = (Inr (), rows') \<Longrightarrow>
   keyed rows' \<and> (\<forall>new\<in>set news. settled new rows') \<and>
   (\<forall>old. k old \<notin> k ` set news \<longrightarrow> settled old rows \<longrightarrow> settled old rows')"
proof (induction news arbitrary: rows)
  case (Cons new news)
  then obtain t where t: "upsert_rows chk k u assign new rows = Inr t" "upsert_each chk k u assign news t = (Inr (), rows')"
    by (auto simp: upsert_each_Inr simp del: upsert_each.simps)
  have "keyed t" by (rule keyed_upsert [OF Cons.prems(1) t(1)])
  from Cons.IH [OF this _ t(2)] Cons.prems(2) settled_upsert [OF t(1)] settled_kept [OF _ _ t(1)]
  show ?case by auto
qed simp

lemma upsert_all_checked: "upsert_each chk k u assign news rows = (Inr (), rows') \<Longrightarrow> \<forall>new\<in>set news. chk new = None"
  by (induction news arbitrary: rows) (auto simp: upsert_rows_def split: sum.splits option.splits)

lemma upsert_all_again: "keyed rows \<Longrightarrow> \<forall>new\<in>set news. settled new rows \<and> chk new = None \<Longrightarrow> upsert_each chk k u assign news rows = (Inr (), rows)"
  by (induction news) (simp_all add: settled_again)

text \<open>Rows with the same keys and assigned columns may differ in the columns a table fills by default.\<close>

lemma upsert_all_idem:
  assumes rows: "keyed rows" "distinct (map k news)" "upsert_each chk k u assign news rows = (Inr (), rows')"
    and like: "list_all2 (\<lambda>a b. k a = k b \<and> assign a = assign b \<and> chk a = chk b) news news'"
  shows "upsert_each chk k u assign news' rows' = (Inr (), rows')"
proof (rule upsert_all_again)
  note settles = upsert_all_settles [OF rows] and checked = upsert_all_checked [OF rows(3)]
  show "keyed rows'" using settles by simp
  show "\<forall>b\<in>set news'. settled b rows' \<and> chk b = None"
  proof (rule list_all2_carry [OF like])
    fix a b assume "a \<in> set news" "k a = k b \<and> assign a = assign b \<and> chk a = chk b"
    moreover from this(1) have "settled a rows'" "chk a = None" using settles checked by simp_all
    ultimately show "settled b rows' \<and> chk b = None" by (simp add: settled_def)
  qed
qed

lemma upsert_all_fresh:
  "\<forall>new\<in>set news. chk new = None \<Longrightarrow> distinct (map k (rows @ news)) \<Longrightarrow> distinct (map u (rows @ news)) \<Longrightarrow>
   upsert_each chk k u assign news rows = (Inr (), rows @ news)"
proof (induction news arbitrary: rows)
  case (Cons new news)
  have "k new \<notin> k ` set rows" "u new \<notin> u ` set rows" using Cons.prems(2,3) by simp_all
  then have "upsert_rows chk k u assign new rows = Inr (rows @ [new])"
    using Cons.prems(1) by (auto simp: upsert_rows_def image_iff)
  with Cons.IH [of "rows @ [new]"] Cons.prems show ?case by simp
qed simp

text \<open>A property of rows that the new ones have and that assigning keeps holds of every row after.\<close>

lemma upsert_all_rows:
  assumes "\<forall>r\<in>set rows. P r" "\<forall>new\<in>set news. P new" "\<And>new r. new \<in> set news \<Longrightarrow> P r \<Longrightarrow> P (assign new r)"
    "upsert_each chk k u assign news rows = (Inr (), rows')"
  shows "\<forall>r\<in>set rows'. P r"
  using assms
proof (induction news arbitrary: rows)
  case (Cons new news)
  then obtain t where t: "upsert_rows chk k u assign new rows = Inr t" "upsert_each chk k u assign news t = (Inr (), rows')"
    by (auto simp: upsert_each_Inr simp del: upsert_each.simps)
  have "\<forall>r\<in>set t. P r"
    using t(1) by (cases rule: upsert_rowsE) (use Cons.prems(1-3) in \<open>auto simp: put_row_def\<close>)
  with Cons.IH t(2) Cons.prems show ?case by simp
qed simp

lemma upsert_all_keys: "upsert_each chk k u assign news rows = (Inr (), rows') \<Longrightarrow> k ` set rows' = k ` set rows \<union> k ` set news"
proof (induction news arbitrary: rows)
  case (Cons new news)
  then obtain t where t: "upsert_rows chk k u assign new rows = Inr t" "upsert_each chk k u assign news t = (Inr (), rows')"
    by (auto simp: upsert_each_Inr simp del: upsert_each.simps)
  have "k ` set t = insert (k new) (k ` set rows)"
    using t(1)
  proof (cases rule: upsert_rowsE)
    case changed
    have "k ` set t = k ` set rows" by (simp add: changed(3) image_image put_row_simps(1))
    then show ?thesis using changed(2) by (metis image_eqI insert_absorb)
  qed simp
  with Cons.IH [OF t(2)] show ?case by auto
qed simp

end


section \<open>The rows\<close>

definition user_seed :: "int \<Rightarrow> int \<Rightarrow> string \<Rightarrow> string \<Rightarrow> user_row" where
  "user_seed now i email name = \<lparr>us_id = i, us_email = email, us_full_name = name, us_balance_cents = 10000000,
     us_password_hash = None, us_role = ''buyer'', us_created_at = now\<rparr>"

definition USERS :: "int \<Rightarrow> user_row list" where
  "USERS now =
     [user_seed now 1 ''ada@example.com'' ''Ada Lovelace'', user_seed now 2 ''grace@example.com'' ''Grace Hopper'',
      user_seed now 3 ''alan@example.com'' ''Alan Turing'', user_seed now 4 ''barbara@example.com'' ''Barbara Liskov'',
      user_seed now 5 ''donald@example.com'' ''Donald Knuth'', user_seed now 6 ''frances@example.com'' ''Frances Allen'',
      user_seed now 7 ''linus@example.com'' ''Linus Torvalds'', user_seed now 8 ''margaret@example.com'' ''Margaret Hamilton'']"

definition product_seed :: "int \<Rightarrow> int \<Rightarrow> string \<Rightarrow> int \<Rightarrow> product_row" where
  "product_seed now i name price = \<lparr>pr_id = i, pr_name = name, pr_price_cents = price, pr_stock = 100,
     pr_is_active = True, pr_created_at = now\<rparr>"

definition PRODUCTS :: "int \<Rightarrow> product_row list" where
  "PRODUCTS now =
     [product_seed now 1 ''Mechanical Keyboard'' 12900, product_seed now 2 ''USB-C Hub'' 4900,
      product_seed now 3 ''Monitor Arm'' 8900, product_seed now 4 ''Noise Cancelling Headphones'' 19900,
      product_seed now 5 ''Laptop Stand'' 3900, product_seed now 6 ''Wireless Mouse'' 5900,
      product_seed now 7 ''Desk Mat'' 2500, product_seed now 8 ''Webcam'' 7900]"

definition order_seed :: "int \<Rightarrow> int \<Rightarrow> int \<Rightarrow> order_status \<Rightarrow> int \<Rightarrow> string \<Rightarrow> order_row" where
  "order_seed now i u st cents country = \<lparr>or_id = i, or_user_id = u, or_status = st, or_total_cents = cents,
     or_shipping_country = country, or_created_at = now\<rparr>"

definition ORDERS :: "int \<Rightarrow> order_row list" where
  "ORDERS now =
     [order_seed now 1 1 Completed 17800 ''US'', order_seed now 2 2 Completed 32800 ''DE'',
      order_seed now 3 3 Pending 8900 ''US'', order_seed now 4 4 Completed 13800 ''UA'',
      order_seed now 5 5 Cancelled 3900 ''PL'', order_seed now 6 6 Completed 7400 ''DE'',
      order_seed now 7 7 Pending 7900 ''US'', order_seed now 8 8 Refunded 12900 ''UA'']"

definition item_seed :: "int \<Rightarrow> int \<Rightarrow> int \<Rightarrow> int \<Rightarrow> order_item_row" where
  "item_seed i oid pid price = \<lparr>oi_id = i, oi_order_id = oid, oi_product_id = pid, oi_quantity = 1,
     oi_unit_price_cents = price, oi_line_total_cents = price\<rparr>"

definition ORDER_ITEMS :: "order_item_row list" where
  "ORDER_ITEMS =
     [item_seed 1 1 1 12900, item_seed 2 1 2 4900, item_seed 3 2 4 19900, item_seed 4 2 1 12900,
      item_seed 5 3 3 8900, item_seed 6 4 6 5900, item_seed 7 4 8 7900, item_seed 8 5 5 3900,
      item_seed 9 6 2 4900, item_seed 10 6 7 2500, item_seed 11 7 8 7900, item_seed 12 8 1 12900]"

definition hex_char :: "nat \<Rightarrow> char" where
  "hex_char d = char_of (if d < 10 then d + 48 else d + 87)"

definition hash64 :: "string \<Rightarrow> string" where
  "hash64 seed =
     (let padded = seed @ replicate (32 - length seed) (CHR ''0'');
          hex = concat (map (\<lambda>c. let n = of_char c :: nat in [hex_char (n div 16), hex_char (n mod 16)]) padded)
      in take 64 hex)"

definition record_seed :: "(int \<Rightarrow> order_response) \<Rightarrow> int \<Rightarrow> int \<Rightarrow> idempotency_row" where
  "record_seed body now i = \<lparr>ik_key = ''create-order-'' @ show_int i, ik_order_id = i,
     ik_request_hash = hash64 (''order-'' @ show_int i), ik_response_status = 201, ik_response_body = body i,
     ik_created_at = now\<rparr>"

definition IDEMPOTENCY_RECORDS :: "(int \<Rightarrow> order_response) \<Rightarrow> int \<Rightarrow> idempotency_row list" where
  "IDEMPOTENCY_RECORDS body now = map (record_seed body now) [1, 2, 4, 6, 8]"

section \<open>The columns each statement assigns\<close>

definition assign_user :: "user_row \<Rightarrow> user_row \<Rightarrow> user_row" where
  "assign_user new r = r\<lparr>us_email := us_email new, us_full_name := us_full_name new,
     us_balance_cents := us_balance_cents new\<rparr>"

definition assign_product :: "product_row \<Rightarrow> product_row \<Rightarrow> product_row" where
  "assign_product new r = r\<lparr>pr_name := pr_name new, pr_price_cents := pr_price_cents new,
     pr_stock := pr_stock new, pr_is_active := pr_is_active new\<rparr>"

definition assign_order :: "order_row \<Rightarrow> order_row \<Rightarrow> order_row" where
  "assign_order new r = r\<lparr>or_user_id := or_user_id new, or_status := or_status new,
     or_total_cents := or_total_cents new, or_shipping_country := or_shipping_country new\<rparr>"

definition assign_item :: "order_item_row \<Rightarrow> order_item_row \<Rightarrow> order_item_row" where
  "assign_item new r = r\<lparr>oi_order_id := oi_order_id new, oi_product_id := oi_product_id new,
     oi_quantity := oi_quantity new, oi_unit_price_cents := oi_unit_price_cents new,
     oi_line_total_cents := oi_line_total_cents new\<rparr>"

definition assign_record :: "idempotency_row \<Rightarrow> idempotency_row \<Rightarrow> idempotency_row" where
  "assign_record new r = r\<lparr>ik_order_id := ik_order_id new, ik_request_hash := ik_request_hash new,
     ik_response_status := ik_response_status new, ik_response_body := ik_response_body new\<rparr>"

definition item_pair :: "order_item_row \<Rightarrow> int \<times> int" where
  "item_pair r = (oi_order_id r, oi_product_id r)"

text \<open>Constraints on the new row: those of the row itself, and the rows it refers to.\<close>

definition row_check :: "('r \<Rightarrow> bool) \<Rightarrow> ('r \<Rightarrow> bool) \<Rightarrow> 'r \<Rightarrow> exn option" where
  "row_check ok refs r =
     (if \<not> ok r then Some check_violation else if \<not> refs r then Some foreign_key_violation else None)"

definition user_chk :: "db \<Rightarrow> user_row \<Rightarrow> exn option" where
  "user_chk s = row_check user_check (\<lambda>_. True)"

definition product_chk :: "db \<Rightarrow> product_row \<Rightarrow> exn option" where
  "product_chk s = row_check product_check (\<lambda>_. True)"

definition order_chk :: "db \<Rightarrow> order_row \<Rightarrow> exn option" where
  "order_chk s = row_check order_check (\<lambda>r. or_user_id r \<in> us_id ` set (t_users s))"

definition item_chk :: "db \<Rightarrow> order_item_row \<Rightarrow> exn option" where
  "item_chk s = row_check order_item_check
     (\<lambda>r. oi_order_id r \<in> or_id ` set (t_orders s) \<and> oi_product_id r \<in> pr_id ` set (t_products s))"

definition record_chk :: "db \<Rightarrow> idempotency_row \<Rightarrow> exn option" where
  "record_chk s = row_check idempotency_check (\<lambda>r. ik_order_id r \<in> or_id ` set (t_orders s))"

section \<open>The script\<close>

definition table_step ::
  "(db \<Rightarrow> 'r list) \<Rightarrow> ('r list \<Rightarrow> db \<Rightarrow> db) \<Rightarrow> (db \<Rightarrow> 'r \<Rightarrow> exn option) \<Rightarrow> ('r \<Rightarrow> 'k) \<Rightarrow> ('r \<Rightarrow> 'u)
   \<Rightarrow> ('r \<Rightarrow> 'r \<Rightarrow> 'r) \<Rightarrow> 'r list \<Rightarrow> unit stmt" where
  "table_step get put chk k u assign news s =
     (let (r, rows) = upsert_each (chk s) k u assign news (get s) in (r, put rows s))"

definition seed_users :: "int \<Rightarrow> unit stmt" where
  "seed_users now = table_step t_users (\<lambda>rows s. s\<lparr>t_users := rows\<rparr>) user_chk us_id us_email assign_user (USERS now)"

definition seed_products :: "int \<Rightarrow> unit stmt" where
  "seed_products now =
     table_step t_products (\<lambda>rows s. s\<lparr>t_products := rows\<rparr>) product_chk pr_id pr_id assign_product (PRODUCTS now)"

definition seed_orders :: "int \<Rightarrow> unit stmt" where
  "seed_orders now = table_step t_orders (\<lambda>rows s. s\<lparr>t_orders := rows\<rparr>) order_chk or_id or_id assign_order (ORDERS now)"

definition seed_items :: "unit stmt" where
  "seed_items =
     table_step t_order_items (\<lambda>rows s. s\<lparr>t_order_items := rows\<rparr>) item_chk oi_id item_pair assign_item ORDER_ITEMS"

definition seed_records :: "(int \<Rightarrow> order_response) \<Rightarrow> int \<Rightarrow> unit stmt" where
  "seed_records body now = table_step t_idempotency (\<lambda>rows s. s\<lparr>t_idempotency := rows\<rparr>) record_chk ik_key ik_order_id
     assign_record (IDEMPOTENCY_RECORDS body now)"

text \<open>\<open>setval(seq, COALESCE(MAX(id), 1))\<close>: the next value is the one after.\<close>

definition next_after :: "int list \<Rightarrow> int" where
  "next_after ids = (if ids = [] then 1 else Max (set ids)) + 1"

definition syncIdentities :: "unit stmt" where
  "syncIdentities s = (Inr (), s\<lparr>sequences := (sequences s)\<lparr>
     sq_products := next_after (map pr_id (t_products s)),
     sq_orders := next_after (map or_id (t_orders s)),
     sq_order_items := next_after (map oi_id (t_order_items s))\<rparr>\<rparr>)"

record seed_counts =
  sc_users :: nat
  sc_products :: nat
  sc_orders :: nat
  sc_order_items :: nat
  sc_idempotency_records :: nat

definition count_rows :: "seed_counts stmt" where
  "count_rows s = (Inr \<lparr>sc_users = length (t_users s), sc_products = length (t_products s),
     sc_orders = length (t_orders s), sc_order_items = length (t_order_items s),
     sc_idempotency_records = length (t_idempotency s)\<rparr>, s)"

definition seed :: "(int \<Rightarrow> order_response) \<Rightarrow> int \<Rightarrow> seed_counts stmt" where
  "seed body now =
     db_bind (seed_users now) (\<lambda>_.
     db_bind (seed_products now) (\<lambda>_.
     db_bind (seed_orders now) (\<lambda>_.
     db_bind seed_items (\<lambda>_.
     db_bind (seed_records body now) (\<lambda>_.
     db_bind syncIdentities (\<lambda>_. count_rows))))))"

section \<open>The tables keep their integrity\<close>

interpretation users: seeded_table "user_chk s" us_id us_email assign_user for s
  by unfold_locales (simp_all add: assign_user_def)

interpretation products: seeded_table "product_chk s" pr_id pr_id assign_product for s
  by unfold_locales (simp_all add: assign_product_def)

interpretation orders: seeded_table "order_chk s" or_id or_id assign_order for s
  by unfold_locales (simp_all add: assign_order_def)

interpretation items: seeded_table "item_chk s" oi_id item_pair assign_item for s
  by unfold_locales (simp_all add: assign_item_def item_pair_def)

interpretation records: seeded_table "record_chk s" ik_key ik_order_id assign_record for s
  by unfold_locales (simp_all add: assign_record_def)

lemma table_step_Inr:
  "table_step get put chk k u assign news s = (Inr (), s') \<longleftrightarrow>
   (\<exists>rows. upsert_each (chk s) k u assign news (get s) = (Inr (), rows) \<and> s' = put rows s)"
  by (auto simp: table_step_def split: prod.splits)

lemma row_check_None: "row_check ok refs r = None \<longleftrightarrow> ok r \<and> refs r"
  by (simp add: row_check_def)

lemma next_after: "i \<in> set ids \<Longrightarrow> i < next_after ids"
  by (auto simp: next_after_def intro: le_less_trans [OF Max_ge])

lemma seed_distinct:
  "distinct (map us_id (USERS now))" "distinct (map pr_id (PRODUCTS now))" "distinct (map or_id (ORDERS now))"
  "distinct (map oi_id ORDER_ITEMS)" "distinct (map ik_key (IDEMPOTENCY_RECORDS body now))"
proof -
  have "map show_int [1, 2, 4, 6, 8] = [''1'', ''2'', ''4'', ''6'', ''8'']" by code_simp
  then show "distinct (map ik_key (IDEMPOTENCY_RECORDS body now))"
    by (simp add: IDEMPOTENCY_RECORDS_def record_seed_def)
qed (simp_all add: USERS_def PRODUCTS_def ORDERS_def ORDER_ITEMS_def user_seed_def product_seed_def order_seed_def item_seed_def)

lemma seed_later:
  "list_all2 (\<lambda>a b. us_id a = us_id b \<and> assign_user a = assign_user b \<and> user_chk s a = user_chk s b) (USERS now) (USERS later)"
  "list_all2 (\<lambda>a b. pr_id a = pr_id b \<and> assign_product a = assign_product b \<and> product_chk s a = product_chk s b) (PRODUCTS now) (PRODUCTS later)"
  "list_all2 (\<lambda>a b. or_id a = or_id b \<and> assign_order a = assign_order b \<and> order_chk s a = order_chk s b) (ORDERS now) (ORDERS later)"
  "list_all2 (\<lambda>a b. ik_key a = ik_key b \<and> assign_record a = assign_record b \<and> record_chk s a = record_chk s b)
     (IDEMPOTENCY_RECORDS body now) (IDEMPOTENCY_RECORDS body later)"
  by (simp_all add: USERS_def PRODUCTS_def ORDERS_def IDEMPOTENCY_RECORDS_def user_seed_def product_seed_def order_seed_def record_seed_def
      assign_user_def [abs_def] assign_product_def [abs_def] assign_order_def [abs_def] assign_record_def [abs_def]
      user_chk_def product_chk_def order_chk_def record_chk_def row_check_def
      user_check_def product_check_def order_check_def idempotency_check_def)

text \<open>The state a run that succeeds leaves, table by table.\<close>

lemma seed_InrE:
  assumes "seed body now s = (Inr c, s')"
  obtains us ps os ls rs where
    "upsert_each (user_chk s) us_id us_email assign_user (USERS now) (t_users s) = (Inr (), us)"
    "upsert_each (product_chk s) pr_id pr_id assign_product (PRODUCTS now) (t_products s) = (Inr (), ps)"
    "upsert_each (order_chk s') or_id or_id assign_order (ORDERS now) (t_orders s) = (Inr (), os)"
    "upsert_each (item_chk s') oi_id item_pair assign_item ORDER_ITEMS (t_order_items s) = (Inr (), ls)"
    "upsert_each (record_chk s') ik_key ik_order_id assign_record (IDEMPOTENCY_RECORDS body now) (t_idempotency s) = (Inr (), rs)"
    "s' = s\<lparr>t_users := us, t_products := ps, t_orders := os, t_order_items := ls, t_idempotency := rs,
       sequences := (sequences s)\<lparr>sq_products := next_after (map pr_id ps), sq_orders := next_after (map or_id os),
         sq_order_items := next_after (map oi_id ls)\<rparr>\<rparr>"
    "c = \<lparr>sc_users = length us, sc_products = length ps, sc_orders = length os, sc_order_items = length ls,
       sc_idempotency_records = length rs\<rparr>"
  using assms unfolding seed_def
  by (elim db_bind_InrE)
    (auto simp: seed_users_def seed_products_def seed_orders_def seed_items_def seed_records_def table_step_Inr
      syncIdentities_def count_rows_def user_chk_def product_chk_def order_chk_def item_chk_def record_chk_def)


lemma seed_again:
  assumes ok: "shop_ok s" and emails: "distinct (map us_email (t_users s))" and run: "seed body now s = (Inr c, s')"
  shows "seed body later s' = (Inr c, s')"
proof -
  note shop = ok [unfolded shop_ok_def users_ok_def products_ok_def orders_ok_def order_items_ok_def idempotency_ok_def]
  from run obtain us ps os ls rs where
    us: "upsert_each (user_chk s) us_id us_email assign_user (USERS now) (t_users s) = (Inr (), us)" and
    ps: "upsert_each (product_chk s) pr_id pr_id assign_product (PRODUCTS now) (t_products s) = (Inr (), ps)" and
    os: "upsert_each (order_chk s') or_id or_id assign_order (ORDERS now) (t_orders s) = (Inr (), os)" and
    ls: "upsert_each (item_chk s') oi_id item_pair assign_item ORDER_ITEMS (t_order_items s) = (Inr (), ls)" and
    rs: "upsert_each (record_chk s') ik_key ik_order_id assign_record (IDEMPOTENCY_RECORDS body now) (t_idempotency s) = (Inr (), rs)" and
    s': "s' = s\<lparr>t_users := us, t_products := ps, t_orders := os, t_order_items := ls, t_idempotency := rs,
       sequences := (sequences s)\<lparr>sq_products := next_after (map pr_id ps), sq_orders := next_after (map or_id os),
         sq_order_items := next_after (map oi_id ls)\<rparr>\<rparr>" and
    c: "c = \<lparr>sc_users = length us, sc_products = length ps, sc_orders = length os, sc_order_items = length ls,
       sc_idempotency_records = length rs\<rparr>"
    by (rule seed_InrE)
  have pair: "(\<lambda>r. (oi_order_id r, oi_product_id r)) = item_pair" by (simp add: item_pair_def fun_eq_iff)
  have "upsert_each (user_chk s') us_id us_email assign_user (USERS later) us = (Inr (), us)"
    using users.upsert_all_idem [OF _ seed_distinct(1) us seed_later(1)] shop emails by (simp add: users.keyed_def user_chk_def)
  moreover have "upsert_each (product_chk t) pr_id pr_id assign_product (PRODUCTS later) ps = (Inr (), ps)" for t
    using products.upsert_all_idem [OF _ seed_distinct(2) ps seed_later(2)] shop by (simp add: products.keyed_def product_chk_def)
  moreover have "upsert_each (order_chk t) or_id or_id assign_order (ORDERS later) os = (Inr (), os)" if "t_users t = us" for t
    using orders.upsert_all_idem [OF _ seed_distinct(3) os seed_later(3)] shop that s' by (simp add: orders.keyed_def order_chk_def)
  moreover have "upsert_each (item_chk t) oi_id item_pair assign_item ORDER_ITEMS ls = (Inr (), ls)"
    if "t_orders t = os" "t_products t = ps" for t
    using items.upsert_all_idem [OF _ seed_distinct(4) ls list_all2_refl] shop that s' by (simp add: items.keyed_def item_chk_def pair)
  moreover have "upsert_each (record_chk t) ik_key ik_order_id assign_record (IDEMPOTENCY_RECORDS body later) rs = (Inr (), rs)"
    if "t_orders t = os" for t
    using records.upsert_all_idem [OF _ seed_distinct(5) rs seed_later(4)] shop that s' by (simp add: records.keyed_def record_chk_def)
  ultimately show ?thesis
    unfolding s' c seed_def seed_users_def seed_products_def seed_orders_def seed_items_def seed_records_def table_step_def
      db_bind_def syncIdentities_def count_rows_def
    by (simp add: user_chk_def product_chk_def)
qed

lemma seed_keeps_shop:
  assumes ok: "shop_ok s" and emails: "distinct (map us_email (t_users s))" and run: "seed body now s = (Inr c, s')"
  shows "shop_ok s'" "distinct (map us_email (t_users s'))"
proof -
  note shop = ok [unfolded shop_ok_def users_ok_def products_ok_def orders_ok_def order_items_ok_def idempotency_ok_def
      jobs_ok_def outbox_ok_def list_all_iff]
  from run obtain us ps os ls rs where
    us: "upsert_each (user_chk s) us_id us_email assign_user (USERS now) (t_users s) = (Inr (), us)" and
    ps: "upsert_each (product_chk s) pr_id pr_id assign_product (PRODUCTS now) (t_products s) = (Inr (), ps)" and
    os: "upsert_each (order_chk s') or_id or_id assign_order (ORDERS now) (t_orders s) = (Inr (), os)" and
    ls: "upsert_each (item_chk s') oi_id item_pair assign_item ORDER_ITEMS (t_order_items s) = (Inr (), ls)" and
    rs: "upsert_each (record_chk s') ik_key ik_order_id assign_record (IDEMPOTENCY_RECORDS body now) (t_idempotency s) = (Inr (), rs)" and
    s': "s' = s\<lparr>t_users := us, t_products := ps, t_orders := os, t_order_items := ls, t_idempotency := rs,
       sequences := (sequences s)\<lparr>sq_products := next_after (map pr_id ps), sq_orders := next_after (map or_id os),
         sq_order_items := next_after (map oi_id ls)\<rparr>\<rparr>"
    by (rule seed_InrE)
  have pair: "(\<lambda>r. (oi_order_id r, oi_product_id r)) = item_pair" by (simp add: item_pair_def fun_eq_iff)
  note checked = users.upsert_all_checked [OF us] products.upsert_all_checked [OF ps] orders.upsert_all_checked [OF os]
    items.upsert_all_checked [OF ls] records.upsert_all_checked [OF rs]
  note checked = checked [unfolded user_chk_def product_chk_def order_chk_def item_chk_def record_chk_def row_check_None]
  note user_ids = users.upsert_all_keys [OF us] and product_ids = products.upsert_all_keys [OF ps]
    and order_ids = orders.upsert_all_keys [OF os]
  have "users.keyed us" using users.upsert_all_settles [OF _ seed_distinct(1) us] shop emails by (simp add: users.keyed_def)
  moreover have "\<forall>r\<in>set us. user_check r"
    by (rule users.upsert_all_rows [OF _ _ _ us]) (use shop checked(1) in \<open>auto simp: user_check_def assign_user_def\<close>)
  ultimately have users: "users_ok s'" and emails': "distinct (map us_email (t_users s'))"
    by (simp_all add: users_ok_def users.keyed_def s' list_all_iff)
  have "products.keyed ps" using products.upsert_all_settles [OF _ seed_distinct(2) ps] shop by (simp add: products.keyed_def)
  moreover have "\<forall>r\<in>set ps. product_check r"
    by (rule products.upsert_all_rows [OF _ _ _ ps]) (use shop checked(2) in \<open>auto simp: product_check_def assign_product_def\<close>)
  ultimately have products: "products_ok s'"
    by (simp add: products_ok_def products.keyed_def s' list_all_iff next_after)
  have "orders.keyed os" using orders.upsert_all_settles [OF _ seed_distinct(3) os] shop by (simp add: orders.keyed_def)
  moreover have "\<forall>r\<in>set os. order_check r \<and> or_user_id r \<in> us_id ` set us"
    by (rule orders.upsert_all_rows [OF _ _ _ os])
      (use shop checked(3) user_ids in \<open>auto simp: order_check_def assign_order_def s'\<close>)
  ultimately have orders: "orders_ok s'"
    by (simp add: orders_ok_def orders.keyed_def s' list_all_iff next_after)
  have "items.keyed ls"
    using items.upsert_all_settles [OF _ seed_distinct(4) ls] shop by (simp add: items.keyed_def pair)
  moreover have "\<forall>r\<in>set ls. order_item_check r \<and> oi_order_id r \<in> or_id ` set os \<and> oi_product_id r \<in> pr_id ` set ps"
    by (rule items.upsert_all_rows [OF _ _ _ ls])
      (use shop checked(4) order_ids product_ids in \<open>auto simp: order_item_check_def assign_item_def s'\<close>)
  ultimately have items: "order_items_ok s'"
    by (simp add: order_items_ok_def items.keyed_def s' list_all_iff next_after pair)
  have "records.keyed rs" using records.upsert_all_settles [OF _ seed_distinct(5) rs] shop by (simp add: records.keyed_def)
  moreover have "\<forall>r\<in>set rs. idempotency_check r \<and> ik_order_id r \<in> or_id ` set os"
    by (rule records.upsert_all_rows [OF _ _ _ rs])
      (use shop checked(5) order_ids in \<open>auto simp: idempotency_check_def assign_record_def s'\<close>)
  ultimately have records: "idempotency_ok s'"
    by (simp add: idempotency_ok_def records.keyed_def s' list_all_iff)
  have "jobs_ok s'" using shop order_ids by (auto simp: jobs_ok_def s' list_all_iff)
  with users products orders items records shop show "shop_ok s'"
    by (simp add: shop_ok_def outbox_ok_def s')
  show "distinct (map us_email (t_users s'))" by (rule emails')
qed

section \<open>Seeding empty tables\<close>

lemma seed_rows_checked:
  "list_all user_check (USERS now)" "list_all product_check (PRODUCTS now)" "list_all order_check (ORDERS now)"
  "list_all order_item_check ORDER_ITEMS"
  by (simp_all add: USERS_def PRODUCTS_def ORDERS_def ORDER_ITEMS_def user_seed_def product_seed_def order_seed_def item_seed_def
      user_check_def product_check_def order_check_def order_item_check_def sql_trim_def country_ok_def is_upper_def int4_ok_def)

lemma length_hash64: "length (hash64 s) = 64"
proof -
  have "length (concat (map (\<lambda>c. let n = of_char c :: nat in [hex_char (n div 16), hex_char (n mod 16)]) xs)) = 2 * length xs" for xs
    by (induction xs) (simp_all add: Let_def)
  from this [of "s @ replicate (32 - length s) (CHR ''0'')"] show ?thesis
    by (simp add: hash64_def Let_def del: map_append concat_append)
qed

lemma seed_records_checked: "list_all idempotency_check (IDEMPOTENCY_RECORDS body now)"
  by (simp add: IDEMPOTENCY_RECORDS_def record_seed_def idempotency_check_def length_hash64)

lemma seed_fresh:
  assumes "t_users s = []" "t_products s = []" "t_orders s = []" "t_order_items s = []" "t_idempotency s = []"
  shows "fst (seed body now s) = Inr \<lparr>sc_users = 8, sc_products = 8, sc_orders = 8, sc_order_items = 12,
    sc_idempotency_records = 5\<rparr>"
proof -
  have refs: "\<forall>r\<in>set (ORDERS now). or_user_id r \<in> us_id ` set (USERS now)"
    "\<forall>r\<in>set ORDER_ITEMS. oi_order_id r \<in> or_id ` set (ORDERS now) \<and> oi_product_id r \<in> pr_id ` set (PRODUCTS now)"
    "\<forall>r\<in>set (IDEMPOTENCY_RECORDS body now). ik_order_id r \<in> or_id ` set (ORDERS now)"
    by (simp_all add: USERS_def PRODUCTS_def ORDERS_def ORDER_ITEMS_def IDEMPOTENCY_RECORDS_def user_seed_def product_seed_def
        order_seed_def item_seed_def record_seed_def)
  have second: "distinct (map us_email (USERS now))" "distinct (map item_pair ORDER_ITEMS)"
    "distinct (map ik_order_id (IDEMPOTENCY_RECORDS body now))"
    by (simp_all add: USERS_def ORDER_ITEMS_def IDEMPOTENCY_RECORDS_def user_seed_def item_seed_def record_seed_def item_pair_def)
  have "upsert_each (user_chk t) us_id us_email assign_user (USERS now) [] = (Inr (), USERS now)" for t
    using users.upsert_all_fresh [of "USERS now" t "[]"] seed_rows_checked(1) seed_distinct(1) second(1)
    by (simp add: user_chk_def row_check_None list_all_iff)
  moreover have "upsert_each (product_chk t) pr_id pr_id assign_product (PRODUCTS now) [] = (Inr (), PRODUCTS now)" for t
    using products.upsert_all_fresh [of "PRODUCTS now" t "[]"] seed_rows_checked(2) seed_distinct(2)
    by (simp add: product_chk_def row_check_None list_all_iff)
  moreover have "upsert_each (order_chk t) or_id or_id assign_order (ORDERS now) [] = (Inr (), ORDERS now)" if "t_users t = USERS now" for t
    using orders.upsert_all_fresh [of "ORDERS now" t "[]"] seed_rows_checked(3) seed_distinct(3) refs(1) that
    by (simp add: order_chk_def row_check_None list_all_iff)
  moreover have "upsert_each (item_chk t) oi_id item_pair assign_item ORDER_ITEMS [] = (Inr (), ORDER_ITEMS)"
    if "t_orders t = ORDERS now" "t_products t = PRODUCTS now" for t
    using items.upsert_all_fresh [of ORDER_ITEMS t "[]"] seed_rows_checked(4) seed_distinct(4) second(2) refs(2) that
    by (simp add: item_chk_def row_check_None list_all_iff)
  moreover have "upsert_each (record_chk t) ik_key ik_order_id assign_record (IDEMPOTENCY_RECORDS body now) []
      = (Inr (), IDEMPOTENCY_RECORDS body now)" if "t_orders t = ORDERS now" for t
    using records.upsert_all_fresh [of "IDEMPOTENCY_RECORDS body now" t "[]"] seed_records_checked seed_distinct(5) second(3) refs(3) that
    by (simp add: record_chk_def row_check_None list_all_iff)
  moreover have "length (USERS now) = 8" "length (PRODUCTS now) = 8" "length (ORDERS now) = 8" "length ORDER_ITEMS = 12"
    "length (IDEMPOTENCY_RECORDS body now) = 5"
    by (simp_all add: USERS_def PRODUCTS_def ORDERS_def ORDER_ITEMS_def IDEMPOTENCY_RECORDS_def)
  ultimately show ?thesis
    using assms unfolding seed_def seed_users_def seed_products_def seed_orders_def seed_items_def seed_records_def table_step_def
      db_bind_def syncIdentities_def count_rows_def
    by simp
qed

section \<open>Seeding settles the tables\<close>

text \<open>
  C39. A run of the seed script that succeeds on tables in good order leaves them in good order, and
  every later run changes nothing and reports the same counts, whatever the clock says by then.
\<close>

theorem seed_settles:
  assumes "shop_ok s" and "distinct (map us_email (t_users s))" and "seed body now s = (Inr c, s')"
  shows "shop_ok s' \<and> seed body later s' = (Inr c, s')"
  using seed_keeps_shop [OF assms] seed_again [OF assms] by simp

lemma seed_settles_witness:
  "let body = \<lambda>i. \<lparr>rs_id = i, rs_items = [], rs_total_cents = 0, rs_created_at = []\<rparr>;
       s = snd (seed body 0 empty_db)
   in sc_order_items (projr (fst (seed body 0 empty_db))) = 12 \<and> shop_ok s \<and> snd (seed body 60 s) = s"
proof -
  define body :: "int \<Rightarrow> order_response" where "body = (\<lambda>i. \<lparr>rs_id = i, rs_items = [], rs_total_cents = 0, rs_created_at = []\<rparr>)"
  obtain c s where run: "seed body 0 empty_db = (Inr c, s)" and c: "sc_order_items c = 12"
    using seed_fresh [of empty_db body 0] by (cases "seed body 0 empty_db") (auto simp: empty_db_def)
  show ?thesis
    using seed_settles [OF shop_ok_empty _ run, of 60] run c by (simp add: empty_db_def body_def [symmetric])
qed

end
