(* ===== verification/Race.thy ===== *)
theory Race
  imports Checkout Seed
begin

text \<open>
  The race (\<open>src/demo-race.ts\<close>): fifty buyers check out a product with ten units at once. The
  script's \<open>setval\<close> of the users' sequence has no counterpart, no modelled statement draws from it.
\<close>

section \<open>When a checkout succeeds\<close>

lemma stock_by_text_enough:
  assumes ok: "shop_ok s" and p: "p \<in> set (t_products s)" "pr_is_active p" "q \<le> pr_stock p"
    and q: "1 \<le> q" and pid: "bigint_in ptext = Inr (pr_id p)"
  shows "stock_by_text q ptext s = (Inr [take_stock q p],
    s\<lparr>t_products := map (\<lambda>r. if stock_match q (pr_id p) r then take_stock q r else r) (t_products s)\<rparr>)"
proof -
  have "product_check p" and d: "distinct (map pr_id (t_products s))"
    using ok p(1) by (simp_all add: shop_ok_defs list_all_iff)
  then have int4: "int4_ok (pr_stock p)" "int4_ok q" "int4_ok (pr_stock p - q)"
    using p(3) q by (simp_all add: product_check_def int4_ok_def)
  have "filter (stock_match q (pr_id p)) (t_products s) = filter (\<lambda>r. pr_id r = pr_id p) (t_products s)"
    unfolding stock_match_def by (intro filter_cong refl) (metis distinct_map_unique [OF d _ p(1)] p(2,3))
  also have "\<dots> = [p]" by (rule filter_key_single [OF d p(1)])
  finally show ?thesis
    using int4 bigint_in_range [OF pid]
    by (simp add: stock_by_text_def update_stock_def Let_def pid) (simp add: take_stock_def)
qed

lemma debit_balance_enough:
  assumes ok: "shop_ok s" and u: "u \<in> set (t_users s)" "c \<le> us_balance_cents u" "0 \<le> c"
    and uid: "bigint_in utext = Inr (us_id u)"
  shows "debit_balance c utext s = (Inr [pay c u],
    s\<lparr>t_users := map (\<lambda>r. if debit_match c (us_id u) r then pay c r else r) (t_users s)\<rparr>)"
proof -
  have "user_check u" and d: "distinct (map us_id (t_users s))"
    using ok u(1) by (simp_all add: shop_ok_defs list_all_iff)
  then have int4: "int4_ok c" "int4_ok (us_balance_cents u - c)"
    using u(2,3) by (simp_all add: user_check_def int4_ok_def)
  have "filter (debit_match c (us_id u)) (t_users s) = filter (\<lambda>r. us_id r = us_id u) (t_users s)"
    unfolding debit_match_def by (intro filter_cong refl) (metis distinct_map_unique [OF d _ u(1)] u(2))
  also have "\<dots> = [u]" by (rule filter_key_single [OF d u(1)])
  finally show ?thesis
    using int4 by (simp add: debit_balance_def Let_def uid) (simp add: pay_def)
qed

lemma checkout_succeeds:
  assumes ok: "shop_ok s" and p: "p \<in> set (t_products s)" "pr_is_active p" "q \<le> pr_stock p"
    and u: "u \<in> set (t_users s)" "pr_price_cents p * q \<le> us_balance_cents u"
    and pid: "bigint_in (ci_product_id input) = Inr (pr_id p)"
    and uid: "bigint_in (ci_user_id input) = Inr (us_id u)"
    and q: "ci_quantity input = Fin (of_int q)" "1 \<le> q" "q \<le> 100"
    and cc: "ci_shipping_country input = None"
  shows "\<exists>x s'. checkout now input s = (Inr x, s')"
proof -
  let ?c = "pr_price_cents p * q"
  have checks: "product_check p" "user_check u" using ok p(1) u(1) by (simp_all add: shop_ok_defs list_all_iff)
  have c: "0 \<le> ?c" using checks(1) q(2) by (simp add: product_check_def)
  then have int4: "int4_ok ?c" "int4_ok q" "int4_ok (pr_price_cents p)"
    using checks u(2) q(2,3) by (auto simp: product_check_def user_check_def int4_ok_def intro: order_trans [of _ 0])
  define s1 where "s1 = s\<lparr>t_products := map (\<lambda>r. if stock_match q (pr_id p) r then take_stock q r else r) (t_products s)\<rparr>"
  define s2 where "s2 = s1\<lparr>t_users := map (\<lambda>r. if debit_match ?c (us_id u) r then pay ?c r else r) (t_users s1)\<rparr>"
  have st: "stock_by_text q (ci_product_id input) s = (Inr [take_stock q p], s1)"
    using stock_by_text_enough [OF ok p q(2) pid] by (simp add: s1_def)
  have ok1: "shop_ok s1" by (rule stmt_keepsD [OF stock_by_text_keeps ok st])
  have u1: "u \<in> set (t_users s1)" by (simp add: s1_def u(1))
  have de: "debit_balance ?c (ci_user_id input) s1 = (Inr [pay ?c u], s2)"
    using debit_balance_enough [OF ok1 u1 u(2) c uid] by (simp add: s2_def)
  have users: "us_id u \<in> us_id ` set (t_users s2)"
  proof -
    have "map us_id (t_users s2) = map us_id (t_users s1)" by (simp add: s2_def pay_def)
    then show ?thesis using u1 by (metis image_eqI list.set_map)
  qed
  have prods: "pr_id p \<in> pr_id ` set (t_products s2)"
  proof -
    have "map pr_id (t_products s2) = map pr_id (t_products s)" by (simp add: s2_def s1_def take_stock_def)
    then show ?thesis using p(1) by (metis image_eqI list.set_map)
  qed
  obtain ord s3 where o: "insert_order_row now (ci_user_id input) ?c ''US'' s2 = (Inr ord, s3)"
    using users c int4(1)
    by (simp add: insert_order_row_def uid char_in_def order_check_def country_ok_def is_upper_def Let_def)
  note O = insert_order_row_Inr [OF o]
  have oid: "or_id ord = sq_orders (sequences s)" by (subst O(1)) (simp add: s2_def s1_def)
  have fresh: "(or_id ord, pr_id p) \<notin> (\<lambda>r. (oi_order_id r, oi_product_id r)) ` set (t_order_items s)"
    using ok by (fastforce simp: oid shop_ok_defs)
  have line: "int4_ok (pl_quantity l)" "int4_ok (pl_unit_price_cents l)" "int4_ok (pl_line_total_cents l)"
    if "l = \<lparr>pl_product_id = pr_id p, pl_quantity = q, pl_unit_price_cents = pr_price_cents p, pl_line_total_cents = ?c\<rparr>" for l
    using int4 that by simp_all
  obtain s4 where i: "insert_item_row (or_id ord) \<lparr>pl_product_id = pr_id p, pl_quantity = q,
      pl_unit_price_cents = pr_price_cents p, pl_line_total_cents = ?c\<rparr> s3 = (Inr (), s4)" and s4: "t_orders s4 = t_orders s3"
    using int4 q(2,3) fresh prods checks(1)
    by (simp add: insert_item_row_def Let_def order_item_check_def product_check_def O(6)) (simp add: s2_def s1_def)
  have "or_id ord \<in> or_id ` set (t_orders s4)" by (simp add: s4 O(6))
  then obtain jid s5 where j: "insert_job now (JObj [(''orderId'', JStr (show_int (or_id ord))),
      (''userId'', JStr (ci_user_id input))]) (or_id ord) s4 = (Inr jid, s5)"
    by (simp add: insert_job_def Let_def)
  show ?thesis
    using st de o i j q(1,2)
    by (simp add: checkout_def checkout_order_def cc country_or_us_def db_return_def take_stock_def Let_def)
qed

lemma checkout_sold_out:
  assumes pid: "bigint_in (ci_product_id input) = Inr k" and none: "\<forall>r\<in>set (t_products s). pr_id r = k \<longrightarrow> pr_stock r < q"
    and q: "ci_quantity input = Fin (of_int q)" "1 \<le> q" "q \<le> 100"
  shows "checkout now input s = (Inl InsufficientStockError, s)"
proof -
  have no: "filter (stock_match q k) (t_products s) = []" using none by (auto simp: stock_match_def filter_empty_conv)
  then have "\<forall>r\<in>set (t_products s). \<not> stock_match q k r" by (simp add: filter_empty_conv)
  then have "map (\<lambda>r. if stock_match q k r then take_stock q r else r) (t_products s) = t_products s"
    by (intro map_idI) simp
  with no q pid bigint_in_range [OF pid] have "stock_by_text q (ci_product_id input) s = (Inr [], s)"
    by (simp add: stock_by_text_def update_stock_def int4_ok_def)
  with q show ?thesis by (simp add: checkout_def db_throw_def)
qed

section \<open>The script\<close>

definition ATTEMPTS :: nat where
  "ATTEMPTS = 50"

definition INITIAL_STOCK :: int where
  "INITIAL_STOCK = 10"

definition QTY :: int where
  "QTY = 1"

definition insert_race_product :: "int \<Rightarrow> int stmt" where
  "insert_race_product now s =
     (let pid = sq_products (sequences s);
          s1 = s\<lparr>sequences := (sequences s)\<lparr>sq_products := pid + 1\<rparr>\<rparr>;
          row = \<lparr>pr_id = pid, pr_name = ''Race Widget'', pr_price_cents = 100, pr_stock = INITIAL_STOCK,
                 pr_is_active = True, pr_created_at = now\<rparr>
      in if \<not> product_check row then (Inl check_violation, s1)
         else if pid \<in> pr_id ` set (t_products s) then (Inl unique_violation, s1)
         else (Inr pid, s1\<lparr>t_products := t_products s @ [row]\<rparr>))"

text \<open>The buyers are upserted like those of the seed; the loop counts from 1.\<close>

definition race_buyer :: "int \<Rightarrow> nat \<Rightarrow> user_row" where
  "race_buyer now i = user_seed now (1000 + int i) (''race-buyer-'' @ show_nat i @ ''@example.com'') (''Race Buyer '' @ show_nat i)"

definition insert_race_buyers :: "int \<Rightarrow> unit stmt" where
  "insert_race_buyers now = table_step t_users (\<lambda>rows s. s\<lparr>t_users := rows\<rparr>) user_chk us_id us_email assign_user
     (map (race_buyer now) [1..<ATTEMPTS + 1])"

definition race_prepare :: "int \<Rightarrow> int stmt" where
  "race_prepare now = db_bind (insert_race_product now) (\<lambda>pid. db_bind (insert_race_buyers now) (\<lambda>_. db_return pid))"

definition is_InsufficientStockError :: "exn \<Rightarrow> bool" where
  "is_InsufficientStockError e = (case e of CheckoutFailure n _ \<Rightarrow> n = ''InsufficientStockError'' | _ \<Rightarrow> False)"

definition race_input :: "int \<Rightarrow> nat \<Rightarrow> checkout_input" where
  "race_input pid index = \<lparr>ci_user_id = show_int (1000 + int index + 1), ci_product_id = show_int pid,
     ci_quantity = Fin (of_int QTY), ci_shipping_country = None\<rparr>"

text \<open>One attempt: its transaction, and what \<open>then\<close> and \<open>catch\<close> make of the outcome.\<close>

definition race_attempt :: "int \<Rightarrow> int \<Rightarrow> nat \<Rightarrow> bool stmt" where
  "race_attempt now pid index s =
     (case transaction (checkout now (race_input pid index)) s of
        (Inr _, s') \<Rightarrow> (Inr True, s')
      | (Inl e, s') \<Rightarrow> if is_InsufficientStockError e then (Inr False, s') else (Inl e, s'))"

text \<open>
  The transactions run at once. The first statement of each updates the one product row, whose lock
  it holds until it ends, so they take effect in the order in which they were given the lock.
\<close>

fun race_run :: "int \<Rightarrow> int \<Rightarrow> nat list \<Rightarrow> db \<Rightarrow> (exn + bool) list \<times> db" where
  "race_run now pid [] s = ([], s)"
| "race_run now pid (index # order) s =
     (case race_attempt now pid index s of (r, s') \<Rightarrow>
        case race_run now pid order s' of (rs, s'') \<Rightarrow> (r # rs, s''))"

fun promise_all :: "(exn + 'a) list \<Rightarrow> exn + 'a list" where
  "promise_all [] = Inr []"
| "promise_all (Inl e # rs) = Inl e"
| "promise_all (Inr x # rs) = res_bind (promise_all rs) (\<lambda>xs. Inr (x # xs))"

text \<open>The stock is \<open>NaN\<close> when the product is gone, here \<open>None\<close>.\<close>

record race_report =
  rc_successes :: nat
  rc_final_stock :: "int option"
  rc_negative_rows :: nat

definition race_main :: "int \<Rightarrow> nat list \<Rightarrow> race_report stmt" where
  "race_main now order = db_bind (race_prepare now) (\<lambda>pid s.
     case race_run now pid order s of (rs, s') \<Rightarrow>
       (case promise_all rs of
          Inl e \<Rightarrow> (Inl e, s')
        | Inr results \<Rightarrow>
            (Inr \<lparr>rc_successes = length (filter (\<lambda>r. r) results),
                  rc_final_stock = (case filter (\<lambda>r. pr_id r = pid) (t_products s') of
                      [] \<Rightarrow> None | r # _ \<Rightarrow> Some (pr_stock r)),
                  rc_negative_rows = length (filter (\<lambda>r. pr_stock r < 0) (t_products s'))\<rparr>, s')))"

text \<open>What the script checks before it ends with status 0.\<close>

definition race_ok :: "race_report \<Rightarrow> bool" where
  "race_ok r \<longleftrightarrow> 50 \<le> ATTEMPTS \<and> int (rc_successes r) = INITIAL_STOCK \<and> rc_final_stock r = Some 0
     \<and> rc_negative_rows r = 0"

section \<open>A run of the race\<close>

lemma bigint_in_printed: "int8_ok i \<Longrightarrow> bigint_in (show_int i) = Inr i"
proof (cases "0 \<le> i")
  case True
  moreover assume "int8_ok i"
  ultimately show ?thesis using bigint_in_show_nat [of "nat i"] by (simp add: show_int_def int8_ok_def)
next
  case False
  assume i: "int8_ok i"
  have "\<not> is_ws (CHR ''-'')" by (simp add: is_ws_def)
  then have "js_trim (CHR ''-'' # show_nat (nat (- i))) = CHR ''-'' # show_nat (nat (- i))"
    using show_nat_digits [of "nat (- i)"] by (intro js_trim_id) (auto simp: list_all_iff digit_not_ws)
  with False i show ?thesis
    using show_nat_digits [of "nat (- i)"] by (simp add: bigint_in_def show_int_def)
qed

text \<open>The product with \<open>n\<close> units on the shelf, and buyers who can pay.\<close>

definition race_ready :: "int \<Rightarrow> nat \<Rightarrow> nat set \<Rightarrow> db \<Rightarrow> bool" where
  "race_ready pid n buyers s \<longleftrightarrow> shop_ok s \<and> int8_ok pid
     \<and> (\<exists>p\<in>set (t_products s). pr_id p = pid \<and> pr_is_active p \<and> pr_price_cents p = 100 \<and> pr_stock p = int n)
     \<and> (\<forall>i\<in>buyers. i < ATTEMPTS \<and> (\<exists>u\<in>set (t_users s). us_id u = 1001 + int i \<and> 100 \<le> us_balance_cents u))"

lemma race_input_simps [simp]:
  "bigint_in (ci_product_id (race_input pid i)) = (if int8_ok pid then Inr pid else bigint_in (show_int pid))"
  "i < ATTEMPTS \<Longrightarrow> bigint_in (ci_user_id (race_input pid i)) = Inr (1001 + int i)"
  "ci_quantity (race_input pid i) = Fin (of_int 1)" "ci_shipping_country (race_input pid i) = None"
  using bigint_in_printed [of "1001 + int i"]
  by (simp_all add: race_input_def QTY_def bigint_in_printed ATTEMPTS_def int8_ok_def algebra_simps)

lemma race_attempt_sells:
  assumes r: "race_ready pid (Suc n) buyers s" and i: "i \<in> buyers"
  shows "\<exists>s'. race_attempt now pid i s = (Inr True, s') \<and> race_ready pid n (buyers - {i}) s'
    \<and> turnover s' = turnover s + 100 \<and> length (t_orders s') = length (t_orders s) + 1"
proof -
  have ok: "shop_ok s" and pid: "int8_ok pid" and lt: "i < ATTEMPTS" using r i by (auto simp: race_ready_def)
  obtain p where p: "p \<in> set (t_products s)" "pr_id p = pid" "pr_is_active p" "pr_price_cents p = 100" "pr_stock p = int (Suc n)"
    using r by (auto simp: race_ready_def)
  obtain u where u: "u \<in> set (t_users s)" "us_id u = 1001 + int i" "100 \<le> us_balance_cents u"
    using r i by (auto simp: race_ready_def)
  obtain x s' where c: "checkout now (race_input pid i) s = (Inr x, s')"
    using checkout_succeeds [OF ok p(1,3) _ u(1), of 1 "race_input pid i" now] p u pid lt by auto
  have d: "distinct (map pr_id (t_products s))" "distinct (map us_id (t_users s))" using ok by (simp_all add: shop_ok_defs)
  obtain country where s': "s' = sale_db now (ci_user_id (race_input pid i)) u p 1 country s"
  proof -
    obtain p' u' country where "p' \<in> set (t_products s)" "u' \<in> set (t_users s)" "pid = pr_id p'" "1001 + int i = us_id u'"
        "s' = sale_db now (ci_user_id (race_input pid i)) u' p' 1 country s"
      by (rule checkout_sale [OF ok c]) (use pid lt in auto)
    moreover from this(1,3) have "p' = p" using distinct_map_unique [OF d(1) _ p(1)] p(2) by simp
    moreover from calculation(2,4) have "u' = u" using distinct_map_unique [OF d(2) _ u(1)] u(2) by simp
    ultimately show thesis using that by simp
  qed
  have ok': "shop_ok s'" by (rule stmt_keepsD [OF checkout_keeps ok c])
  have "take_stock 1 p \<in> set (t_products s')"
    using imageI [OF p(1), of "\<lambda>r. if pr_id r = pr_id p then take_stock 1 r else r"] by (simp add: s' sale_db_def)
  then have product: "\<exists>p\<in>set (t_products s'). pr_id p = pid \<and> pr_is_active p \<and> pr_price_cents p = 100 \<and> pr_stock p = int n"
    by (rule bexI [rotated]) (simp add: take_stock_def p)
  have "\<exists>v\<in>set (t_users s'). us_id v = 1001 + int j \<and> 100 \<le> us_balance_cents v" if j: "j \<in> buyers - {i}" for j
  proof -
    obtain v where v: "v \<in> set (t_users s)" "us_id v = 1001 + int j" "100 \<le> us_balance_cents v"
      using r j by (auto simp: race_ready_def)
    have "us_id v \<noteq> us_id u" using j v(2) u(2) by simp
    then have "v \<in> set (t_users s')"
      using imageI [OF v(1), of "\<lambda>r. if us_id r = us_id u then pay (pr_price_cents p * 1) r else r"] by (simp add: s' sale_db_def)
    with v show ?thesis by blast
  qed
  then have "race_ready pid n (buyers - {i}) s'" using ok' pid product r by (simp add: race_ready_def)
  moreover have "turnover s' = turnover s + 100" using sale_money(2) [OF ok u(1)] p(4) by (simp add: s')
  moreover have "length (t_orders s') = length (t_orders s) + 1" by (simp add: s' sale_db_def)
  ultimately show ?thesis using c by (simp add: race_attempt_def transaction_def)
qed

lemma race_attempt_sold_out:
  assumes r: "race_ready pid 0 buyers s"
  shows "race_attempt now pid i s = (Inr False, s)"
proof -
  have ok: "shop_ok s" and pid: "int8_ok pid" using r by (auto simp: race_ready_def)
  obtain p where p: "p \<in> set (t_products s)" "pr_id p = pid" "pr_stock p = 0" using r by (auto simp: race_ready_def)
  have d: "distinct (map pr_id (t_products s))" using ok by (simp add: shop_ok_defs)
  have "pr_stock r < 1" if "r \<in> set (t_products s)" "pr_id r = pid" for r
    using distinct_map_unique [OF d that(1) p(1)] that(2) p(2,3) by simp
  then have "\<forall>r\<in>set (t_products s). pr_id r = pid \<longrightarrow> pr_stock r < 1" by blast
  from checkout_sold_out [OF _ this, of "race_input pid i" now] pid show ?thesis
    by (simp add: race_attempt_def transaction_def rollback_def is_InsufficientStockError_def)
qed

lemma race_run_sells:
  assumes "race_ready pid n (set order) s" "distinct order"
  shows "\<exists>s'. race_run now pid order s = (map Inr (replicate (min n (length order)) True @ replicate (length order - n) False), s')
    \<and> race_ready pid (n - length order) {} s'
    \<and> turnover s' = turnover s + 100 * int (min n (length order))
    \<and> length (t_orders s') = length (t_orders s) + min n (length order)"
  using assms
proof (induction order arbitrary: n s)
  case (Cons i order)
  show ?case
  proof (cases n)
    case 0
    have "race_ready pid 0 (set order) s" using Cons.prems(1) 0 by (simp add: race_ready_def)
    with Cons.IH [of 0 s] Cons.prems race_attempt_sold_out [of pid "set (i # order)" s now i] 0 show ?thesis by auto
  next
    case (Suc m)
    obtain s1 where s1: "race_attempt now pid i s = (Inr True, s1)" "race_ready pid m (set (i # order) - {i}) s1"
        "turnover s1 = turnover s + 100" "length (t_orders s1) = length (t_orders s) + 1"
      using race_attempt_sells [of pid m "set (i # order)" s i now] Cons.prems(1) Suc by auto
    have "race_ready pid m (set order) s1" using s1(2) Cons.prems(2) by simp
    with Cons.IH [of m s1] Cons.prems(2) s1 Suc show ?thesis by auto
  qed
qed (simp add: race_ready_def)

section \<open>The preparation\<close>

lemma race_buyers_distinct: "distinct (map us_id (map (race_buyer now) is)) \<longleftrightarrow> distinct is"
  by (simp add: race_buyer_def user_seed_def comp_def distinct_map inj_on_def)

lemma race_prepare_InrE:
  assumes "race_prepare now s = (Inr pid, s')"
  obtains row us where "pid = sq_products (sequences s)" "product_check row" "pr_id row = pid" "pr_is_active row"
    "pr_price_cents row = 100" "pr_stock row = 10"
    "upsert_each (user_chk s) us_id us_email assign_user (map (race_buyer now) [1..<ATTEMPTS + 1]) (t_users s) = (Inr (), us)"
    "s' = s\<lparr>t_products := t_products s @ [row], t_users := us,
       sequences := (sequences s)\<lparr>sq_products := sq_products (sequences s) + 1\<rparr>\<rparr>"
  using assms unfolding race_prepare_def
  by (elim db_bind_InrE)
    (auto simp: insert_race_product_def insert_race_buyers_def INITIAL_STOCK_def table_step_Inr db_return_def user_chk_def Let_def
      split: if_splits)

lemma race_prepare_ready:
  assumes ok: "shop_ok s" and emails: "distinct (map us_email (t_users s))" and pid: "int8_ok (sq_products (sequences s))"
    and run: "race_prepare now s = (Inr pid, s')"
  shows "race_ready pid 10 {..<ATTEMPTS} s'"
proof -
  note shop = ok [unfolded shop_ok_defs list_all_iff]
  obtain row us where row: "pid = sq_products (sequences s)" "product_check row" "pr_id row = pid" "pr_is_active row"
      "pr_price_cents row = 100" "pr_stock row = 10"
    and us: "upsert_each (user_chk s) us_id us_email assign_user (map (race_buyer now) [1..<ATTEMPTS + 1]) (t_users s) = (Inr (), us)"
    and s': "s' = s\<lparr>t_products := t_products s @ [row], t_users := us,
       sequences := (sequences s)\<lparr>sq_products := sq_products (sequences s) + 1\<rparr>\<rparr>"
    by (rule race_prepare_InrE [OF run])
  have dist: "distinct (map us_id (map (race_buyer now) [1..<ATTEMPTS + 1]))" by (simp only: race_buyers_distinct distinct_upt)
  have settles: "users.keyed us \<and> (\<forall>new\<in>set (map (race_buyer now) [1..<ATTEMPTS + 1]). users.settled new us)"
    using users.upsert_all_settles [OF _ dist us] shop emails by (simp add: users.keyed_def)
  have "\<forall>r\<in>set us. user_check r"
    by (rule users.upsert_all_rows [OF _ _ _ us])
      (use shop users.upsert_all_checked [OF us] in \<open>auto simp: user_check_def assign_user_def user_chk_def row_check_None\<close>)
  then have "users_ok s'" using settles by (simp add: users_ok_def users.keyed_def s' list_all_iff)
  moreover have "products_ok s'" using shop row by (auto simp: products_ok_def s' list_all_iff)
  moreover have "orders_ok s'" using shop users.upsert_all_keys [OF us] by (simp add: orders_ok_def s' list_all_iff)
  moreover have "order_items_ok s'" "idempotency_ok s'" "jobs_ok s'" "outbox_ok s'"
    using shop by (simp_all add: order_items_ok_def idempotency_ok_def jobs_ok_def outbox_ok_def s' list_all_iff)
  ultimately have "shop_ok s'" by (simp add: shop_ok_def)
  moreover have "\<exists>u\<in>set us. us_id u = 1001 + int i \<and> 100 \<le> us_balance_cents u" if i: "i < ATTEMPTS" for i
  proof -
    have "Suc i \<in> set [1..<ATTEMPTS + 1]" using i by auto
    then have "race_buyer now (Suc i) \<in> set (map (race_buyer now) [1..<ATTEMPTS + 1])" unfolding set_map by (rule imageI)
    with settles have "users.settled (race_buyer now (Suc i)) us" by blast
    then obtain r where r: "r \<in> set us" "us_id r = us_id (race_buyer now (Suc i))" "assign_user (race_buyer now (Suc i)) r = r"
      by (auto simp: users.settled_def)
    from r(3) have "us_balance_cents r = us_balance_cents (race_buyer now (Suc i))"
      by (metis assign_user_def user_row.select_convs(4) user_row.surjective user_row.update_convs(4))
    with r show ?thesis by (intro bexI [of _ r]) (simp_all add: race_buyer_def user_seed_def)
  qed
  ultimately show ?thesis using row pid by (simp add: race_ready_def s')
qed

lemma promise_all_Inr: "promise_all (map Inr xs) = Inr xs"
  by (induction xs) simp_all

section \<open>The race sells what there is\<close>

lemma race_buyer_checked: "user_check (race_buyer now i)"
proof -
  have "is_digit (last (show_nat i))" using show_nat_digits [of i] by (simp add: list_all_iff)
  then have "last (show_nat i) \<noteq> CHR '' ''" by (auto simp: is_digit_def)
  then have "sql_trim (''Race Buyer '' @ show_nat i) = ''Race Buyer '' @ show_nat i"
    by (cases "rev (show_nat i)") (auto simp: sql_trim_def dropWhile_append1 hd_rev [symmetric])
  then show ?thesis by (simp add: race_buyer_def user_seed_def user_check_def int4_ok_def)
qed

text \<open>
  C20. In whatever order the fifty transactions are given the lock of the product, the script ends with
  status 0: exactly ten checkouts succeed, every other is told that the stock is insufficient, the
  stock is 0 and no stock is negative; ten orders were added, and they are worth what ten units cost.
\<close>

theorem race_sells_the_stock:
  assumes "shop_ok s" and "distinct (map us_email (t_users s))" and "int8_ok (sq_products (sequences s))"
    and "race_prepare now s = (Inr pid, s1)" and "mset order = mset [0..<ATTEMPTS]"
  shows "\<exists>report s'. race_main now order s = (Inr report, s') \<and> race_ok report \<and> rc_successes report = 10
    \<and> length (t_orders s') = length (t_orders s1) + 10 \<and> turnover s' = turnover s1 + 1000"
proof -
  have order: "set order = {..<ATTEMPTS}" "distinct order" "length order = ATTEMPTS"
    using mset_eq_setD [OF assms(5)] mset_eq_imp_distinct_iff [OF assms(5)] mset_eq_length [OF assms(5)]
    by (simp_all add: atLeast0LessThan)
  have "race_ready pid 10 (set order) s1" using race_prepare_ready [OF assms(1-4)] order(1) by simp
  then obtain s' where run: "race_run now pid order s1 = (map Inr (replicate 10 True @ replicate 40 False), s')"
    and ready: "race_ready pid 0 {} s'" and made: "turnover s' = turnover s1 + 1000" "length (t_orders s') = length (t_orders s1) + 10"
    using race_run_sells [of pid 10 order s1 now] order(2,3) by (auto simp: ATTEMPTS_def)
  obtain p where p: "p \<in> set (t_products s')" "pr_id p = pid" "pr_stock p = 0" and ok: "shop_ok s'"
    using ready by (auto simp: race_ready_def)
  have "filter (\<lambda>r. pr_id r = pid) (t_products s') = [p]"
    using filter_key_single [of pr_id "t_products s'" p] ok p by (simp add: shop_ok_defs)
  moreover have "filter (\<lambda>r. pr_stock r < 0) (t_products s') = []"
    using ok by (auto simp: shop_ok_defs list_all_iff product_check_def filter_empty_conv)
  ultimately show ?thesis
    using run made p by (simp add: race_main_def assms(4) promise_all_Inr db_bind_def race_ok_def ATTEMPTS_def INITIAL_STOCK_def del: map_append)
qed

lemma race_sells_the_stock_witness:
  "rc_final_stock (projr (fst (race_main 0 (rev [0..<50]) empty_db))) = Some 0"
proof -
  let ?new = "map (race_buyer 0) [1..<ATTEMPTS + 1]"
  have "\<forall>new\<in>set ?new. user_chk empty_db new = None" by (simp add: user_chk_def row_check_None race_buyer_checked)
  moreover have "distinct (map us_email ?new)"
    by (simp add: race_buyer_def user_seed_def comp_def distinct_map inj_on_def)
  ultimately have "upsert_each (user_chk t) us_id us_email assign_user ?new [] = (Inr (), ?new)" for t
    using users.upsert_all_fresh [of ?new empty_db "[]"] race_buyers_distinct [of 0 "[1..<ATTEMPTS + 1]"] by (simp add: user_chk_def)
  then obtain pid s1 where prep: "race_prepare 0 empty_db = (Inr pid, s1)"
    by (simp add: race_prepare_def db_bind_def insert_race_product_def insert_race_buyers_def table_step_def Let_def INITIAL_STOCK_def
        product_check_def sql_trim_def int4_ok_def db_return_def empty_db_def del: map_append)
  have "mset (rev [0..<50]) = mset [0..<ATTEMPTS]" by (simp add: ATTEMPTS_def)
  from race_sells_the_stock [OF shop_ok_empty _ _ prep this] show ?thesis
    by (auto simp: empty_db_def int8_ok_def race_ok_def)
qed

end
