(* ===== verification/LostUpdate.thy ===== *)
theory LostUpdate
  imports Retry Seed
begin

text \<open>
  Debits under snapshot isolation (\<open>src/demo-retry.ts\<close>): eight transactions read a balance, compute and
  write it back under \<open>REPEATABLE READ\<close>, each inside \<open>withSerializationRetry\<close>. The state is that of the
  database with the number of commits of the row; a step is one statement or the commit of one worker.
\<close>

section \<open>The account\<close>

definition ACCOUNT_ID :: int where
  "ACCOUNT_ID = 9001"

definition DELTA :: int where
  "DELTA = 1"

definition PARALLEL :: nat where
  "PARALLEL = 8"

definition INITIAL_BALANCE :: int where
  "INITIAL_BALANCE = 100"

definition debit_account :: "int \<Rightarrow> user_row" where
  "debit_account now = (user_seed now ACCOUNT_ID ''retry-demo@example.com'' ''Retry Demo'')\<lparr>us_balance_cents := INITIAL_BALANCE\<rparr>"

definition debit_prepare :: "int \<Rightarrow> unit stmt" where
  "debit_prepare now = table_step t_users (\<lambda>rows s. s\<lparr>t_users := rows\<rparr>) user_chk us_id us_email assign_user [debit_account now]"

definition select_balance :: "db \<Rightarrow> int option" where
  "select_balance s = (case filter (\<lambda>r. us_id r = ACCOUNT_ID) (t_users s) of [] \<Rightarrow> None | r # _ \<Rightarrow> Some (us_balance_cents r))"

definition write_balance :: "int \<Rightarrow> db \<Rightarrow> db" where
  "write_balance v s = s\<lparr>t_users := map (\<lambda>r. if us_id r = ACCOUNT_ID then r\<lparr>us_balance_cents := v\<rparr> else r) (t_users s)\<rparr>"

section \<open>One debit\<close>

text \<open>
  Where a debit stands; the first number counts the failed attempts. The \<open>SELECT\<close> takes the snapshot:
  the balance and how often the row had been committed.
\<close>

datatype debit_phase =
    Begin nat
  | Selected nat int nat
  | Updated nat int
  | Committed
  | Rejected exn

record debit_state =
  ds_db :: db
  ds_commits :: nat
  ds_workers :: "debit_phase list"
  ds_retries :: "(nat \<times> string) list"

definition debit_options :: RetryOptions where
  "debit_options = \<lparr>rp_maxAttempts = Some 20, rp_baseDelayMs = Some 15\<rparr>"

definition set_phase :: "nat \<Rightarrow> debit_phase \<Rightarrow> debit_state \<Rightarrow> debit_state" where
  "set_phase i ph st = st\<lparr>ds_workers := (ds_workers st)[i := ph]\<rparr>"

text \<open>The transaction has failed and is rolled back; the retry begins another or gives up.\<close>

definition debit_failed :: "nat \<Rightarrow> nat \<Rightarrow> exn \<Rightarrow> debit_state \<Rightarrow> debit_state" where
  "debit_failed i a e st =
     (if \<not> isRetryableSerializationError e \<or> max_attempts debit_options \<le> int a + 1 then set_phase i (Rejected e) st
      else (set_phase i (Begin (a + 1)) st)\<lparr>ds_retries := ds_retries st @
        [(a + 1, case getPgErrorCode e of Some c \<Rightarrow> c | None \<Rightarrow> [])]\<rparr>)"

fun holds_row :: "debit_phase \<Rightarrow> bool" where
  "holds_row (Updated a v) = True"
| "holds_row _ = False"

text \<open>Another transaction has updated the row and not ended: an \<open>UPDATE\<close> waits for it.\<close>

definition row_locked :: "nat \<Rightarrow> debit_state \<Rightarrow> bool" where
  "row_locked i st \<longleftrightarrow> (\<exists>j<length (ds_workers st). j \<noteq> i \<and> holds_row (ds_workers st ! j))"

text \<open>
  The next statement of worker \<open>i\<close>. An \<open>UPDATE\<close> of a row that was committed after the snapshot fails
  with 40001.
\<close>

definition debit_step :: "nat \<Rightarrow> debit_state \<Rightarrow> debit_state" where
  "debit_step i st =
     (if length (ds_workers st) \<le> i then st
      else case ds_workers st ! i of
        Begin a \<Rightarrow>
          (case select_balance (ds_db st) of
             None \<Rightarrow> debit_failed i a (JsError ''Cannot read properties of undefined'') st
           | Some v \<Rightarrow> set_phase i (Selected a v (ds_commits st)) st)
      | Selected a v snapshot \<Rightarrow>
          if row_locked i st then st
          else if snapshot \<noteq> ds_commits st then debit_failed i a (pg_error ''40001'') st
          else if \<not> int4_ok (v - DELTA) then debit_failed i a numeric_out_of_range st
          else if v - DELTA < 0 then debit_failed i a check_violation st
          else set_phase i (Updated a (v - DELTA)) st
      | Updated a v \<Rightarrow>
          (set_phase i Committed st)\<lparr>ds_db := write_balance v (ds_db st), ds_commits := ds_commits st + 1\<rparr>
      | _ \<Rightarrow> st)"

definition debit_start :: "nat \<Rightarrow> db \<Rightarrow> debit_state" where
  "debit_start n s = \<lparr>ds_db = s, ds_commits = 0, ds_workers = replicate n (Begin 0), ds_retries = []\<rparr>"

text \<open>What the script compares at the end.\<close>

definition debit_balance_ok :: "debit_state \<Rightarrow> bool" where
  "debit_balance_ok st \<longleftrightarrow> select_balance (ds_db st) = Some (INITIAL_BALANCE - int PARALLEL * DELTA)"

definition debit_retried :: "debit_state \<Rightarrow> bool" where
  "debit_retried st \<longleftrightarrow> 1 \<le> length (ds_retries st) \<and> list_ex (\<lambda>r. snd r \<in> {''40001'', ''40P01''}) (ds_retries st)"

section \<open>No update is lost\<close>

lemma select_write:
  assumes "select_balance s \<noteq> None"
  shows "select_balance (write_balance v s) = Some v"
proof -
  have "filter (\<lambda>r. us_id r = ACCOUNT_ID) (map (\<lambda>r. if us_id r = ACCOUNT_ID then r\<lparr>us_balance_cents := v\<rparr> else r) rows) =
      map (\<lambda>r. r\<lparr>us_balance_cents := v\<rparr>) (filter (\<lambda>r. us_id r = ACCOUNT_ID) rows)" for rows
    by (induction rows) auto
  from this [of "t_users s"] show ?thesis
    using assms by (simp add: select_balance_def write_balance_def split: list.splits)
qed

lemma write_write [simp]: "write_balance v (write_balance w s) = write_balance v s"
  by (simp add: write_balance_def comp_def cong: if_cong)

lemma write_same:
  assumes "distinct (map us_id (t_users s))" "select_balance s = Some v"
  shows "write_balance v s = s"
proof -
  obtain r where r: "filter (\<lambda>r. us_id r = ACCOUNT_ID) (t_users s) = [r]" "us_balance_cents r = v" "r \<in> set (t_users s)" "us_id r = ACCOUNT_ID"
  proof -
    obtain r rs where f: "filter (\<lambda>r. us_id r = ACCOUNT_ID) (t_users s) = r # rs" "us_balance_cents r = v"
      using assms(2) by (auto simp: select_balance_def split: list.splits)
    have r: "r \<in> set (t_users s)" "us_id r = ACCOUNT_ID" using f(1) [symmetric] by (auto dest!: arg_cong [of _ _ set])
    with f filter_key_single [OF assms(1) r(1)] show thesis using that by auto
  qed
  have "x\<lparr>us_balance_cents := v\<rparr> = x" if "x \<in> set (t_users s)" "us_id x = ACCOUNT_ID" for x
    using distinct_map_unique [OF assms(1) that(1) r(3)] that(2) r(2,4) by simp
  then have "map (\<lambda>r. if us_id r = ACCOUNT_ID then r\<lparr>us_balance_cents := v\<rparr> else r) (t_users s) = t_users s"
    by (intro map_idI) simp
  then show ?thesis by (simp add: write_balance_def)
qed

text \<open>\<open>n\<close> debits of an account: what the phase of a worker says, given the number of commits.\<close>

fun phase_ok :: "nat \<Rightarrow> debit_phase \<Rightarrow> bool" where
  "phase_ok k (Begin a) \<longleftrightarrow> a \<le> k"
| "phase_ok k (Selected a v snapshot) \<longleftrightarrow> a \<le> snapshot \<and> snapshot \<le> k \<and> (snapshot = k \<longrightarrow> v = INITIAL_BALANCE - int k * DELTA)"
| "phase_ok k (Updated a v) \<longleftrightarrow> a \<le> k \<and> v = INITIAL_BALANCE - int (k + 1) * DELTA"
| "phase_ok k Committed \<longleftrightarrow> True"
| "phase_ok k (Rejected e) \<longleftrightarrow> False"

definition committed :: "debit_phase list \<Rightarrow> nat set" where
  "committed ws = {i. i < length ws \<and> ws ! i = Committed}"

definition debit_inv :: "db \<Rightarrow> nat \<Rightarrow> debit_state \<Rightarrow> bool" where
  "debit_inv s n st \<longleftrightarrow> length (ds_workers st) = n \<and> ds_commits st = card (committed (ds_workers st))
     \<and> ds_db st = write_balance (INITIAL_BALANCE - int (ds_commits st) * DELTA) s
     \<and> (\<forall>i<n. phase_ok (ds_commits st) (ds_workers st ! i))
     \<and> (\<forall>i<n. \<forall>j<n. holds_row (ds_workers st ! i) \<longrightarrow> holds_row (ds_workers st ! j) \<longrightarrow> i = j)"

lemma card_committed:
  assumes "i < length ws" "ws ! i \<noteq> Committed"
  shows "card (committed (ws[i := Committed])) = card (committed ws) + 1"
    and "ph \<noteq> Committed \<Longrightarrow> committed (ws[i := ph]) = committed ws"
    and "card (committed ws) < length ws"
proof -
  have "committed ws \<subseteq> {..<length ws} - {i}" using assms(2) by (auto simp: committed_def)
  then have fin: "finite (committed ws)" and "card (committed ws) \<le> card ({..<length ws} - {i})"
    by (auto intro: finite_subset card_mono)
  then show "card (committed ws) < length ws" using assms(1) by simp
  have "committed (ws[i := Committed]) = insert i (committed ws)"
    using assms(1) by (auto simp: committed_def nth_list_update)
  moreover have "i \<notin> committed ws" using assms(2) by (simp add: committed_def)
  ultimately show "card (committed (ws[i := Committed])) = card (committed ws) + 1" using fin by simp
  show "ph \<noteq> Committed \<Longrightarrow> committed (ws[i := ph]) = committed ws"
    using assms by (auto simp: committed_def nth_list_update split: if_splits)
qed

lemma debit_inv_phase:
  assumes inv: "debit_inv s n st" and i: "i < n" "ds_workers st ! i \<noteq> Committed"
    and ph: "ph \<noteq> Committed" "phase_ok (ds_commits st) ph" "holds_row ph \<Longrightarrow> \<not> row_locked i st"
  shows "debit_inv s n (set_phase i ph st)"
proof -
  have "\<forall>j<n. \<forall>k<n. holds_row ((ds_workers st)[i := ph] ! j) \<longrightarrow> holds_row ((ds_workers st)[i := ph] ! k) \<longrightarrow> j = k"
    using inv ph(3) unfolding debit_inv_def row_locked_def by (metis nth_list_update_eq nth_list_update_neq)
  moreover have "\<forall>j<n. phase_ok (ds_commits st) ((ds_workers st)[i := ph] ! j)"
    using inv ph(2) unfolding debit_inv_def by (metis nth_list_update_eq nth_list_update_neq)
  moreover have "committed ((ds_workers st)[i := ph]) = committed (ds_workers st)"
    using card_committed(2) [of i "ds_workers st" ph] inv i ph(1) unfolding debit_inv_def by blast
  ultimately show ?thesis using inv unfolding debit_inv_def set_phase_def by simp
qed

lemma debit_inv_retries: "debit_inv s n (st\<lparr>ds_retries := rs\<rparr>) \<longleftrightarrow> debit_inv s n st"
  by (simp add: debit_inv_def)

lemma debit_inv_step:
  assumes inv: "debit_inv s n st" and n: "n \<le> 20" and bal: "select_balance s \<noteq> None"
  shows "debit_inv s n (debit_step i st)"
proof (cases "i < n")
  case True
  let ?k = "ds_commits st"
  have len: "length (ds_workers st) = n" and ph: "phase_ok ?k (ds_workers st ! i)"
    using inv True unfolding debit_inv_def by blast+
  have few: "?k < n" if "ds_workers st ! i \<noteq> Committed"
    using card_committed(3) [of i "ds_workers st"] inv that True by (simp add: debit_inv_def)
  have read: "select_balance (ds_db st) = Some (INITIAL_BALANCE - int ?k * DELTA)"
    using inv select_write [OF bal] by (simp add: debit_inv_def)
  show ?thesis
  proof (cases "ds_workers st ! i")
    case (Begin a)
    then show ?thesis
      using debit_inv_phase [OF inv True, of "Selected a (INITIAL_BALANCE - int ?k * DELTA) ?k"] ph read True len
      by (simp add: debit_step_def)
  next
    case (Selected a v snapshot)
    show ?thesis
    proof (cases "row_locked i st")
      case free: False
      show ?thesis
      proof (cases "snapshot = ?k")
        case True
        then have "v = INITIAL_BALANCE - int ?k * DELTA" using ph Selected by simp
        moreover have "0 \<le> v - DELTA" "int4_ok (v - DELTA)"
          using few Selected n calculation by (simp_all add: INITIAL_BALANCE_def DELTA_def int4_ok_def)
        ultimately show ?thesis
          using debit_inv_phase [OF inv \<open>i < n\<close>, of "Updated a (v - DELTA)"] ph free True \<open>i < n\<close> len Selected
          by (simp add: debit_step_def algebra_simps)
      next
        case False
        then have "a + 1 \<le> ?k" using ph Selected by simp
        moreover have "isRetryableSerializationError (pg_error ''40001'')"
          by (simp add: isRetryableSerializationError_def getPgErrorCode_def RETRYABLE_PG_CODES_def pg_error_def)
        ultimately have "debit_step i st = (set_phase i (Begin (a + 1)) st)\<lparr>ds_retries := ds_retries (debit_step i st)\<rparr>"
          using free False \<open>i < n\<close> len Selected few n
          by (simp add: debit_step_def debit_failed_def max_attempts_def debit_options_def set_phase_def)
        moreover have "debit_inv s n (set_phase i (Begin (a + 1)) st)"
          using debit_inv_phase [OF inv \<open>i < n\<close>, of "Begin (a + 1)"] Selected \<open>a + 1 \<le> ?k\<close> by simp
        ultimately show ?thesis by (metis debit_inv_retries)
      qed
    qed (use inv True len Selected in \<open>simp add: debit_step_def\<close>)
  next
    case (Updated a v)
    have "phase_ok (?k + 1) (ds_workers st ! j)" if "j < n" "j \<noteq> i" for j
    proof -
      have "\<not> holds_row (ds_workers st ! j)" using inv that True Updated by (auto simp: debit_inv_def)
      moreover have "phase_ok ?k (ds_workers st ! j)" using inv that(1) unfolding debit_inv_def by blast
      ultimately show ?thesis by (cases "ds_workers st ! j") auto
    qed
    then have "\<forall>j<n. phase_ok (?k + 1) ((ds_workers st)[i := Committed] ! j)" using True len by (simp add: nth_list_update)
    moreover have "\<forall>j<n. \<forall>k<n. holds_row ((ds_workers st)[i := Committed] ! j) \<longrightarrow> holds_row ((ds_workers st)[i := Committed] ! k) \<longrightarrow> j = k"
      using inv unfolding debit_inv_def by (metis holds_row.simps(3,4) nth_list_update_eq nth_list_update_neq)
    ultimately show ?thesis
      using inv True len Updated ph card_committed(1) [of i "ds_workers st"]
      by (simp add: debit_inv_def debit_step_def set_phase_def)
  qed (use inv True len ph in \<open>simp_all add: debit_step_def\<close>)
next
  case False
  moreover have "length (ds_workers st) = n" using inv unfolding debit_inv_def by blast
  ultimately show ?thesis using inv by (simp add: debit_step_def)
qed

interpretation debits: step_machine debit_step "\<lambda>st. debit_inv s n st \<and> n \<le> 20 \<and> select_balance s \<noteq> None"
  by unfold_locales (use debit_inv_step in blast)

lemma debit_inv_start:
  assumes "distinct (map us_id (t_users s))" "select_balance s = Some INITIAL_BALANCE"
  shows "debit_inv s n (debit_start n s)"
  using write_same [OF assms] by (simp add: debit_inv_def debit_start_def committed_def)

section \<open>Every debit gets through\<close>

lemma debit_step_moves:
  assumes inv: "debit_inv s n st" and bal: "select_balance s \<noteq> None" and i: "i < n" "ds_workers st ! i \<noteq> Committed" "\<not> row_locked i st"
  shows "debit_step i st \<noteq> st"
proof -
  have len: "length (ds_workers st) = n" and ph: "phase_ok (ds_commits st) (ds_workers st ! i)"
    using inv i(1) unfolding debit_inv_def by blast+
  have read: "select_balance (ds_db st) \<noteq> None" using inv select_write [OF bal] unfolding debit_inv_def by simp
  have "ds_workers (debit_step i st) ! i \<noteq> ds_workers st ! i"
    using len ph i read
    by (cases "ds_workers st ! i") (auto simp: debit_step_def debit_failed_def set_phase_def)
  then show ?thesis by auto
qed

lemma debit_stuck_done:
  assumes inv: "debit_inv s n st" and bal: "select_balance s \<noteq> None" and stuck: "\<forall>i. debit_step i st = st"
  shows "committed (ds_workers st) = {..<n}"
proof -
  have len: "length (ds_workers st) = n" using inv unfolding debit_inv_def by blast
  have none: "\<not> holds_row (ds_workers st ! j)" if j: "j < n" for j
  proof
    assume h: "holds_row (ds_workers st ! j)"
    then have "\<not> row_locked j st" using inv j unfolding debit_inv_def row_locked_def by metis
    moreover have "ds_workers st ! j \<noteq> Committed" using h by auto
    ultimately show False using debit_step_moves [OF inv bal j] stuck by simp
  qed
  have "ds_workers st ! i = Committed" if "i < n" for i
    using debit_step_moves [OF inv bal that] stuck none len by (auto simp: row_locked_def)
  then show ?thesis using len by (auto simp: committed_def)
qed

fun debit_rank :: "nat \<Rightarrow> debit_phase \<Rightarrow> nat" where
  "debit_rank n (Begin a) = 3 * (n - a)"
| "debit_rank n (Selected a v snapshot) = 3 * (n - a) - 1"
| "debit_rank n (Updated a v) = 3 * (n - a) - 2"
| "debit_rank n _ = 0"

lemma debit_step_rank:
  assumes inv: "debit_inv s n st" and n: "n \<le> 20" and bal: "select_balance s \<noteq> None" and moved: "debit_step i st \<noteq> st"
  shows "sum_list (map (debit_rank n) (ds_workers (debit_step i st))) < sum_list (map (debit_rank n) (ds_workers st))"
proof -
  have len: "length (ds_workers st) = n" using inv unfolding debit_inv_def by blast
  with moved have i: "i < n" by (auto simp: debit_step_def split: if_splits)
  then have ph: "phase_ok (ds_commits st) (ds_workers st ! i)" using inv unfolding debit_inv_def by blast
  have few: "ds_workers st ! i \<noteq> Committed \<Longrightarrow> ds_commits st < n"
    using card_committed(3) [of i "ds_workers st"] inv i len unfolding debit_inv_def by simp
  obtain ph' where ph': "ds_workers (debit_step i st) = (ds_workers st)[i := ph']" "debit_rank n ph' < debit_rank n (ds_workers st ! i)"
    using ph few moved i len
    by (cases "ds_workers st ! i")
      (auto simp: debit_step_def debit_failed_def set_phase_def split: if_splits option.splits)
  have "debit_rank n (ds_workers st ! i) \<le> sum_list (map (debit_rank n) (ds_workers st))"
    using i len by (metis elem_le_sum_list length_map nth_map)
  then show ?thesis using ph' i len by (simp add: map_update sum_list_update)
qed

fun effective :: "nat list \<Rightarrow> debit_state \<Rightarrow> bool" where
  "effective [] st \<longleftrightarrow> True"
| "effective (i # is) st \<longleftrightarrow> debit_step i st \<noteq> st \<and> effective is (debit_step i st)"

lemma effective_bound:
  assumes "debit_inv s n st" "n \<le> 20" "select_balance s \<noteq> None" "effective is st"
  shows "length is \<le> sum_list (map (debit_rank n) (ds_workers st))"
  using assms
proof (induction "is" arbitrary: st)
  case (Cons i "is")
  have "length is \<le> sum_list (map (debit_rank n) (ds_workers (debit_step i st)))"
    by (rule Cons.IH) (use Cons.prems debit_inv_step in auto)
  with debit_step_rank [of s n st i] Cons.prems show ?case by simp
qed simp

lemma debit_prepare_account:
  assumes ok: "shop_ok s" and emails: "distinct (map us_email (t_users s))" and run: "debit_prepare now s = (Inr (), s')"
  shows "distinct (map us_id (t_users s')) \<and> select_balance s' = Some INITIAL_BALANCE"
proof -
  obtain us where us: "upsert_each (user_chk s) us_id us_email assign_user [debit_account now] (t_users s) = (Inr (), us)"
    and s': "s' = s\<lparr>t_users := us\<rparr>"
    using run by (auto simp: debit_prepare_def table_step_Inr)
  have settles: "users.keyed us \<and> users.settled (debit_account now) us"
    using users.upsert_all_settles [OF _ _ us] ok emails by (simp add: users.keyed_def shop_ok_defs)
  then obtain r where r: "r \<in> set us" "us_id r = ACCOUNT_ID" "assign_user (debit_account now) r = r"
    by (auto simp: users.settled_def debit_account_def user_seed_def)
  from r(3) have "us_balance_cents r = us_balance_cents (debit_account now)"
    by (metis assign_user_def user_row.select_convs(4) user_row.surjective user_row.update_convs(4))
  moreover have "filter (\<lambda>x. us_id x = ACCOUNT_ID) us = [r]"
    using filter_key_single [of us_id us r] settles r(1,2) by (simp add: users.keyed_def)
  ultimately show ?thesis using settles by (simp add: select_balance_def s' users.keyed_def debit_account_def)
qed

text \<open>
  C21. However the statements of the eight debits interleave, the balance is the initial one less one
  unit for every committed debit and nothing else of the database has changed; no debit is ever given
  up, and when nothing can go on all eight have been committed and the balance is right.
\<close>

theorem no_lost_update:
  assumes "shop_ok s" and "distinct (map us_email (t_users s))" and "debit_prepare now s = (Inr (), s0)"
    and "st = fold debit_step schedule (debit_start PARALLEL s0)"
  shows "ds_db st = write_balance (INITIAL_BALANCE - int (card (committed (ds_workers st))) * DELTA) s0
    \<and> (\<forall>e. Rejected e \<notin> set (ds_workers st))
    \<and> ((\<forall>i. debit_step i st = st) \<longrightarrow> debit_balance_ok st)"
proof -
  note account = debit_prepare_account [OF assms(1-3)]
  have bal: "select_balance s0 \<noteq> None" using account by simp
  have "debit_inv s0 PARALLEL (debit_start PARALLEL s0)" by (rule debit_inv_start) (use account in simp_all)
  then have inv: "debit_inv s0 PARALLEL st"
    using debits.run_keeps [of s0 PARALLEL "debit_start PARALLEL s0" schedule] bal by (simp add: assms(4) PARALLEL_def)
  have db: "ds_db st = write_balance (INITIAL_BALANCE - int (card (committed (ds_workers st))) * DELTA) s0"
    using inv unfolding debit_inv_def by simp
  have "Rejected e \<notin> set (ds_workers st)" for e
  proof
    assume "Rejected e \<in> set (ds_workers st)"
    then obtain i where "i < length (ds_workers st)" "ds_workers st ! i = Rejected e" by (auto simp: in_set_conv_nth)
    then have "phase_ok (ds_commits st) (Rejected e)" using inv unfolding debit_inv_def by metis
    then show False by simp
  qed
  moreover have "debit_balance_ok st" if "\<forall>i. debit_step i st = st"
    using debit_stuck_done [OF inv bal that] select_write [OF bal] by (simp add: debit_balance_ok_def db)
  ultimately show ?thesis using db by blast
qed

text \<open>The debits end: at most 192 steps of them have an effect.\<close>

theorem debits_end:
  assumes "shop_ok s" and "distinct (map us_email (t_users s))" and "debit_prepare now s = (Inr (), s0)"
    and "effective schedule (debit_start PARALLEL s0)"
  shows "length schedule \<le> 3 * PARALLEL * PARALLEL"
proof -
  note account = debit_prepare_account [OF assms(1-3)]
  have "debit_inv s0 PARALLEL (debit_start PARALLEL s0)" by (rule debit_inv_start) (use account in simp_all)
  from effective_bound [OF this _ _ assms(4)] account show ?thesis
    by (simp add: debit_start_def PARALLEL_def sum_list_replicate)
qed

lemma debit_prepared: "debit_prepare 0 empty_db = (Inr (), empty_db\<lparr>t_users := [debit_account 0]\<rparr>)"
  by code_simp

lemma no_lost_update_witness:
  "let st = fold debit_step [0, 1, 0, 1, 0, 1, 1, 1, 1] (debit_start PARALLEL (empty_db\<lparr>t_users := [debit_account 0]\<rparr>))
   in select_balance (ds_db st) = Some 98 \<and> ds_retries st = [(1, ''40001'')] \<and> Rejected unique_violation \<notin> set (ds_workers st)"
proof -
  define st where "st = fold debit_step [0, 1, 0, 1, 0, 1, 1, 1, 1] (debit_start PARALLEL (empty_db\<lparr>t_users := [debit_account 0]\<rparr>))"
  have "select_balance (ds_db st) = Some 98" "ds_retries st = [(1, ''40001'')]" unfolding st_def by code_simp+
  moreover have "distinct (map us_email (t_users empty_db))" by (simp add: empty_db_def)
  then have "Rejected unique_violation \<notin> set (ds_workers st)"
    using no_lost_update [OF shop_ok_empty _ debit_prepared st_def] by blast
  ultimately show ?thesis unfolding Let_def st_def [symmetric] by blast
qed

lemma debits_end_witness: "length [0::nat, 1, 0] \<le> 3 * PARALLEL * PARALLEL"
proof (rule debits_end [OF shop_ok_empty _ debit_prepared])
  show "effective [0, 1, 0] (debit_start PARALLEL (empty_db\<lparr>t_users := [debit_account 0]\<rparr>))" by code_simp
qed (simp add: empty_db_def)

end
