(* ===== verification/Report.thy ===== *)
theory Report
  imports Schema
begin

text \<open>
  The revenue report (\<open>src/report.ts\<close>): orders joined with their lines, grouped by shipping country,
  the highest revenue first. Countries with one revenue come in the order the grouping gives them.
\<close>

section \<open>The query\<close>

record RevenueByCountryRow =
  rv_country :: string
  rv_order_count :: string
  rv_revenue_cents :: string

definition join_items :: "db \<Rightarrow> (order_row \<times> order_item_row) list" where
  "join_items s = concat (map (\<lambda>ord. map (Pair ord) (filter (\<lambda>i. oi_order_id i = or_id ord) (t_order_items s))) (t_orders s))"

definition country_rows :: "string \<Rightarrow> db \<Rightarrow> (order_row \<times> order_item_row) list" where
  "country_rows c s = filter (\<lambda>r. or_shipping_country (fst r) = c) (join_items s)"

definition revenue_of :: "string \<Rightarrow> db \<Rightarrow> int" where
  "revenue_of c s = sum_list (map (\<lambda>r. oi_line_total_cents (snd r)) (country_rows c s))"

definition orders_of :: "string \<Rightarrow> db \<Rightarrow> nat" where
  "orders_of c s = length (remdups (map (\<lambda>r. or_id (fst r)) (country_rows c s)))"

definition report_countries :: "db \<Rightarrow> string list" where
  "report_countries s = sort_key (\<lambda>c. - revenue_of c s) (remdups (map (\<lambda>r. or_shipping_country (fst r)) (join_items s)))"

text \<open>The driver gives \<open>bigint\<close> and \<open>numeric\<close> as text.\<close>

definition revenue_report :: "db \<Rightarrow> RevenueByCountryRow list" where
  "revenue_report s = map (\<lambda>c. \<lparr>rv_country = c, rv_order_count = show_nat (orders_of c s),
     rv_revenue_cents = show_int (revenue_of c s)\<rparr>) (report_countries s)"

section \<open>The report adds up\<close>

lemma sum_by_group:
  fixes f :: "'a \<Rightarrow> int"
  assumes "distinct gs" "set (map g xs) \<subseteq> set gs"
  shows "(\<Sum>c\<leftarrow>gs. sum_list (map f (filter (\<lambda>x. g x = c) xs))) = sum_list (map f xs)"
  using assms(2)
proof (induction xs)
  case (Cons x xs)
  have "(\<Sum>c\<leftarrow>gs. sum_list (map f (filter (\<lambda>y. g y = c) (x # xs)))) =
      (\<Sum>c\<leftarrow>gs. (if c = g x then f x else 0) + sum_list (map f (filter (\<lambda>y. g y = c) xs)))"
    by (intro arg_cong [of _ _ sum_list] map_cong refl) auto
  also have "\<dots> = (\<Sum>c\<leftarrow>gs. if c = g x then f x else 0) + sum_list (map f xs)"
    using Cons by (simp add: sum_list_addf)
  also have "(\<Sum>c\<leftarrow>gs. if c = g x then f x else 0) = f x"
    using assms(1) Cons.prems by (simp add: sum_list_distinct_conv_sum_set)
  finally show ?case by simp
qed simp

lemma sum_join_items:
  assumes "distinct (map or_id orders)" "\<forall>i\<in>set items. oi_order_id i \<in> or_id ` set orders"
  shows "(\<Sum>r\<leftarrow>concat (map (\<lambda>ord. map (Pair ord) (filter (\<lambda>i. oi_order_id i = or_id ord) items)) orders).
     oi_line_total_cents (snd r)) = sum_list (map oi_line_total_cents items)"
proof -
  have "(\<Sum>r\<leftarrow>concat (map (\<lambda>ord. map (Pair ord) (filter (\<lambda>i. oi_order_id i = or_id ord) items)) orders). oi_line_total_cents (snd r)) =
      (\<Sum>k\<leftarrow>map or_id orders. sum_list (map oi_line_total_cents (filter (\<lambda>i. oi_order_id i = k) items)))"
    by (induction orders) (simp_all add: comp_def)
  also have "\<dots> = sum_list (map oi_line_total_cents items)"
    by (rule sum_by_group) (use assms in auto)
  finally show ?thesis .
qed

text \<open>
  Every country with an order that has lines has one row, the rows come with falling revenue, each
  counts the orders of the country that have lines, and together they are worth all the lines sold.
\<close>

theorem report_adds_up:
  assumes "shop_ok s"
  shows "distinct (map rv_country (revenue_report s))
    \<and> set (map rv_country (revenue_report s)) = {or_shipping_country ord |ord i. ord \<in> set (t_orders s) \<and> i \<in> set (t_order_items s) \<and> oi_order_id i = or_id ord}
    \<and> sorted (map (\<lambda>c. - revenue_of c s) (map rv_country (revenue_report s)))
    \<and> (\<Sum>c\<leftarrow>map rv_country (revenue_report s). revenue_of c s) = sum_list (map oi_line_total_cents (t_order_items s))
    \<and> map rv_order_count (revenue_report s) = map (\<lambda>c. show_nat (card {or_id ord |ord i. ord \<in> set (t_orders s)
        \<and> or_shipping_country ord = c \<and> i \<in> set (t_order_items s) \<and> oi_order_id i = or_id ord})) (map rv_country (revenue_report s))"
proof -
  have cs: "map rv_country (revenue_report s) = report_countries s" by (simp add: revenue_report_def comp_def)
  have join: "set (join_items s) = {(ord, i). ord \<in> set (t_orders s) \<and> i \<in> set (t_order_items s) \<and> oi_order_id i = or_id ord}"
    by (auto simp: join_items_def)
  have d: "distinct (report_countries s)" by (simp add: report_countries_def)
  have countries: "set (report_countries s) = or_shipping_country ` fst ` set (join_items s)" by (simp add: report_countries_def image_image)
  have "(\<Sum>c\<leftarrow>report_countries s. revenue_of c s) = (\<Sum>r\<leftarrow>join_items s. oi_line_total_cents (snd r))"
    using sum_by_group [OF d, of "\<lambda>r. or_shipping_country (fst r)" "join_items s" "\<lambda>r. oi_line_total_cents (snd r)"] countries
    by (simp add: revenue_of_def country_rows_def image_image)
  also have "\<dots> = sum_list (map oi_line_total_cents (t_order_items s))"
    unfolding join_items_def by (rule sum_join_items) (use assms in \<open>simp_all add: shop_ok_defs\<close>)
  finally have total: "(\<Sum>c\<leftarrow>report_countries s. revenue_of c s) = sum_list (map oi_line_total_cents (t_order_items s))" .
  have "orders_of c s = card {or_id ord |ord i. ord \<in> set (t_orders s) \<and> or_shipping_country ord = c
      \<and> i \<in> set (t_order_items s) \<and> oi_order_id i = or_id ord}" for c
  proof -
    have "orders_of c s = card (set (map (\<lambda>r. or_id (fst r)) (country_rows c s)))"
      by (simp only: orders_of_def length_remdups_card_conv)
    also have "set (map (\<lambda>r. or_id (fst r)) (country_rows c s)) = {or_id ord |ord i. ord \<in> set (t_orders s) \<and> or_shipping_country ord = c
        \<and> i \<in> set (t_order_items s) \<and> oi_order_id i = or_id ord}"
      by (force simp: country_rows_def join)
    finally show ?thesis .
  qed
  then have "map rv_order_count (revenue_report s) = map (\<lambda>c. show_nat (card {or_id ord |ord i. ord \<in> set (t_orders s)
        \<and> or_shipping_country ord = c \<and> i \<in> set (t_order_items s) \<and> oi_order_id i = or_id ord})) (report_countries s)"
    by (simp add: revenue_report_def comp_def)
  moreover have "set (report_countries s) = {or_shipping_country ord |ord i. ord \<in> set (t_orders s) \<and> i \<in> set (t_order_items s) \<and> oi_order_id i = or_id ord}"
    by (force simp: countries join)
  moreover have "sorted (map (\<lambda>c. - revenue_of c s) (report_countries s))" unfolding report_countries_def by (rule sorted_sort_key)
  ultimately show ?thesis unfolding cs using d total by blast
qed

lemma report_adds_up_witness: "distinct (map rv_country (revenue_report empty_db))"
  using report_adds_up [OF shop_ok_empty] by blast

end
