(* ===== verification/QueryCounts.thy ===== *)
theory QueryCounts
  imports Schema
begin

text \<open>
  Counting queries (\<open>src/query-count-logger.ts\<close>, \<open>src/query-tag-counter.ts\<close>, \<open>src/demo-nplus1.ts\<close>): the
  loop that asks for the lines of every order and the product of every line, and the join. A query is
  what the driver is sent; the run with TypeORM's own query strategy is not modelled.
\<close>

section \<open>The loggers\<close>

definition count_logQuery :: "string \<Rightarrow> nat \<Rightarrow> nat" where
  "count_logQuery query count = count + 1"

definition tag_logQuery :: "string \<Rightarrow> string \<Rightarrow> nat \<Rightarrow> nat" where
  "tag_logQuery tag query count = (if js_startsWith tag (dropWhile is_ws query) then count + 1 else count)"

definition queries_counted :: "(string \<Rightarrow> nat \<Rightarrow> nat) \<Rightarrow> string list \<Rightarrow> nat" where
  "queries_counted log_query sent = fold log_query sent 0"

lemma count_all: "queries_counted count_logQuery sent = length sent"
proof -
  have "fold count_logQuery sent n = n + length sent" for n
    by (induction sent arbitrary: n) (simp_all add: count_logQuery_def)
  then show ?thesis by (simp add: queries_counted_def)
qed

lemma count_tagged: "queries_counted (tag_logQuery tag) sent = length (filter (\<lambda>q. js_startsWith tag (dropWhile is_ws q)) sent)"
proof -
  have "fold (tag_logQuery tag) sent n = n + length (filter (\<lambda>q. js_startsWith tag (dropWhile is_ws q)) sent)" for n
    by (induction sent arbitrary: n) (simp_all add: tag_logQuery_def)
  then show ?thesis by (simp add: queries_counted_def)
qed

section \<open>The runs\<close>

definition parseSampleSize :: "string option \<Rightarrow> exn + nat" where
  "parseSampleSize raw =
     (let v = (case raw of Some t \<Rightarrow> js_Number t | None \<Rightarrow> Fin 8)
      in if \<not> js_isInteger v \<or> js_int v < 1
         then Inl (JsError (''N must be a positive integer, got: '' @ (case raw of Some t \<Rightarrow> t | None \<Rightarrow> [])))
         else Inr (nat (js_int v)))"

definition loadSampleOrderIds :: "nat \<Rightarrow> db \<Rightarrow> int list" where
  "loadSampleOrderIds n s = take n (sort (map or_id (t_orders s)))"

definition find_orders :: "int list \<Rightarrow> db \<Rightarrow> order_row list" where
  "find_orders ids s = sort_key or_id (filter (\<lambda>r. or_id r \<in> set ids) (t_orders s))"

definition find_items :: "int \<Rightarrow> db \<Rightarrow> order_item_row list" where
  "find_items oid s = filter (\<lambda>r. oi_order_id r = oid) (t_order_items s)"

text \<open>What the loops send, until the product of a line is missing.\<close>

fun naive_items :: "(string \<Rightarrow> int list \<Rightarrow> string) \<Rightarrow> db \<Rightarrow> order_item_row list \<Rightarrow> (exn + unit) \<times> string list" where
  "naive_items sql s [] = (Inr (), [])"
| "naive_items sql s (i # is) =
     (let q = sql ''products'' [oi_product_id i] in
      if oi_product_id i \<in> pr_id ` set (t_products s)
      then (case naive_items sql s is of (r, qs) \<Rightarrow> (r, q # qs))
      else (Inl (JsError ''EntityNotFoundError''), [q]))"

fun naive_orders :: "(string \<Rightarrow> int list \<Rightarrow> string) \<Rightarrow> db \<Rightarrow> order_row list \<Rightarrow> (exn + unit) \<times> string list" where
  "naive_orders sql s [] = (Inr (), [])"
| "naive_orders sql s (r # rs) =
     (let q = sql ''order_items'' [or_id r] in
      case naive_items sql s (find_items (or_id r) s) of
        (Inl e, qs) \<Rightarrow> (Inl e, q # qs)
      | (Inr _, qs) \<Rightarrow> (case naive_orders sql s rs of (x, qs') \<Rightarrow> (x, q # qs @ qs')))"

definition runNaive :: "(string \<Rightarrow> int list \<Rightarrow> string) \<Rightarrow> int list \<Rightarrow> db \<Rightarrow> (exn + unit) \<times> string list" where
  "runNaive sql ids s = (case naive_orders sql s (find_orders ids s) of (r, qs) \<Rightarrow> (r, sql ''orders'' ids # qs))"

text \<open>The join, for a sample that is not empty.\<close>

definition runFixedJoin :: "(string \<Rightarrow> int list \<Rightarrow> string) \<Rightarrow> int list \<Rightarrow> db \<Rightarrow> (exn + unit) \<times> string list" where
  "runFixedJoin sql ids s = (Inr (), [sql ''orders left join items left join products'' ids])"

definition measure_queries :: "((exn + unit) \<times> string list) \<Rightarrow> exn + nat" where
  "measure_queries run = (case run of (Inl e, _) \<Rightarrow> Inl e | (Inr _, sent) \<Rightarrow> Inr (queries_counted count_logQuery sent))"

section \<open>One query per order and per line\<close>

lemma naive_items_ok:
  "\<forall>i\<in>set is. oi_product_id i \<in> pr_id ` set (t_products s) \<Longrightarrow>
   \<exists>qs. naive_items sql s is = (Inr (), qs) \<and> length qs = length is"
  by (induction "is") (auto split: prod.splits)

lemma naive_orders_ok:
  assumes "\<forall>i\<in>set (t_order_items s). oi_product_id i \<in> pr_id ` set (t_products s)"
  shows "\<exists>qs. naive_orders sql s rs = (Inr (), qs) \<and> length qs = length rs + (\<Sum>r\<leftarrow>rs. length (find_items (or_id r) s))"
proof (induction rs)
  case (Cons r rs)
  then obtain qs where "naive_orders sql s rs = (Inr (), qs)"
    "length qs = length rs + (\<Sum>r\<leftarrow>rs. length (find_items (or_id r) s))" by blast
  moreover obtain ps where "naive_items sql s (find_items (or_id r) s) = (Inr (), ps)" "length ps = length (find_items (or_id r) s)"
    using naive_items_ok [of "find_items (or_id r) s" s sql] assms by (auto simp: find_items_def)
  ultimately show ?case by simp
qed simp

text \<open>
  On tables in good order the loop sends one query, one more for every order it finds and one for
  every line of these; the join sends one.
\<close>

theorem naive_queries:
  assumes "shop_ok s" and "ids \<noteq> []"
  shows "measure_queries (runNaive sql ids s) =
      Inr (1 + length (find_orders ids s) + (\<Sum>r\<leftarrow>find_orders ids s. length (find_items (or_id r) s)))
    \<and> measure_queries (runFixedJoin sql ids s) = Inr 1"
proof -
  have "\<forall>i\<in>set (t_order_items s). oi_product_id i \<in> pr_id ` set (t_products s)" using assms by (simp add: shop_ok_defs)
  from naive_orders_ok [OF this, of sql "find_orders ids s"] show ?thesis
    by (auto simp: measure_queries_def runNaive_def runFixedJoin_def count_all)
qed

text \<open>The sample is of orders that exist: the loop finds as many as were asked for.\<close>

lemma sample_found:
  assumes "shop_ok s" and "n \<le> length (t_orders s)"
  shows "length (find_orders (loadSampleOrderIds n s) s) = n"
proof -
  let ?ids = "loadSampleOrderIds n s"
  have d: "distinct (map or_id (t_orders s))" using assms(1) by (simp add: shop_ok_defs)
  then have di: "distinct ?ids" and "set ?ids \<subseteq> or_id ` set (t_orders s)"
    by (auto simp: loadSampleOrderIds_def dest: in_set_takeD)
  moreover have "map or_id (filter (\<lambda>r. or_id r \<in> set ?ids) (t_orders s)) = filter (\<lambda>k. k \<in> set ?ids) (map or_id (t_orders s))"
    by (simp add: filter_map comp_def)
  then have "length (filter (\<lambda>r. or_id r \<in> set ?ids) (t_orders s)) = length (filter (\<lambda>k. k \<in> set ?ids) (map or_id (t_orders s)))"
    by (metis length_map)
  moreover have "length (filter (\<lambda>k. k \<in> set ?ids) (map or_id (t_orders s))) = card (set ?ids \<inter> or_id ` set (t_orders s))"
    using distinct_card [of "filter (\<lambda>k. k \<in> set ?ids) (map or_id (t_orders s))"] d by (simp add: Int_def conj_commute)
  ultimately have "length (find_orders ?ids s) = card (set ?ids)" by (simp add: find_orders_def Int_absorb2)
  also have "\<dots> = n" using di assms(2) by (simp add: distinct_card) (simp add: loadSampleOrderIds_def)
  finally show ?thesis .
qed

lemma naive_queries_witness: "measure_queries (runFixedJoin (\<lambda>_ _. []) [1] empty_db) = Inr 1"
  using naive_queries [OF shop_ok_empty, of "[1]"] by simp

end
