(* ===== verification/Keyless.thy ===== *)
theory Keyless
  imports Files
begin

text \<open>
  The uploader without credentials (\<open>src/demos/keyless-parts.ts\<close>, \<open>keyless-env.ts\<close>) against the upload
  contract of \<open>Files\<close>: it sends the parts it was given links for, may be killed after some of them, and
  is started again with the links of a resume (\<open>src/demos/demo-multipart.ts\<close>).
\<close>

section \<open>The client process\<close>

definition sensitiveEnvKeys :: "string list \<Rightarrow> nat" where
  "sensitiveEnvKeys keys = length (filter (\<lambda>k. list_ex (\<lambda>w. js_includes w k)
     [''STORAGE'', ''AWS'', ''JWT'', ''DATABASE'', ''SECRET'', ''TOKEN'']) keys)"

record parts_plan =
  kp_file :: buffer
  kp_size :: int
  kp_partSize :: int
  kp_parts :: "int list"
  kp_crashAfter :: "nat option"

text \<open>\<open>Buffer.alloc(length)\<close>, then \<open>readSync\<close> into it: what the file does not have stays zero.\<close>

definition part_bytes :: "parts_plan \<Rightarrow> int \<Rightarrow> buffer" where
  "part_bytes plan n =
     (let offset = (n - 1) * kp_partSize plan;
          len = nat (min (kp_partSize plan) (kp_size plan - offset))
      in take len (drop (nat offset) (kp_file plan) @ replicate len 0))"

text \<open>The parts the storage holds of an upload; a part sent again replaces the one before.\<close>

type_synonym part_store = "int \<Rightarrow> buffer option"

datatype client_end =
    Finished nat
  | PartFailed int nat nat
  | Killed nat
  | FetchFailed

text \<open>
  \<open>put n\<close> is what becomes of the request for part \<open>n\<close>: the status, or \<open>None\<close> when no answer came, and
  whether the storage has kept the bytes of a request that was not answered with 200.
\<close>

fun send_parts ::
  "(int \<Rightarrow> nat option \<times> bool) \<Rightarrow> parts_plan \<Rightarrow> nat \<Rightarrow> int list \<Rightarrow> part_store \<Rightarrow> client_end \<times> part_store" where
  "send_parts put plan uploaded [] store = (Finished uploaded, store)"
| "send_parts put plan uploaded (n # ns) store =
     (let (answer, kept) = put n;
          store' = (if answer = Some 200 \<or> kept then store(n \<mapsto> part_bytes plan n) else store)
      in case answer of
           None \<Rightarrow> (FetchFailed, store')
         | Some status \<Rightarrow>
             if status \<noteq> 200 then (PartFailed n status uploaded, store')
             else if (case kp_crashAfter plan of Some c \<Rightarrow> c \<le> uploaded + 1 | None \<Rightarrow> False)
             then (Killed (uploaded + 1), store')
             else send_parts put plan (uploaded + 1) ns store')"

definition keyless_parts :: "(int \<Rightarrow> nat option \<times> bool) \<Rightarrow> parts_plan \<Rightarrow> part_store \<Rightarrow> client_end \<times> part_store" where
  "keyless_parts put plan store = send_parts put plan 0 (kp_parts plan) store"

section \<open>Runs against the contract\<close>

text \<open>What the storage lists of the parts it holds.\<close>

definition held_parts :: "(int \<Rightarrow> string) \<Rightarrow> int \<Rightarrow> part_store \<Rightarrow> UploadedPart list" where
  "held_parts etag k store = map (\<lambda>n. \<lparr>up_partNumber = n, up_etag = etag n, up_size = int (length (the (store n)))\<rparr>)
     (filter (\<lambda>n. store n \<noteq> None) [1..k])"

text \<open>One run of the client: the links of a resume, what becomes of its requests, when it is killed.\<close>

record client_run =
  cr_put :: "int \<Rightarrow> nat option \<times> bool"
  cr_crashAfter :: "nat option"

definition client_plan :: "file_row \<Rightarrow> buffer \<Rightarrow> nat option \<Rightarrow> PartUrl list \<Rightarrow> parts_plan" where
  "client_plan row file crashAfter links = \<lparr>kp_file = file, kp_size = fl_size row, kp_partSize = pp_partSize (plan_of row),
     kp_parts = map pt_partNumber links, kp_crashAfter = crashAfter\<rparr>"

definition run_client ::
  "presigner \<Rightarrow> string \<Rightarrow> (int \<Rightarrow> string) \<Rightarrow> file_row \<Rightarrow> buffer \<Rightarrow> client_run \<Rightarrow> part_store \<Rightarrow> client_end \<times> part_store" where
  "run_client sign u etag row file run store =
     (let held = held_parts etag (pp_partCount (plan_of row)) store;
          links = missing_parts sign row u (set (map up_partNumber held))
      in keyless_parts (cr_put run) (client_plan row file (cr_crashAfter run) links) store)"

section \<open>The pieces are the file\<close>

lemma concat_pieces: "concat (map (\<lambda>i. take c (drop (i * c) xs)) [0..<k]) = take (k * c) xs"
proof (induction k)
  case (Suc k)
  have "take (Suc k * c) xs = take (k * c) xs @ take c (drop (k * c) xs)" by (simp add: take_add [symmetric] add.commute)
  with Suc show ?case by simp
qed simp

lemma upto_nat: "[1..int k] = map (\<lambda>i. int (Suc i)) [0..<k]"
proof (induction k)
  case (Suc k)
  have "[1..int (Suc k)] = [1..int k] @ [int (Suc k)]" using upto_last [of "int (Suc k)"] by simp
  with Suc show ?case by simp
qed simp

definition piece :: "nat \<Rightarrow> buffer \<Rightarrow> int \<Rightarrow> buffer" where
  "piece c file n = take c (drop (nat (n - 1) * c) file)"

lemma pieces_are_the_file:
  assumes "int (length file) \<le> k * int c" "0 \<le> k"
  shows "concat (map (piece c file) [1..k]) = file"
proof -
  obtain m where m: "k = int m" using assms(2) nonneg_int_cases by blast
  have "length file \<le> m * c" using assms(1) unfolding m by (metis of_nat_le_iff of_nat_mult)
  moreover have "concat (map (piece c file) [1..k]) = take (m * c) file"
    unfolding m upto_nat by (simp add: piece_def comp_def concat_pieces)
  ultimately show ?thesis by simp
qed

text \<open>A row whose plan is that of its size, and a file of this size.\<close>

definition planned :: "file_row \<Rightarrow> buffer \<Rightarrow> bool" where
  "planned row file \<longleftrightarrow> (\<exists>plan. planParts (fl_size row) = Inr plan \<and> fl_part_size row = Some (pp_partSize plan)
     \<and> fl_part_count row = Some (pp_partCount plan)) \<and> 1 \<le> fl_size row \<and> int (length file) = fl_size row"

lemma plannedE:
  assumes "planned row file"
  obtains c k where "pp_partSize (plan_of row) = int c" "0 < c" "pp_partCount (plan_of row) = k" "1 \<le> k"
    "fl_part_count row = Some k" "int (length file) \<le> k * int c" "(k - 1) * int c < int (length file)"
    "int (length file) = fl_size row"
proof -
  obtain plan where plan: "planParts (fl_size row) = Inr plan" "fl_part_size row = Some (pp_partSize plan)"
      "fl_part_count row = Some (pp_partCount plan)" "1 \<le> fl_size row" "int (length file) = fl_size row"
    using assms by (auto simp: planned_def)
  note P = planParts_Inr [OF plan(1,4)]
  have c: "0 < pp_partSize plan" using P(1) by (simp add: size_defs)
  have b: "fl_size row \<le> pp_partCount plan * pp_partSize plan" "pp_partCount plan * pp_partSize plan < fl_size row + pp_partSize plan"
    unfolding P(4) by (rule ceil_div_bounds [OF c])+
  have k: "1 \<le> pp_partCount plan" using ceil_div_pos [OF c, of "fl_size row"] plan(4) by (simp add: P(4))
  show thesis
    by (rule that [of "nat (pp_partSize plan)" "pp_partCount plan"])
      (use c b k plan in \<open>simp_all add: plan_of_def number_or_zero_def algebra_simps\<close>)
qed

lemma part_bytes_piece:
  assumes row: "planned row file" and n: "1 \<le> n" "n \<le> pp_partCount (plan_of row)"
  shows "part_bytes (client_plan row file crash links) n = piece (nat (pp_partSize (plan_of row))) file n"
    and "int (length (piece (nat (pp_partSize (plan_of row))) file n)) = partLength (plan_of row) (fl_size row) n"
proof -
  obtain c k where ck: "pp_partSize (plan_of row) = int c" "0 < c" "pp_partCount (plan_of row) = k" "1 \<le> k"
    "int (length file) \<le> k * int c" "(k - 1) * int c < int (length file)" "int (length file) = fl_size row"
    by (rule plannedE [OF row])
  obtain m where m: "n = int (Suc m)" using n(1) by (metis Suc_pred' nat_0_le of_nat_0_less_iff order_less_le_trans zero_le_one zero_less_one zle_iff_zadd of_nat_Suc add.commute)
  have off: "nat (int m * int c) = m * c" by (metis nat_int of_nat_mult)
  have mc: "int m * int c < int (length file)"
    by (rule order_le_less_trans [OF mult_right_mono ck(6)]) (use n(2) ck(3) m in simp_all)
  then have lt: "m * c < length file" by (metis of_nat_less_iff of_nat_mult)
  then have rest: "fl_size row - (n - 1) * int c = int (length file - m * c)"
    by (simp add: ck(7) [symmetric] m of_nat_diff)
  then have "nat (min (int c) (fl_size row - (n - 1) * int c)) = min c (length file - m * c)"
    by (simp only: rest of_nat_min [symmetric] nat_int)
  moreover have "take (min c (length file - m * c)) (drop (m * c) file) = take c (drop (m * c) file)" by (simp add: min_def)
  ultimately show "part_bytes (client_plan row file crash links) n = piece (nat (pp_partSize (plan_of row))) file n"
    using lt by (simp add: part_bytes_def client_plan_def piece_def ck(1) off Let_def m)
  have len: "length (piece (nat (pp_partSize (plan_of row))) file n) = min c (length file - m * c)"
    by (simp add: piece_def ck(1) m)
  show "int (length (piece (nat (pp_partSize (plan_of row))) file n)) = partLength (plan_of row) (fl_size row) n"
  proof (cases "n < k")
    case True
    have "(int m + 1) * int c \<le> (k - 1) * int c" by (rule mult_right_mono) (use True m in simp_all)
    then have "int (m * c + c) < int (length file)" using ck(6) by (simp add: algebra_simps)
    then have "m * c + c < length file" by (simp only: of_nat_less_iff)
    then have "min c (length file - m * c) = c" by simp
    then show ?thesis using True len ck(1,3) by (simp add: partLength_def)
  next
    case False
    then have k: "k = int m + 1" using n(2) ck(3) m by simp
    then have "int (length file) \<le> int (m * c + c)" using ck(5) by (simp add: algebra_simps)
    then have "length file \<le> m * c + c" by (simp only: of_nat_le_iff)
    then have "min c (length file - m * c) = length file - m * c" by simp
    then have "int (length (piece (nat (pp_partSize (plan_of row))) file n)) = int (length file) - int m * int c"
      using len lt by (simp add: of_nat_diff)
    then show ?thesis using False ck(1,3,7) k by (simp add: partLength_def mult.commute)
  qed
qed

section \<open>However often the client is killed\<close>

text \<open>Every part the storage holds is the piece of the file with its number.\<close>

definition pieces_held :: "file_row \<Rightarrow> buffer \<Rightarrow> part_store \<Rightarrow> bool" where
  "pieces_held row file store \<longleftrightarrow> (\<forall>n b. store n = Some b \<longrightarrow>
     1 \<le> n \<and> n \<le> pp_partCount (plan_of row) \<and> b = piece (nat (pp_partSize (plan_of row))) file n)"

lemma send_parts_pieces:
  assumes "planned row file" "pieces_held row file store" "set ns \<subseteq> set [1..pp_partCount (plan_of row)]"
    "plan = client_plan row file crash links"
  shows "pieces_held row file (snd (send_parts put plan uploaded ns store))"
  using assms(2,3)
proof (induction ns arbitrary: uploaded store)
  case (Cons n ns)
  have n: "1 \<le> n" "n \<le> pp_partCount (plan_of row)" using Cons.prems(2) by auto
  obtain answer kept where put: "put n = (answer, kept)" by (cases "put n")
  define store' where "store' = (if answer = Some 200 \<or> kept then store(n \<mapsto> part_bytes plan n) else store)"
  have held: "pieces_held row file store'"
    using Cons.prems(1) n part_bytes_piece(1) [OF assms(1) n] by (simp add: store'_def pieces_held_def assms(4))
  have "pieces_held row file (snd (send_parts put plan (uploaded + 1) ns store'))"
    by (rule Cons.IH) (use held Cons.prems(2) in simp_all)
  with held show ?case
    unfolding send_parts.simps Let_def put prod.case store'_def [symmetric] by (auto split: option.split if_split)
qed simp

lemma missing_numbers:
  "map pt_partNumber (missing_parts sign row u have') = filter (\<lambda>n. n \<notin> have') [1..pp_partCount (plan_of row)]"
  by (simp add: missing_parts_def comp_def)

lemma held_numbers: "map up_partNumber (held_parts etag k store) = filter (\<lambda>n. store n \<noteq> None) [1..k]"
  by (simp add: held_parts_def comp_def)

lemma run_client_pieces:
  assumes "planned row file" "pieces_held row file store"
  shows "pieces_held row file (snd (run_client sign u etag row file run store))"
  unfolding run_client_def Let_def keyless_parts_def
  by (rule send_parts_pieces [OF assms _ refl]) (auto simp: client_plan_def missing_numbers)

interpretation client_runs: step_machine "\<lambda>run store. snd (run_client sign u etag row file run store)"
  "\<lambda>store. planned row file \<and> pieces_held row file store"
  by unfold_locales (simp add: run_client_pieces)

text \<open>A run that nothing disturbs sends all it was asked for.\<close>

lemma send_parts_all:
  "\<forall>n. fst (put n) = Some 200 \<Longrightarrow> kp_crashAfter plan = None \<Longrightarrow>
   \<exists>j store'. send_parts put plan uploaded ns store = (Finished j, store') \<and> dom store' = dom store \<union> set ns"
proof (induction ns arbitrary: uploaded store)
  case (Cons n ns)
  obtain kept where "put n = (Some 200, kept)" using Cons.prems(1) by (metis prod.collapse)
  moreover obtain j store' where "send_parts put plan (uploaded + 1) ns (store(n \<mapsto> part_bytes plan n)) = (Finished j, store')"
    "dom store' = dom (store(n \<mapsto> part_bytes plan n)) \<union> set ns"
    using Cons.IH [OF Cons.prems] by blast
  ultimately show ?case using Cons.prems(2) by (intro exI [of _ j] exI [of _ store']) (simp add: Let_def)
qed simp

lemma complete_upload_is_file:
  assumes row: "planned row file" and inv: "pieces_held row file store"
    and held: "held = held_parts etag (pp_partCount (plan_of row)) store" and full: "fl_part_count row = Some (int (length held))"
  shows "find_wrong row held = None" and "concat (map (\<lambda>p. the (store (up_partNumber p))) held) = file"
proof -
  obtain c k where ck: "pp_partSize (plan_of row) = int c" "pp_partCount (plan_of row) = k" "1 \<le> k" "fl_part_count row = Some k"
    "int (length file) \<le> k * int c"
    by (rule plannedE [OF row])
  have "length (filter (\<lambda>n. store n \<noteq> None) [1..k]) = length [1..k]"
    using full ck(3) arg_cong [OF held_numbers [of etag k store], of length] by (simp add: held ck(2,4))
  then have all: "filter (\<lambda>n. store n \<noteq> None) [1..k] = [1..k]" by (metis filter_id_conv length_filter_less nat_neq_iff)
  have piece: "the (store n) = piece c file n" if "n \<in> set [1..k]" for n
  proof -
    have "n \<in> set (filter (\<lambda>n. store n \<noteq> None) [1..k])" using that by (simp only: all)
    then have "store n \<noteq> None" by simp
    then show ?thesis using inv by (auto simp: pieces_held_def ck(1))
  qed
  have "up_size p = partLength (plan_of row) (fl_size row) (up_partNumber p)" if "p \<in> set held" for p
  proof -
    obtain n where n: "n \<in> set [1..k]" "p = \<lparr>up_partNumber = n, up_etag = etag n, up_size = int (length (the (store n)))\<rparr>"
      using \<open>p \<in> set held\<close> by (auto simp: held held_parts_def ck(2))
    then show ?thesis using part_bytes_piece(2) [OF row, of n] piece [OF n(1)] by (simp add: ck(1,2))
  qed
  then show "find_wrong row held = None" by (auto simp: find_wrong_def find_None_iff)
  have "map (\<lambda>p. the (store (up_partNumber p))) held = map (\<lambda>n. the (store n)) [1..k]"
    by (simp only: held held_parts_def ck(2) all map_map comp_def UploadedPart.select_convs)
  also have "\<dots> = map (piece c file) [1..k]" by (rule map_cong) (simp_all add: piece)
  finally show "concat (map (\<lambda>p. the (store (up_partNumber p))) held) = file"
    using pieces_are_the_file [OF ck(5)] ck(3) by simp
qed

lemma undisturbed_run_completes:
  assumes row: "planned row file" and good: "\<forall>n. fst (put n) = Some 200"
  shows "fl_part_count row = Some (int (length (held_parts etag (pp_partCount (plan_of row))
    (snd (run_client sign u etag row file \<lparr>cr_put = put, cr_crashAfter = None\<rparr> store)))))"
proof -
  obtain k where k: "pp_partCount (plan_of row) = k" "1 \<le> k" "fl_part_count row = Some k" by (rule plannedE [OF row])
  let ?ns = "filter (\<lambda>n. n \<notin> set (map up_partNumber (held_parts etag k store))) [1..k]"
  obtain store' where s': "snd (run_client sign u etag row file \<lparr>cr_put = put, cr_crashAfter = None\<rparr> store) = store'"
    "dom store' = dom store \<union> set ?ns"
    using send_parts_all [OF good, of "client_plan row file None (missing_parts sign row u (set (map up_partNumber (held_parts etag k store))))"
        0 ?ns store]
    by (auto simp: run_client_def keyless_parts_def client_plan_def Let_def k(1) missing_numbers simp del: set_map)
  have "store' n \<noteq> None" if "n \<in> set [1..k]" for n
  proof -
    have "n \<in> dom store'" using that s'(2) by (auto simp: held_numbers simp del: set_map)
    then show ?thesis by auto
  qed
  then have "filter (\<lambda>n. store' n \<noteq> None) [1..k] = [1..k]" by (simp add: filter_id_conv)
  then have "length (held_parts etag k store') = length [1..k]" by (simp only: held_parts_def length_map)
  then show ?thesis using k by (simp add: s'(1))
qed

text \<open>
  C25. However often the uploader fails or is killed and is started again with the links of a resume,
  when the storage holds as many parts as the row plans then the check of the sizes passes and the
  parts, in their order, are the file; and one undisturbed run more brings the storage there.
\<close>

theorem upload_survives_crashes:
  assumes "planned row file"
    and "store = fold (\<lambda>run store. snd (run_client sign u etag row file run store)) runs Map.empty"
    and "held = held_parts etag (pp_partCount (plan_of row)) store"
  shows "(fl_part_count row = Some (int (length held)) \<longrightarrow>
      find_wrong row held = None \<and> concat (map (\<lambda>p. the (store (up_partNumber p))) held) = file)
    \<and> (\<forall>put. (\<forall>n. fst (put n) = Some 200) \<longrightarrow>
        fl_part_count row = Some (int (length (held_parts etag (pp_partCount (plan_of row))
          (snd (run_client sign u etag row file \<lparr>cr_put = put, cr_crashAfter = None\<rparr> store))))))"
proof -
  have "planned row file \<and> pieces_held row file store"
    unfolding assms(2) by (rule client_runs.run_keeps) (simp add: assms(1) pieces_held_def)
  then have inv: "pieces_held row file store" by simp
  show ?thesis
    using complete_upload_is_file [OF assms(1) inv assms(3)] undisturbed_run_completes [OF assms(1)] by blast
qed

section \<open>The demo's upload\<close>

text \<open>12 MiB in three parts; the first process is killed after two of them.\<close>

definition demo_upload :: file_row where
  "demo_upload = \<lparr>fl_id = ''f'', fl_owner_id = 1, fl_key = ''k'', fl_content_type = ''application/gzip'', fl_size = 12582912,
     fl_status = FilePending, fl_upload_id = Some ''u'', fl_part_size = Some 5242880, fl_part_count = Some 3, fl_etag = None,
     fl_idempotency_key = None, fl_created_at = 0, fl_completed_at = None\<rparr>"

lemma demo_upload_planned: "planned demo_upload (replicate 12582912 7)"
  by (simp add: planned_def demo_upload_def planParts_def Let_def size_defs ceil_div_def)

lemma upload_survives_crashes_witness:
  "let run = \<lambda>crash. snd \<circ> run_client (\<lambda>c ttl hs. []) ''u'' (\<lambda>n. []) demo_upload (replicate 12582912 7) \<lparr>cr_put = \<lambda>n. (Some 200, True), cr_crashAfter = crash\<rparr>
   in fl_part_count demo_upload = Some (int (length (held_parts (\<lambda>n. []) 3 (run None (run (Some 2) Map.empty)))))"
proof -
  have "pp_partCount (plan_of demo_upload) = 3" by (simp add: plan_of_def demo_upload_def number_or_zero_def)
  then show ?thesis
    using upload_survives_crashes [OF demo_upload_planned refl refl, where runs = "[\<lparr>cr_put = \<lambda>n. (Some 200, True), cr_crashAfter = Some 2\<rparr>]"
      and sign = "\<lambda>c ttl hs. []" and u = "''u''" and etag = "\<lambda>n. []"]
    by (simp add: Let_def)
qed

end
