(* ===== verification/WorkersDemo.thy ===== *)
theory WorkersDemo
  imports Workers
begin

text \<open>
  The worker demo (\<open>src/demo-workers.ts\<close>): twenty jobs of its own, four workers, and the figures read
  back from the table. The elapsed time is an argument.
\<close>

section \<open>The script\<close>

definition JOB_COUNT :: nat where
  "JOB_COUNT = 20"

definition WORKER_COUNT :: nat where
  "WORKER_COUNT = 4"

definition WORK_MS :: nat where
  "WORK_MS = 40"

text \<open>\<open>payload->>'demo' = 'workers'\<close>\<close>

definition is_demo_job :: "job_row \<Rightarrow> bool" where
  "is_demo_job j \<longleftrightarrow> js_get ''demo'' (jb_payload j) = JStr ''workers''"

definition insert_demo_job :: "int \<Rightarrow> nat \<Rightarrow> unit stmt" where
  "insert_demo_job now n s =
     (let jid = sq_jobs (sequences s);
          s1 = s\<lparr>sequences := (sequences s)\<lparr>sq_jobs := jid + 1\<rparr>\<rparr>;
          row = \<lparr>jb_id = jid, jb_type = ''send_receipt'',
                 jb_payload = JObj [(''demo'', JStr ''workers''), (''n'', JNum (Fin (of_nat n)))],
                 jb_status = JobPending, jb_processed = 0, jb_worker_id = None, jb_order_id = None,
                 jb_created_at = now, jb_processed_at = None\<rparr>
      in if jid \<in> jb_id ` set (t_jobs s) then (Inl unique_violation, s1)
         else (Inr (), s1\<lparr>t_jobs := t_jobs s @ [row]\<rparr>))"

fun insert_demo_jobs :: "int \<Rightarrow> nat list \<Rightarrow> unit stmt" where
  "insert_demo_jobs now [] = db_return ()"
| "insert_demo_jobs now (n # ns) = db_bind (insert_demo_job now n) (\<lambda>_. insert_demo_jobs now ns)"

definition seedJobs :: "int \<Rightarrow> unit stmt" where
  "seedJobs now s = insert_demo_jobs now (map Suc [0..<JOB_COUNT]) (s\<lparr>t_jobs := filter (\<lambda>j. \<not> is_demo_job j) (t_jobs s)\<rparr>)"

definition demo_pool_options :: RunWorkersOptions where
  "demo_pool_options = \<lparr>ro_workerCount = WORKER_COUNT, ro_idlePollsBeforeExit = Some 5\<rparr>"

definition processed_rows :: "db \<Rightarrow> job_row list" where
  "processed_rows s = sort_key jb_id (filter is_demo_job (t_jobs s))"

definition totalProcessed :: "job_row list \<Rightarrow> nat" where
  "totalProcessed rows = fold (\<lambda>row sum. sum + jb_processed row) rows 0"

definition processedTwice :: "job_row list \<Rightarrow> nat" where
  "processedTwice rows = length (filter (\<lambda>row. 1 < jb_processed row) rows)"

definition workersUsed :: "WorkerStats list \<Rightarrow> nat" where
  "workersUsed stats = length (filter (\<lambda>st. 0 < ws_processed st) stats)"

definition workers_demo_ok :: "nat \<Rightarrow> pool \<Rightarrow> bool" where
  "workers_demo_ok elapsedMs p \<longleftrightarrow> processedTwice (processed_rows (pool_db p)) = 0
     \<and> totalProcessed (processed_rows (pool_db p)) = JOB_COUNT \<and> 2 \<le> workersUsed (pool_result p)
     \<and> elapsedMs < JOB_COUNT * WORK_MS"

section \<open>The figures are right\<close>

lemma completeJob_payloads: "map (\<lambda>j. (jb_id j, jb_payload j)) (t_jobs (completeJob k w now s)) = map (\<lambda>j. (jb_id j, jb_payload j)) (t_jobs s)"
  by (simp add: completeJob_def done_job_def)

lemma pool_step_payloads:
  "map (\<lambda>j. (jb_id j, jb_payload j)) (t_jobs (pool_db (pool_step l e p))) = map (\<lambda>j. (jb_id j, jb_payload j)) (t_jobs (pool_db p))"
  by (cases e) (auto simp: Let_def completeJob_payloads simp del: map_eq_conv split: worker_phase.splits option.splits)

lemma pool_run_payloads:
  "map (\<lambda>j. (jb_id j, jb_payload j)) (t_jobs (pool_db (runWorkerPool opts es s))) = map (\<lambda>j. (jb_id j, jb_payload j)) (t_jobs s)"
proof -
  have "map (\<lambda>j. (jb_id j, jb_payload j)) (t_jobs (pool_db (fold (pool_step l) es p))) = map (\<lambda>j. (jb_id j, jb_payload j)) (t_jobs (pool_db p))" for l p
    by (induction es arbitrary: p) (simp_all add: pool_step_payloads del: map_eq_conv)
  then show ?thesis by (simp add: runWorkerPool_def initial_pool_def del: map_eq_conv)
qed

text \<open>How many rows of a table are the demo's depends on the payloads alone.\<close>

lemma demo_rows_length:
  "map (\<lambda>j. (jb_id j, jb_payload j)) xs = map (\<lambda>j. (jb_id j, jb_payload j)) ys \<Longrightarrow>
   length (filter is_demo_job xs) = length (filter is_demo_job ys)"
  by (induction xs ys rule: list_induct2') (auto simp: is_demo_job_def)

definition numbered :: "db \<Rightarrow> bool" where
  "numbered s \<longleftrightarrow> jobs_counted s \<and> (\<forall>j\<in>set (t_jobs s). jb_id j < sq_jobs (sequences s))"

lemma insert_demo_jobs_rows:
  "numbered s \<Longrightarrow> \<exists>s'. insert_demo_jobs now ns s = (Inr (), s') \<and> numbered s'
     \<and> length (filter is_demo_job (t_jobs s')) = length (filter is_demo_job (t_jobs s)) + length ns"
proof (induction ns arbitrary: s)
  case (Cons n ns)
  define t where "t = snd (insert_demo_job now n s)"
  have one: "insert_demo_job now n s = (Inr (), t)" "numbered t"
    "length (filter is_demo_job (t_jobs t)) = length (filter is_demo_job (t_jobs s)) + 1"
    using Cons.prems
    by (auto simp: t_def insert_demo_job_def Let_def numbered_def jobs_counted_def counted_def is_demo_job_def js_get_def list_all_iff)
  from Cons.IH [OF one(2)] obtain s' where "insert_demo_jobs now ns t = (Inr (), s')" "numbered s'"
    "length (filter is_demo_job (t_jobs s')) = length (filter is_demo_job (t_jobs t)) + length ns" by blast
  with one show ?case by simp
qed (simp add: db_return_def)

lemma seedJobs_rows:
  assumes "numbered s"
  shows "\<exists>s'. seedJobs now s = (Inr (), s') \<and> numbered s' \<and> length (filter is_demo_job (t_jobs s')) = JOB_COUNT"
proof -
  let ?s = "s\<lparr>t_jobs := filter (\<lambda>j. \<not> is_demo_job j) (t_jobs s)\<rparr>"
  have "numbered ?s"
    using assms by (auto simp: numbered_def jobs_counted_def list_all_iff distinct_map_filter)
  moreover have "filter is_demo_job (t_jobs ?s) = []" by (simp add: filter_empty_conv)
  ultimately show ?thesis
    using insert_demo_jobs_rows [of ?s now "map Suc [0..<JOB_COUNT]"] by (simp add: seedJobs_def)
qed

text \<open>
  Whatever jobs were there before and however the workers interleave: when they have all left their
  loops and none was thrown out, each of the twenty jobs was processed once. That two workers had a
  share and that they were fast is up to the schedule.
\<close>

theorem workers_demo_counts:
  assumes "numbered s" and "p = runWorkerPool demo_pool_options schedule (snd (seedJobs now s))"
    and "list_all (exited 5) (pool_workers p)" and "\<not> list_ex thrown (pool_workers p)"
  shows "fst (seedJobs now s) = Inr () \<and> length (processed_rows (pool_db p)) = JOB_COUNT
    \<and> (workers_demo_ok elapsedMs p \<longleftrightarrow> 2 \<le> workersUsed (pool_result p) \<and> elapsedMs < JOB_COUNT * WORK_MS)"
proof -
  obtain s' where s': "seedJobs now s = (Inr (), s')" "numbered s'" "length (filter is_demo_job (t_jobs s')) = JOB_COUNT"
    using seedJobs_rows [OF assms(1)] by blast
  let ?rows = "processed_rows (pool_db p)"
  have p: "p = runWorkerPool demo_pool_options schedule s'" using assms(2) s'(1) by simp
  have len: "length ?rows = JOB_COUNT"
    using demo_rows_length [OF pool_run_payloads, of demo_pool_options schedule s'] s'(3) by (simp add: p processed_rows_def)
  have "list_all (\<lambda>j. jb_status j = JobDone \<and> jb_processed j = 1) (t_jobs (pool_db p))"
    unfolding p by (rule pool_drains)
      (use s'(2) assms(3,4) in \<open>simp_all add: numbered_def p demo_pool_options_def idle_polls_before_exit_def WORKER_COUNT_def\<close>)
  then have once: "\<forall>j\<in>set ?rows. jb_processed j = 1" by (simp add: processed_rows_def list_all_iff)
  have "fold (\<lambda>row sum. sum + jb_processed row) rows n = n + length rows" if "\<forall>j\<in>set rows. jb_processed j = 1" for rows n
    using that by (induction rows arbitrary: n) simp_all
  from this [OF once] have "totalProcessed ?rows = JOB_COUNT" by (simp add: totalProcessed_def len)
  moreover have "processedTwice ?rows = 0" using once by (auto simp: processedTwice_def filter_empty_conv)
  ultimately show ?thesis using s'(1) len by (simp add: workers_demo_ok_def)
qed

end
