(* ===== verification/ScanGate.thy ===== *)
theory ScanGate
  imports JsValues
begin

text \<open>
  The vulnerability gate (\<open>scripts/scan.mjs\<close>): its settings, what it counts in the scanner's report and
  the status it ends with. Docker, the scanner and \<open>toUpperCase\<close> are arguments;
  the limit is taken for an integer a double holds.
\<close>

section \<open>Settings\<close>

record scan_env =
  SCAN_MAX :: "string option"
  SCAN_SEVERITY :: "string option"
  SCAN_FIXABLE_ONLY :: "string option"

datatype scan_end =
    ScanExit nat string
  | Verdict bool nat "(string \<times> nat) list"

text \<open>\<open>/^-?\d+$/\<close>\<close>

definition is_integer_text :: "string \<Rightarrow> bool" where
  "is_integer_text s = (let ds = (if s \<noteq> [] \<and> hd s = CHR ''-'' then tl s else s) in ds \<noteq> [] \<and> list_all is_digit ds)"

definition integer_of_text :: "string \<Rightarrow> int" where
  "integer_of_text s = (if s \<noteq> [] \<and> hd s = CHR ''-'' then - int (digits_val (tl s)) else int (digits_val s))"

definition scan_max :: "scan_env \<Rightarrow> (nat \<times> string) + int" where
  "scan_max env = (case map_option js_trim (SCAN_MAX env) of
       None \<Rightarrow> Inl (2, ''missing required SCAN_MAX (max allowed findings; no default on purpose)'')
     | Some raw \<Rightarrow>
         if raw = [] then Inl (2, ''missing required SCAN_MAX (max allowed findings; no default on purpose)'')
         else if \<not> is_integer_text raw then Inl (2, ''SCAN_MAX must be an integer, got \"'' @ raw @ ''\"'')
         else Inr (integer_of_text raw))"

definition scan_severities :: "(string \<Rightarrow> string) \<Rightarrow> scan_env \<Rightarrow> string list" where
  "scan_severities upper env = filter (\<lambda>s. s \<noteq> []) (map js_trim (js_split (CHR '','')
     (upper (case SCAN_SEVERITY env of Some s \<Rightarrow> s | None \<Rightarrow> ''CRITICAL,HIGH''))))"

definition scan_fixable_only :: "scan_env \<Rightarrow> bool" where
  "scan_fixable_only env \<longleftrightarrow> (case SCAN_FIXABLE_ONLY env of Some s \<Rightarrow> s | None \<Rightarrow> ''1'') = ''1''"

section \<open>The findings\<close>

record vulnerability =
  vu_id :: string
  vu_pkg :: string
  vu_installed :: string
  vu_fixed :: "string option"
  vu_severity :: string

definition finding_key :: "vulnerability \<Rightarrow> string" where
  "finding_key v = vu_id v @ ''|'' @ vu_pkg v @ ''|'' @ vu_installed v"

definition counts_as_finding :: "string list \<Rightarrow> bool \<Rightarrow> vulnerability \<Rightarrow> bool" where
  "counts_as_finding severities fixableOnly v \<longleftrightarrow> vu_severity v \<in> set severities
     \<and> (fixableOnly \<longrightarrow> (case vu_fixed v of Some f \<Rightarrow> f \<noteq> [] | None \<Rightarrow> False))"

text \<open>\<open>Map.set\<close>: a key that is there keeps its place and takes the new value.\<close>

definition map_set :: "string \<Rightarrow> string \<Rightarrow> (string \<times> string) list \<Rightarrow> (string \<times> string) list" where
  "map_set k v m = (if k \<in> fst ` set m then map (\<lambda>e. if fst e = k then (k, v) else e) m else m @ [(k, v)])"

definition count_findings :: "string list \<Rightarrow> bool \<Rightarrow> vulnerability list list \<Rightarrow> (string \<times> string) list" where
  "count_findings severities fixableOnly results =
     fold (\<lambda>vs m. fold (\<lambda>v m. if counts_as_finding severities fixableOnly v then map_set (finding_key v) (vu_severity v) m else m) vs m) results []"

text \<open>
  What the steps before the count come to. A failing \<open>docker save\<close> and a report that cannot be read
  are not caught: the process ends with status 1.
\<close>

datatype scan_outcome =
    ImageMissing
  | SaveFailed
  | ScannerFailed string
  | ReportUnreadable
  | Report "vulnerability list list"

definition scan_main :: "(string \<Rightarrow> string) \<Rightarrow> scan_env \<Rightarrow> string \<Rightarrow> scan_outcome \<Rightarrow> scan_end" where
  "scan_main upper env img scan = (case scan_max env of
       Inl (code, message) \<Rightarrow> ScanExit code message
     | Inr maxAllowed \<Rightarrow>
         (case scan of
            ImageMissing \<Rightarrow> ScanExit 2 (''image '' @ img @ '' not found: run npm run image:build first'')
          | SaveFailed \<Rightarrow> ScanExit 1 []
          | ScannerFailed why \<Rightarrow> ScanExit 2 (''scanner failed, no verdict: '' @ why)
          | ReportUnreadable \<Rightarrow> ScanExit 1 []
          | Report results \<Rightarrow>
              (let severities = scan_severities upper env;
                   findings = count_findings severities (scan_fixable_only env) results
               in Verdict (int (length findings) \<le> maxAllowed) (length findings)
                    (map (\<lambda>s. (s, length (filter (\<lambda>x. x = s) (map snd findings)))) severities))))"

fun scan_status :: "scan_end \<Rightarrow> nat" where
  "scan_status (ScanExit code message) = code"
| "scan_status (Verdict pass found counts) = (if pass then 0 else 1)"

section \<open>The verdict counts each finding once\<close>

lemma map_set_kept: "map fst (map (\<lambda>e. if fst e = k then (k, v) else e) m) = map fst m"
  by (induction m) simp_all

lemma map_set_keys: "fst ` set (map_set k v m) = insert k (fst ` set m)"
  using arg_cong [OF map_set_kept [of k v m], of set] by (simp add: map_set_def insert_absorb del: map_map)

lemma map_set_distinct: "distinct (map fst m) \<Longrightarrow> distinct (map fst (map_set k v m))"
  using map_set_kept [of k v m] by (simp add: map_set_def del: map_map)

lemma map_set_values: "snd ` set (map_set k v m) \<subseteq> insert v (snd ` set m)"
  by (auto simp: map_set_def)

lemma count_findings_flat:
  "count_findings sev fx results = fold (\<lambda>v m. if counts_as_finding sev fx v then map_set (finding_key v) (vu_severity v) m else m) (concat results) []"
proof -
  have "fold (\<lambda>vs m. fold f vs m) rs m = fold f (concat rs) m" for f :: "vulnerability \<Rightarrow> (string \<times> string) list \<Rightarrow> (string \<times> string) list" and rs m
    by (induction rs arbitrary: m) simp_all
  then show ?thesis by (simp add: count_findings_def)
qed

lemma count_findings_spec:
  "distinct (map fst (count_findings sev fx results))
   \<and> fst ` set (count_findings sev fx results) = finding_key ` {v \<in> set (concat results). counts_as_finding sev fx v}
   \<and> snd ` set (count_findings sev fx results) \<subseteq> set sev"
proof -
  have "distinct (map fst m) \<Longrightarrow> snd ` set m \<subseteq> set sev \<Longrightarrow>
      (let m' = fold (\<lambda>v m. if counts_as_finding sev fx v then map_set (finding_key v) (vu_severity v) m else m) vs m
       in distinct (map fst m') \<and> fst ` set m' = fst ` set m \<union> finding_key ` {v \<in> set vs. counts_as_finding sev fx v} \<and> snd ` set m' \<subseteq> set sev)" for vs m
  proof (induction vs arbitrary: m)
    case (Cons v vs)
    show ?case
    proof (cases "counts_as_finding sev fx v")
      case True
      have "snd ` set (map_set (finding_key v) (vu_severity v) m) \<subseteq> set sev"
        by (rule subset_trans [OF map_set_values]) (use Cons.prems(2) True in \<open>simp add: counts_as_finding_def\<close>)
      from Cons.IH [OF map_set_distinct [OF Cons.prems(1)] this] True show ?thesis
        by (auto simp: Let_def map_set_keys)
    next
      case False
      with Cons.IH [OF Cons.prems] show ?thesis by (auto simp: Let_def)
    qed
  qed simp
  from this [of "[]" "concat results"] show ?thesis by (simp add: count_findings_flat Let_def)
qed

text \<open>
  The gate passes exactly when the report names at most \<open>SCAN_MAX\<close> different findings of the severities
  asked for, each with a fix where that is asked; the counts by severity add up to the findings when
  no severity is asked for twice, and when the scanner fails the status is 2.
\<close>

theorem gate_verdict:
  fixes upper :: "string \<Rightarrow> string"
  assumes "scan_max env = Inr m"
  defines "sev \<equiv> scan_severities upper env"
  shows "scan_status (scan_main upper env img (Report results)) = 0 \<longleftrightarrow>
      int (card (finding_key ` {v \<in> set (concat results). counts_as_finding sev (scan_fixable_only env) v})) \<le> m"
    and "distinct sev \<Longrightarrow> \<exists>pass found counts. scan_main upper env img (Report results) = Verdict pass found counts \<and> sum_list (map snd counts) = found"
    and "scan_status (scan_main upper env img (ScannerFailed why)) = 2"
proof -
  let ?f = "count_findings sev (scan_fixable_only env) results"
  note spec = count_findings_spec [of sev "scan_fixable_only env" results]
  have "length ?f = card (fst ` set ?f)" using spec by (metis distinct_card length_map list.set_map)
  then show "scan_status (scan_main upper env img (Report results)) = 0 \<longleftrightarrow>
      int (card (finding_key ` {v \<in> set (concat results). counts_as_finding sev (scan_fixable_only env) v})) \<le> m"
    using spec by (simp add: scan_main_def assms(1) sev_def Let_def)
  show "scan_status (scan_main upper env img (ScannerFailed why)) = 2" by (simp add: scan_main_def assms(1))
  have "(\<Sum>s\<leftarrow>sev. length (filter (\<lambda>x. x = s) xs)) = length xs" if "distinct sev" "set xs \<subseteq> set sev" for xs
    using that(2)
  proof (induction xs)
    case (Cons x xs)
    have "(\<Sum>s\<leftarrow>sev. length (filter (\<lambda>y. y = s) (x # xs))) = (\<Sum>s\<leftarrow>sev. (if s = x then 1 else 0) + length (filter (\<lambda>y. y = s) xs))"
      by (intro arg_cong [of _ _ sum_list] map_cong refl) auto
    also have "\<dots> = (\<Sum>s\<leftarrow>sev. if s = x then 1 else 0) + length xs" using Cons by (simp add: sum_list_addf)
    also have "(\<Sum>s\<leftarrow>sev. if s = x then 1 else 0) = (1 :: nat)"
      using that(1) Cons.prems by (simp add: sum_list_distinct_conv_sum_set)
    finally show ?case by simp
  qed simp
  from this [of "map snd ?f"] spec
  show "distinct sev \<Longrightarrow> \<exists>pass found counts. scan_main upper env img (Report results) = Verdict pass found counts \<and> sum_list (map snd counts) = found"
    by (simp add: scan_main_def assms(1) sev_def Let_def comp_def)
qed

text \<open>Without a verdict the status can still be that of a failed gate.\<close>

lemma save_failure_looks_like_findings:
  "scan_max env = Inr m \<Longrightarrow> scan_status (scan_main upper env img SaveFailed) = scan_status (Verdict False found counts)"
  by (simp add: scan_main_def)

end
