(* ===== verification/FirstOrders.thy ===== *)
theory FirstOrders
  imports PlaceOrder
begin

text \<open>
  Placing an order before there was an outbox (\<open>hw-19/src/orders/orders.service.ts\<close>,
  \<open>hw-19/src/broker/order-placed.publisher.ts\<close>, \<open>order-placed.event.ts\<close>): products are read and
  then decremented, and the event is published after the commit. It shows what the statements of
  \<open>PlaceOrder\<close> and the relay replaced: an order whose event is lost, and a sold-out product answered
  by the database's constraint.
\<close>

section \<open>The transaction\<close>

text \<open>
  \<open>findOne\<close> takes no lock. Under \<open>READ COMMITTED\<close> the row may have changed when it is decremented, so
  what is read is an argument: \<open>read s k\<close> is the row of product \<open>k\<close> as it was seen.
\<close>

definition find_product :: "db \<Rightarrow> int \<Rightarrow> product_row option" where
  "find_product s k = (case filter (\<lambda>r. pr_id r = k) (t_products s) of [] \<Rightarrow> None | p # _ \<Rightarrow> Some p)"

definition decrement_stock :: "int \<Rightarrow> int \<Rightarrow> unit stmt" where
  "decrement_stock k q s =
     (let new = map (take_stock q) (filter (\<lambda>r. pr_id r = k) (t_products s)) in
      if \<exists>r\<in>set new. \<not> int4_ok (pr_stock r) then (Inl numeric_out_of_range, s)
      else if \<exists>r\<in>set new. pr_stock r < 0 then (Inl check_violation, s)
      else (Inr (), s\<lparr>t_products := map (\<lambda>r. if pr_id r = k then take_stock q r else r) (t_products s)\<rparr>))"

definition first_claim :: "(db \<Rightarrow> int \<Rightarrow> product_row option) \<Rightarrow> order_item_input \<Rightarrow> placed_line stmt" where
  "first_claim read i s = (case read s (it_product_id i) of
       None \<Rightarrow> (Inl (NotFoundException (''Product '' @ show_int (it_product_id i) @ '' not found'')), s)
     | Some p \<Rightarrow>
         if pr_stock p < it_quantity i
         then (Inl (BadRequestException (''Insufficient stock for product '' @ show_int (it_product_id i))), s)
         else db_bind (decrement_stock (pr_id p) (it_quantity i)) (\<lambda>_. db_return
                \<lparr>pl_product_id = pr_id p, pl_quantity = it_quantity i, pl_unit_price_cents = pr_price_cents p,
                 pl_line_total_cents = pr_price_cents p * it_quantity i\<rparr>) s)"

fun first_claims :: "(db \<Rightarrow> int \<Rightarrow> product_row option) \<Rightarrow> order_item_input list \<Rightarrow> placed_line list stmt" where
  "first_claims read [] = db_return []"
| "first_claims read (i # is) = db_bind (first_claim read i) (\<lambda>l. db_bind (first_claims read is) (\<lambda>ls. db_return (l # ls)))"

definition first_create_tx ::
  "(db \<Rightarrow> int \<Rightarrow> product_row option) \<Rightarrow> int \<Rightarrow> order_item_input list \<Rightarrow> string \<Rightarrow> string \<Rightarrow> placed_order stmt" where
  "first_create_tx read now items userId shippingCountry =
     db_bind (first_claims read items) (\<lambda>lines.
     let totalCents = foldl (\<lambda>sum l. sum + pl_line_total_cents l) 0 lines in
     db_bind (insert_order_row now userId totalCents shippingCountry) (\<lambda>saved.
     db_bind (insert_items (or_id saved) lines) (\<lambda>_.
     db_return \<lparr>po_order_id = or_id saved, po_user_id = userId, po_total_cents = totalCents,
       po_shipping_country = shippingCountry, po_created_at = now, po_items = lines\<rparr>)))"

section \<open>The event\<close>

definition orderPlacedEvent :: "int \<Rightarrow> string \<Rightarrow> string \<Rightarrow> int \<Rightarrow> jsval" where
  "orderPlacedEvent now orderId userId totalCents = JObj [
     (''eventId'', JStr (''order.placed:'' @ orderId)),
     (''type'', JStr ''order.placed''),
     (''occurredAt'', JStr (js_toISOString now)),
     (''data'', JObj [(''orderId'', JStr orderId), (''userId'', JStr userId), (''totalCents'', js_of_int totalCents)])]"

text \<open>
  What becomes of a message: confirmed, never sent, or sent with the confirm lost. Without a broker
  in the environment nothing is sent and nothing said.
\<close>

datatype publish_end = Confirmed | NotSent exn | ConfirmLost exn

definition first_publish :: "bool \<Rightarrow> publish_end \<Rightarrow> jsval \<Rightarrow> jsval list \<Rightarrow> (exn + unit) \<times> jsval list" where
  "first_publish configured outcome event sent =
     (if \<not> configured then (Inr (), sent)
      else case outcome of
          Confirmed \<Rightarrow> (Inr (), sent @ [event])
        | NotSent e \<Rightarrow> (Inl e, sent)
        | ConfirmLost e \<Rightarrow> (Inl e, sent @ [event]))"

text \<open>The transaction, and after its commit the message; the state is the database and what was sent.\<close>

definition first_create ::
  "bool \<Rightarrow> publish_end \<Rightarrow> (db \<Rightarrow> int \<Rightarrow> product_row option) \<Rightarrow> int \<Rightarrow> order_item_input list \<Rightarrow> string \<Rightarrow> string
     \<Rightarrow> db \<times> jsval list \<Rightarrow> (exn + placed_order) \<times> db \<times> jsval list" where
  "first_create configured outcome read now items userId shippingCountry st =
     (case transaction (first_create_tx read now items userId shippingCountry) (fst st) of
        (Inl e, s') \<Rightarrow> (Inl e, s', snd st)
      | (Inr created, s') \<Rightarrow>
          (case first_publish configured outcome
              (orderPlacedEvent now (show_int (po_order_id created)) userId (po_total_cents created)) (snd st) of
             (Inl e, sent) \<Rightarrow> (Inl e, s', sent)
           | (Inr _, sent) \<Rightarrow> (Inr created, s', sent)))"

section \<open>What the database still guarantees\<close>

lemma decrement_stock_keeps [keeps]: "stmt_keeps shop_ok (decrement_stock k q)"
proof (rule stmt_keepsI)
  fix s r s'
  assume ok: "shop_ok s" and d: "decrement_stock k q s = (Inr r, s')"
  have s': "s' = s\<lparr>t_products := map (\<lambda>r. if pr_id r = k then take_stock q r else r) (t_products s)\<rparr>"
    and new: "\<And>r. r \<in> set (t_products s) \<Longrightarrow> pr_id r = k \<Longrightarrow> int4_ok (pr_stock r - q) \<and> 0 \<le> pr_stock r - q"
    using d by (auto simp: decrement_stock_def Let_def take_stock_def split: if_splits)
  show "shop_ok s'"
    unfolding s' by (rule shop_ok_map_products [OF ok])
      (use new in \<open>auto simp: take_stock_def product_check_def\<close>)
qed

lemma decrement_stock_seqs [keeps]: "seqs_grow (decrement_stock k q)"
  by (rule seqs_growI) (auto simp: decrement_stock_def Let_def split: if_splits)

lemma first_claim_keeps [keeps]: "stmt_keeps shop_ok (first_claim read i)"
proof (rule stmt_keepsI)
  fix s l s'
  assume "shop_ok s" "first_claim read i s = (Inr l, s')"
  then show "shop_ok s'"
    using stmt_keepsD [OF decrement_stock_keeps]
    by (auto simp: first_claim_def db_return_def split: option.splits if_splits elim!: db_bind_InrE)
qed

lemma first_claim_seqs [keeps]: "seqs_grow (first_claim read i)"
proof (rule seqs_growI)
  fix s r s'
  assume c: "first_claim read i s = (r, s')"
  have "seqs_grow (db_bind (decrement_stock k q) (\<lambda>_. db_return x))" for k q and x :: placed_line by (intro keeps)
  then show "seqs_le (sequences s) (sequences s')"
    using c by (auto simp: first_claim_def split: option.splits if_splits dest: seqs_growD)
qed

lemma first_claims_keeps [keeps]: "stmt_keeps shop_ok (first_claims read is)"
  by (induction "is") (auto intro!: keeps)

lemma first_claims_seqs [keeps]: "seqs_grow (first_claims read is)"
  by (induction "is") (auto intro!: keeps)

lemma first_create_tx_keeps: "stmt_keeps shop_ok (first_create_tx read now items u c)"
  unfolding first_create_tx_def Let_def by (intro keeps)

lemma first_create_tx_seqs: "seqs_grow (first_create_tx read now items u c)"
  unfolding first_create_tx_def Let_def by (intro keeps)

text \<open>
  Whatever was read, the tables keep their integrity; in particular no stock becomes negative,
  which here is the work of the constraint alone.
\<close>

theorem first_create_keeps:
  assumes "shop_ok s" and "first_create configured outcome read now items userId country (s, sent) = (r, s', sent')"
  shows "shop_ok s'"
proof -
  obtain x t where tx: "transaction (first_create_tx read now items userId country) s = (x, t)" by (rule prod.exhaust)
  have "shop_ok t" by (rule shop.transaction_keeps [OF first_create_tx_keeps first_create_tx_seqs assms(1) tx])
  moreover have "s' = t" using assms(2) tx by (auto simp: first_create_def split: sum.splits prod.splits)
  ultimately show ?thesis by simp
qed

section \<open>What it does not\<close>

text \<open>
  A product sold out between the read and the decrement: the request fails with the constraint's
  error 23514, a 500 for the client, where \<open>claim_item\<close> of \<open>PlaceOrder\<close> answers 400.
\<close>

theorem first_claim_races:
  assumes "shop_ok s" and "p \<in> set (t_products s)" and "pr_id p = it_product_id i" and "pr_is_active p"
    and "pr_stock p < it_quantity i" and "it_quantity i \<le> 100"
    and "read s (it_product_id i) = Some (p\<lparr>pr_stock := seen\<rparr>)" and "it_quantity i \<le> seen"
    and "int8_ok (it_product_id i)"
  shows "first_claim read i s = (Inl check_violation, s)"
    and "fst (claim_item i s) = Inl (BadRequestException (''Insufficient stock for product '' @ show_int (it_product_id i)))"
proof -
  have d: "distinct (map pr_id (t_products s))" and pos: "0 \<le> pr_stock p"
    using assms(1,2) by (auto simp: shop_ok_defs list_all_iff product_check_def)
  have only: "filter (\<lambda>r. pr_id r = it_product_id i) (t_products s) = [p]"
    using filter_key_single [OF d assms(2)] assms(3) by simp
  have "int4_ok (pr_stock p - it_quantity i)" using pos assms(5,6) by (simp add: int4_ok_def)
  then show "first_claim read i s = (Inl check_violation, s)"
    using assms(3,5,7,8) by (simp add: first_claim_def decrement_stock_def db_bind_def only take_stock_def Let_def)
  have "\<not> stock_match (it_quantity i) (it_product_id i) r" if "r \<in> set (t_products s)" for r
    using distinct_map_unique [OF d that assms(2)] assms(3,5) by (auto simp: stock_match_def)
  then have none: "filter (stock_match (it_quantity i) (it_product_id i)) (t_products s) = []" by (simp add: filter_empty_conv)
  have "active_product_exists (it_product_id i) t" if "t_products t = t_products s" for t
    using that assms(2,3,4) by (auto simp: active_product_exists_def)
  moreover have "int4_ok (it_quantity i)" using pos assms(5,6) by (simp add: int4_ok_def)
  moreover have "map (\<lambda>r. if stock_match (it_quantity i) (it_product_id i) r then take_stock (it_quantity i) r else r) (t_products s) = t_products s"
    using none by (intro map_idI) (simp add: filter_empty_conv)
  ultimately show "fst (claim_item i s) = Inl (BadRequestException (''Insufficient stock for product '' @ show_int (it_product_id i)))"
    using assms(9) by (simp add: claim_item_def update_stock_def db_bind_def none)
qed

text \<open>
  The event can be lost: when the broker cannot be reached after the commit, the client is told of
  an error, the order is there all the same, and no message tells of it.
\<close>

theorem first_event_lost:
  assumes "transaction (first_create_tx read now items userId country) s = (Inr created, s')"
  shows "first_create True (NotSent e) read now items userId country (s, sent) = (Inl e, s', sent)"
    and "first_create False outcome read now items userId country (s, sent) = (Inr created, s', sent)"
    and "\<exists>row\<in>set (t_orders s'). or_id row = po_order_id created"
proof -
  show "first_create True (NotSent e) read now items userId country (s, sent) = (Inl e, s', sent)"
    "first_create False outcome read now items userId country (s, sent) = (Inr created, s', sent)"
    using assms by (simp_all add: first_create_def first_publish_def)
  obtain lines s1 row s2 where o: "insert_order_row now userId (foldl (\<lambda>sum l. sum + pl_line_total_cents l) 0 lines) country s1 = (Inr row, s2)"
    and i: "insert_items (or_id row) lines s2 = (Inr (), s')" and created: "po_order_id created = or_id row"
    using transaction_InrD [OF assms] by (auto simp: first_create_tx_def Let_def db_return_def elim!: db_bind_InrE)
  have "t_orders t' = t_orders t" if "insert_items oid ls t = (Inr (), t')" for oid ls t t'
    using that by (induction ls arbitrary: t) (auto simp: db_return_def insert_item_row_Inr(5) elim!: db_bind_InrE dest!: insert_item_row_Inr(5))
  with i have "t_orders s' = t_orders s2" by simp
  then show "\<exists>row\<in>set (t_orders s'). or_id row = po_order_id created"
    using insert_order_row_Inr(6) [OF o] created by simp
qed

end
