(* ===== verification/FirstServer.thy ===== *)
theory FirstServer
  imports Prelude
begin

text \<open>
  The first server with a database (\<open>hw-05/src/index.js\<close>): a table that is created and filled when it
  is not there, a start that waits for the database, two routes. Whether a statement reaches the
  database is an argument.
\<close>

section \<open>The database\<close>

record first_user =
  fu_id :: int
  fu_name :: string

text \<open>The table, once it is there, and the next value of its \<open>SERIAL\<close> column.\<close>

record first_db =
  fd_users :: "first_user list option"
  fd_next :: int

definition create_users :: "first_db \<Rightarrow> first_db" where
  "create_users s = (case fd_users s of None \<Rightarrow> s\<lparr>fd_users := Some []\<rparr> | Some _ \<Rightarrow> s)"

definition insert_first_user :: "string \<Rightarrow> first_db \<Rightarrow> first_db" where
  "insert_first_user name s = s\<lparr>fd_users := map_option (\<lambda>rows. rows @ [\<lparr>fu_id = fd_next s, fu_name = name\<rparr>]) (fd_users s),
     fd_next := fd_next s + 1\<rparr>"

text \<open>The statements of \<open>initDb\<close>; \<open>up k\<close> says that its \<open>k\<close>-th statement reaches the database.\<close>

definition initDb :: "(nat \<Rightarrow> exn option) \<Rightarrow> first_db \<Rightarrow> (exn + unit) \<times> first_db" where
  "initDb fails s = (case fails 0 of
       Some e \<Rightarrow> (Inl e, s)
     | None \<Rightarrow>
         (let s1 = create_users s in case fails 1 of
            Some e \<Rightarrow> (Inl e, s1)
          | None \<Rightarrow>
              if fd_users s1 = Some [] then
                (case fails 2 of
                   Some e \<Rightarrow> (Inl e, s1)
                 | None \<Rightarrow> (Inr (), insert_first_user ''Bob'' (insert_first_user ''Alice'' s1)))
              else (Inr (), s1)))"

section \<open>The start\<close>

text \<open>
  The loop of \<open>waitForDb\<close> at an attempt, counted from 1; \<open>fails a\<close> is what attempt \<open>a\<close> meets. Besides
  the result it gives the number of attempts made.
\<close>

function wait_from :: "nat \<Rightarrow> nat \<Rightarrow> (nat \<Rightarrow> nat \<Rightarrow> exn option) \<Rightarrow> first_db \<Rightarrow> (exn + unit) \<times> nat \<times> first_db" where
  "wait_from attempt retries fails s =
     (if retries < attempt then (Inr (), attempt - 1, s)
      else case initDb (fails attempt) s of
          (Inr _, s') \<Rightarrow> (Inr (), attempt, s')
        | (Inl e, s') \<Rightarrow> if attempt = retries then (Inl e, attempt, s') else wait_from (attempt + 1) retries fails s')"
  by pat_completeness auto
termination
  by (relation "measure (\<lambda>(attempt, retries, _). Suc retries - attempt)") auto

declare wait_from.simps [simp del]

definition waitForDb :: "nat \<Rightarrow> (nat \<Rightarrow> nat \<Rightarrow> exn option) \<Rightarrow> first_db \<Rightarrow> (exn + unit) \<times> nat \<times> first_db" where
  "waitForDb retries fails s = wait_from 1 retries fails s"

datatype first_start = Listening first_db | ExitOne first_db

definition first_main :: "(nat \<Rightarrow> nat \<Rightarrow> exn option) \<Rightarrow> first_db \<Rightarrow> first_start" where
  "first_main fails s = (case waitForDb 30 fails s of (Inr _, _, s') \<Rightarrow> Listening s' | (Inl _, _, s') \<Rightarrow> ExitOne s')"

section \<open>The routes\<close>

datatype first_answer = Text nat string | Users "first_user list" | JsonError nat string

definition get_health :: "exn option \<Rightarrow> first_answer" where
  "get_health failed = (if failed = None then Text 200 ''ok'' else Text 503 ''db unavailable'')"

definition get_users :: "exn option \<Rightarrow> first_db \<Rightarrow> first_answer" where
  "get_users failed s = (case (failed, fd_users s) of
       (None, Some rows) \<Rightarrow> Users (sort_key fu_id rows)
     | _ \<Rightarrow> JsonError 500 ''failed to load users'')"

section \<open>What the start promises\<close>

definition filled :: "first_db \<Rightarrow> bool" where
  "filled s \<longleftrightarrow> (\<exists>r rs. fd_users s = Some (r # rs))"

lemma initDb_Inr: "initDb fails s = (Inr (), s') \<Longrightarrow> filled s' \<and> (filled s \<longrightarrow> s' = s)"
  by (auto simp: initDb_def create_users_def insert_first_user_def filled_def neq_Nil_conv Let_def split: option.splits if_splits)

text \<open>A row is never lost, and the two rows are inserted together or not at all.\<close>

lemma initDb_users:
  assumes "initDb fails s = (r, s')"
  shows "fd_users s' = fd_users s \<or> (fd_users s = None \<and> fd_users s' = Some [])
    \<or> (fd_users s \<in> {None, Some []} \<and> fd_users s' = Some [\<lparr>fu_id = fd_next s, fu_name = ''Alice''\<rparr>, \<lparr>fu_id = fd_next s + 1, fu_name = ''Bob''\<rparr>])"
  using assms
  by (auto simp: initDb_def create_users_def insert_first_user_def Let_def split: option.splits if_splits)

lemma wait_from_result:
  assumes "wait_from attempt retries fails s = (r, made, s')" "attempt \<le> retries"
  shows "attempt \<le> made \<and> made \<le> retries \<and> (r = Inr () \<longrightarrow> filled s')
    \<and> (\<forall>e. r = Inl e \<longrightarrow> made = retries) \<and> (filled s \<longrightarrow> s' = s)"
  using assms
proof (induction attempt retries fails s rule: wait_from.induct)
  case (1 attempt retries fails s)
  obtain q t where q: "initDb (fails attempt) s = (q, t)" by (cases "initDb (fails attempt) s")
  have kept: "filled s \<Longrightarrow> t = s"
    using q by (auto simp: initDb_def create_users_def filled_def Let_def split: option.splits)
  show ?case
  proof (cases q)
    case (Inr u)
    with 1(2,3) q initDb_Inr [of "fails attempt" s t] show ?thesis by (auto simp: wait_from.simps [of attempt])
  next
    case (Inl e)
    show ?thesis
    proof (cases "attempt = retries")
      case True
      with 1(2,3) q Inl kept show ?thesis by (auto simp: wait_from.simps [of retries retries])
    next
      case False
      then have "wait_from (attempt + 1) retries fails t = (r, made, s')" "attempt + 1 \<le> retries"
        using 1(2,3) q Inl by (simp_all add: wait_from.simps [of attempt])
      from 1(1) [OF _ q [symmetric] Inl False this] 1(3) kept show ?thesis by auto
    qed
  qed
qed

text \<open>
  The server listens only on a table that has rows, after at most thirty attempts; a table that had
  rows is left as it is, and a start that gives up has made all thirty.
\<close>

theorem start_is_safe:
  "case waitForDb 30 fails s of (r, made, s') \<Rightarrow>
     1 \<le> made \<and> made \<le> 30 \<and> (r = Inr () \<longrightarrow> filled s') \<and> (\<forall>e. r = Inl e \<longrightarrow> made = 30) \<and> (filled s \<longrightarrow> s' = s)"
proof -
  obtain r made s' where w: "waitForDb 30 fails s = (r, made, s')" by (cases "waitForDb 30 fails s")
  then show ?thesis using wait_from_result [of 1 30 fails s r made s'] by (simp add: waitForDb_def)
qed

end
