(* ===== verification/EnvExample.thy ===== *)
theory EnvExample
  imports JsValues "HOL-Library.List_Lexorder" "HOL-Library.Char_ord"
begin

text \<open>
  The check of an environment example against its schema (\<open>hw-11/scripts/check-env-example.mjs\<close>). The
  names of the schema's variables are an argument.
\<close>

section \<open>A line\<close>

definition LF :: char where "LF = CHR 0x0A"
definition CR :: char where "CR = CHR 0x0D"

definition drop_cr :: "string \<Rightarrow> string" where
  "drop_cr l = (if l \<noteq> [] \<and> last l = CR then butlast l else l)"

definition split_lines :: "string \<Rightarrow> string list" where
  "split_lines contents = (let ls = js_split LF contents in map drop_cr (butlast ls) @ [last ls])"

definition is_upper_letter :: "char \<Rightarrow> bool" where
  "is_upper_letter c \<longleftrightarrow> 65 \<le> (of_char c :: nat) \<and> (of_char c :: nat) \<le> 90"

text \<open>\<open>/^([A-Z][A-Z0-9_]*)=(.*)$/\<close>; a dot does not match the end of a line.\<close>

definition match_entry :: "string \<Rightarrow> string option" where
  "match_entry line =
     (let key = takeWhile (\<lambda>c. is_upper_letter c \<or> is_digit c \<or> c = CHR ''_'') line;
          rest = drop (length key) line
      in if key \<noteq> [] \<and> is_upper_letter (hd key) \<and> rest \<noteq> [] \<and> hd rest = CHR ''=''
            \<and> list_all (\<lambda>c. c \<noteq> LF \<and> c \<noteq> CR) (tl rest)
         then Some key else None)"

section \<open>The loop over the lines\<close>

record example_scan =
  ex_errors :: "string list"
  ex_keys :: "string list"
  ex_comment :: bool

definition at_line :: "nat \<Rightarrow> string \<Rightarrow> string" where
  "at_line index message = ''line '' @ show_nat (index + 1) @ '': '' @ message"

definition scan_line :: "nat \<times> string \<Rightarrow> example_scan \<Rightarrow> example_scan" where
  "scan_line = (\<lambda>(index, rawLine) st.
     let line = js_trim rawLine in
     if line = [] then st
     else if js_startsWith ''#'' line then st\<lparr>ex_comment := True\<rparr>
     else case match_entry line of
         None \<Rightarrow> st\<lparr>ex_errors := ex_errors st @ [at_line index ''expected KEY=value or a comment''], ex_comment := False\<rparr>
       | Some key \<Rightarrow>
           \<lparr>ex_errors = ex_errors st
              @ (if \<not> ex_comment st then [at_line index (key @ '' must have a preceding comment'')] else [])
              @ (if key \<in> set (ex_keys st) then [at_line index (''duplicate variable '' @ key)] else []),
            ex_keys = ex_keys st @ [key], ex_comment = False\<rparr>)"

definition scan_lines :: "(nat \<times> string) list \<Rightarrow> example_scan \<Rightarrow> example_scan" where
  "scan_lines ls st = fold scan_line ls st"

definition check_example :: "string list \<Rightarrow> string \<Rightarrow> string list" where
  "check_example schema contents =
     (let st = scan_lines (enumerate 0 (split_lines contents)) \<lparr>ex_errors = [], ex_keys = [], ex_comment = False\<rparr>;
          expected = sort schema;
          actual = sort (remdups (ex_keys st));
          missing = filter (\<lambda>k. k \<notin> set actual) expected;
          extra = filter (\<lambda>k. k \<notin> set expected) actual
      in ex_errors st
         @ (if missing \<noteq> [] then [''missing variables: '' @ js_join '', '' missing] else [])
         @ (if extra \<noteq> [] then [''unknown variables: '' @ js_join '', '' extra] else []))"

section \<open>What an example without errors is\<close>

text \<open>A line that is not blank is a comment, an entry or neither.\<close>

datatype line_kind = Comment | Entry string | Neither

definition kind_of :: "string \<Rightarrow> line_kind" where
  "kind_of line = (if js_startsWith ''#'' line then Comment else case match_entry line of Some k \<Rightarrow> Entry k | None \<Rightarrow> Neither)"

definition kinds :: "string list \<Rightarrow> line_kind list" where
  "kinds ls = map kind_of (filter (\<lambda>l. l \<noteq> []) (map js_trim ls))"

fun entry_keys :: "line_kind list \<Rightarrow> string list" where
  "entry_keys [] = []"
| "entry_keys (Entry k # ks) = k # entry_keys ks"
| "entry_keys (_ # ks) = entry_keys ks"

text \<open>Every entry comes straight after a comment, and nothing is neither.\<close>

fun entries_commented :: "bool \<Rightarrow> line_kind list \<Rightarrow> bool" where
  "entries_commented c [] = True"
| "entries_commented c (Comment # ks) = entries_commented True ks"
| "entries_commented c (Entry k # ks) = (c \<and> entries_commented False ks)"
| "entries_commented c (Neither # ks) = False"

lemma scan_lines_spec:
  "ex_keys (scan_lines ls st) = ex_keys st @ entry_keys (kinds (map snd ls))
   \<and> (ex_errors (scan_lines ls st) = [] \<longleftrightarrow> ex_errors st = [] \<and> entries_commented (ex_comment st) (kinds (map snd ls))
       \<and> distinct (entry_keys (kinds (map snd ls))) \<and> set (ex_keys st) \<inter> set (entry_keys (kinds (map snd ls))) = {})"
proof (induction ls arbitrary: st)
  case (Cons l ls)
  obtain n raw where l: "l = (n, raw)" by (cases l)
  show ?case
    using Cons.IH [of "scan_line l st"]
    by (auto simp: scan_lines_def scan_line_def l kinds_def kind_of_def Let_def split: option.splits)
qed (simp add: scan_lines_def kinds_def)

lemma map_snd_enumerate: "map snd (enumerate n xs) = xs"
  by (simp add: enumerate_eq_zip)

text \<open>
  The check is silent exactly on the files whose lines are blank, comments, or entries each straight
  after a comment, that name every variable of the schema once and no other.
\<close>

theorem example_in_sync:
  "check_example schema contents = [] \<longleftrightarrow>
     entries_commented False (kinds (split_lines contents))
     \<and> distinct (entry_keys (kinds (split_lines contents)))
     \<and> set (entry_keys (kinds (split_lines contents))) = set schema"
proof -
  let ?st = "scan_lines (enumerate 0 (split_lines contents)) \<lparr>ex_errors = [], ex_keys = [], ex_comment = False\<rparr>"
  have keys: "ex_keys ?st = entry_keys (kinds (split_lines contents))"
    and errors: "ex_errors ?st = [] \<longleftrightarrow> entries_commented False (kinds (split_lines contents)) \<and> distinct (entry_keys (kinds (split_lines contents)))"
    using scan_lines_spec [of "enumerate 0 (split_lines contents)" "\<lparr>ex_errors = [], ex_keys = [], ex_comment = False\<rparr>"]
    by (simp_all add: map_snd_enumerate)
  have "check_example schema contents = [] \<longleftrightarrow> ex_errors ?st = []
      \<and> set schema \<subseteq> set (entry_keys (kinds (split_lines contents))) \<and> set (entry_keys (kinds (split_lines contents))) \<subseteq> set schema"
    by (auto simp: check_example_def Let_def keys filter_empty_conv)
  then show ?thesis using errors by auto
qed

end
