(* ===== verification/Spec2Isabelle.thy ===== *)
theory Spec2Isabelle
  imports PlaceOrderProps AuthRuns OrdersProps RelayProps ConsumerProps Retention Checkout Workers
    Retry FilesProps EdgeProps RateLimit SingleFlightProps SessionProps ProductsProps Infra Jobs SchemaMatch
    Pipeline RelayMain RawHttp ContractApi FirstConsumer
    Api Seed Race LostUpdate Report QueryCounts Keyless WorkersDemo ScanGate
    FirstOrders FirstServer EnvExample
begin

text \<open>
  A verification development for the marketplace backend: a Nest service over PostgreSQL, RabbitMQ,
  two Redis instances and an S3 store, with its workers, its edge cache and its deployment. It
  models the current program, \<open>src/src\<close> and \<open>src/infra\<close>.

  \<^bold>\<open>The program and its parts.\<close>
  \<^item> An order is placed in one transaction that takes the stock, writes the order and its lines,
    claims the idempotency key and stores an event in the outbox. A relay publishes outbox rows to
    the broker with publisher confirms, a consumer applies each event once through an inbox table
    and enqueues a receipt job; retention sweeps delete what is old.
  \<^item> Requests are authenticated by short-lived access tokens and rotating refresh tokens; a second
    kind of session lives in Redis behind a cookie. Redis also holds the rate limit and the cache of
    product cards with its single-flight lock.
  \<^item> Files are uploaded to S3 by presigned requests under a contract of intent, resume, commit and
    download; an orphan sweep removes what was never committed; an edge cache serves assets.
  \<^item> The pods, their probes and their shutdown, the migrations and the Pulumi stack deploy all this.

  \<^bold>\<open>Where things are.\<close> Each theory models the files it names in its opening text; definitions carry
  the names of the source, in its order.
  \<^item> \<open>Prelude\<close> (exceptions and results, lists as tables, the locale of step machines), \<open>JsValues\<close>
    (numbers with NaN and infinities, JSON, \<open>Number\<close>, \<open>String\<close>, string methods, SQL's integer input),
    \<open>Schema\<close> (one record per entity of \<open>src/entities\<close>, row checks, tables, statements,
    transactions with rollback, \<open>db-result.ts\<close>), \<open>Ddl\<close> and \<open>Migrations\<close> (SQL's data definition, every
    migration up and down, the entities' declarations with their generated ids, which TypeORM counts by
    a sequence of the column where the migrations declare an identity), \<open>SchemaMatch\<close> (they agree with
    each other but for that, and with \<open>Schema\<close>).
  \<^item> Orders: \<open>OutboxEvent\<close> (\<open>outbox/order-placed.event.ts\<close>, \<open>errors.ts\<close>), \<open>PlaceOrder\<close>
    (\<open>orders/place-order.ts\<close>), \<open>PlaceOrderFacts\<close> and \<open>PlaceOrderProps\<close>; \<open>OrderEvents\<close>
    (\<open>order-events.service.ts\<close>, server-sent events), \<open>OrdersService\<close> and \<open>OrdersProps\<close> (service, controller,
    gateway); \<open>Checkout\<close>, \<open>Retry\<close>, \<open>Workers\<close> (\<open>checkout/*\<close>, \<open>retry.ts\<close>, \<open>workers.ts\<close>).
  \<^item> Products: \<open>Paging\<close> (keyset paging as a locale), \<open>Products\<close> and \<open>ProductsProps\<close> (\<open>products/*\<close>).
  \<^item> Messages: \<open>Relay\<close>, \<open>RelayProps\<close> (\<open>outbox/relay.ts\<close>), \<open>Broker\<close> (\<open>broker/*\<close>), \<open>Consumer\<close>,
    \<open>ConsumerProps\<close> (\<open>outbox/consumer.ts\<close>), \<open>RelayMain\<close> (\<open>outbox/relay-main.ts\<close>), \<open>Jobs\<close> (\<open>queue/*\<close>, \<open>outbox/consumer-main.ts\<close>),
    \<open>Retention\<close> (\<open>outbox/retention.ts\<close>); \<open>Pipeline\<close> composes order, relay, topology and consumer.
  \<^item> Identity: \<open>AuthTokens\<close>, \<open>AuthService\<close>, \<open>AuthProps\<close>, \<open>AuthRuns\<close> (\<open>auth/*\<close>); \<open>Redis\<close> (keys that
    expire, commands that may be lost), \<open>Session\<close>, \<open>SessionProps\<close> (\<open>session/*\<close>), \<open>RateLimit\<close>
    (\<open>rate-limit/*\<close>), \<open>SingleFlight\<close>, \<open>SingleFlightProps\<close> (\<open>redis/lock.ts\<close>, \<open>single-flight-cache.ts\<close>).
  \<^item> Files: \<open>FilePolicy\<close>, \<open>Storage\<close>, \<open>Files\<close>, \<open>Orphans\<close>, \<open>FilesProps\<close> (\<open>files/*\<close>, \<open>storage/storage.ts\<close>),
    \<open>Edge\<close>, \<open>EdgeProps\<close> (\<open>cdn/*\<close>).
  \<^item> The whole shop: \<open>Api\<close> takes a request through the guards, the pipes of \<open>configure-app.ts\<close> and its
    handler, with the event stream and the socket (\<open>auth.controller.ts\<close>, \<open>orders.controller.ts\<close>,
    \<open>orders.gateway.ts\<close>, \<open>products.controller.ts\<close>). The routes of product cards, sessions and files,
    which answer with no order, are in the theories of their parts.
  \<^item> Scripts: \<open>Seed\<close> (\<open>seed.ts\<close>, upserts as a locale of tables that settle), \<open>Race\<close> (\<open>demo-race.ts\<close>, fifty
    checkouts of ten units), \<open>LostUpdate\<close> (\<open>demo-retry.ts\<close>, debits under snapshot isolation), \<open>Report\<close>
    (\<open>report.ts\<close>), \<open>QueryCounts\<close> (\<open>demo-nplus1.ts\<close> and the query loggers), \<open>Keyless\<close>
    (\<open>demos/keyless-parts.ts\<close>, an uploader that is killed and started again), \<open>WorkersDemo\<close>
    (\<open>demo-workers.ts\<close>), \<open>ScanGate\<close> (\<open>scripts/scan.mjs\<close>, the vulnerability gate).
  \<^item> Deployment: \<open>Settings\<close> (every reader of the environment, \<open>main.ts\<close>, \<open>app.module.ts\<close>),
    \<open>Lifecycle\<close> (\<open>k8s/*\<close>), \<open>Infra\<close> (\<open>src/infra\<close>).
  \<^item> Earlier programs the service grew from: \<open>FirstServer\<close> (\<open>hw-05\<close>, waiting for the database),
    \<open>EnvExample\<close> (\<open>hw-11\<close>, an environment example against its schema), \<open>FirstOrders\<close> (\<open>hw-19\<close>, orders
    without an outbox: what the transaction and the relay replaced), \<open>RawHttp\<close> (\<open>hw-03\<close>, a request out of the chunks of a
    socket), \<open>StableJson\<close> and \<open>ContractApi\<close> (\<open>hw-09\<close>, fingerprints, cursors and orders under a key),
    \<open>FirstConsumer\<close> (\<open>hw-19\<close>, the effect of an event and its counters).

  \<^bold>\<open>How the code is modelled.\<close>
  \<^item> State is passed explicitly. A function that may throw returns \<open>exn + 'a\<close>, every \<open>throw\<close>, early
    return and driver error being a branch; a function that may not return gives an option.
  \<^item> An SQL statement, a Lua script or a Redis command is a definition on the modelled tables and
    keys. Identity columns draw from sequences that a rollback does not give back. Numbers of the
    database keep their widths: a value outside \<open>integer\<close> or \<open>bigint\<close> is error 22003.
  \<^item> What is not under \<open>src/\<close> is a parameter: \<open>node:crypto\<close>, \<open>JSON.parse\<close>, the JWT library, S3 and its
    signer, the broker's confirms, BullMQ's queue, random numbers and ids, clocks. A theorem that
    relies on such code names the law it uses as a hypothesis, and its witness instantiates it.
  \<^item> Concurrency is interleaving: of transactions at their locks (\<open>PlaceOrder\<close>, \<open>Checkout\<close>,
    \<open>Workers\<close>, \<open>Relay\<close>), of awaits (\<open>SingleFlight\<close>, \<open>Edge\<close>), of a pod's two threads of control
    (\<open>Lifecycle\<close>, an inductive relation). Strings are lists of characters below 256.

  \<^bold>\<open>Interfaces.\<close> \<open>step_machine\<close> (a step that keeps an invariant keeps it along every run), \<open>db_invariant\<close>
  (an integrity property of the tables under transactions), \<open>keyset_paging\<close> (what a list endpoint
  promises about one page, from which the whole walk is complete), \<open>expiring_store\<close> (keys with
  deadlines) and \<open>seeded_table\<close> (what an upsert's columns are to its table, so that a second run
  changes nothing) are locales; each is interpreted on the definitions of the components that provide it.

  \<^bold>\<open>What is shown.\<close> The properties are numbered C1 to C40 where they stand. For orders: acceptance
  exactly on the orderable inputs, which product a refusal names and that what was claimed is given
  back, conservation of stock, replay, one order per key. For tokens: rotation, one live token per family, finality of a logout and of a theft. For
  messages: nothing is marked that was not sent, every event is confirmed once and marked with it,
  queues drain, every message is acknowledged or dead-lettered, and along the whole way exactly the
  orders placed are confirmed. For files: what a commit verified and that it lasts. For the edge:
  every request has its own answer, a hit is fresh. For Redis: the scripts refine their
  specifications. For the shop as a whole: nobody reads or changes the orders of another, however
  requests follow each other. For the scripts: seeding settles the tables, the race
  sells exactly the stock in every order of its locks, no debit is lost in any interleaving, and a
  killed uploader's parts are the file. For the deployment: the schema, the configuration, the probes and
  the manifests fit together. For the earlier programs: chunks do not matter to a request, and
  fingerprints are equality of bodies. Lemmas around them give the exact effect of single operations.

  \<^bold>\<open>Bounds and fuel.\<close> Loops are structural or carry a measure. Only a client's walk along a list's
  cursors uses fuel: one page more than there are rows, shown to be enough. The pages of S3's
  listings and the batches of the retention sweep are partial functions, shown to return; the
  relay's drain takes what its environment does pass by pass: it is shown to return or throw by the
  deadline, and, with a broker that answers, after at most one pass more than the attempts its rows
  have left. The worker pool ends within a bound on its events, those that change nothing counted.

  \<^bold>\<open>Not modelled.\<close> Opening and closing connections, logging, Nest's wiring and validation pipes beyond
  the checks the handlers rely on, process mains apart from their decisions; the demos but for those
  named above, the load scripts and tests, which drive the program; the delays of retries and polls; the directories \<open>hw-03\<close> to \<open>hw-26\<close>,
  earlier states of the same service, but for those named above. Transactions that touch the same
  rows are taken one after the other where the code locks no row (a refresh beside a logout), an
  order's status is read and written in one step, and a commit whose answer is lost is an event of
  the consumer only. A catalog of the schema has no rows, so that a migration's
  backfill is not seen.
\<close>

end
